(* ===== verification/Py_Prelude.thy ===== *)
theory Py_Prelude
  imports Main "HOL-Library.AList" "HOL-Library.List_Lexorder" "HOL-Library.Char_ord"
    "HOL-Library.Product_Lexorder"
begin

text \<open>
  Shared vocabulary of the development: the part of Python and of its standard library that the
  modelled sources use, as HOL functions.

  \<^item> \<open>json\<close> is what \<^verbatim>\<open>json.loads\<close> returns. Yosys netlists, cell maps and manifests hold no
    fractional numbers, so there is no constructor for them. A Python \<^verbatim>\<open>dict\<close> is an association
    list in insertion order; \<open>AList.update\<close> overwrites in place or appends, as Python does.
  \<^item> \<open>'a res\<close> is the result of a function that may raise: \<open>Inl\<close> the exception.
  \<^item> strings are byte strings; their lexicographic order (\<open>List_Lexorder\<close> over \<open>Char_ord\<close>) is
    Python's order on the corresponding text.
\<close>

section \<open>Exceptions and results\<close>

datatype py_exc =
    ScanError string
  | WrapError string
  | SocAccessError string
  | AggregateError string
  | AssembleError string
  | ConfigError string
  | RunnerError string
  | RuleCheckReportError string
  | ValueError string
  | RuntimeError string
  | SchemaError string
  | IntegrityError string
  | ProjectError string
  | OSError string
  | KeyError string
  | IndexError
  | TypeError
  | AttributeError

type_synonym 'a res = "py_exc + 'a"

definition bind_res :: "'a res \<Rightarrow> ('a \<Rightarrow> 'b res) \<Rightarrow> 'b res" where
  "bind_res m f = (case m of Inl e \<Rightarrow> Inl e | Inr x \<Rightarrow> f x)"

text \<open>A list comprehension or loop whose body may raise: the first exception wins.\<close>

fun map_res :: "('a \<Rightarrow> 'b res) \<Rightarrow> 'a list \<Rightarrow> 'b list res" where
  "map_res f [] = Inr []"
| "map_res f (x # xs) = bind_res (f x) (\<lambda>y. bind_res (map_res f xs) (\<lambda>ys. Inr (y # ys)))"

fun fold_res :: "('a \<Rightarrow> 's \<Rightarrow> 's res) \<Rightarrow> 'a list \<Rightarrow> 's \<Rightarrow> 's res" where
  "fold_res f [] s = Inr s"
| "fold_res f (x # xs) s = bind_res (f x s) (\<lambda>s'. fold_res f xs s')"

section \<open>JSON values\<close>

datatype json =
    JNull
  | JBool bool
  | JInt int
  | JStr string
  | JList "json list"
  | JObj "(string \<times> json) list"

type_synonym 'v dict = "(string \<times> 'v) list"
type_synonym jobj = "json dict"

abbreviation dict_set :: "('k \<times> 'v) list \<Rightarrow> 'k \<Rightarrow> 'v \<Rightarrow> ('k \<times> 'v) list" where
  "dict_set d k v \<equiv> AList.update k v d"

abbreviation dict_pop :: "('k \<times> 'v) list \<Rightarrow> 'k \<Rightarrow> ('k \<times> 'v) list" where
  "dict_pop d k \<equiv> AList.delete k d"

text \<open>\<^verbatim>\<open>d.get(k, default)\<close>, \<^verbatim>\<open>k in d\<close>, \<^verbatim>\<open>d[k]\<close> and \<^verbatim>\<open>d.setdefault(k, v)\<close>.\<close>

definition get_or :: "('k \<times> 'v) list \<Rightarrow> 'k \<Rightarrow> 'v \<Rightarrow> 'v" where
  "get_or d k dflt = (case map_of d k of None \<Rightarrow> dflt | Some v \<Rightarrow> v)"

definition has_key :: "('k \<times> 'v) list \<Rightarrow> 'k \<Rightarrow> bool" where
  "has_key d k = (map_of d k \<noteq> None)"

definition getitem :: "'v dict \<Rightarrow> string \<Rightarrow> 'v res" where
  "getitem d k = (case map_of d k of None \<Rightarrow> Inl (KeyError k) | Some v \<Rightarrow> Inr v)"

definition setdefault :: "('k \<times> 'v) list \<Rightarrow> 'k \<Rightarrow> 'v \<Rightarrow> ('k \<times> 'v) list" where
  "setdefault d k v = (if has_key d k then d else d @ [(k, v)])"

text \<open>A dict comprehension over key/value pairs, and \<^verbatim>\<open>d.update(e)\<close>: later writes win.\<close>

definition dict_update :: "('k \<times> 'v) list \<Rightarrow> ('k \<times> 'v) list \<Rightarrow> ('k \<times> 'v) list" where
  "dict_update d e = fold (\<lambda>(k, v). AList.update k v) e d"

definition dict_of :: "('k \<times> 'v) list \<Rightarrow> ('k \<times> 'v) list" where
  "dict_of kvs = dict_update [] kvs"

text \<open>\<^verbatim>\<open>isinstance\<close> tests: Python's \<^verbatim>\<open>bool\<close> is an \<^verbatim>\<open>int\<close> (\<^verbatim>\<open>True == 1\<close>).\<close>

fun as_int :: "json \<Rightarrow> int option" where
  "as_int (JInt n) = Some n"
| "as_int (JBool b) = Some (if b then 1 else 0)"
| "as_int _ = None"

fun as_str :: "json \<Rightarrow> string option" where
  "as_str (JStr s) = Some s"
| "as_str _ = None"

fun as_list :: "json \<Rightarrow> json list option" where
  "as_list (JList xs) = Some xs"
| "as_list _ = None"

fun as_obj :: "json \<Rightarrow> jobj option" where
  "as_obj (JObj d) = Some d"
| "as_obj _ = None"

definition is_obj :: "json \<Rightarrow> bool" where
  "is_obj j = (as_obj j \<noteq> None)"

text \<open>\<^verbatim>\<open>bool(v)\<close>.\<close>

fun truthy :: "json \<Rightarrow> bool" where
  "truthy JNull = False"
| "truthy (JBool b) = b"
| "truthy (JInt n) = (n \<noteq> 0)"
| "truthy (JStr s) = (s \<noteq> [])"
| "truthy (JList xs) = (xs \<noteq> [])"
| "truthy (JObj d) = (d \<noteq> [])"

text \<open>\<^verbatim>\<open>[b for b in value if isinstance(b, int)]\<close> on a list, and \<open>[]\<close> on anything else.\<close>

definition int_bits :: "json \<Rightarrow> int list" where
  "int_bits j = (case as_list j of None \<Rightarrow> [] | Some bs \<Rightarrow> List.map_filter as_int bs)"

text \<open>\<^verbatim>\<open>x.get(k, default)\<close> where \<open>x\<close> must be a dict: anything else has no attribute \<open>get\<close>.\<close>

definition obj_get :: "json \<Rightarrow> string \<Rightarrow> json \<Rightarrow> json res" where
  "obj_get j k dflt = (case as_obj j of None \<Rightarrow> Inl AttributeError | Some d \<Rightarrow> Inr (get_or d k dflt))"

text \<open>\<^verbatim>\<open>x[k]\<close> of a JSON value with a string key.\<close>

definition subscript :: "json \<Rightarrow> string \<Rightarrow> json res" where
  "subscript j k = (case as_obj j of None \<Rightarrow> Inl TypeError | Some d \<Rightarrow> getitem d k)"

section \<open>Integers and strings\<close>

definition digit_char :: "nat \<Rightarrow> char" where
  "digit_char n = char_of (48 + n)"

fun show_nat :: "nat \<Rightarrow> string" where
  "show_nat n = (if n < 10 then [digit_char n] else show_nat (n div 10) @ [digit_char (n mod 10)])"

declare show_nat.simps [simp del]

text \<open>\<^verbatim>\<open>str(n)\<close> of an int.\<close>

definition show_int :: "int \<Rightarrow> string" where
  "show_int i = (if i < 0 then CHR ''-'' # show_nat (nat (- i)) else show_nat (nat i))"

text \<open>\<^verbatim>\<open>int(s)\<close> of a string: surrounding blanks, one sign, digits, single underscores between digits.\<close>

definition is_digit :: "char \<Rightarrow> bool" where
  "is_digit c = (48 \<le> (of_char c :: nat) \<and> (of_char c :: nat) \<le> 57)"

definition digit_val :: "char \<Rightarrow> nat" where
  "digit_val c = (of_char c :: nat) - 48"

fun parse_digits :: "bool \<Rightarrow> nat \<Rightarrow> string \<Rightarrow> nat option" where
  "parse_digits prev acc [] = (if prev then Some acc else None)"
| "parse_digits prev acc (c # cs) =
     (if is_digit c then parse_digits True (10 * acc + digit_val c) cs
      else if c = CHR ''_'' \<and> prev then parse_digits False acc cs
      else None)"

definition is_space :: "char \<Rightarrow> bool" where
  "is_space c = ((of_char c :: nat) = 32 \<or> (9 \<le> (of_char c :: nat) \<and> (of_char c :: nat) \<le> 13)
     \<or> (28 \<le> (of_char c :: nat) \<and> (of_char c :: nat) \<le> 31))"

definition strip :: "string \<Rightarrow> string" where
  "strip s = rev (dropWhile is_space (rev (dropWhile is_space s)))"

definition parse_int :: "string \<Rightarrow> int option" where
  "parse_int s =
     (case strip s of
        [] \<Rightarrow> None
      | c # cs \<Rightarrow>
          if c = CHR ''-'' then map_option (\<lambda>n. - int n) (parse_digits False 0 cs)
          else if c = CHR ''+'' then map_option int (parse_digits False 0 cs)
          else map_option int (parse_digits False 0 (c # cs)))"

text \<open>\<^verbatim>\<open>sep.join(parts)\<close>, \<^verbatim>\<open>s.startswith(p)\<close>, \<^verbatim>\<open>s.endswith(p)\<close>, \<^verbatim>\<open>p in s\<close>, \<^verbatim>\<open>s.split(c)\<close>, \<^verbatim>\<open>s.lower()\<close>.\<close>

fun join_str :: "string \<Rightarrow> string list \<Rightarrow> string" where
  "join_str sep [] = []"
| "join_str sep [x] = x"
| "join_str sep (x # y # ys) = x @ sep @ join_str sep (y # ys)"

definition starts_with :: "string \<Rightarrow> string \<Rightarrow> bool" where
  "starts_with s p = (take (length p) s = p)"

definition ends_with :: "string \<Rightarrow> string \<Rightarrow> bool" where
  "ends_with s p = (length p \<le> length s \<and> drop (length s - length p) s = p)"

fun contains_str :: "string \<Rightarrow> string \<Rightarrow> bool" where
  "contains_str [] p = (p = [])"
| "contains_str (c # cs) p = (starts_with (c # cs) p \<or> contains_str cs p)"

fun split_on :: "char \<Rightarrow> string \<Rightarrow> string list" where
  "split_on c [] = [[]]"
| "split_on c (x # xs) =
     (if x = c then [] # split_on c xs
      else (case split_on c xs of [] \<Rightarrow> [[x]] | w # ws \<Rightarrow> (x # w) # ws))"

definition lower_char :: "char \<Rightarrow> char" where
  "lower_char c = (if 65 \<le> (of_char c :: nat) \<and> (of_char c :: nat) \<le> 90
     then char_of ((of_char c :: nat) + 32) else c)"

definition lower_str :: "string \<Rightarrow> string" where
  "lower_str = map lower_char"

text \<open>\<^verbatim>\<open>repr(s)\<close> of a string and \<^verbatim>\<open>str(v)\<close> of a JSON value.\<close>

definition hex_digit :: "nat \<Rightarrow> char" where
  "hex_digit n = (if n < 10 then char_of (48 + n) else char_of (87 + n))"

definition repr_char :: "char \<Rightarrow> char \<Rightarrow> string" where
  "repr_char q c = (let n = (of_char c :: nat) in
     if c = q \<or> n = 92 then [CHR 0x5C, c]
     else if n = 9 then [CHR 0x5C, CHR ''t'']
     else if n = 10 then [CHR 0x5C, CHR ''n'']
     else if n = 13 then [CHR 0x5C, CHR ''r'']
     else if n < 32 \<or> n = 127 then [CHR 0x5C, CHR ''x'', hex_digit (n div 16), hex_digit (n mod 16)]
     else [c])"

definition repr_str :: "string \<Rightarrow> string" where
  "repr_str s = (let q = (if CHR 0x27 \<in> set s \<and> CHR 0x22 \<notin> set s then CHR 0x22 else CHR 0x27)
     in [q] @ concat (map (repr_char q) s) @ [q])"

fun py_repr :: "json \<Rightarrow> string" where
  "py_repr JNull = ''None''"
| "py_repr (JBool b) = (if b then ''True'' else ''False'')"
| "py_repr (JInt n) = show_int n"
| "py_repr (JStr s) = repr_str s"
| "py_repr (JList xs) = ''['' @ join_str '', '' (map py_repr xs) @ '']''"
| "py_repr (JObj d) =
     ''{'' @ join_str '', '' (map (\<lambda>kv. repr_str (fst kv) @ '': '' @ py_repr (snd kv)) d) @ ''}''"

definition py_str :: "json \<Rightarrow> string" where
  "py_str j = (case j of JStr s \<Rightarrow> s | _ \<Rightarrow> py_repr j)"

text \<open>\<^verbatim>\<open>int(v)\<close> of a JSON value.\<close>

definition py_int :: "json \<Rightarrow> int res" where
  "py_int j = (case j of
      JInt n \<Rightarrow> Inr n
    | JBool b \<Rightarrow> Inr (if b then 1 else 0)
    | JStr s \<Rightarrow> (case parse_int s of
         None \<Rightarrow> Inl (ValueError (''invalid literal for int() with base 10: '' @ repr_str s))
       | Some n \<Rightarrow> Inr n)
    | _ \<Rightarrow> Inl TypeError)"

text \<open>\<^verbatim>\<open>tuple(v)\<close> of a JSON value, which is also what a loop over it sees.\<close>

definition py_tuple :: "json \<Rightarrow> json list res" where
  "py_tuple j = (case j of
      JList xs \<Rightarrow> Inr xs
    | JStr s \<Rightarrow> Inr (map (\<lambda>c. JStr [c]) s)
    | JObj d \<Rightarrow> Inr (map (JStr \<circ> fst) d)
    | _ \<Rightarrow> Inl TypeError)"

text \<open>\<^verbatim>\<open>sorted(xs)\<close> of a set: sorted, without duplicates.\<close>

definition sorted_set :: "'a::linorder list \<Rightarrow> 'a list" where
  "sorted_set xs = sort (remdups xs)"

text \<open>\<^verbatim>\<open>xs[i]\<close> for an index that is not negative, and \<^verbatim>\<open>dict(v)\<close> of a JSON value. Python's
  \<^verbatim>\<open>dict\<close> also accepts a list of pairs, which no attribute or parameter table of a netlist is.\<close>

definition nth_res :: "'a list \<Rightarrow> nat \<Rightarrow> 'a res" where
  "nth_res xs i = (if i < length xs then Inr (xs ! i) else Inl IndexError)"

definition dict_copy :: "json \<Rightarrow> jobj res" where
  "dict_copy j = (case as_obj j of
      Some d \<Rightarrow> Inr d
    | None \<Rightarrow> if j = JList [] \<or> j = JStr [] then Inr [] else Inl TypeError)"

definition lift_option :: "py_exc \<Rightarrow> 'a option \<Rightarrow> 'a res" where
  "lift_option e x = (case x of None \<Rightarrow> Inl e | Some v \<Rightarrow> Inr v)"

section \<open>Lemmas\<close>

named_theorems res_simps \<open>rules for running a computation that may raise\<close>
named_theorems dict_simps \<open>rules for dictionaries as association lists\<close>

lemma bind_res_Inr [simp, res_simps]: "bind_res (Inr x) f = f x"
  by (simp add: bind_res_def)

lemma bind_res_Inl [simp, res_simps]: "bind_res (Inl e) f = Inl e"
  by (simp add: bind_res_def)

lemma bind_res_eq_Inr [res_simps]: "bind_res m f = Inr y \<longleftrightarrow> (\<exists>x. m = Inr x \<and> f x = Inr y)"
  by (cases m) auto

lemma bind_res_eq_Inl [res_simps]:
  "bind_res m f = Inl e \<longleftrightarrow> m = Inl e \<or> (\<exists>x. m = Inr x \<and> f x = Inl e)"
  by (cases m) auto

lemma case_option_raise_eq_Inr [res_simps]:
  "(case x of None \<Rightarrow> Inl e | Some y \<Rightarrow> f y) = Inr z \<longleftrightarrow> (\<exists>y. x = Some y \<and> f y = Inr z)"
  by (cases x) auto

lemma if_raise_eq_Inr [res_simps]:
  "(if c then Inl e else m) = Inr z \<longleftrightarrow> \<not> c \<and> m = Inr z"
  "(if c then m else Inl e) = Inr z \<longleftrightarrow> c \<and> m = Inr z"
  by auto

lemma bind_res_InrE [elim]:
  assumes "bind_res m f = Inr y"
  obtains x where "m = Inr x" and "f x = Inr y"
  using assms by (auto simp: bind_res_eq_Inr)

lemma bind_res_assoc: "bind_res (bind_res m f) g = bind_res m (\<lambda>x. bind_res (f x) g)"
  by (cases m) auto

lemma bind_res_cong [fundef_cong]:
  "m = m' \<Longrightarrow> (\<And>x. m' = Inr x \<Longrightarrow> f x = f' x) \<Longrightarrow> bind_res m f = bind_res m' f'"
  by (cases m') auto

lemma nth_res_eq_Inr [res_simps]: "nth_res xs i = Inr x \<longleftrightarrow> i < length xs \<and> x = xs ! i"
  by (auto simp: nth_res_def)

lemma lift_option_eq_Inr [res_simps]: "lift_option e x = Inr y \<longleftrightarrow> x = Some y"
  by (auto simp: lift_option_def split: option.splits)

lemma map_res_eq_Inr: "map_res f xs = Inr ys \<longleftrightarrow> list_all2 (\<lambda>x y. f x = Inr y) xs ys"
  by (induction xs arbitrary: ys) (auto simp: bind_res_eq_Inr list_all2_Cons1)

lemma map_res_total: "(\<And>x. x \<in> set xs \<Longrightarrow> f x = Inr (g x)) \<Longrightarrow> map_res f xs = Inr (map g xs)"
  by (induction xs) auto

lemma fold_res_append:
  "fold_res f (xs @ ys) s = bind_res (fold_res f xs s) (\<lambda>s'. fold_res f ys s')"
proof (induction xs arbitrary: s)
  case (Cons x xs)
  then show ?case by (cases "f x s") auto
qed simp

lemma fold_res_total: "(\<And>x s. x \<in> set xs \<Longrightarrow> f x s = Inr (g x s)) \<Longrightarrow> fold_res f xs s = Inr (fold g xs s)"
  by (induction xs arbitrary: s) auto

text \<open>An invariant kept by every step that does not raise holds after the loop.\<close>

lemma fold_res_invariant:
  assumes "fold_res f xs s = Inr t" and "P s"
    and "\<And>x s s'. x \<in> set xs \<Longrightarrow> P s \<Longrightarrow> f x s = Inr s' \<Longrightarrow> P s'"
  shows "P t"
  using assms by (induction xs arbitrary: s) (auto simp: bind_res_eq_Inr)

lemma get_or_update [simp, dict_simps]:
  "get_or (AList.update k v d) k' dflt = (if k' = k then v else get_or d k' dflt)"
  by (auto simp: get_or_def update_conv)

lemma map_of_dict_set [simp, dict_simps]: "map_of (AList.update k v d) k' = (if k' = k then Some v else map_of d k')"
  by (auto simp: update_conv)

lemma map_of_dict_pop [simp, dict_simps]: "map_of (AList.delete k d) k' = (if k' = k then None else map_of d k')"
  by (auto simp: delete_conv)

lemma has_key_iff [dict_simps]: "has_key d k \<longleftrightarrow> k \<in> fst ` set d"
  by (metis has_key_def map_of_eq_None_iff)

lemma map_of_setdefault [dict_simps]:
  "map_of (setdefault d k v) k' = (if k' = k \<and> map_of d k = None then Some v else map_of d k')"
  by (auto simp: setdefault_def has_key_def map_add_def map_of_append split: option.splits)

lemma distinct_setdefault: "distinct (map fst d) \<Longrightarrow> distinct (map fst (setdefault d k v))"
  by (auto simp: setdefault_def has_key_iff)

lemma map_filter_as_int_JInt [simp]: "List.map_filter as_int (map JInt xs) = xs"
  by (induction xs) (auto simp: List.map_filter_simps)

lemma int_bits_JList_JInt [simp]: "int_bits (JList (map JInt xs)) = xs"
  by (simp add: int_bits_def)

lemma int_bits_single [simp]: "int_bits (JList [JInt n]) = [n]"
  by (simp add: int_bits_def List.map_filter_simps)

lemma in_set_map_filter: "y \<in> set (List.map_filter f xs) \<longleftrightarrow> (\<exists>x \<in> set xs. f x = Some y)"
  by (induction xs) (auto simp: map_filter_simps split: option.splits)

lemma sorted_sorted_set [simp]: "sorted (sorted_set xs)"
  by (simp add: sorted_set_def)

lemma set_sorted_set [simp]: "set (sorted_set xs) = set xs"
  by (simp add: sorted_set_def)

lemma sorted_set_Nil [simp]: "sorted_set xs = [] \<longleftrightarrow> xs = []"
  by (metis set_empty set_sorted_set)

lemma distinct_sorted_set [simp]: "distinct (sorted_set xs)"
  by (simp add: sorted_set_def)

subsection \<open>Decimal notation\<close>

lemma is_digit_digit_char: "n < 10 \<Longrightarrow> is_digit (digit_char n)"
  by (simp add: is_digit_def digit_char_def)

lemma digit_val_digit_char: "n < 10 \<Longrightarrow> digit_val (digit_char n) = n"
  by (simp add: digit_val_def digit_char_def)

lemma show_nat_ne [simp]: "show_nat n \<noteq> []"
  by (subst show_nat.simps) simp

lemma show_nat_digits: "c \<in> set (show_nat n) \<Longrightarrow> is_digit c"
proof (induction n rule: show_nat.induct)
  case (1 n)
  then show ?case
    by (subst (asm) show_nat.simps) (auto simp: is_digit_digit_char split: if_splits)
qed

lemma parse_digits_append:
  "\<forall>c \<in> set xs. is_digit c \<Longrightarrow> xs \<noteq> [] \<Longrightarrow>
     parse_digits p acc (xs @ ys) = parse_digits True (foldl (\<lambda>a c. 10 * a + digit_val c) acc xs) ys"
proof (induction xs arbitrary: p acc)
  case (Cons x xs)
  show ?case
  proof (cases "xs = []")
    case True
    with Cons.prems show ?thesis by simp
  next
    case False
    with Cons.prems Cons.IH [of True "10 * acc + digit_val x"] show ?thesis by simp
  qed
qed simp

lemma foldl_show_nat: "foldl (\<lambda>a c. 10 * a + digit_val c) 0 (show_nat n) = n"
proof (induction n rule: show_nat.induct)
  case (1 n)
  then show ?case
    by (subst show_nat.simps) (simp add: digit_val_digit_char)
qed

lemma parse_digits_show_nat: "parse_digits p 0 (show_nat n) = Some n"
proof -
  have "parse_digits p 0 (show_nat n @ []) =
      parse_digits True (foldl (\<lambda>a c. 10 * a + digit_val c) 0 (show_nat n)) []"
    by (rule parse_digits_append) (auto simp: show_nat_digits)
  then show ?thesis by (simp add: foldl_show_nat)
qed

lemma digit_not_space: "is_digit c \<Longrightarrow> \<not> is_space c"
  by (auto simp: is_digit_def is_space_def)

lemma strip_no_space: "\<forall>c \<in> set s. \<not> is_space c \<Longrightarrow> strip s = s"
proof -
  assume a: "\<forall>c \<in> set s. \<not> is_space c"
  then have "dropWhile is_space s = s" by (cases s) auto
  moreover from a have "dropWhile is_space (rev s) = rev s" by (cases "rev s") (auto dest: arg_cong [where f = set])
  ultimately show ?thesis by (simp add: strip_def)
qed

lemma show_int_chars: "c \<in> set (show_int i) \<Longrightarrow> is_digit c \<or> c = CHR ''-''"
  by (auto simp: show_int_def show_nat_digits split: if_splits)

lemma strip_show_int [simp]: "strip (show_int i) = show_int i"
proof (rule strip_no_space, rule ballI)
  fix c assume "c \<in> set (show_int i)"
  then have "is_digit c \<or> c = CHR ''-''" by (rule show_int_chars)
  then show "\<not> is_space c" by (auto dest: digit_not_space simp: is_space_def)
qed

lemma parse_int_show_int [simp]: "parse_int (show_int i) = Some i"
proof (cases "i < 0")
  case True
  then show ?thesis
    using strip_show_int [of i]
    by (simp add: parse_int_def show_int_def parse_digits_show_nat)
next
  case False
  obtain c cs where s: "show_nat (nat i) = c # cs" by (metis show_nat_ne list.exhaust)
  then have "is_digit c" using show_nat_digits by (metis list.set_intros(1))
  then have "c \<noteq> CHR ''-''" "c \<noteq> CHR ''+''" by (auto simp: is_digit_def)
  then show ?thesis
    using False s strip_show_int [of i] parse_digits_show_nat [of False "nat i"]
    by (simp add: parse_int_def show_int_def)
qed

lemma show_int_inject [simp]: "show_int i = show_int j \<longleftrightarrow> i = j"
  by (metis parse_int_show_int option.inject)

lemma show_int_no_colon: "CHR '':'' \<notin> set (show_int i)"
  by (auto dest!: show_int_chars simp: is_digit_def)

lemma show_int_ne [simp]: "show_int i \<noteq> []"
  by (simp add: show_int_def)

subsection \<open>Splitting\<close>

lemma split_on_ne [simp]: "split_on c s \<noteq> []"
  by (cases s) (auto split: list.splits)

lemma split_on_append_sep: "c \<notin> set w \<Longrightarrow> split_on c (w @ c # s) = w # split_on c s"
  by (induction w) auto

lemma split_on_none: "c \<notin> set w \<Longrightarrow> split_on c w = [w]"
  by (induction w) auto

section \<open>The dictionary interface\<close>

text \<open>
  What the components rely on when they store into and delete from a Python dictionary: reading
  after a write, and that keys stay distinct. The provider is the association-list dictionary.
\<close>

locale py_dict =
  fixes upd :: "'k \<Rightarrow> 'v \<Rightarrow> 'd \<Rightarrow> 'd"
    and del :: "'k \<Rightarrow> 'd \<Rightarrow> 'd"
    and look :: "'d \<Rightarrow> 'k \<Rightarrow> 'v option"
    and wf :: "'d \<Rightarrow> bool"
  assumes look_upd: "look (upd k v d) k' = (if k' = k then Some v else look d k')"
    and look_del: "look (del k d) k' = (if k' = k then None else look d k')"
    and wf_upd: "wf d \<Longrightarrow> wf (upd k v d)"
    and wf_del: "wf d \<Longrightarrow> wf (del k d)"
begin

lemma look_fold_upd_other:
  "k' \<notin> set (map fst kvs) \<Longrightarrow> look (fold (\<lambda>(k, v). upd k v) kvs d) k' = look d k'"
  by (induction kvs arbitrary: d) (auto simp: look_upd)

lemma look_fold_upd:
  assumes "distinct (map fst kvs)" and "(k, v) \<in> set kvs"
  shows "look (fold (\<lambda>(k, v). upd k v) kvs d) k = Some v"
  using assms by (induction kvs arbitrary: d) (auto simp: look_upd look_fold_upd_other)

lemma look_fold_upd_map_of:
  assumes "distinct (map fst kvs)"
  shows "look (fold (\<lambda>(k, v). upd k v) kvs d) k =
    (case map_of kvs k of Some v \<Rightarrow> Some v | None \<Rightarrow> look d k)"
proof (cases "map_of kvs k")
  case None
  then have "k \<notin> set (map fst kvs)" by (simp add: map_of_eq_None_iff)
  with None show ?thesis using look_fold_upd_other [of k kvs d] by simp
next
  case (Some v)
  then show ?thesis using look_fold_upd [OF assms, of k v d] by (auto dest: map_of_SomeD)
qed

lemma wf_fold_upd: "wf d \<Longrightarrow> wf (fold (\<lambda>(k, v). upd k v) kvs d)"
  by (induction kvs arbitrary: d) (auto simp: wf_upd)

lemma look_fold_del: "look (fold del ks d) k = (if k \<in> set ks then None else look d k)"
  by (induction ks arbitrary: d) (auto simp: look_del)

end

interpretation adict: py_dict AList.update AList.delete map_of "\<lambda>d. distinct (map fst d)"
  by unfold_locales (auto simp: distinct_update distinct_delete)

text \<open>Reading a dictionary that was built or extended in a loop.\<close>

lemma map_of_dict_update:
  "distinct (map fst e) \<Longrightarrow> map_of (dict_update d e) k =
     (case map_of e k of Some v \<Rightarrow> Some v | None \<Rightarrow> map_of d k)"
  unfolding dict_update_def by (rule adict.look_fold_upd_map_of)

lemma map_of_dict_of: "distinct (map fst kvs) \<Longrightarrow> map_of (dict_of kvs) = map_of kvs"
  by (rule ext) (simp add: dict_of_def map_of_dict_update split: option.splits)

lemma update_new: "k \<notin> fst ` set d \<Longrightarrow> AList.update k v d = d @ [(k, v)]"
  by (induction d) auto

lemma dict_update_append:
  "distinct (map fst (d @ e)) \<Longrightarrow> dict_update d e = d @ e"
proof (induction e arbitrary: d)
  case (Cons x e)
  then show ?case using Cons.IH [of "d @ [x]"]
    by (cases x) (auto simp: dict_update_def update_new)
qed (simp add: dict_update_def)

lemma dict_of_distinct: "distinct (map fst kvs) \<Longrightarrow> dict_of kvs = kvs"
  by (simp add: dict_of_def dict_update_append)

lemma distinct_dict_update: "distinct (map fst d) \<Longrightarrow> distinct (map fst (dict_update d e))"
  unfolding dict_update_def by (rule adict.wf_fold_upd)

lemma distinct_dict_of [simp]: "distinct (map fst (dict_of kvs))"
  by (simp add: dict_of_def distinct_dict_update)

lemma get_or_dict_update_other:
  "k \<notin> set (map fst e) \<Longrightarrow> get_or (dict_update d e) k dflt = get_or d k dflt"
  using adict.look_fold_upd_other [of k e d] by (simp add: get_or_def dict_update_def)

section \<open>Dictionaries from key-value lists\<close>

lemma fst_dict_of: "fst ` set (dict_of kvs) = fst ` set kvs"
proof -
  have "fst ` set (dict_update d kvs) = fst ` set d \<union> fst ` set kvs" for d
    by (induction kvs arbitrary: d) (simp_all add: dict_update_def dom_update split_beta)
  from this [of "[]"] show ?thesis by (simp add: dict_of_def)
qed

lemma set_dict_update: "set (dict_update d kvs) \<subseteq> set d \<union> set kvs"
proof (induction kvs arbitrary: d)
  case (Cons kv kvs)
  have "set (AList.update k v d) \<subseteq> insert (k, v) (set d)" for k and v by (induction d) auto
  with Cons.IH [of "AList.update (fst kv) (snd kv) d"] show ?case by (force simp: dict_update_def split_beta)
qed (simp add: dict_update_def)

lemma set_dict_of: "set (dict_of kvs) \<subseteq> set kvs"
  using set_dict_update [of "[]" kvs] by (simp add: dict_of_def)

end
