(* ===== verification/Scan_Protocol.thy ===== *)
theory Scan_Protocol
  imports Py_Prelude
begin

text \<open>
  The scan protocol: \<^verbatim>\<open>faultflow/scan/protocol_constants.py\<close> (bit order of load and unload
  sequences) and \<^verbatim>\<open>faultflow/scan/protocol.py\<close> (pin-level cycle lists and the serialisation of
  an ATPG vector into per-chain sequences).

  The properties are stated against a scan register, an interface locale: a shift moves the bit
  at scan-in into position 0 and every other position one step towards scan-out. Two providers
  are interpreted here: a list of flip-flop values, and a chain driven through its clock,
  scan-in and scan-enable pins by the cycle lists of \<^verbatim>\<open>protocol.py\<close>.
\<close>

section \<open>Bit order of the sequences (protocol\_constants.py)\<close>

definition load_sequence :: "(int \<times> bool) list \<Rightarrow> int \<Rightarrow> bool list res" where
  "load_sequence target_by_position chain_length =
     (if chain_length < 0 then Inl (ValueError ''chain_length must be >= 0'')
      else Inr (map (\<lambda>position. get_or target_by_position position False) (rev [0..chain_length - 1])))"

definition unload_sequence :: "(int \<times> bool) list \<Rightarrow> int \<Rightarrow> bool list res" where
  "unload_sequence target_by_position chain_length =
     (if chain_length < 0 then Inl (ValueError ''chain_length must be >= 0'')
      else Inr (map (\<lambda>position. get_or target_by_position position False) (rev [0..chain_length - 1])))"

section \<open>Pin-level cycles (protocol.py)\<close>

type_synonym cycle = "bool dict"

definition with_clock :: "cycle \<Rightarrow> string \<Rightarrow> bool \<Rightarrow> cycle" where
  "with_clock values clock level = dict_set values clock level"

definition clock_pulse_cycles :: "cycle \<Rightarrow> string \<Rightarrow> cycle list" where
  "clock_pulse_cycles values clock = [with_clock values clock False, with_clock values clock True]"

definition scan_shift_cycles ::
  "bool list \<Rightarrow> cycle \<Rightarrow> string \<Rightarrow> string \<Rightarrow> string \<Rightarrow> cycle list" where
  "scan_shift_cycles bits primary_inputs clock scan_in scan_enable =
     concat (map (\<lambda>bit. clock_pulse_cycles
       (dict_set (dict_set primary_inputs scan_in bit) scan_enable True) clock) bits)"

definition scan_capture_cycles :: "cycle \<Rightarrow> string \<Rightarrow> string \<Rightarrow> cycle list" where
  "scan_capture_cycles primary_inputs clock scan_enable =
     clock_pulse_cycles (dict_set primary_inputs scan_enable False) clock"

definition scan_shift_capture_shiftout_cycles ::
  "bool list \<Rightarrow> cycle \<Rightarrow> nat \<Rightarrow> string \<Rightarrow> string \<Rightarrow> string \<Rightarrow> cycle list" where
  "scan_shift_capture_shiftout_cycles shift_in_bits capture_inputs shift_out_length
       clock scan_in scan_enable =
     scan_shift_cycles shift_in_bits capture_inputs clock scan_in scan_enable
     @ scan_capture_cycles capture_inputs clock scan_enable
     @ scan_shift_cycles (replicate shift_out_length False) capture_inputs clock scan_in scan_enable"

definition multi_scan_inputs :: "string list \<Rightarrow> bool list \<Rightarrow> bool \<Rightarrow> cycle" where
  "multi_scan_inputs scan_inputs values dflt =
     dict_of (map (\<lambda>(index, name). (name, if index < length values then values ! index else dflt))
       (enumerate 0 scan_inputs))"

definition multi_chain_scan_shift_cycles ::
  "bool list list \<Rightarrow> cycle \<Rightarrow> string \<Rightarrow> string list \<Rightarrow> string \<Rightarrow> cycle list" where
  "multi_chain_scan_shift_cycles chain_bits primary_inputs clock scan_inputs scan_enable =
     (let depth = foldr max (map length chain_bits) 0
      in concat (map (\<lambda>offset. clock_pulse_cycles
           (dict_update (dict_set primary_inputs scan_enable True)
             (multi_scan_inputs scan_inputs
               (map (\<lambda>bits. if offset < length bits then bits ! offset else False) chain_bits) False))
           clock) [0..<depth]))"

definition multi_chain_scan_shift_capture_shiftout_cycles ::
  "bool list list \<Rightarrow> cycle \<Rightarrow> nat list \<Rightarrow> string \<Rightarrow> string list \<Rightarrow> string \<Rightarrow> cycle list" where
  "multi_chain_scan_shift_capture_shiftout_cycles shift_in_bits_by_chain capture_inputs
       shift_out_lengths clock scan_inputs scan_enable =
     multi_chain_scan_shift_cycles shift_in_bits_by_chain capture_inputs clock scan_inputs scan_enable
     @ scan_capture_cycles capture_inputs clock scan_enable
     @ multi_chain_scan_shift_cycles (map (\<lambda>n. replicate n False) shift_out_lengths)
         capture_inputs clock scan_inputs scan_enable"

section \<open>Serialising a vector (protocol.py)\<close>

record ScanPattern =
  load_seqs :: "(int \<times> bool list) list"
  capture_pi_values :: "bool dict"
  expected_unload :: "(int \<times> bool list) list"
  launch :: string
  launch_scan_in :: "(int \<times> bool) list"

definition PPI_PREFIX :: string where "PPI_PREFIX = ''__ppi_''"
definition PPO_PREFIX :: string where "PPO_PREFIX = ''__ppo_''"

definition chain_lengths_of :: "jobj \<Rightarrow> (int \<times> int) list" where
  "chain_lengths_of manifest =
     (case as_list (get_or manifest ''chains'' (JList [])) of
        None \<Rightarrow> []
      | Some raw_chains \<Rightarrow> fold (\<lambda>raw lengths.
          case as_obj raw of
            None \<Rightarrow> lengths
          | Some d \<Rightarrow>
              (case (as_int (get_or d ''index'' JNull), as_int (get_or d ''length'' JNull)) of
                 (Some index, Some len) \<Rightarrow> dict_set lengths index len
               | _ \<Rightarrow> lengths)) raw_chains [])"

text \<open>\<^verbatim>\<open>by_chain.setdefault(chain_id, {})[position] = value\<close>.\<close>

definition set_position ::
  "(int \<times> (int \<times> bool) list) list \<Rightarrow> int \<Rightarrow> int \<Rightarrow> bool \<Rightarrow> (int \<times> (int \<times> bool) list) list" where
  "set_position by_chain chain_id position v =
     dict_set by_chain chain_id (dict_set (get_or by_chain chain_id []) position v)"

text \<open>One entry of the pseudo port map: chain, position, loaded value, expected unload value. A
  flip-flop of an inactive clock domain has no PPO and holds its loaded value.\<close>

definition vector_entry :: "bool dict \<Rightarrow> jobj \<Rightarrow> (int \<times> int \<times> bool \<times> bool) res" where
  "vector_entry vector entry =
     bind_res (bind_res (getitem entry ''chain_id'') py_int) (\<lambda>chain_id.
     bind_res (bind_res (getitem entry ''position_in_chain'') py_int) (\<lambda>position.
     bind_res (getitem entry ''ppi_port'') (\<lambda>ppi.
       let load_val = get_or vector (py_str ppi) False;
           ppo = get_or entry ''ppo_port'' JNull;
           unload_val = (if ppo \<noteq> JNull then get_or vector (py_str ppo) False else load_val)
       in Inr (chain_id, position, load_val, unload_val))))"

definition add_entry ::
  "bool dict \<Rightarrow> jobj \<Rightarrow>
   (int \<times> (int \<times> bool) list) list \<times> (int \<times> (int \<times> bool) list) list \<Rightarrow>
   ((int \<times> (int \<times> bool) list) list \<times> (int \<times> (int \<times> bool) list) list) res" where
  "add_entry vector entry s =
     bind_res (vector_entry vector entry) (\<lambda>(chain_id, position, load_val, unload_val).
       Inr (set_position (fst s) chain_id position load_val,
            set_position (snd s) chain_id position unload_val))"

definition padded_sequence ::
  "((int \<times> bool) list \<Rightarrow> int \<Rightarrow> bool list res) \<Rightarrow> bool \<Rightarrow> (int \<times> int) list \<Rightarrow> int \<Rightarrow>
   int \<times> (int \<times> bool) list \<Rightarrow> (int \<times> bool list) res" where
  "padded_sequence seq pad_first lengths max_chain_length item =
     (case item of (chain_id, targets) \<Rightarrow>
        let chain_length = get_or lengths chain_id (int (length targets));
            padding = max_chain_length - chain_length
        in if padding < 0 then Inl (ValueError ''chain length exceeds manifest max_chain_length'')
           else bind_res (seq targets chain_length) (\<lambda>bits.
             Inr (chain_id, if pad_first then replicate (nat padding) False @ bits
                            else bits @ replicate (nat padding) False)))"

definition serialize_vector :: "bool dict \<Rightarrow> jobj dict \<Rightarrow> jobj \<Rightarrow> ScanPattern res" where
  "serialize_vector vector pseudo_port_map manifest =
     (let lengths = chain_lengths_of manifest;
          dflt = (case map snd lengths of [] \<Rightarrow> 0 | n # ns \<Rightarrow> fold max ns n)
      in bind_res (py_int (get_or manifest ''max_chain_length'' (JInt dflt))) (\<lambda>max_chain_length.
         bind_res (fold_res (add_entry vector) (map snd pseudo_port_map) ([], []))
           (\<lambda>(load_by_chain, unload_by_chain).
         bind_res (map_res (padded_sequence load_sequence True lengths max_chain_length) load_by_chain)
           (\<lambda>loads.
         bind_res (map_res (padded_sequence unload_sequence False lengths max_chain_length)
             unload_by_chain) (\<lambda>unloads.
         Inr \<lparr> load_seqs = loads,
               capture_pi_values = filter (\<lambda>(name, v). \<not> starts_with name PPI_PREFIX
                  \<and> \<not> starts_with name PPO_PREFIX) vector,
               expected_unload = unloads,
               launch = [], launch_scan_in = [] \<rparr>)))))"

section \<open>The scan register interface\<close>

text \<open>The bits seen at scan-out while feeding \<open>bs\<close>: one sample before each shift.\<close>

fun unload_bits :: "(bool \<Rightarrow> 's \<Rightarrow> 's) \<Rightarrow> ('s \<Rightarrow> bool) \<Rightarrow> bool list \<Rightarrow> 's \<Rightarrow> bool list" where
  "unload_bits shift so [] s = []"
| "unload_bits shift so (b # bs) s = so s # unload_bits shift so bs (shift b s)"

lemma length_unload_bits [simp]: "length (unload_bits shift so bs s) = length bs"
  by (induction bs arbitrary: s) auto

locale scan_register =
  fixes shift :: "bool \<Rightarrow> 's \<Rightarrow> 's"
    and cell :: "'s \<Rightarrow> nat \<Rightarrow> bool"
    and so :: "'s \<Rightarrow> bool"
    and len :: nat
    and ok :: "'s \<Rightarrow> bool"
  assumes ok_shift: "ok s \<Longrightarrow> ok (shift b s)"
    and cell_0: "ok s \<Longrightarrow> 0 < len \<Longrightarrow> cell (shift b s) 0 = b"
    and cell_Suc: "ok s \<Longrightarrow> Suc p < len \<Longrightarrow> cell (shift b s) (Suc p) = cell s p"
    and so_last: "ok s \<Longrightarrow> 0 < len \<Longrightarrow> so s = cell s (len - 1)"
begin

lemma ok_fold: "ok s \<Longrightarrow> ok (fold shift bs s)"
  by (induction bs arbitrary: s) (auto simp: ok_shift)

text \<open>After feeding \<open>bs\<close>, the last fed bit sits at position 0, the one before at position 1, \<dots>\<close>

lemma cell_fold:
  assumes "ok s" and "p < len"
  shows "cell (fold shift bs s) p =
    (if p < length bs then rev bs ! p else cell s (p - length bs))"
  using assms
proof (induction bs arbitrary: p rule: rev_induct)
  case (snoc b bs)
  note ok = ok_fold [OF snoc.prems(1), of bs]
  show ?case
  proof (cases p)
    case 0
    with snoc.prems show ?thesis by (simp add: cell_0 [OF ok])
  next
    case (Suc q)
    with snoc.prems have "cell (fold shift (bs @ [b]) s) p = cell (fold shift bs s) q"
      by (simp add: cell_Suc [OF ok])
    with Suc snoc.IH [OF snoc.prems(1), of q] snoc.prems(2) show ?thesis by simp
  qed
qed simp

text \<open>Feeding a full register's worth of bits last erases whatever was there before.\<close>

lemma cell_fold_suffix:
  assumes "ok s" and "p < len" and "length bs = len"
  shows "cell (fold shift (pad @ bs) s) p = rev bs ! p"
  using assms cell_fold [of s p "pad @ bs"] by (simp add: nth_append)

lemma unload_bits_nth:
  assumes "ok s" and "k < length bs" and "0 < len"
  shows "unload_bits shift so bs s ! k = (if k < len then cell s (len - 1 - k) else bs ! (k - len))"
  using assms
proof (induction bs arbitrary: s k)
  case (Cons b bs)
  show ?case
  proof (cases k)
    case 0
    with Cons.prems show ?thesis by (simp add: so_last)
  next
    case (Suc j)
    with Cons.prems have IH: "unload_bits shift so bs (shift b s) ! j =
        (if j < len then cell (shift b s) (len - 1 - j) else bs ! (j - len))"
      by (intro Cons.IH) (auto simp: ok_shift)
    consider "Suc j < len" | "Suc j = len" | "len < Suc j" by linarith
    then show ?thesis
    proof cases
      case 1
      then have "len - 1 - j = Suc (len - 1 - Suc j)" by simp
      with 1 Suc IH Cons.prems show ?thesis
        by (simp add: cell_Suc)
    next
      case 2
      with Suc IH Cons.prems show ?thesis by (auto simp: cell_0)
    next
      case 3
      then have "k - len = Suc (j - len)" using Suc by simp
      with 3 Suc IH show ?thesis by simp
    qed
  qed
qed simp

text \<open>The first \<open>len\<close> unloaded bits are the contents, the position nearest scan-out first.\<close>

lemma unload_bits_take:
  assumes "ok s" and "len \<le> length bs" and "0 < len"
  shows "take len (unload_bits shift so bs s) = rev (map (cell s) [0..<len])"
proof (rule nth_equalityI)
  fix k assume "k < length (take len (unload_bits shift so bs s))"
  with assms show "take len (unload_bits shift so bs s) ! k = rev (map (cell s) [0..<len]) ! k"
    by (simp add: unload_bits_nth rev_nth)
qed (use assms in simp)

end

subsection \<open>A list of flip-flop values\<close>

text \<open>Position 0 is the flip-flop nearest scan-in (\<^verbatim>\<open>ScanCellRecord.chain_position\<close>).\<close>

definition reg_shift :: "bool \<Rightarrow> bool list \<Rightarrow> bool list" where
  "reg_shift b regs = take (length regs) (b # regs)"

definition reg_so :: "bool list \<Rightarrow> bool" where
  "reg_so regs = last (False # regs)"

lemma length_reg_shift [simp]: "length (reg_shift b regs) = length regs"
  by (simp add: reg_shift_def)

lemma length_fold_reg_shift [simp]: "length (fold reg_shift bs regs) = length regs"
  by (induction bs arbitrary: regs) auto

interpretation lreg: scan_register reg_shift "(!)" reg_so n "\<lambda>regs. length regs = n" for n
proof unfold_locales
  fix s :: "bool list" and b
  show "length s = n \<Longrightarrow> length (reg_shift b s) = n" by simp
  show "length s = n \<Longrightarrow> 0 < n \<Longrightarrow> reg_shift b s ! 0 = b"
    by (cases s) (auto simp: reg_shift_def)
  show "length s = n \<Longrightarrow> Suc p < n \<Longrightarrow> reg_shift b s ! Suc p = s ! p" for p
    by (simp add: reg_shift_def)
  show "length s = n \<Longrightarrow> 0 < n \<Longrightarrow> reg_so s = s ! (n - 1)"
    by (cases s) (auto simp: reg_so_def last_conv_nth)
qed

subsection \<open>A chain behind its pins\<close>

text \<open>
  The device under the cycle lists: flip-flops that act on the rising edge of \<open>clock\<close>, shifting
  when \<open>scan_enable\<close> is high (each takes its SDI net) and taking \<open>capture\<close> of the applied
  inputs and their state otherwise. \<open>capture\<close> stands for the design's combinational logic.
\<close>

record pin_chain =
  pc_clk :: bool
  pc_regs :: "bool list"

definition pin_step ::
  "string \<Rightarrow> string \<Rightarrow> string \<Rightarrow> (cycle \<Rightarrow> bool list \<Rightarrow> bool list) \<Rightarrow> cycle \<Rightarrow> pin_chain \<Rightarrow> pin_chain" where
  "pin_step clock scan_in scan_enable capture values s =
     (let level = get_or values clock False
      in \<lparr> pc_clk = level,
           pc_regs = (if \<not> (level \<and> \<not> pc_clk s) then pc_regs s
                      else if get_or values scan_enable False
                           then reg_shift (get_or values scan_in False) (pc_regs s)
                           else capture values (pc_regs s)) \<rparr>)"

definition pin_run ::
  "string \<Rightarrow> string \<Rightarrow> string \<Rightarrow> (cycle \<Rightarrow> bool list \<Rightarrow> bool list) \<Rightarrow> cycle list \<Rightarrow> pin_chain \<Rightarrow> pin_chain" where
  "pin_run clock scan_in scan_enable capture cycles =
     fold (pin_step clock scan_in scan_enable capture) cycles"

text \<open>Scan-out sampled after settling in every cycle that leaves the clock low.\<close>

fun low_samples ::
  "string \<Rightarrow> string \<Rightarrow> string \<Rightarrow> (cycle \<Rightarrow> bool list \<Rightarrow> bool list) \<Rightarrow> cycle list \<Rightarrow> pin_chain \<Rightarrow> bool list" where
  "low_samples clock scan_in scan_enable capture [] s = []"
| "low_samples clock scan_in scan_enable capture (values # cycles) s =
     (let s' = pin_step clock scan_in scan_enable capture values s
      in (if pc_clk s' then [] else [reg_so (pc_regs s')])
         @ low_samples clock scan_in scan_enable capture cycles s')"

definition pin_shift ::
  "string \<Rightarrow> string \<Rightarrow> string \<Rightarrow> (cycle \<Rightarrow> bool list \<Rightarrow> bool list) \<Rightarrow> cycle \<Rightarrow> bool \<Rightarrow> pin_chain \<Rightarrow> pin_chain" where
  "pin_shift clock scan_in scan_enable capture primary_inputs b =
     pin_run clock scan_in scan_enable capture
       (scan_shift_cycles [b] primary_inputs clock scan_in scan_enable)"

lemma pin_run_append:
  "pin_run c i e cap (xs @ ys) s = pin_run c i e cap ys (pin_run c i e cap xs s)"
  by (simp add: pin_run_def)

lemma low_samples_append:
  "low_samples c i e cap (xs @ ys) s =
     low_samples c i e cap xs s @ low_samples c i e cap ys (pin_run c i e cap xs s)"
  by (induction xs arbitrary: s) (auto simp: pin_run_def Let_def)

lemma pin_shift_eq:
  assumes "distinct [c, i, e]"
  shows "pin_shift c i e cap pis b s = \<lparr>pc_clk = True, pc_regs = reg_shift b (pc_regs s)\<rparr>"
  using assms
  by (auto simp: pin_shift_def pin_run_def scan_shift_cycles_def clock_pulse_cycles_def
      with_clock_def pin_step_def)

lemma pin_run_shift:
  assumes "distinct [c, i, e]"
  shows "pin_run c i e cap (scan_shift_cycles bs pis c i e) s =
    (if bs = [] then s else \<lparr>pc_clk = True, pc_regs = fold reg_shift bs (pc_regs s)\<rparr>)"
proof (induction bs arbitrary: s)
  case (Cons b bs)
  have "pin_run c i e cap (scan_shift_cycles (b # bs) pis c i e) s =
      pin_run c i e cap (scan_shift_cycles bs pis c i e) (pin_shift c i e cap pis b s)"
    by (simp add: pin_shift_def scan_shift_cycles_def pin_run_append)
  with Cons show ?case by (auto simp: pin_shift_eq [OF assms])
qed (simp add: scan_shift_cycles_def pin_run_def)

lemma pin_run_capture:
  assumes "distinct [c, i, e]"
  shows "pin_run c i e cap (scan_capture_cycles pis c e) s =
    \<lparr>pc_clk = True, pc_regs = cap (with_clock (dict_set pis e False) c True) (pc_regs s)\<rparr>"
  using assms
  by (auto simp: scan_capture_cycles_def pin_run_def clock_pulse_cycles_def with_clock_def pin_step_def)

lemma low_samples_shift:
  assumes "distinct [c, i, e]"
  shows "low_samples c i e cap (scan_shift_cycles bs pis c i e) s =
    unload_bits reg_shift reg_so bs (pc_regs s)"
proof (induction bs arbitrary: s)
  case (Cons b bs)
  have one: "low_samples c i e cap (scan_shift_cycles [b] pis c i e) s = [reg_so (pc_regs s)]"
    using assms by (simp add: scan_shift_cycles_def clock_pulse_cycles_def with_clock_def pin_step_def)
  have "low_samples c i e cap (scan_shift_cycles (b # bs) pis c i e) s =
      low_samples c i e cap (scan_shift_cycles [b] pis c i e) s
      @ low_samples c i e cap (scan_shift_cycles bs pis c i e) (pin_shift c i e cap pis b s)"
    unfolding pin_shift_def by (subst low_samples_append [symmetric]) (simp add: scan_shift_cycles_def)
  with one Cons show ?case by (simp add: pin_shift_eq [OF assms])
qed (simp add: scan_shift_cycles_def)

lemma low_samples_capture:
  assumes "distinct [c, i, e]"
  shows "low_samples c i e cap (scan_capture_cycles pis c e) s = [reg_so (pc_regs s)]"
  using assms
  by (simp add: scan_capture_cycles_def clock_pulse_cycles_def with_clock_def pin_step_def)

text \<open>Driven by \<^verbatim>\<open>scan_shift_cycles\<close> on distinct pins, the chain is a scan register.\<close>

interpretation preg: scan_register "pin_shift ''CLK'' ''scan_in'' ''scan_en'' capture primary_inputs"
    "\<lambda>s p. pc_regs s ! p" "\<lambda>s. reg_so (pc_regs s)" n "\<lambda>s. length (pc_regs s) = n"
    for capture primary_inputs n
  by unfold_locales
    (auto simp: pin_shift_eq lreg.cell_0 lreg.cell_Suc lreg.so_last)

section \<open>Properties\<close>

lemma length_load_sequence: "load_sequence t n = Inr seq \<Longrightarrow> length seq = nat n"
  by (auto simp: load_sequence_def split: if_splits)

lemma load_sequence_rev:
  assumes "load_sequence t n = Inr seq"
  shows "rev seq = map (\<lambda>p. get_or t (int p) False) [0..<nat n]"
proof -
  have "[0..n - 1] = map int [0..<nat n]"
    by (rule nth_equalityI) auto
  with assms show ?thesis by (auto simp: load_sequence_def rev_map split: if_splits)
qed

lemma unload_sequence_eq: "unload_sequence = load_sequence"
  by (intro ext) (simp add: unload_sequence_def load_sequence_def)

lemma load_sequence_loads:
  assumes "load_sequence targets (int n) = Inr seq" and "length regs = n"
  shows "fold reg_shift (pad @ seq) regs = map (\<lambda>p. get_or targets (int p) False) [0..<n]"
proof (rule nth_equalityI)
  fix p assume "p < length (fold reg_shift (pad @ seq) regs)"
  then have p: "p < n" using assms(2) by simp
  have "length seq = n" using length_load_sequence [OF assms(1)] by simp
  then have "fold reg_shift (pad @ seq) regs ! p = rev seq ! p"
    using lreg.cell_fold_suffix [OF assms(2) p] by blast
  with p show "fold reg_shift (pad @ seq) regs ! p = map (\<lambda>p. get_or targets (int p) False) [0..<n] ! p"
    by (simp add: load_sequence_rev [OF assms(1)])
qed (use assms in simp)

text \<open>
  Unloading: shifting out at least as many bits as the chain is long first delivers exactly
  the unload sequence of the contents, and afterwards the bits fed meanwhile.
\<close>

lemma unload_sequence_observed:
  assumes "0 < length regs" and "length regs \<le> length fill"
  shows "\<exists>seq. unload_sequence (map (\<lambda>p. (int p, regs ! p)) [0..<length regs]) (int (length regs)) = Inr seq
    \<and> unload_bits reg_shift reg_so fill regs = seq @ take (length fill - length regs) fill"
proof -
  let ?t = "map (\<lambda>p. (int p, regs ! p)) [0..<length regs]"
  have get: "get_or ?t (int p) False = regs ! p" if "p < length regs" for p
  proof -
    have "map_of ?t (int p) = Some (regs ! p)"
      using that by (intro map_of_is_SomeI) (auto simp: distinct_map inj_on_def comp_def)
    then show ?thesis by (simp add: get_or_def)
  qed
  obtain seq where seq: "unload_sequence ?t (int (length regs)) = Inr seq"
    by (simp add: unload_sequence_def)
  then have revseq: "rev seq = map (\<lambda>p. get_or ?t (int p) False) [0..<length regs]"
    using load_sequence_rev [of ?t "int (length regs)" seq] by (simp add: unload_sequence_eq)
  also have "\<dots> = regs" by (rule nth_equalityI) (auto simp: get)
  finally have s: "seq = rev regs" by (metis rev_rev_ident)
  have "unload_bits reg_shift reg_so fill regs = rev regs @ take (length fill - length regs) fill"
  proof (rule nth_equalityI)
    fix k assume "k < length (unload_bits reg_shift reg_so fill regs)"
    then show "unload_bits reg_shift reg_so fill regs ! k =
        (rev regs @ take (length fill - length regs) fill) ! k"
      using assms lreg.unload_bits_nth [OF refl _ assms(1), of k fill]
      by (simp add: nth_append rev_nth)
  qed (use assms in simp)
  with seq s show ?thesis by blast
qed



section \<open>Serialisation\<close>

lemma get_or_set_position:
  "get_or (set_position d c p v) c' [] =
     (if c' = c then dict_set (get_or d c []) p v else get_or d c' [])"
  by (simp add: set_position_def)

text \<open>The place of an entry: its chain and its position there.\<close>

definition entry_place :: "int \<times> int \<times> bool \<times> bool \<Rightarrow> int \<times> int" where
  "entry_place e = (fst e, fst (snd e))"

lemma add_entry_Inr:
  "vector_entry vector x = Inr (c, p, l, u) \<Longrightarrow>
     add_entry vector x (a, b) = Inr (set_position a c p l, set_position b c p u)"
  by (simp add: add_entry_def)

lemma add_entry_fold:
  assumes "map_res (vector_entry vector) xs = Inr es"
  shows "fold_res (add_entry vector) xs (a, b) =
    Inr (fold (\<lambda>(c, p, l, u) d. set_position d c p l) es a,
         fold (\<lambda>(c, p, l, u) d. set_position d c p u) es b)"
  using assms
proof (induction xs arbitrary: es a b)
  case (Cons x xs)
  then obtain e es' where "vector_entry vector x = Inr e" "map_res (vector_entry vector) xs = Inr es'"
    and "es = e # es'"
    by (auto simp: bind_res_eq_Inr)
  then show ?case
    by (cases e) (simp add: add_entry_Inr Cons.IH)
qed simp

text \<open>Each chain position holds what its entry stored; \<open>g\<close> selects the loaded or the expected value.\<close>

lemma fold_set_position_other:
  assumes "(c, p) \<notin> set (map entry_place es)"
  shows "map_of (get_or (fold (\<lambda>(c, p, l, u) d. set_position d c p (g l u)) es a) c []) p =
    map_of (get_or a c []) p"
  using assms
  by (induction es arbitrary: a) (auto simp: get_or_set_position entry_place_def split: prod.splits if_splits)

lemma fold_set_position:
  assumes "distinct (map entry_place es)" and "(c, p, l, u) \<in> set es"
  shows "map_of (get_or (fold (\<lambda>(c, p, l, u) d. set_position d c p (g l u)) es a) c []) p = Some (g l u)"
  using assms
proof (induction es arbitrary: a)
  case (Cons e es)
  show ?case
  proof (cases "e = (c, p, l, u)")
    case True
    with Cons.prems(1) have "(c, p) \<notin> set (map entry_place es)"
      by (simp add: entry_place_def)
    with True show ?thesis by (simp add: fold_set_position_other get_or_set_position)
  next
    case False
    with Cons show ?thesis by auto
  qed
qed simp

lemma fold_set_position_key:
  "(c, p, l, u) \<in> set es \<Longrightarrow>
     map_of (fold (\<lambda>(c, p, l, u) d. set_position d c p (g l u)) es a) c =
     Some (get_or (fold (\<lambda>(c, p, l, u) d. set_position d c p (g l u)) es a) c [])"
proof -
  have keep: "map_of d c \<noteq> None \<Longrightarrow>
      map_of (fold (\<lambda>(c, p, l, u) d. set_position d c p (g l u)) es d) c \<noteq> None" for d es
    by (induction es arbitrary: d) (auto simp: set_position_def)
  have "(c, p, l, u) \<in> set es \<Longrightarrow>
      map_of (fold (\<lambda>(c, p, l, u) d. set_position d c p (g l u)) es a) c \<noteq> None"
  proof (induction es arbitrary: a)
    case (Cons e es)
    then show ?case
      by (cases "e = (c, p, l, u)") (auto simp: set_position_def intro!: keep [simplified])
  qed simp
  then show "(c, p, l, u) \<in> set es \<Longrightarrow> ?thesis" by (auto simp: get_or_def)
qed

text \<open>A mapped list of items keeps its keys, so lookups in it go through item by item.\<close>

lemma padded_sequence_key: "padded_sequence seq pf lengths mx (c, t) = Inr y \<Longrightarrow> fst y = c"
  by (auto simp: padded_sequence_def Let_def bind_res_eq_Inr split: if_splits)

lemma padded_sequence_lookup:
  assumes "map_res (padded_sequence seq pf lengths mx) items = Inr out" and "map_of items c = Some t"
  shows "\<exists>r. padded_sequence seq pf lengths mx (c, t) = Inr (c, r) \<and> map_of out c = Some r"
  using assms
proof (induction items arbitrary: out)
  case (Cons i items)
  obtain c' t' where i: "i = (c', t')" by (cases i)
  from Cons.prems(1) i obtain y out' where y: "padded_sequence seq pf lengths mx (c', t') = Inr y"
    and "map_res (padded_sequence seq pf lengths mx) items = Inr out'" and "out = y # out'"
    by (auto simp: bind_res_eq_Inr)
  moreover from padded_sequence_key [OF y] obtain r' where "y = (c', r')" by (cases y) simp
  ultimately have "padded_sequence seq pf lengths mx (c', t') = Inr (c', r')"
    and "map_res (padded_sequence seq pf lengths mx) items = Inr out'" and "out = (c', r') # out'"
    by simp_all
  then show ?case using Cons i by (auto split: if_splits)
qed simp

lemma padded_sequence_InrD:
  assumes "padded_sequence seq pf lengths mx (c, t) = Inr (c, r)" and "map_of lengths c = Some n"
  obtains bits where "seq t n = Inr bits" and "0 \<le> mx - n"
    and "r = (if pf then replicate (nat (mx - n)) False @ bits else bits @ replicate (nat (mx - n)) False)"
  using assms by (auto simp: padded_sequence_def Let_def get_or_def bind_res_eq_Inr split: if_splits)

text \<open>
  C13. A serialised vector does what the vector says. For a flip-flop at position \<open>p\<close> of chain
  \<open>c\<close> (of length \<open>n\<close> in the manifest, no two flip-flops sharing a place): shifting in the chain's
  load sequence leaves the vector's PPI value \<open>l\<close> at \<open>p\<close>, whatever the chain held before, and the
  bit of the expected unload that the protocol compares for this flip-flop agrees with the observed
  one exactly when the flip-flop captured the expected value \<open>u\<close>.
\<close>

theorem serialize_vector_correct:
  assumes ser: "serialize_vector vector pseudo_port_map manifest = Inr pat"
    and es: "map_res (vector_entry vector) (map snd pseudo_port_map) = Inr es"
    and dist: "distinct (map entry_place es)"
    and e: "(c, int p, l, u) \<in> set es" and p: "p < n"
    and n: "map_of (chain_lengths_of manifest) c = Some (int n)"
  shows "\<exists>ld ul. map_of (load_seqs pat) c = Some ld \<and> map_of (expected_unload pat) c = Some ul
    \<and> (\<forall>regs. length regs = n \<longrightarrow> fold reg_shift ld regs ! p = l)
    \<and> (\<forall>regs fill. length regs = n \<longrightarrow> n \<le> length fill \<longrightarrow>
         (unload_bits reg_shift reg_so fill regs ! (n - 1 - p) = ul ! (n - 1 - p)) = (regs ! p = u))"
proof -
  define L where "L = fold (\<lambda>(c, p, l, u) d. set_position d c p l) es []"
  define U where "U = fold (\<lambda>(c, p, l, u) d. set_position d c p u) es []"
  obtain mx loads unloads where
    loads: "map_res (padded_sequence load_sequence True (chain_lengths_of manifest) mx) L = Inr loads"
    and unloads: "map_res (padded_sequence unload_sequence False (chain_lengths_of manifest) mx) U = Inr unloads"
    and pat: "load_seqs pat = loads" "expected_unload pat = unloads"
    using ser unfolding serialize_vector_def Let_def
    by (auto simp: bind_res_eq_Inr add_entry_fold [OF es] L_def U_def)
  have "map_of (get_or L c []) (int p) = Some l" "map_of (get_or U c []) (int p) = Some u"
    using fold_set_position [OF dist e, of "\<lambda>l u. l" "[]"] fold_set_position [OF dist e, of "\<lambda>l u. u" "[]"]
    by (simp_all add: L_def U_def)
  then have vals: "get_or (get_or L c []) (int p) False = l" "get_or (get_or U c []) (int p) False = u"
    by (simp_all add: get_or_def [of _ "int p"])
  have keys: "map_of L c = Some (get_or L c [])" "map_of U c = Some (get_or U c [])"
    using fold_set_position_key [OF e, of "\<lambda>l u. l" "[]"] fold_set_position_key [OF e, of "\<lambda>l u. u" "[]"]
    by (simp_all add: L_def U_def)
  obtain ld where ld: "padded_sequence load_sequence True (chain_lengths_of manifest) mx (c, get_or L c []) = Inr (c, ld)"
    and ldm: "map_of loads c = Some ld"
    using padded_sequence_lookup [OF loads keys(1)] by blast
  obtain ul where ul: "padded_sequence unload_sequence False (chain_lengths_of manifest) mx (c, get_or U c []) = Inr (c, ul)"
    and ulm: "map_of unloads c = Some ul"
    using padded_sequence_lookup [OF unloads keys(2)] by blast
  from padded_sequence_InrD [OF ld n] obtain lb where
    lb: "load_sequence (get_or L c []) (int n) = Inr lb" "ld = replicate (nat (mx - int n)) False @ lb"
    by metis
  from padded_sequence_InrD [OF ul n] obtain ub where
    ub: "load_sequence (get_or U c []) (int n) = Inr ub" "ul = ub @ replicate (nat (mx - int n)) False"
    by (metis unload_sequence_eq)
  have load: "fold reg_shift ld regs ! p = l" if "length regs = n" for regs
    using load_sequence_loads [OF lb(1) that, of "replicate (nat (mx - int n)) False"] p vals(1)
    by (simp add: lb(2))
  have lenu: "length ub = n" using length_load_sequence [OF ub(1)] by simp
  have "rev ub ! p = u" using load_sequence_rev [OF ub(1)] p vals(2) by simp
  then have ulp: "ul ! (n - 1 - p) = u" using p lenu by (simp add: ub(2) nth_append rev_nth)
  have "unload_bits reg_shift reg_so fill regs ! (n - 1 - p) = regs ! p"
    if "length regs = n" "n \<le> length fill" for regs fill
    using lreg.unload_bits_nth [OF that(1), of "n - 1 - p" fill] p that by simp
  with load ldm ulm pat ulp show ?thesis by auto
qed

text \<open>Two flip-flops on one chain of length 2, padded to 3; the second has no PPO.\<close>

definition ex_port_map :: "jobj dict" where
  "ex_port_map =
    [(''ff0'', [(''chain_id'', JInt 0), (''position_in_chain'', JInt 0),
                (''ppi_port'', JStr ''__ppi_ff0''), (''ppo_port'', JStr ''__ppo_ff0'')]),
     (''ff1'', [(''chain_id'', JInt 0), (''position_in_chain'', JInt 1), (''ppi_port'', JStr ''__ppi_ff1'')])]"

definition ex_vector :: "bool dict" where
  "ex_vector = [(''a'', True), (''__ppi_ff0'', True), (''__ppi_ff1'', False), (''__ppo_ff0'', False)]"

definition ex_manifest :: jobj where
  "ex_manifest = [(''chains'', JList [JObj [(''index'', JInt 0), (''length'', JInt 2)]]),
                  (''max_chain_length'', JInt 3)]"

definition ex_pattern :: ScanPattern where
  "ex_pattern = \<lparr>load_seqs = [(0, [False, False, True])], capture_pi_values = [(''a'', True)],
     expected_unload = [(0, [False, False, False])], launch = [], launch_scan_in = []\<rparr>"

theorem serialize_vector_correct_witness:
  "\<exists>ld ul. map_of (load_seqs ex_pattern) 0 = Some ld \<and> map_of (expected_unload ex_pattern) 0 = Some ul
    \<and> (\<forall>regs. length regs = 2 \<longrightarrow> fold reg_shift ld regs ! 0 = True)
    \<and> (\<forall>regs fill. length regs = 2 \<longrightarrow> 2 \<le> length fill \<longrightarrow>
         (unload_bits reg_shift reg_so fill regs ! (2 - 1 - 0) = ul ! (2 - 1 - 0)) = (regs ! 0 = False))"
proof (rule serialize_vector_correct)
  show "serialize_vector ex_vector ex_port_map ex_manifest = Inr ex_pattern" by code_simp
  show "map_res (vector_entry ex_vector) (map snd ex_port_map) =
      Inr [(0, 0, True, False), (0, 1, False, False)]" by code_simp
  show "distinct (map entry_place [(0, 0, True, False), (0, 1, False, False)])" by code_simp
  show "map_of (chain_lengths_of ex_manifest) 0 = Some (int 2)" by code_simp
qed simp_all

end
