(* ===== verification/Retarget.thy ===== *)
theory Retarget
  imports Scan_Protocol
begin

text \<open>
  Scan-pattern retargeting, \<^verbatim>\<open>faultflow/retarget\<close>: the SoC scan-access manifest
  (\<^verbatim>\<open>soc_access.py\<close>), the placement of a block's scan pattern at its SoC segment offsets
  (\<^verbatim>\<open>transform.py\<close>), the portable form of the result (\<^verbatim>\<open>emit.py\<close>) and the comparison with the
  simulated SoC response (\<^verbatim>\<open>verify_soc.py\<close>, with the simulator of the C++ core as a parameter).
\<close>

section \<open>The SoC access manifest (soc\_access.py)\<close>

definition SOC_ACCESS_SCHEMA :: string where
  "SOC_ACCESS_SCHEMA = ''faultflow_soc_access_v1''"

record SocSegment =
  seg_block :: string
  seg_block_chain :: "int option"
  seg_offset :: int
  seg_length :: int

record SocChain =
  ch_index :: int
  ch_scan_in :: string
  ch_scan_out :: string
  ch_length :: int
  ch_segments :: "SocSegment list"

record SocAccess =
  assembly_top :: string
  scan_inputs :: "json list"
  scan_outputs :: "json list"
  scan_enable :: string
  clock_ports :: "json list"
  max_chain_length :: int
  soc_chains :: "SocChain list"
  wrapper_instruction :: "string dict"

definition carries :: "string \<Rightarrow> SocSegment \<Rightarrow> bool" where
  "carries block seg = (seg_block seg = block \<and> seg_block_chain seg \<noteq> None)"

definition chain_for_block :: "SocAccess \<Rightarrow> string \<Rightarrow> SocChain res" where
  "chain_for_block access block =
     (case find (\<lambda>chain. list_ex (carries block) (ch_segments chain)) (soc_chains access) of
        Some chain \<Rightarrow> Inr chain
      | None \<Rightarrow> Inl (SocAccessError (''no SoC chain carries an INTEST segment for '' @ repr_str block)))"

definition req :: "json \<Rightarrow> string \<Rightarrow> string \<Rightarrow> json res" where
  "req obj key at =
     (let missing = Inl (SocAccessError (at @ '': missing required field '' @ repr_str key))
      in case obj of
           JObj d \<Rightarrow> (case map_of d key of None \<Rightarrow> missing | Some v \<Rightarrow> Inr v)
         | JList xs \<Rightarrow> if JStr key \<in> set xs then Inl TypeError else missing
         | JStr s \<Rightarrow> if contains_str s key then Inl TypeError else missing
         | _ \<Rightarrow> Inl TypeError)"

text \<open>The loop over the offset-sorted segments: each must start where the previous one ended.\<close>

fun parse_segments :: "string \<Rightarrow> nat \<Rightarrow> int \<Rightarrow> json list \<Rightarrow> (SocSegment list \<times> int) res" where
  "parse_segments at j covered [] = Inr ([], covered)"
| "parse_segments at j covered (rs # rest) =
     (let sw = at @ ''.segments['' @ show_nat j @ '']''
      in bind_res (bind_res (req rs ''soc_offset'' sw) py_int) (\<lambda>offset.
         bind_res (bind_res (req rs ''length'' sw) py_int) (\<lambda>seg_len.
         if offset \<noteq> covered
         then Inl (SocAccessError (sw @ '': soc_offset '' @ show_int offset @
                '' leaves a gap/overlap (expected '' @ show_int covered @ ''); segments must tile the chain''))
         else bind_res (obj_get rs ''block_chain'' JNull) (\<lambda>bc.
         bind_res (req rs ''block'' sw) (\<lambda>blk.
         bind_res (if bc = JNull then Inr None else bind_res (py_int bc) (\<lambda>n. Inr (Some n))) (\<lambda>bc'.
         bind_res (parse_segments at (Suc j) (covered + seg_len) rest) (\<lambda>(segs, covered_total).
         Inr (\<lparr> seg_block = py_str blk, seg_block_chain = bc', seg_offset = offset,
                seg_length = seg_len \<rparr> # segs, covered_total))))))))"

definition parse_chain :: "json \<Rightarrow> nat \<Rightarrow> SocChain res" where
  "parse_chain raw i =
     (let at = ''soc_chains['' @ show_nat i @ '']''
      in bind_res (req raw ''segments'' at) (\<lambda>raw_segs.
         case as_list raw_segs of
           None \<Rightarrow> Inl (SocAccessError (at @ ''.segments must be a non-empty list''))
         | Some segs \<Rightarrow>
             if segs = [] then Inl (SocAccessError (at @ ''.segments must be a non-empty list''))
             else bind_res (bind_res (req raw ''length'' at) py_int) (\<lambda>len.
               bind_res (map_res (\<lambda>s. bind_res (obj_get s ''soc_offset'' (JInt 0)) py_int) segs) (\<lambda>keys.
               bind_res (parse_segments at 0 0 (map snd (sort_key fst (zip keys segs)))) (\<lambda>(segments, covered).
               if covered \<noteq> len
               then Inl (SocAccessError (at @ '': segments cover '' @ show_int covered @
                      '' bits but chain length is '' @ show_int len))
               else bind_res (bind_res (req raw ''index'' at) py_int) (\<lambda>index.
                    bind_res (req raw ''scan_in'' at) (\<lambda>si.
                    bind_res (req raw ''scan_out'' at) (\<lambda>so.
                    Inr \<lparr> ch_index = index, ch_scan_in = py_str si, ch_scan_out = py_str so,
                          ch_length = len, ch_segments = segments \<rparr>))))))))"

definition parse_soc_access :: "jobj \<Rightarrow> SocAccess res" where
  "parse_soc_access data =
     (if get_or data ''schema'' JNull \<noteq> JStr SOC_ACCESS_SCHEMA
      then Inl (SocAccessError (''unsupported schema '' @ py_repr (get_or data ''schema'' JNull) @
             ''; expected '' @ repr_str SOC_ACCESS_SCHEMA))
      else bind_res (req (JObj data) ''soc_scan'' ''soc_access'') (\<lambda>soc_scan.
           bind_res (req (JObj data) ''soc_chains'' ''soc_access'') (\<lambda>raw_chains.
           case as_list raw_chains of
             None \<Rightarrow> Inl (SocAccessError ''soc_chains must be a non-empty list'')
           | Some rcs \<Rightarrow>
               if rcs = [] then Inl (SocAccessError ''soc_chains must be a non-empty list'')
               else bind_res (map_res (\<lambda>(i, rc). parse_chain rc i) (enumerate 0 rcs)) (\<lambda>chs.
                 case as_obj (get_or data ''wrapper_instruction'' (JObj [])) of
                   None \<Rightarrow> Inl (SocAccessError ''wrapper_instruction must be an object'')
                 | Some instr \<Rightarrow>
                     bind_res (req (JObj data) ''assembly_top'' ''soc_access'') (\<lambda>atop.
                     bind_res (bind_res (req soc_scan ''scan_inputs'' ''soc_scan'') py_tuple) (\<lambda>sis.
                     bind_res (bind_res (req soc_scan ''scan_outputs'' ''soc_scan'') py_tuple) (\<lambda>sos.
                     bind_res (req soc_scan ''scan_enable'' ''soc_scan'') (\<lambda>se.
                     bind_res (bind_res (obj_get soc_scan ''clock_ports'' (JList [])) py_tuple) (\<lambda>cps.
                     bind_res (bind_res (req soc_scan ''max_chain_length'' ''soc_scan'') py_int) (\<lambda>mcl.
                     Inr \<lparr> assembly_top = py_str atop, scan_inputs = sis, scan_outputs = sos,
                           scan_enable = py_str se, clock_ports = cps, max_chain_length = mcl,
                           soc_chains = chs,
                           wrapper_instruction = map (\<lambda>(k, v). (k, py_str v)) instr \<rparr>))))))))))"

section \<open>Placing a block pattern (transform.py)\<close>

record SocScanPattern =
  sp_load_seqs :: "(int \<times> bool list) list"
  sp_capture_pi_values :: "bool dict"
  sp_expected_unload :: "(int \<times> bool list) list"
  sp_unload_mask :: "(int \<times> bool list) list"
  sp_source_block :: string
  sp_block_chains :: "int list"

definition block_value_at :: "bool list \<Rightarrow> int \<Rightarrow> int \<Rightarrow> bool" where
  "block_value_at seq len block_pos =
     (let shift_idx = len - 1 - block_pos
      in if 0 \<le> shift_idx \<and> shift_idx < int (length seq) then seq ! nat shift_idx else False)"

text \<open>A slice \<^verbatim>\<open>seq[len(seq) - n :]\<close> resp. \<^verbatim>\<open>seq[:n]\<close>; a negative \<open>n\<close> slices as Python does.\<close>

definition strip_block_level_padding :: "bool list \<Rightarrow> int \<Rightarrow> bool \<Rightarrow> bool list" where
  "strip_block_level_padding seq real_length pad_at_front =
     (if int (length seq) \<le> real_length then seq
      else if pad_at_front then drop (nat (int (length seq) - real_length)) seq
      else if 0 \<le> real_length then take (nat real_length) seq
      else take (nat (int (length seq) + real_length)) seq)"

text \<open>\<^verbatim>\<open>xs[i] = v\<close>.\<close>

definition list_set :: "'a list \<Rightarrow> int \<Rightarrow> 'a \<Rightarrow> 'a list res" where
  "list_set xs i v =
     (let j = (if i < 0 then int (length xs) + i else i)
      in if 0 \<le> j \<and> j < int (length xs) then Inr (xs[nat j := v]) else Inl IndexError)"

type_synonym placement = "bool list \<times> bool list \<times> bool list"

definition place_bit ::
  "string \<Rightarrow> SocChain \<Rightarrow> SocSegment \<Rightarrow> int \<Rightarrow> bool list \<Rightarrow> bool list \<Rightarrow> int \<Rightarrow> placement \<Rightarrow> placement res" where
  "place_bit source_block chain seg bc bload bunload p v =
     (case v of (load_v, unload_v, mask_v) \<Rightarrow>
        let soc_pos = seg_offset seg + p
        in if ch_length chain \<le> soc_pos
           then Inl (SocAccessError (''segment for '' @ repr_str source_block @ '' chain '' @ show_int bc @
                  '' overruns SoC chain '' @ show_int (ch_index chain) @ '' (pos '' @ show_int soc_pos @
                  '' >= '' @ show_int (ch_length chain) @ '')''))
           else bind_res (list_set load_v soc_pos (block_value_at bload (seg_length seg) p)) (\<lambda>l.
                bind_res (list_set unload_v soc_pos (block_value_at bunload (seg_length seg) p)) (\<lambda>u.
                bind_res (list_set mask_v soc_pos True) (\<lambda>m. Inr (l, u, m)))))"

definition place_segment ::
  "(int \<times> bool list) list \<Rightarrow> (int \<times> bool list) list \<Rightarrow> string \<Rightarrow> SocChain \<Rightarrow> SocSegment \<Rightarrow>
   placement \<times> int list \<Rightarrow> (placement \<times> int list) res" where
  "place_segment bp_load bp_unload source_block chain seg s =
     (case s of (v, placed) \<Rightarrow>
        (case seg_block_chain seg of
           None \<Rightarrow> Inr s
         | Some bc \<Rightarrow>
             if seg_block seg \<noteq> source_block then Inr s
             else let bload = strip_block_level_padding (get_or bp_load bc []) (seg_length seg) True;
                      bunload = strip_block_level_padding (get_or bp_unload bc []) (seg_length seg) False
                  in bind_res (fold_res (place_bit source_block chain seg bc bload bunload)
                         [0..seg_length seg - 1] v)
                       (\<lambda>v'. Inr (v', List.insert bc placed))))"

text \<open>Position-indexed values back to shift order: load pads before the payload, unload after.\<close>

definition retarget_chain ::
  "ScanPattern \<Rightarrow> SocAccess \<Rightarrow> string \<Rightarrow> SocChain \<Rightarrow> SocScanPattern \<Rightarrow> SocScanPattern res" where
  "retarget_chain block_pattern soc_access source_block chain out =
     (let n = nat (ch_length chain); blank = replicate n False
      in bind_res (fold_res
           (place_segment (load_seqs block_pattern) (expected_unload block_pattern) source_block chain)
           (ch_segments chain) ((blank, blank, blank), sp_block_chains out))
         (\<lambda>((load_v, unload_v, mask_v), placed).
           let pad = max_chain_length soc_access - ch_length chain
           in if pad < 0
              then Inl (SocAccessError (''SoC chain '' @ show_int (ch_index chain) @ '' length '' @
                     show_int (ch_length chain) @ '' exceeds max_chain_length''))
              else Inr (out\<lparr>
                sp_load_seqs := dict_set (sp_load_seqs out) (ch_index chain)
                  (replicate (nat pad) False @ map (\<lambda>k. load_v ! (n - 1 - k)) [0..<n]),
                sp_expected_unload := dict_set (sp_expected_unload out) (ch_index chain)
                  (map (\<lambda>k. unload_v ! (n - 1 - k)) [0..<n] @ replicate (nat pad) False),
                sp_unload_mask := dict_set (sp_unload_mask out) (ch_index chain)
                  (map (\<lambda>k. mask_v ! (n - 1 - k)) [0..<n] @ replicate (nat pad) False),
                sp_block_chains := placed\<rparr>)))"

definition retarget_block_pattern :: "ScanPattern \<Rightarrow> SocAccess \<Rightarrow> string \<Rightarrow> SocScanPattern res" where
  "retarget_block_pattern block_pattern soc_access source_block =
     bind_res (fold_res (retarget_chain block_pattern soc_access source_block) (soc_chains soc_access)
         \<lparr> sp_load_seqs = [], sp_capture_pi_values = capture_pi_values block_pattern,
           sp_expected_unload = [], sp_unload_mask = [], sp_source_block = source_block,
           sp_block_chains = [] \<rparr>)
       (\<lambda>out.
         let missing = filter (\<lambda>c. c \<notin> set (sp_block_chains out)) (map fst (load_seqs block_pattern))
         in if missing \<noteq> []
            then Inl (SocAccessError (''block '' @ repr_str source_block @ '' chains ['' @
                   join_str '', '' (map show_int (sorted_set missing)) @
                   ''] have no SoC segment in the access manifest''))
            else Inr (out\<lparr>sp_block_chains := sort (sp_block_chains out)\<rparr>))"

section \<open>Portable form (emit.py)\<close>

definition RETARGETED_SCHEMA :: string where
  "RETARGETED_SCHEMA = ''faultflow_retargeted_v1''"

definition seqs_to_json :: "(int \<times> bool list) list \<Rightarrow> json" where
  "seqs_to_json d = JObj (dict_of (map (\<lambda>(k, v). (show_int k, JList (map JBool v))) d))"

definition pattern_to_dict ::
  "SocScanPattern \<Rightarrow> string \<Rightarrow> json \<Rightarrow> jobj option \<Rightarrow> jobj option \<Rightarrow> jobj" where
  "pattern_to_dict pattern atop soc_access_ref credit provenance =
     [(''schema'', JStr RETARGETED_SCHEMA),
      (''assembly_top'', JStr atop),
      (''source_block'', JStr (sp_source_block pattern)),
      (''soc_access_ref'', soc_access_ref),
      (''block_chains'', JList (map JInt (sp_block_chains pattern))),
      (''soc_pattern'', JObj
        [(''load_seqs'', seqs_to_json (sp_load_seqs pattern)),
         (''capture_pi_values'', JObj (map (\<lambda>(k, v). (k, JBool v)) (sp_capture_pi_values pattern))),
         (''expected_unload'', seqs_to_json (sp_expected_unload pattern)),
         (''unload_mask'', seqs_to_json (sp_unload_mask pattern))]),
      (''credit'', JObj (case credit of None \<Rightarrow> [] | Some d \<Rightarrow> d)),
      (''provenance'', JObj (case provenance of None \<Rightarrow> [] | Some d \<Rightarrow> d))]"

text \<open>\<^verbatim>\<open>x.items()\<close> of a JSON value.\<close>

definition items_of :: "json \<Rightarrow> jobj res" where
  "items_of j = (case as_obj j of None \<Rightarrow> Inl AttributeError | Some d \<Rightarrow> Inr d)"

definition ints_of :: "json \<Rightarrow> (int \<times> bool list) list res" where
  "ints_of j = bind_res (items_of j) (\<lambda>d.
     bind_res (map_res (\<lambda>(k, v). bind_res (py_int (JStr k)) (\<lambda>n.
       bind_res (py_tuple v) (\<lambda>bs. Inr (n, map truthy bs)))) d) (\<lambda>kvs. Inr (dict_of kvs)))"

definition dict_to_pattern :: "jobj \<Rightarrow> SocScanPattern res" where
  "dict_to_pattern data =
     (if get_or data ''schema'' JNull \<noteq> JStr RETARGETED_SCHEMA
      then Inl (ValueError (''unsupported schema '' @ py_repr (get_or data ''schema'' JNull) @
             ''; expected '' @ repr_str RETARGETED_SCHEMA))
      else bind_res (getitem data ''soc_pattern'') (\<lambda>sp.
           bind_res (bind_res (subscript sp ''load_seqs'') ints_of) (\<lambda>ld.
           bind_res (bind_res (subscript sp ''capture_pi_values'') items_of) (\<lambda>pis.
           bind_res (bind_res (subscript sp ''expected_unload'') ints_of) (\<lambda>un.
           bind_res (bind_res (subscript sp ''unload_mask'') ints_of) (\<lambda>mk.
           bind_res (getitem data ''source_block'') (\<lambda>blk.
           bind_res (bind_res (py_tuple (get_or data ''block_chains'' (JList []))) (map_res py_int)) (\<lambda>bcs.
           Inr \<lparr> sp_load_seqs = ld, sp_capture_pi_values = map (\<lambda>(k, v). (k, truthy v)) pis,
                 sp_expected_unload = un, sp_unload_mask = mk,
                 sp_source_block = py_str blk, sp_block_chains = bcs \<rparr>))))))))"

section \<open>Comparing with the simulated response (verify\_soc.py)\<close>

record SocVerifyResult =
  verified :: bool
  compared :: nat
  mismatches :: "(int \<times> nat \<times> bool \<times> bool option) list"

text \<open>One chain: every masked position counts; a position the simulator did not return, or
  returned differently, is a mismatch. \<^verbatim>\<open>exp[k]\<close> out of range raises.\<close>

definition verify_bit ::
  "int \<Rightarrow> bool list \<Rightarrow> bool list \<Rightarrow> nat \<times> bool \<Rightarrow>
   nat \<times> (int \<times> nat \<times> bool \<times> bool option) list \<Rightarrow>
   (nat \<times> (int \<times> nat \<times> bool \<times> bool option) list) res" where
  "verify_bit index got exp item acc =
     (case (item, acc) of ((k, owned), (n, mis)) \<Rightarrow>
        if \<not> owned then Inr (n, mis)
        else let actual = (if k < length got then Some (got ! k) else None)
             in if length exp \<le> k then Inl IndexError
                else if actual = None \<or> actual \<noteq> Some (exp ! k)
                     then Inr (Suc n, mis @ [(index, k, exp ! k, actual)])
                     else Inr (Suc n, mis))"

definition verify_chain ::
  "SocScanPattern \<Rightarrow> (int \<times> bool list) list \<Rightarrow> SocChain \<Rightarrow>
   nat \<times> (int \<times> nat \<times> bool \<times> bool option) list \<Rightarrow>
   (nat \<times> (int \<times> nat \<times> bool \<times> bool option) list) res" where
  "verify_chain pattern unload chain =
     fold_res (verify_bit (ch_index chain) (get_or unload (ch_index chain) [])
        (get_or (sp_expected_unload pattern) (ch_index chain) []))
       (enumerate 0 (get_or (sp_unload_mask pattern) (ch_index chain) []))"

text \<open>\<open>simulate\<close> is \<^verbatim>\<open>core.simulate_scan_pattern(...)["unload_seqs"]\<close>: the scan-in and scan-out
  ports in chain order, the load sequences and the capture inputs to the unloaded bits.\<close>

definition soc_unload ::
  "(string list \<Rightarrow> string list \<Rightarrow> int \<Rightarrow> (int \<times> bool list) list \<Rightarrow> bool dict \<Rightarrow> (int \<times> bool list) list) \<Rightarrow>
   SocAccess \<Rightarrow> SocScanPattern \<Rightarrow> (int \<times> bool list) list" where
  "soc_unload simulate soc_access pattern =
     (let chs = sort_key ch_index (soc_chains soc_access)
      in simulate (map ch_scan_in chs) (map ch_scan_out chs) (max_chain_length soc_access)
           (sp_load_seqs pattern) (sp_capture_pi_values pattern))"

definition verify_soc ::
  "(string list \<Rightarrow> string list \<Rightarrow> int \<Rightarrow> (int \<times> bool list) list \<Rightarrow> bool dict \<Rightarrow> (int \<times> bool list) list) \<Rightarrow>
   SocAccess \<Rightarrow> SocScanPattern \<Rightarrow> SocVerifyResult res" where
  "verify_soc simulate soc_access pattern =
     bind_res (fold_res (verify_chain pattern (soc_unload simulate soc_access pattern))
         (sort_key ch_index (soc_chains soc_access)) (0, []))
       (\<lambda>(n, mis). Inr \<lparr> verified = (mis = []), compared = n, mismatches = mis \<rparr>)"

section \<open>Tiling\<close>

text \<open>Segments that follow one another from \<open>c\<close> to \<open>n\<close> without gap or overlap.\<close>

fun tiled :: "int \<Rightarrow> SocSegment list \<Rightarrow> int \<Rightarrow> bool" where
  "tiled c [] n = (c = n)"
| "tiled c (s # ss) n = (seg_offset s = c \<and> tiled (c + seg_length s) ss n)"

definition covers :: "SocSegment \<Rightarrow> int \<Rightarrow> bool" where
  "covers s pos = (seg_offset s \<le> pos \<and> pos < seg_offset s + seg_length s)"

lemma parse_segments_tiled: "parse_segments at j c raws = Inr (segs, covered_total) \<Longrightarrow> tiled c segs covered_total"
proof (induction raws arbitrary: j c segs)
  case (Cons rs rest)
  then obtain seg segs' where segs: "segs = seg # segs'" "seg_offset seg = c"
    and rest: "parse_segments at (Suc j) (c + seg_length seg) rest = Inr (segs', covered_total)"
    by (auto simp: Let_def bind_res_eq_Inr split: if_splits)
  with Cons.IH show ?case by simp
qed auto

lemma tiled_le: "tiled c segs n \<Longrightarrow> \<forall>s \<in> set segs. 0 \<le> seg_length s \<Longrightarrow> c \<le> n"
  by (induction c segs n rule: tiled.induct) auto

lemma tiled_bounds:
  "tiled c segs n \<Longrightarrow> \<forall>s \<in> set segs. 0 \<le> seg_length s \<Longrightarrow> s \<in> set segs \<Longrightarrow>
     c \<le> seg_offset s \<and> seg_offset s + seg_length s \<le> n"
proof (induction c segs n rule: tiled.induct)
  case (2 c t ss n)
  then have "c + seg_length t \<le> n" using tiled_le [of "c + seg_length t" ss n] by auto
  with 2 show ?case by fastforce
qed simp

lemma tiled_covered_once:
  assumes "tiled c segs n" and "\<forall>s \<in> set segs. 0 \<le> seg_length s" and "c \<le> pos" and "pos < n"
  shows "\<exists>!i. i < length segs \<and> covers (segs ! i) pos"
  using assms
proof (induction c segs n rule: tiled.induct)
  case (2 c t ss n)
  have later: "c + seg_length t \<le> seg_offset (ss ! i)" if "i < length ss" for i
    using tiled_bounds [of "c + seg_length t" ss n "ss ! i"] that 2 by auto
  show ?case
  proof (cases "pos < c + seg_length t")
    case True
    then have "covers t pos" and "\<And>i. i < length ss \<Longrightarrow> \<not> covers (ss ! i) pos"
      using 2 later by (fastforce simp: covers_def)+
    then show ?thesis by (intro ex1I [of _ 0]) (auto simp: nth_Cons split: nat.splits)
  next
    case False
    with 2 have "\<exists>!i. i < length ss \<and> covers (ss ! i) pos" by simp
    then obtain i where i: "i < length ss" "covers (ss ! i) pos"
      and uniq: "\<And>j. j < length ss \<Longrightarrow> covers (ss ! j) pos \<Longrightarrow> j = i"
      by (elim ex1E) blast
    have nt: "\<not> covers t pos" using False 2 by (simp add: covers_def)
    show ?thesis
    proof (rule ex1I [of _ "Suc i"])
      show "Suc i < length (t # ss) \<and> covers ((t # ss) ! Suc i) pos" using i by simp
      fix j assume "j < length (t # ss) \<and> covers ((t # ss) ! j) pos"
      then show "j = Suc i" using nt uniq by (cases j) simp_all
    qed
  qed
qed simp

lemma parse_chain_tiled: "parse_chain raw i = Inr ch \<Longrightarrow> tiled 0 (ch_segments ch) (ch_length ch)"
  by (auto simp: parse_chain_def Let_def res_simps dest!: parse_segments_tiled)

lemma parse_soc_access_chains:
  assumes "parse_soc_access data = Inr a" and "ch \<in> set (soc_chains a)"
  shows "\<exists>raw i. parse_chain raw i = Inr ch"
proof -
  from assms(1) obtain rcs where "map_res (\<lambda>(i, rc). parse_chain rc i) (enumerate 0 rcs) = Inr (soc_chains a)"
    by (auto simp: parse_soc_access_def res_simps)
  then have "list_all2 (\<lambda>x y. (\<lambda>(i, rc). parse_chain rc i) x = Inr y) (enumerate 0 rcs) (soc_chains a)"
    by (simp add: map_res_eq_Inr)
  with assms(2) show ?thesis
    by (fastforce simp: list_all2_conv_all_nth in_set_conv_nth nth_enumerate_eq)
qed

text \<open>
  C15. An accepted SoC access manifest tiles every scan chain: its segments run from 0 to the chain
  length without gap or overlap, and when no segment has a negative length every position of the
  chain belongs to exactly one segment.
\<close>

theorem parse_soc_access_tiles:
  assumes "parse_soc_access data = Inr a" and "ch \<in> set (soc_chains a)"
  shows "tiled 0 (ch_segments ch) (ch_length ch)
    \<and> ((\<forall>s \<in> set (ch_segments ch). 0 \<le> seg_length s) \<longrightarrow>
        (\<forall>pos. 0 \<le> pos \<and> pos < ch_length ch \<longrightarrow>
          (\<exists>!i. i < length (ch_segments ch) \<and> covers (ch_segments ch ! i) pos)))"
proof -
  from parse_soc_access_chains [OF assms] have t: "tiled 0 (ch_segments ch) (ch_length ch)"
    using parse_chain_tiled by blast
  with tiled_covered_once [OF t] show ?thesis by blast
qed

section \<open>Placement\<close>

lemma list_set_in_range: "0 \<le> i \<Longrightarrow> i < int (length xs) \<Longrightarrow> list_set xs i v = Inr (xs[nat i := v])"
  by (simp add: list_set_def)

text \<open>\<open>xs\<close> with the \<open>n\<close> positions from \<open>off\<close> replaced by \<open>f 0, f 1, \<dots>\<close>\<close>

definition overlay :: "int \<Rightarrow> nat \<Rightarrow> (int \<Rightarrow> bool) \<Rightarrow> bool list \<Rightarrow> bool list" where
  "overlay off n f xs =
     map (\<lambda>i. if off \<le> int i \<and> int i < off + int n then f (int i - off) else xs ! i) [0..<length xs]"

lemma length_overlay [simp]: "length (overlay off n f xs) = length xs"
  by (simp add: overlay_def)

lemma overlay_0 [simp]: "overlay off 0 f xs = xs"
  by (rule nth_equalityI) (auto simp: overlay_def)

lemma overlay_nth: "i < length xs \<Longrightarrow> overlay off n f xs ! i =
    (if off \<le> int i \<and> int i < off + int n then f (int i - off) else xs ! i)"
  by (simp add: overlay_def)

lemma overlay_Suc:
  assumes "0 \<le> off"
  shows "(overlay off n f xs)[nat (off + int n) := f (int n)] = overlay off (Suc n) f xs"
proof (rule nth_equalityI)
  fix i assume "i < length ((overlay off n f xs)[nat (off + int n) := f (int n)])"
  then show "(overlay off n f xs)[nat (off + int n) := f (int n)] ! i = overlay off (Suc n) f xs ! i"
    using assms by (cases "i = nat (off + int n)") (auto simp: overlay_nth)
qed simp

lemma place_bits:
  assumes "0 \<le> seg_offset seg" and "seg_offset seg + int n \<le> ch_length chain"
    and "length l = nat (ch_length chain)" "length u = nat (ch_length chain)" "length m = nat (ch_length chain)"
  shows "fold_res (place_bit src chain seg bc bload bunload) [0..int n - 1] (l, u, m) =
    Inr (overlay (seg_offset seg) n (block_value_at bload (seg_length seg)) l,
         overlay (seg_offset seg) n (block_value_at bunload (seg_length seg)) u,
         overlay (seg_offset seg) n (\<lambda>_. True) m)"
  using assms(2)
proof (induction n)
  case (Suc n)
  have up: "[0..int (Suc n) - 1] = [0..int n - 1] @ [int n]"
    using upto_rec2 [of 0 "int n"] by simp
  from Suc assms have "place_bit src chain seg bc bload bunload (int n)
      (overlay (seg_offset seg) n (block_value_at bload (seg_length seg)) l,
       overlay (seg_offset seg) n (block_value_at bunload (seg_length seg)) u,
       overlay (seg_offset seg) n (\<lambda>_. True) m) =
    Inr (overlay (seg_offset seg) (Suc n) (block_value_at bload (seg_length seg)) l,
         overlay (seg_offset seg) (Suc n) (block_value_at bunload (seg_length seg)) u,
         overlay (seg_offset seg) (Suc n) (\<lambda>_. True) m)"
    using overlay_Suc [OF assms(1), of n "\<lambda>_. True"] overlay_Suc [OF assms(1), of n]
    by (simp add: place_bit_def Let_def list_set_in_range)
  with Suc show ?case by (simp add: up fold_res_append del: of_nat_Suc)
qed simp

text \<open>What a segment writes at its positions: the block's bits and a set mask if it carries a
  chain of the source block, nothing otherwise.\<close>

definition written ::
  "(int \<times> bool list) list \<Rightarrow> (int \<times> bool list) list \<Rightarrow> string \<Rightarrow> SocSegment \<Rightarrow> int \<Rightarrow>
   bool \<times> bool \<times> bool \<Rightarrow> bool \<times> bool \<times> bool" where
  "written bp_load bp_unload src seg p old =
     (if carries src seg
      then (block_value_at (strip_block_level_padding (get_or bp_load (the (seg_block_chain seg)) [])
              (seg_length seg) True) (seg_length seg) p,
            block_value_at (strip_block_level_padding (get_or bp_unload (the (seg_block_chain seg)) [])
              (seg_length seg) False) (seg_length seg) p,
            True)
      else old)"

definition at3 :: "placement \<Rightarrow> nat \<Rightarrow> bool \<times> bool \<times> bool" where
  "at3 v i = (fst v ! i, fst (snd v) ! i, snd (snd v) ! i)"

definition len3 :: "placement \<Rightarrow> nat \<Rightarrow> bool" where
  "len3 v n = (length (fst v) = n \<and> length (fst (snd v)) = n \<and> length (snd (snd v)) = n)"

lemma place_segment_step:
  assumes "0 \<le> seg_offset seg" "0 \<le> seg_length seg" "seg_offset seg + seg_length seg \<le> ch_length chain"
    and "len3 v (nat (ch_length chain))"
  obtains v' pl' where "place_segment bl bu src chain seg (v, pl) = Inr (v', pl')"
    and "len3 v' (nat (ch_length chain))"
    and "\<And>i. i < nat (ch_length chain) \<Longrightarrow> at3 v' i =
        (if covers seg (int i) then written bl bu src seg (int i - seg_offset seg) (at3 v i) else at3 v i)"
    and "set pl' = set pl \<union> (if carries src seg then {the (seg_block_chain seg)} else {})"
proof (cases "carries src seg")
  case False
  then have "place_segment bl bu src chain seg (v, pl) = Inr (v, pl)"
    by (auto simp: place_segment_def carries_def split: option.splits)
  with False assms(4) that [of v pl] show ?thesis by (simp add: written_def)
next
  case True
  then obtain bc where bc: "seg_block_chain seg = Some bc" "seg_block seg = src"
    by (auto simp: carries_def)
  obtain l u m where v: "v = (l, u, m)" by (cases v)
  define bload where "bload = strip_block_level_padding (get_or bl bc []) (seg_length seg) True"
  define bunload where "bunload = strip_block_level_padding (get_or bu bc []) (seg_length seg) False"
  define w where "w = (overlay (seg_offset seg) (nat (seg_length seg)) (block_value_at bload (seg_length seg)) l,
         overlay (seg_offset seg) (nat (seg_length seg)) (block_value_at bunload (seg_length seg)) u,
         overlay (seg_offset seg) (nat (seg_length seg)) (\<lambda>_. True) m)"
  have "place_segment bl bu src chain seg (v, pl) = Inr (w, List.insert bc pl)"
    using place_bits [of seg "nat (seg_length seg)" chain l u m src bc bload bunload] assms
    by (simp add: place_segment_def bc v bload_def [symmetric] bunload_def [symmetric] w_def len3_def)
  moreover have "len3 w (nat (ch_length chain))" using assms(4) by (simp add: w_def v len3_def)
  moreover have "at3 w i = (if covers seg (int i)
      then written bl bu src seg (int i - seg_offset seg) (at3 v i) else at3 v i)"
    if "i < nat (ch_length chain)" for i
    using that assms True bc
    by (simp add: w_def v at3_def len3_def overlay_nth covers_def written_def bload_def bunload_def)
  ultimately show ?thesis using that [of w "List.insert bc pl"] True bc by simp
qed

lemma place_segments:
  assumes "tiled c segs (ch_length chain)" "\<forall>s \<in> set segs. 0 \<le> seg_length s" "0 \<le> c"
    and "len3 v (nat (ch_length chain))"
  shows "\<exists>v' pl'. fold_res (place_segment bl bu src chain) segs (v, pl) = Inr (v', pl')
    \<and> len3 v' (nat (ch_length chain))
    \<and> (\<forall>i < nat (ch_length chain). int i < c \<longrightarrow> at3 v' i = at3 v i)
    \<and> (\<forall>seg \<in> set segs. \<forall>i < nat (ch_length chain). covers seg (int i) \<longrightarrow>
         at3 v' i = written bl bu src seg (int i - seg_offset seg) (at3 v i))
    \<and> set pl' = set pl \<union> {bc. \<exists>seg \<in> set segs. carries src seg \<and> seg_block_chain seg = Some bc}"
  using assms
proof (induction segs arbitrary: c v pl)
  case Nil
  then show ?case by auto
next
  case (Cons seg segs)
  from Cons.prems have off: "seg_offset seg = c" and t: "tiled (c + seg_length seg) segs (ch_length chain)"
    and nn: "\<forall>s \<in> set segs. 0 \<le> seg_length s" and n0: "0 \<le> seg_length seg" by auto
  have le: "c + seg_length seg \<le> ch_length chain" by (rule tiled_le [OF t nn])
  obtain v1 pl1 where step: "place_segment bl bu src chain seg (v, pl) = Inr (v1, pl1)"
    and len1: "len3 v1 (nat (ch_length chain))"
    and at1: "\<And>i. i < nat (ch_length chain) \<Longrightarrow> at3 v1 i =
        (if covers seg (int i) then written bl bu src seg (int i - seg_offset seg) (at3 v i) else at3 v i)"
    and pl1: "set pl1 = set pl \<union> (if carries src seg then {the (seg_block_chain seg)} else {})"
    by (rule place_segment_step [of seg chain v bl bu src pl]) (use Cons.prems off le n0 in auto)
  from Cons.IH [OF t nn _ len1, of pl1] Cons.prems(3) n0 obtain v2 pl2 where
    rest: "fold_res (place_segment bl bu src chain) segs (v1, pl1) = Inr (v2, pl2)"
      "len3 v2 (nat (ch_length chain))"
    and before: "\<And>i. i < nat (ch_length chain) \<Longrightarrow> int i < c + seg_length seg \<Longrightarrow> at3 v2 i = at3 v1 i"
    and on: "\<And>sg i. sg \<in> set segs \<Longrightarrow> i < nat (ch_length chain) \<Longrightarrow> covers sg (int i) \<Longrightarrow>
        at3 v2 i = written bl bu src sg (int i - seg_offset sg) (at3 v1 i)"
    and pl2: "set pl2 = set pl1 \<union> {bc. \<exists>seg \<in> set segs. carries src seg \<and> seg_block_chain seg = Some bc}"
    by auto
  have notseg: "\<not> covers seg (int i)" if "sg \<in> set segs" "covers sg (int i)" for sg i
    using tiled_bounds [OF t nn that(1)] that(2) off by (auto simp: covers_def)
  have "\<forall>i < nat (ch_length chain). int i < c \<longrightarrow> at3 v2 i = at3 v i"
    using before at1 off n0 by (auto simp: covers_def)
  moreover have "\<forall>sg \<in> set (seg # segs). \<forall>i < nat (ch_length chain). covers sg (int i) \<longrightarrow>
         at3 v2 i = written bl bu src sg (int i - seg_offset sg) (at3 v i)"
    using before at1 off on notseg by (auto simp: covers_def)
  moreover have "set pl2 = set pl \<union> {bc. \<exists>sg \<in> set (seg # segs). carries src sg \<and> seg_block_chain sg = Some bc}"
    using pl1 pl2 by (auto simp: carries_def)
  ultimately show ?case using step rest by (intro exI [of _ v2] exI [of _ pl2]) simp
qed

lemma map_nth_rev: "length xs = n \<Longrightarrow> map (\<lambda>k. xs ! (n - Suc k)) [0..<n] = rev xs"
  by (rule nth_equalityI) (auto simp: rev_nth)

text \<open>A chain that parsed, without negative segment lengths and within the SoC maximum.\<close>

definition good_chain :: "SocAccess \<Rightarrow> SocChain \<Rightarrow> bool" where
  "good_chain a ch = (tiled 0 (ch_segments ch) (ch_length ch) \<and>
     (\<forall>s \<in> set (ch_segments ch). 0 \<le> seg_length s) \<and> ch_length ch \<le> max_chain_length a)"

text \<open>What the retargeted pattern holds for one chain: \<open>v\<close> are the position-indexed values.\<close>

definition encodes :: "ScanPattern \<Rightarrow> SocAccess \<Rightarrow> string \<Rightarrow> SocChain \<Rightarrow> SocScanPattern \<Rightarrow> placement \<Rightarrow> bool" where
  "encodes pat a src ch out v =
     (let n = nat (ch_length ch); pad = replicate (nat (max_chain_length a - ch_length ch)) False
      in len3 v n
       \<and> map_of (sp_load_seqs out) (ch_index ch) = Some (pad @ rev (fst v))
       \<and> map_of (sp_expected_unload out) (ch_index ch) = Some (rev (fst (snd v)) @ pad)
       \<and> map_of (sp_unload_mask out) (ch_index ch) = Some (rev (snd (snd v)) @ pad)
       \<and> (\<forall>seg \<in> set (ch_segments ch). \<forall>i < n. covers seg (int i) \<longrightarrow>
            at3 v i = written (load_seqs pat) (expected_unload pat) src seg (int i - seg_offset seg)
              (False, False, False)))"

lemma retarget_chain_encodes:
  assumes "good_chain a ch"
  obtains out' v where "retarget_chain pat a src ch out = Inr out'" and "encodes pat a src ch out' v"
    and "\<And>c w pat' src'. c \<noteq> ch_index ch \<Longrightarrow> map_of (sp_load_seqs out') c = map_of (sp_load_seqs out) c
       \<and> map_of (sp_expected_unload out') c = map_of (sp_expected_unload out) c
       \<and> map_of (sp_unload_mask out') c = map_of (sp_unload_mask out) c"
    and "set (sp_block_chains out') = set (sp_block_chains out) \<union>
       {bc. \<exists>seg \<in> set (ch_segments ch). carries src seg \<and> seg_block_chain seg = Some bc}"
proof -
  define n where "n = nat (ch_length ch)"
  define blank where "blank = replicate n False"
  have b3: "len3 (blank, blank, blank) (nat (ch_length ch))" by (simp add: len3_def blank_def n_def)
  from place_segments [OF _ _ _ b3, of 0 "ch_segments ch" "load_seqs pat" "expected_unload pat" src "sp_block_chains out"]
    assms obtain v pl where
    run: "fold_res (place_segment (load_seqs pat) (expected_unload pat) src ch) (ch_segments ch)
        ((blank, blank, blank), sp_block_chains out) = Inr (v, pl)"
    and v: "len3 v n"
    and on: "\<forall>seg \<in> set (ch_segments ch). \<forall>i < n. covers seg (int i) \<longrightarrow>
       at3 v i = written (load_seqs pat) (expected_unload pat) src seg (int i - seg_offset seg)
          (at3 (blank, blank, blank) i)"
    and pl: "set pl = set (sp_block_chains out) \<union>
       {bc. \<exists>seg \<in> set (ch_segments ch). carries src seg \<and> seg_block_chain seg = Some bc}"
    by (auto simp: good_chain_def n_def)
  define pad where "pad = replicate (nat (max_chain_length a - ch_length ch)) False"
  define out' where "out' = out\<lparr>
      sp_load_seqs := dict_set (sp_load_seqs out) (ch_index ch) (pad @ rev (fst v)),
      sp_expected_unload := dict_set (sp_expected_unload out) (ch_index ch) (rev (fst (snd v)) @ pad),
      sp_unload_mask := dict_set (sp_unload_mask out) (ch_index ch) (rev (snd (snd v)) @ pad),
      sp_block_chains := pl\<rparr>"
  have "retarget_chain pat a src ch out = Inr out'"
    using assms v run
    by (cases v) (auto simp: retarget_chain_def Let_def n_def [symmetric] blank_def [symmetric]
        out'_def pad_def len3_def map_nth_rev good_chain_def)
  moreover have "encodes pat a src ch out' v"
    using v on by (auto simp: encodes_def Let_def out'_def pad_def n_def [symmetric] at3_def blank_def)
  ultimately show ?thesis using that [of out' v] pl by (auto simp: out'_def)
qed

lemma retarget_chains_encode:
  assumes "\<forall>ch \<in> set chs. good_chain a ch" and "distinct (map ch_index chs)"
  shows "\<exists>out'. fold_res (retarget_chain pat a src) chs out = Inr out'
    \<and> (\<forall>ch \<in> set chs. \<exists>v. encodes pat a src ch out' v)
    \<and> (\<forall>c. c \<notin> set (map ch_index chs) \<longrightarrow> map_of (sp_load_seqs out') c = map_of (sp_load_seqs out) c
       \<and> map_of (sp_expected_unload out') c = map_of (sp_expected_unload out) c
       \<and> map_of (sp_unload_mask out') c = map_of (sp_unload_mask out) c)
    \<and> set (sp_block_chains out') = set (sp_block_chains out) \<union>
       {bc. \<exists>ch \<in> set chs. \<exists>seg \<in> set (ch_segments ch). carries src seg \<and> seg_block_chain seg = Some bc}"
  using assms
proof (induction chs arbitrary: out)
  case (Cons ch chs)
  obtain o1 v where o1: "retarget_chain pat a src ch out = Inr o1" and enc: "encodes pat a src ch o1 v"
    and frame: "\<And>c w pat' src'. c \<noteq> ch_index ch \<Longrightarrow> map_of (sp_load_seqs o1) c = map_of (sp_load_seqs out) c
       \<and> map_of (sp_expected_unload o1) c = map_of (sp_expected_unload out) c
       \<and> map_of (sp_unload_mask o1) c = map_of (sp_unload_mask out) c"
    and pl: "set (sp_block_chains o1) = set (sp_block_chains out) \<union>
       {bc. \<exists>seg \<in> set (ch_segments ch). carries src seg \<and> seg_block_chain seg = Some bc}"
    by (rule retarget_chain_encodes [of a ch pat src out]) (use Cons.prems in auto)
  from Cons.IH [of o1] Cons.prems obtain o2 where
    o2: "fold_res (retarget_chain pat a src) chs o1 = Inr o2"
    and encs: "\<forall>ch \<in> set chs. \<exists>v. encodes pat a src ch o2 v"
    and frame2: "\<forall>c. c \<notin> set (map ch_index chs) \<longrightarrow> map_of (sp_load_seqs o2) c = map_of (sp_load_seqs o1) c
       \<and> map_of (sp_expected_unload o2) c = map_of (sp_expected_unload o1) c
       \<and> map_of (sp_unload_mask o2) c = map_of (sp_unload_mask o1) c"
    and pl2: "set (sp_block_chains o2) = set (sp_block_chains o1) \<union>
       {bc. \<exists>ch \<in> set chs. \<exists>seg \<in> set (ch_segments ch). carries src seg \<and> seg_block_chain seg = Some bc}"
    by auto
  have "encodes pat a src ch o2 v"
    using enc frame2 Cons.prems(2) by (simp add: encodes_def Let_def)
  then have "\<exists>v. encodes pat a src ch o2 v" ..
  then show ?case using o1 o2 encs frame frame2 pl pl2
    by (intro exI [of _ o2]) (auto simp del: split_paired_Ex)
qed simp

definition placed_chains :: "SocAccess \<Rightarrow> string \<Rightarrow> int set" where
  "placed_chains a src = {bc. \<exists>ch \<in> set (soc_chains a). \<exists>seg \<in> set (ch_segments ch).
     carries src seg \<and> seg_block_chain seg = Some bc}"

lemma retarget_total:
  assumes "\<forall>ch \<in> set (soc_chains a). good_chain a ch" and "distinct (map ch_index (soc_chains a))"
    and "fst ` set (load_seqs pat) \<subseteq> placed_chains a src"
  shows "\<exists>out. retarget_block_pattern pat a src = Inr out
    \<and> (\<forall>ch \<in> set (soc_chains a). \<exists>v. encodes pat a src ch out v)"
proof -
  define init where "init = \<lparr> sp_load_seqs = [], sp_capture_pi_values = capture_pi_values pat,
           sp_expected_unload = [], sp_unload_mask = [], sp_source_block = src, sp_block_chains = [] \<rparr>"
  from retarget_chains_encode [OF assms(1,2), of pat src init] obtain out where
    out: "fold_res (retarget_chain pat a src) (soc_chains a) init = Inr out"
    and enc: "\<forall>ch \<in> set (soc_chains a). \<exists>v. encodes pat a src ch out v"
    and pl: "set (sp_block_chains out) = placed_chains a src"
    by (auto simp: init_def placed_chains_def)
  have "filter (\<lambda>c. c \<notin> set (sp_block_chains out)) (map fst (load_seqs pat)) = []"
    using assms(3) pl by (auto simp: filter_empty_conv)
  with out have "retarget_block_pattern pat a src = Inr (out\<lparr>sp_block_chains := sort (sp_block_chains out)\<rparr>)"
    by (simp add: retarget_block_pattern_def init_def [symmetric])
  moreover have "\<forall>ch \<in> set (soc_chains a).
      \<exists>v. encodes pat a src ch (out\<lparr>sp_block_chains := sort (sp_block_chains out)\<rparr>) v"
    using enc by (simp add: encodes_def)
  ultimately show ?thesis by blast
qed

section \<open>Properties of retargeting\<close>

lemma block_value_at_strip_load:
  assumes "n \<le> length seq" and "p < n"
  shows "block_value_at (strip_block_level_padding seq (int n) True) (int n) (int p) = rev seq ! p"
  using assms
  by (auto simp: block_value_at_def strip_block_level_padding_def Let_def rev_nth nat_diff_distrib
      of_nat_diff [symmetric] simp del: of_nat_diff)

lemma block_value_at_strip_unload:
  assumes "n \<le> length seq" and "p < n"
  shows "block_value_at (strip_block_level_padding seq (int n) False) (int n) (int p) = seq ! (n - 1 - p)"
proof -
  have "nat (int n - 1 - int p) = n - 1 - p" using assms by simp
  with assms show ?thesis
    by (auto simp: block_value_at_def strip_block_level_padding_def Let_def)
qed

text \<open>Loading and unloading the register of one chain with the retargeted sequences.\<close>

lemma encodes_load:
  assumes "encodes pat a src ch out v" and "length regs = nat (ch_length ch)"
  shows "\<exists>ld. map_of (sp_load_seqs out) (ch_index ch) = Some ld \<and> fold reg_shift ld regs = fst v"
proof -
  from assms obtain pad where len: "length (fst v) = length regs" and
    ld: "map_of (sp_load_seqs out) (ch_index ch) = Some (pad @ rev (fst v))"
    by (auto simp: encodes_def Let_def len3_def)
  have "fold reg_shift (pad @ rev (fst v)) regs = fst v"
  proof (rule nth_equalityI)
    fix p assume "p < length (fold reg_shift (pad @ rev (fst v)) regs)"
    then show "fold reg_shift (pad @ rev (fst v)) regs ! p = fst v ! p"
      using lreg.cell_fold_suffix [OF refl, of p regs "rev (fst v)" pad] len by simp
  qed (use len in simp)
  with ld show ?thesis by blast
qed

text \<open>
  C3. Retargeting is total on an accepted, well-formed access description, and it transfers the
  block's test to the chip. For a segment of \<open>n\<close> cells that carries chain \<open>bc\<close> of the source block:
  (1) loading the SoC chain leaves at SoC position \<open>offset + p\<close> the value that loading the block
  chain leaves at block position \<open>p\<close>; (2) the SoC unload mask is set for that cell and the SoC
  expected-unload bit equals the block's expected-unload bit for cell \<open>p\<close>; (3) so when the SoC
  flip-flops captured what the block's did, the masked SoC comparison passes exactly when the block
  comparison passes.
\<close>

theorem retarget_transfers_block_test:
  assumes good: "\<forall>ch \<in> set (soc_chains a). good_chain a ch"
    and dist: "distinct (map ch_index (soc_chains a))"
    and placed: "fst ` set (load_seqs pat) \<subseteq> placed_chains a src"
    and ch: "ch \<in> set (soc_chains a)" and seg: "seg \<in> set (ch_segments ch)"
    and bc: "seg_block seg = src" "seg_block_chain seg = Some bc" "seg_length seg = int n"
    and bld: "map_of (load_seqs pat) bc = Some bload" "n \<le> length bload"
    and bun: "map_of (expected_unload pat) bc = Some bunload" "n \<le> length bunload"
    and p: "p < n"
  shows "\<exists>out ld un mask. retarget_block_pattern pat a src = Inr out
    \<and> map_of (sp_load_seqs out) (ch_index ch) = Some ld
    \<and> map_of (sp_expected_unload out) (ch_index ch) = Some un
    \<and> map_of (sp_unload_mask out) (ch_index ch) = Some mask
    \<and> (\<forall>soc blk. length soc = nat (ch_length ch) \<longrightarrow> length blk = n \<longrightarrow>
         fold reg_shift ld soc ! (nat (seg_offset seg) + p) = fold reg_shift bload blk ! p)
    \<and> (let k = nat (ch_length ch) - 1 - (nat (seg_offset seg) + p) in
         mask ! k \<and> un ! k = bunload ! (n - 1 - p)
         \<and> (\<forall>soc blk fill. length soc = nat (ch_length ch) \<longrightarrow> length blk = n \<longrightarrow>
              soc ! (nat (seg_offset seg) + p) = blk ! p \<longrightarrow> nat (ch_length ch) \<le> length fill \<longrightarrow>
              (unload_bits reg_shift reg_so fill soc ! k = un ! k) =
              (unload_bits reg_shift reg_so fill blk ! (n - 1 - p) = bunload ! (n - 1 - p))))"
proof -
  from retarget_total [OF good dist placed] ch obtain out v where
    out: "retarget_block_pattern pat a src = Inr out" and enc: "encodes pat a src ch out v" by blast
  define L where "L = nat (ch_length ch)"
  define q where "q = nat (seg_offset seg) + p"
  have b: "0 \<le> seg_offset seg" "seg_offset seg + int n \<le> ch_length ch"
    using tiled_bounds [of 0 "ch_segments ch" "ch_length ch" seg] good ch seg bc(3)
    by (auto simp: good_chain_def)
  then have q: "q < L" "n \<le> L" using p by (auto simp: q_def L_def)
  have cov: "covers seg (int q)" "int q - seg_offset seg = int p"
    using b p bc(3) by (auto simp: covers_def q_def)
  have car: "carries src seg" using bc by (simp add: carries_def)
  let ?pad = "replicate (nat (max_chain_length a - ch_length ch)) False"
  from enc have len: "len3 v L"
    and un: "map_of (sp_expected_unload out) (ch_index ch) = Some (rev (fst (snd v)) @ ?pad)"
    and mk: "map_of (sp_unload_mask out) (ch_index ch) = Some (rev (snd (snd v)) @ ?pad)"
    and "at3 v q = written (load_seqs pat) (expected_unload pat) src seg (int p) (False, False, False)"
    using seg q cov by (auto simp: encodes_def Let_def L_def)
  then have vals: "fst v ! q = rev bload ! p" "fst (snd v) ! q = bunload ! (n - 1 - p)" "snd (snd v) ! q"
    using car bc bld bun p block_value_at_strip_load [OF bld(2) p] block_value_at_strip_unload [OF bun(2) p]
    by (auto simp: at3_def written_def get_or_def)
  define ld where "ld = ?pad @ rev (fst v)"
  have ld: "map_of (sp_load_seqs out) (ch_index ch) = Some ld"
    using enc by (simp add: encodes_def Let_def ld_def)
  have load: "fold reg_shift ld soc ! q = fold reg_shift bload blk ! p"
    if "length soc = L" "length blk = n" for soc blk
    using encodes_load [OF enc, of soc] that ld vals(1) lreg.cell_fold [OF that(2) p, of bload] bld(2) p
    by (auto simp: L_def)
  have k: "(rev xs @ ?pad) ! (L - 1 - q) = xs ! q" if "length xs = L" for xs :: "bool list"
    using that q by (simp add: nth_append rev_nth)
  have observe: "(unload_bits reg_shift reg_so fill soc ! (L - 1 - q) = (rev (fst (snd v)) @ ?pad) ! (L - 1 - q)) =
      (unload_bits reg_shift reg_so fill blk ! (n - 1 - p) = bunload ! (n - 1 - p))"
    if "length soc = L" "length blk = n" "soc ! q = blk ! p" "L \<le> length fill" for soc blk fill
  proof -
    have "unload_bits reg_shift reg_so fill soc ! (L - 1 - q) = soc ! q"
      using lreg.unload_bits_nth [OF that(1), of "L - 1 - q" fill] that(4) q by auto
    moreover have "unload_bits reg_shift reg_so fill blk ! (n - 1 - p) = blk ! p"
      using lreg.unload_bits_nth [OF that(2), of "n - 1 - p" fill] that(4) q p by auto
    ultimately show ?thesis using k [of "fst (snd v)"] len vals(2) that(3) by (simp add: len3_def)
  qed
  show ?thesis
    using out ld un mk load observe k [of "snd (snd v)"] k [of "fst (snd v)"] len vals
    unfolding L_def [symmetric] q_def [symmetric] Let_def
    by (intro exI [of _ out] exI [of _ ld] exI [of _ "rev (fst (snd v)) @ ?pad"]
        exI [of _ "rev (snd (snd v)) @ ?pad"]) (simp add: len3_def)
qed

text \<open>The example of the manifest's documentation: block \<open>blkB\<close> in front of one bypass bit.\<close>

definition ex_soc_json :: jobj where
  "ex_soc_json =
    [(''schema'', JStr ''faultflow_soc_access_v1''), (''assembly_top'', JStr ''soc''),
     (''soc_scan'', JObj [(''scan_inputs'', JList [JStr ''si0'']), (''scan_outputs'', JList [JStr ''so0'']),
        (''scan_enable'', JStr ''se''), (''clock_ports'', JList [JStr ''CLK'']), (''max_chain_length'', JInt 5)]),
     (''soc_chains'', JList [JObj [(''index'', JInt 0), (''scan_in'', JStr ''si0''), (''scan_out'', JStr ''so0''),
        (''length'', JInt 4), (''segments'', JList
          [JObj [(''block'', JStr ''__bypass''), (''block_chain'', JNull), (''soc_offset'', JInt 3), (''length'', JInt 1)],
           JObj [(''block'', JStr ''blkB''), (''block_chain'', JInt 0), (''soc_offset'', JInt 0), (''length'', JInt 3)]])]])]"

definition ex_soc_chain :: SocChain where
  "ex_soc_chain = \<lparr>ch_index = 0, ch_scan_in = ''si0'', ch_scan_out = ''so0'', ch_length = 4, ch_segments =
     [\<lparr>seg_block = ''blkB'', seg_block_chain = Some 0, seg_offset = 0, seg_length = 3\<rparr>,
      \<lparr>seg_block = ''__bypass'', seg_block_chain = None, seg_offset = 3, seg_length = 1\<rparr>]\<rparr>"

definition ex_soc :: SocAccess where
  "ex_soc = \<lparr>assembly_top = ''soc'', scan_inputs = [JStr ''si0''], scan_outputs = [JStr ''so0''],
     scan_enable = ''se'', clock_ports = [JStr ''CLK''], max_chain_length = 5,
     soc_chains = [ex_soc_chain], wrapper_instruction = []\<rparr>"

definition ex_block_pattern :: ScanPattern where
  "ex_block_pattern = \<lparr>load_seqs = [(0, [False, True, False, True])], capture_pi_values = [],
     expected_unload = [(0, [True, True, False, False])], launch = [], launch_scan_in = []\<rparr>"

theorem parse_soc_access_tiles_witness:
  "tiled 0 (ch_segments ex_soc_chain) (ch_length ex_soc_chain)
    \<and> (\<exists>!i. i < length (ch_segments ex_soc_chain) \<and> covers (ch_segments ex_soc_chain ! i) 2)"
proof -
  have "parse_soc_access ex_soc_json = Inr ex_soc" by code_simp
  moreover have "ex_soc_chain \<in> set (soc_chains ex_soc)" by (simp add: ex_soc_def)
  moreover have "\<forall>s \<in> set (ch_segments ex_soc_chain). 0 \<le> seg_length s" "0 \<le> (2::int) \<and> 2 < ch_length ex_soc_chain"
    by (simp_all add: ex_soc_chain_def)
  ultimately show ?thesis using parse_soc_access_tiles [of ex_soc_json ex_soc ex_soc_chain] by blast
qed

theorem retarget_transfers_block_test_witness:
  "\<exists>out ld un mask. retarget_block_pattern ex_block_pattern ex_soc ''blkB'' = Inr out
    \<and> map_of (sp_load_seqs out) (ch_index ex_soc_chain) = Some ld
    \<and> map_of (sp_expected_unload out) (ch_index ex_soc_chain) = Some un
    \<and> map_of (sp_unload_mask out) (ch_index ex_soc_chain) = Some mask
    \<and> (\<forall>soc blk. length soc = nat (ch_length ex_soc_chain) \<longrightarrow> length blk = 3 \<longrightarrow>
         fold reg_shift ld soc ! (nat (seg_offset (hd (ch_segments ex_soc_chain))) + 1) =
         fold reg_shift [False, True, False, True] blk ! 1)
    \<and> (let k = nat (ch_length ex_soc_chain) - 1 - (nat (seg_offset (hd (ch_segments ex_soc_chain))) + 1) in
         mask ! k \<and> un ! k = [True, True, False, False] ! (3 - 1 - 1)
         \<and> (\<forall>soc blk fill. length soc = nat (ch_length ex_soc_chain) \<longrightarrow> length blk = 3 \<longrightarrow>
              soc ! (nat (seg_offset (hd (ch_segments ex_soc_chain))) + 1) = blk ! 1 \<longrightarrow>
              nat (ch_length ex_soc_chain) \<le> length fill \<longrightarrow>
              (unload_bits reg_shift reg_so fill soc ! k = un ! k) =
              (unload_bits reg_shift reg_so fill blk ! (3 - 1 - 1) = [True, True, False, False] ! (3 - 1 - 1))))"
  by (rule retarget_transfers_block_test [where bc = 0])
    (auto simp: ex_soc_def ex_soc_chain_def ex_block_pattern_def good_chain_def placed_chains_def carries_def)

section \<open>Round trip of the portable form\<close>

lemma ints_of_seqs_to_json:
  assumes "distinct (map fst d)"
  shows "ints_of (seqs_to_json d) = Inr d"
proof -
  have dist: "distinct (map fst (map (\<lambda>(k, v). (show_int k, JList (map JBool v))) d))"
  proof -
    have "map fst (map (\<lambda>(k, v). (show_int k, JList (map JBool v))) d) = map show_int (map fst d)"
      by (induction d) auto
    then show ?thesis using assms by (simp add: distinct_map inj_on_def)
  qed
  have "map_res (\<lambda>(k, v). bind_res (py_int (JStr k)) (\<lambda>n. bind_res (py_tuple v) (\<lambda>bs. Inr (n, map truthy bs))))
      (map (\<lambda>(k, v). (show_int k, JList (map JBool v))) d) = Inr d"
    by (induction d) (auto simp: py_int_def py_tuple_def comp_def)
  then show ?thesis
    by (simp add: ints_of_def seqs_to_json_def items_of_def dict_of_distinct [OF dist] dict_of_distinct [OF assms])
qed

text \<open>
  C17. Reloading an emitted retargeted pattern gives the pattern back (its dictionaries having
  distinct keys, as Python's do), whatever credit and provenance were attached.
\<close>

theorem pattern_roundtrip:
  assumes "distinct (map fst (sp_load_seqs p))" and "distinct (map fst (sp_expected_unload p))"
    and "distinct (map fst (sp_unload_mask p))"
  shows "dict_to_pattern (pattern_to_dict p atop soc_access_ref credit provenance) = Inr p"
proof -
  have ints: "bind_res (Inr (seqs_to_json d)) ints_of = Inr d" if "distinct (map fst d)" for d
    by (simp add: ints_of_seqs_to_json [OF that])
  have pis: "map (\<lambda>(k, v). (k, truthy v)) (map (\<lambda>(k, v). (k, JBool v)) d) = d" for d :: "bool dict"
    by (induction d) auto
  have bcs: "map_res py_int (map JInt bs) = Inr bs" for bs
    by (induction bs) (auto simp: py_int_def)
  show ?thesis
    by (simp add: dict_to_pattern_def pattern_to_dict_def get_or_def getitem_def subscript_def items_of_def
        ints_of_seqs_to_json assms py_tuple_def bcs py_str_def comp_def case_prod_unfold)
qed

theorem pattern_roundtrip_witness:
  "dict_to_pattern (pattern_to_dict \<lparr>sp_load_seqs = [(3, [True, False])], sp_capture_pi_values = [(''a'', True)],
      sp_expected_unload = [(3, [False, True])], sp_unload_mask = [(3, [True, True])],
      sp_source_block = ''blk'', sp_block_chains = [0]\<rparr> ''soc'' JNull None None) =
   Inr \<lparr>sp_load_seqs = [(3, [True, False])], sp_capture_pi_values = [(''a'', True)],
      sp_expected_unload = [(3, [False, True])], sp_unload_mask = [(3, [True, True])],
      sp_source_block = ''blk'', sp_block_chains = [0]\<rparr>"
  by (rule pattern_roundtrip) simp_all

section \<open>The verdict of verify\_soc\<close>

lemma verify_bits:
  assumes "j + length msk \<le> length exp"
  shows "\<exists>mis'. fold_res (verify_bit idx got exp) (enumerate j msk) (c, mis) =
       Inr (c + length (filter (\<lambda>b. b) msk), mis')
    \<and> (mis' = [] \<longleftrightarrow> mis = [] \<and>
        (\<forall>k < length msk. msk ! k \<longrightarrow> j + k < length got \<and> got ! (j + k) = exp ! (j + k)))"
  using assms
proof (induction msk arbitrary: j c mis)
  case (Cons b msk)
  have split: "(\<forall>k < length (b # msk). (b # msk) ! k \<longrightarrow> j + k < length got \<and> got ! (j + k) = exp ! (j + k))
    \<longleftrightarrow> (b \<longrightarrow> j < length got \<and> got ! j = exp ! j) \<and>
      (\<forall>k < length msk. msk ! k \<longrightarrow> Suc j + k < length got \<and> got ! (Suc j + k) = exp ! (Suc j + k))"
    by (simp add: All_less_Suc2)
  have "\<exists>m. verify_bit idx got exp (j, b) (c, mis) = Inr (if b then Suc c else c, m)
    \<and> (m = [] \<longleftrightarrow> mis = [] \<and> (b \<longrightarrow> j < length got \<and> got ! j = exp ! j))"
    using Cons.prems by (cases b) (simp_all add: verify_bit_def Let_def)
  then obtain m where m: "verify_bit idx got exp (j, b) (c, mis) = Inr (if b then Suc c else c, m)"
    "m = [] \<longleftrightarrow> mis = [] \<and> (b \<longrightarrow> j < length got \<and> got ! j = exp ! j)"
    by blast
  from Cons.IH [of "Suc j" "if b then Suc c else c" m] Cons.prems obtain mis' where
    r: "fold_res (verify_bit idx got exp) (enumerate (Suc j) msk) (if b then Suc c else c, m) =
       Inr ((if b then Suc c else c) + length (filter (\<lambda>b. b) msk), mis')"
    and iff: "mis' = [] \<longleftrightarrow> m = [] \<and>
        (\<forall>k < length msk. msk ! k \<longrightarrow> Suc j + k < length got \<and> got ! (Suc j + k) = exp ! (Suc j + k))"
    by auto
  have "fold_res (verify_bit idx got exp) (enumerate j (b # msk)) (c, mis) =
       Inr (c + length (filter (\<lambda>b. b) (b # msk)), mis')"
    using m(1) r by (cases b) simp_all
  then show ?case unfolding split using iff m(2) by blast
qed simp

text \<open>The pairs of a masked position and what it should hold, over one chain.\<close>

definition chain_agrees :: "SocScanPattern \<Rightarrow> (int \<times> bool list) list \<Rightarrow> SocChain \<Rightarrow> bool" where
  "chain_agrees pattern unload chain =
     (let got = get_or unload (ch_index chain) []; mask = get_or (sp_unload_mask pattern) (ch_index chain) []
      in \<forall>k < length mask. mask ! k \<longrightarrow> k < length got \<and>
           got ! k = get_or (sp_expected_unload pattern) (ch_index chain) [] ! k)"

lemma verify_chains:
  assumes "\<forall>ch \<in> set chs. length (get_or (sp_unload_mask pattern) (ch_index ch) []) \<le>
      length (get_or (sp_expected_unload pattern) (ch_index ch) [])"
  shows "\<exists>mis'. fold_res (verify_chain pattern unload) chs (c, mis) =
       Inr (c + sum_list (map (\<lambda>ch. length (filter (\<lambda>b. b) (get_or (sp_unload_mask pattern) (ch_index ch) []))) chs), mis')
    \<and> (mis' = [] \<longleftrightarrow> mis = [] \<and> (\<forall>ch \<in> set chs. chain_agrees pattern unload ch))"
  using assms
proof (induction chs arbitrary: c mis)
  case (Cons ch chs)
  from Cons.prems verify_bits [of 0 "get_or (sp_unload_mask pattern) (ch_index ch) []"
      "get_or (sp_expected_unload pattern) (ch_index ch) []" "ch_index ch"
      "get_or unload (ch_index ch) []" c mis]
  obtain m where m: "verify_chain pattern unload ch (c, mis) =
      Inr (c + length (filter (\<lambda>b. b) (get_or (sp_unload_mask pattern) (ch_index ch) [])), m)"
    "m = [] \<longleftrightarrow> mis = [] \<and> chain_agrees pattern unload ch"
    by (auto simp: verify_chain_def chain_agrees_def Let_def)
  from Cons.IH [of "c + length (filter (\<lambda>b. b) (get_or (sp_unload_mask pattern) (ch_index ch) []))" m]
    Cons.prems m show ?case by (auto simp: add.assoc)
qed simp

text \<open>
  C16. The golden gate's verdict: with a mask no longer than the expected unload on every chain,
  \<open>verify_soc\<close> returns, compares exactly the masked positions, and verifies the pattern if and only
  if the simulated SoC response has every masked bit and agrees with the expected one there;
  unmasked (sibling, bypass, padding) positions never matter.
\<close>

theorem verify_soc_verdict:
  assumes "\<forall>ch \<in> set (soc_chains a). length (get_or (sp_unload_mask pattern) (ch_index ch) []) \<le>
      length (get_or (sp_expected_unload pattern) (ch_index ch) [])"
  shows "\<exists>r. verify_soc simulate a pattern = Inr r
    \<and> (verified r \<longleftrightarrow> (\<forall>ch \<in> set (soc_chains a). chain_agrees pattern (soc_unload simulate a pattern) ch))
    \<and> compared r = sum_list (map (\<lambda>ch. length (filter (\<lambda>b. b) (get_or (sp_unload_mask pattern) (ch_index ch) [])))
        (sort_key ch_index (soc_chains a)))"
proof -
  from verify_chains [of "sort_key ch_index (soc_chains a)" pattern "soc_unload simulate a pattern" 0 "[]"] assms
  obtain mis where
    "fold_res (verify_chain pattern (soc_unload simulate a pattern)) (sort_key ch_index (soc_chains a)) (0, []) =
       Inr (sum_list (map (\<lambda>ch. length (filter (\<lambda>b. b) (get_or (sp_unload_mask pattern) (ch_index ch) [])))
          (sort_key ch_index (soc_chains a))), mis)"
    and "mis = [] \<longleftrightarrow> (\<forall>ch \<in> set (soc_chains a). chain_agrees pattern (soc_unload simulate a pattern) ch)"
    by auto
  then show ?thesis by (simp add: verify_soc_def)
qed

text \<open>A simulator that answers every chain with what was loaded, on a pattern expecting just that.\<close>

definition ex_soc_pattern :: SocScanPattern where
  "ex_soc_pattern = \<lparr>sp_load_seqs = [(0, [True, False, True, True])], sp_capture_pi_values = [],
     sp_expected_unload = [(0, [True, False, False, True])], sp_unload_mask = [(0, [True, True, False, True])],
     sp_source_block = ''blkB'', sp_block_chains = [0]\<rparr>"

theorem verify_soc_verdict_witness:
  "\<exists>r. verify_soc (\<lambda>si so n ld pis. ld) ex_soc ex_soc_pattern = Inr r
    \<and> (verified r \<longleftrightarrow> (\<forall>ch \<in> set (soc_chains ex_soc).
         chain_agrees ex_soc_pattern (soc_unload (\<lambda>si so n ld pis. ld) ex_soc ex_soc_pattern) ch))
    \<and> compared r = sum_list (map (\<lambda>ch. length (filter (\<lambda>b. b) (get_or (sp_unload_mask ex_soc_pattern) (ch_index ch) [])))
        (sort_key ch_index (soc_chains ex_soc)))"
  by (rule verify_soc_verdict)
    (simp add: ex_soc_def ex_soc_chain_def ex_soc_pattern_def get_or_def)

text \<open>
  The check that segments tile the chain does not look at the sign of a length: a segment of
  length 4 followed by one of length -1 is accepted on a chain of 3 cells, although the first
  segment then reaches past the end of the chain.
\<close>

definition ex_negative_json :: json where
  "ex_negative_json = JObj [(''index'', JInt 0), (''scan_in'', JStr ''si''), (''scan_out'', JStr ''so''),
     (''length'', JInt 3), (''segments'', JList
       [JObj [(''block'', JStr ''b''), (''block_chain'', JInt 0), (''soc_offset'', JInt 0), (''length'', JInt 4)],
        JObj [(''block'', JStr ''c''), (''soc_offset'', JInt 4), (''length'', JInt (-1))]])]"

lemma negative_length_accepted:
  "\<exists>ch. parse_chain ex_negative_json 0 = Inr ch \<and> ch_length ch = 3
     \<and> (\<exists>s \<in> set (ch_segments ch). covers s 3)"
proof -
  have "parse_chain ex_negative_json 0 = Inr \<lparr>ch_index = 0, ch_scan_in = ''si'', ch_scan_out = ''so'',
      ch_length = 3, ch_segments =
        [\<lparr>seg_block = ''b'', seg_block_chain = Some 0, seg_offset = 0, seg_length = 4\<rparr>,
         \<lparr>seg_block = ''c'', seg_block_chain = None, seg_offset = 4, seg_length = -1\<rparr>]\<rparr>"
    by code_simp
  then show ?thesis by (simp add: covers_def)
qed

end
