(* ===== verification/Netlist.thy ===== *)
theory Netlist
  imports Py_Prelude
begin

text \<open>
  What every netlist component shares: finding the top module of a Yosys JSON netlist
  (\<^verbatim>\<open>_truthy_attr\<close>, \<^verbatim>\<open>_top_module\<close>), matching a cell type against the glob patterns of a cell map
  (\<^verbatim>\<open>fnmatch.fnmatchcase\<close>, \<^verbatim>\<open>_lookup_cell\<close> of \<^verbatim>\<open>faultflow/scan/stitch.py\<close>;
  \<^verbatim>\<open>faultflow/cell_map.py\<close>), reading single-bit connections, and allocating net ids.
\<close>

section \<open>Shell patterns (fnmatch)\<close>

datatype glob = GStar | GAny | GClass bool "(char \<times> char) list" | GChar char

fun class_items :: "string \<Rightarrow> (char \<times> char) list" where
  "class_items (a # d # b # cs) =
     (if d = CHR ''-'' then (a, b) # class_items cs else (a, a) # class_items (d # b # cs))"
| "class_items (a # cs) = (a, a) # class_items cs"
| "class_items [] = []"

text \<open>The body of a bracket expression: an optional \<^verbatim>\<open>!\<close>, an optional leading \<^verbatim>\<open>]\<close>, up to the next \<^verbatim>\<open>]\<close>.\<close>

definition class_body_len :: "string \<Rightarrow> nat option" where
  "class_body_len p =
     (let i = (case p of c # _ \<Rightarrow> if c = CHR ''!'' then 1 else 0 | [] \<Rightarrow> 0);
          j = (case drop i p of c # _ \<Rightarrow> if c = CHR '']'' then Suc i else i | [] \<Rightarrow> i);
          k = j + length (takeWhile (\<lambda>c. c \<noteq> CHR '']'') (drop j p))
      in if k < length p then Some k else None)"

definition class_of :: "string \<Rightarrow> glob" where
  "class_of body =
     (case body of c # cs \<Rightarrow> if c = CHR ''!'' then GClass True (class_items cs) else GClass False (class_items body)
      | [] \<Rightarrow> GClass False [])"

function parse_glob :: "string \<Rightarrow> glob list" where
  "parse_glob [] = []"
| "parse_glob (c # p) =
     (if c = CHR ''*'' then GStar # parse_glob p
      else if c = CHR ''?'' then GAny # parse_glob p
      else if c = CHR ''['' then
        (case class_body_len p of
           None \<Rightarrow> GChar c # parse_glob p
         | Some k \<Rightarrow> class_of (take k p) # parse_glob (drop (Suc k) p))
      else GChar c # parse_glob p)"
  by pat_completeness auto
termination by (relation "measure length") auto

fun glob_match :: "glob list \<Rightarrow> string \<Rightarrow> bool" where
  "glob_match [] s = (s = [])"
| "glob_match (GStar # g) [] = glob_match g []"
| "glob_match (GStar # g) (c # cs) = (glob_match g (c # cs) \<or> glob_match (GStar # g) cs)"
| "glob_match (GAny # g) [] = False"
| "glob_match (GAny # g) (c # cs) = glob_match g cs"
| "glob_match (GClass neg items # g) [] = False"
| "glob_match (GClass neg items # g) (c # cs) =
     ((list_ex (\<lambda>(a, b). a \<le> c \<and> c \<le> b) items \<noteq> neg) \<and> glob_match g cs)"
| "glob_match (GChar d # g) [] = False"
| "glob_match (GChar d # g) (c # cs) = (c = d \<and> glob_match g cs)"

definition fnmatchcase :: "string \<Rightarrow> string \<Rightarrow> bool" where
  "fnmatchcase name pat = glob_match (parse_glob pat) name"

section \<open>Cell maps\<close>

text \<open>\<^verbatim>\<open>max(xs, key=f)\<close>: the first element with the greatest key.\<close>

definition py_max :: "('a \<Rightarrow> 'k::linorder) \<Rightarrow> 'a list \<Rightarrow> 'a option" where
  "py_max f xs = (case xs of [] \<Rightarrow> None
     | y # ys \<Rightarrow> Some (foldl (\<lambda>best x. if f best < f x then x else best) y ys))"

definition rstrip_star :: "string \<Rightarrow> string" where
  "rstrip_star s = rev (dropWhile (\<lambda>c. c = CHR ''*'') (rev s))"

definition lookup_cell :: "jobj \<Rightarrow> string \<Rightarrow> (string \<times> jobj) option" where
  "lookup_cell cell_map cell_type =
     (case Option.bind (map_of cell_map cell_type) as_obj of
        Some entry \<Rightarrow> Some (cell_type, entry)
      | None \<Rightarrow>
          map_option snd (py_max (\<lambda>m. (fst m, fst (snd m)))
            (List.map_filter (\<lambda>(pattern, e).
               case as_obj e of
                 None \<Rightarrow> None
               | Some entry \<Rightarrow>
                   if fnmatchcase cell_type pattern
                   then Some (length (rstrip_star pattern), pattern, entry) else None) cell_map)))"

text \<open>\<^verbatim>\<open>faultflow/cell_map.py\<close>: prefix patterns, the first match wins.\<close>

definition pattern_match :: "string \<Rightarrow> string \<Rightarrow> bool" where
  "pattern_match pattern name =
     (if ends_with pattern ''*'' then starts_with name (butlast pattern) else pattern = name)"

definition lookup_cell_first :: "string \<Rightarrow> jobj dict \<Rightarrow> jobj option" where
  "lookup_cell_first cell_type entries =
     map_option snd (find (\<lambda>(pattern, entry). pattern_match pattern cell_type) entries)"

definition is_supported_or_deferred :: "string \<Rightarrow> jobj dict \<Rightarrow> bool" where
  "is_supported_or_deferred cell_type entries =
     (case lookup_cell_first cell_type entries of
        None \<Rightarrow> False
      | Some entry \<Rightarrow> truthy (get_or entry ''unsupported'' JNull) \<or> has_key entry ''node_type'')"

section \<open>The top module\<close>

definition truthy_attr :: "json \<Rightarrow> bool" where
  "truthy_attr value =
     (case value of
        JBool b \<Rightarrow> b
      | JInt n \<Rightarrow> n \<noteq> 0
      | _ \<Rightarrow> (let text = lower_str (strip (py_str value))
              in if text = ''1'' \<or> text = ''true'' then True
                 else if set text \<subseteq> {CHR ''0'', CHR ''1''} then CHR ''1'' \<in> set text
                 else False))"

definition top_module :: "jobj \<Rightarrow> string \<Rightarrow> (string \<times> jobj) res" where
  "top_module data requested_top =
     (case as_obj (get_or data ''modules'' JNull) of
        None \<Rightarrow> Inl (ScanError ''Yosys JSON is missing modules'')
      | Some modules \<Rightarrow>
          (case map_of modules requested_top of
             Some m \<Rightarrow> (case as_obj m of
                 None \<Rightarrow> Inl (ScanError (''module '' @ requested_top @ '' is malformed''))
               | Some module \<Rightarrow> Inr (requested_top, module))
           | None \<Rightarrow>
               (case List.map_filter (\<lambda>(name, m).
                    case as_obj m of
                      None \<Rightarrow> None
                    | Some module \<Rightarrow>
                        (case as_obj (get_or module ''attributes'' (JObj [])) of
                           None \<Rightarrow> None
                         | Some attrs \<Rightarrow> if truthy_attr (get_or attrs ''top'' (JBool False))
                                        then Some (name, module) else None)) modules of
                  found # _ \<Rightarrow> Inr found
                | [] \<Rightarrow> Inl (ScanError (''Cannot find top module '' @ requested_top)))))"

text \<open>\<^verbatim>\<open>_load_json\<close> after the text was parsed: the root must be an object.\<close>

definition load_json :: "json \<Rightarrow> string \<Rightarrow> jobj res" where
  "load_json parsed path =
     (case as_obj parsed of
        None \<Rightarrow> Inl (ScanError (''JSON root must be an object: '' @ path))
      | Some data \<Rightarrow> Inr data)"

section \<open>Connections and net ids\<close>

definition one_bit :: "json \<Rightarrow> string \<Rightarrow> int res" where
  "one_bit value ctx =
     (case as_list value of
        Some [b] \<Rightarrow> (case as_int b of
             Some n \<Rightarrow> Inr n
           | None \<Rightarrow> Inl (ScanError (ctx @ '' must be a concrete net bit, got '' @ py_repr b)))
      | _ \<Rightarrow> Inl (ScanError (ctx @ '' must be exactly one bit'')))"

definition maybe_one_bit :: "json \<Rightarrow> int option" where
  "maybe_one_bit value = (case as_list value of Some [b] \<Rightarrow> as_int b | _ \<Rightarrow> None)"

text \<open>\<^verbatim>\<open>_next_net_id\<close>: one more than the largest net id of the module, at least 0. The loops are over
  the values of \<open>ports\<close>, \<open>netnames\<close> and the connections of every cell.\<close>

definition values_of :: "json \<Rightarrow> json list res" where
  "values_of j = (case as_obj j of None \<Rightarrow> Inl AttributeError | Some d \<Rightarrow> Inr (map snd d))"

definition bits_of :: "json \<Rightarrow> int list" where
  "bits_of j = (case as_obj j of None \<Rightarrow> [] | Some d \<Rightarrow> int_bits (get_or d ''bits'' JNull))"

definition conn_bits_of :: "json \<Rightarrow> int list" where
  "conn_bits_of j =
     (case as_obj j of
        None \<Rightarrow> []
      | Some cell \<Rightarrow> (case as_obj (get_or cell ''connections'' (JObj [])) of
            None \<Rightarrow> []
          | Some conns \<Rightarrow> concat (map (\<lambda>kv. int_bits (snd kv)) conns)))"

definition module_bits :: "jobj \<Rightarrow> int list res" where
  "module_bits module =
     bind_res (values_of (get_or module ''ports'' (JObj []))) (\<lambda>ps.
     bind_res (values_of (get_or module ''netnames'' (JObj []))) (\<lambda>ns.
     bind_res (values_of (get_or module ''cells'' (JObj []))) (\<lambda>cs.
     Inr (concat (map bits_of ps) @ concat (map bits_of ns) @ concat (map conn_bits_of cs)))))"

definition next_net_id :: "jobj \<Rightarrow> int res" where
  "next_net_id module = bind_res (module_bits module) (\<lambda>bits. Inr (fold max bits (-1) + 1))"

text \<open>\<^verbatim>\<open>module.setdefault(key, {})[name] = value\<close>.\<close>

definition set_in :: "jobj \<Rightarrow> string \<Rightarrow> string \<Rightarrow> json \<Rightarrow> jobj res" where
  "set_in module key name v =
     (case as_obj (get_or module key (JObj [])) of
        None \<Rightarrow> Inl TypeError
      | Some d \<Rightarrow> Inr (dict_set module key (JObj (dict_set d name v))))"

definition net_entry :: "int \<Rightarrow> json" where
  "net_entry b = JObj [(''hide_name'', JInt 0), (''bits'', JList [JInt b]), (''attributes'', JObj [])]"

definition add_port :: "jobj \<Rightarrow> string \<Rightarrow> string \<Rightarrow> int \<Rightarrow> jobj res" where
  "add_port module name direction b =
     bind_res (set_in module ''ports'' name
         (JObj [(''direction'', JStr direction), (''bits'', JList [JInt b])]))
       (\<lambda>m. set_in m ''netnames'' name (net_entry b))"

text \<open>Writing a changed module back into the netlist.\<close>

definition set_module :: "jobj \<Rightarrow> string \<Rightarrow> jobj \<Rightarrow> jobj" where
  "set_module data name module =
     dict_set data ''modules''
       (JObj (dict_set (case as_obj (get_or data ''modules'' JNull) of None \<Rightarrow> [] | Some ms \<Rightarrow> ms)
          name (JObj module)))"

section \<open>Lemmas\<close>

lemma fold_max_ge: "x \<in> set xs \<Longrightarrow> (x::int) \<le> fold max xs a" "a \<le> fold max xs a"
proof -
  have ge: "a \<le> fold max xs a" for xs :: "int list" and a
  proof (induction xs arbitrary: a)
    case (Cons y ys)
    from Cons.IH [of "max y a"] show ?case by simp
  qed simp
  show "a \<le> fold max xs a" by (rule ge)
  show "x \<in> set xs \<Longrightarrow> x \<le> fold max xs a"
  proof (induction xs arbitrary: a)
    case (Cons y ys)
    then show ?case using ge [of "max y a" ys] by auto
  qed simp
qed

lemma next_net_id_fresh:
  assumes "next_net_id module = Inr n" and "module_bits module = Inr bits"
  shows "\<forall>b \<in> set bits. b < n" "0 \<le> n"
  using assms fold_max_ge(1) [of _ bits "-1"] fold_max_ge(2) [of "-1" bits]
  by (auto simp: next_net_id_def bind_res_eq_Inr)

lemma one_bit_Inr: "one_bit value ctx = Inr n \<longleftrightarrow> maybe_one_bit value = Some n"
  by (auto simp: one_bit_def maybe_one_bit_def split: option.splits list.splits)

lemma one_bit_single [simp]: "one_bit (JList [JInt n]) ctx = Inr n"
  by (simp add: one_bit_def)

lemma maybe_one_bit_single [simp]: "maybe_one_bit (JList [JInt n]) = Some n"
  by (simp add: maybe_one_bit_def)

lemma py_max_in: "py_max f xs = Some x \<Longrightarrow> x \<in> set xs"
proof -
  have "foldl (\<lambda>best x. if f best < f x then x else best) y ys \<in> insert y (set ys)" for y ys
    by (induction ys arbitrary: y) auto
  then show "py_max f xs = Some x \<Longrightarrow> x \<in> set xs" by (auto simp: py_max_def split: list.splits)
qed

lemma py_max_ge: "py_max f xs = Some x \<Longrightarrow> y \<in> set xs \<Longrightarrow> f y \<le> f x"
proof -
  have "z \<in> insert y (set ys) \<Longrightarrow> f z \<le> f (foldl (\<lambda>best x. if f best < f x then x else best) y ys)" for y z ys
  proof (induction ys arbitrary: y z)
    case (Cons w ws)
    let ?b = "if f y < f w then w else y"
    have b: "f ?b \<le> f (foldl (\<lambda>best x. if f best < f x then x else best) ?b ws)"
      by (rule Cons.IH) simp
    consider "z = y \<or> z = w" | "z \<in> set ws" using Cons.prems by auto
    then show ?case
    proof cases
      case 1
      then have "f z \<le> f ?b" by auto
      with b show ?thesis by (simp add: order_trans [of "f z" "f ?b"])
    next
      case 2
      then show ?thesis using Cons.IH [of z ?b] by simp
    qed
  qed auto
  then show "py_max f xs = Some x \<Longrightarrow> y \<in> set xs \<Longrightarrow> f y \<le> f x" by (auto simp: py_max_def split: list.splits)
qed

end
