(* ===== verification/Chain_Lengths.thy ===== *)
theory Chain_Lengths
  imports Py_Prelude
begin

text \<open>
  How many scan chains, and how long: \<^verbatim>\<open>balanced_chain_lengths\<close>, \<^verbatim>\<open>_chains_per_domain\<close>,
  \<^verbatim>\<open>chain_lengths\<close> and \<^verbatim>\<open>_chain_count_from_options\<close> of \<^verbatim>\<open>faultflow/scan/stitch.py\<close>.

  \<^verbatim>\<open>_chains_per_domain\<close> compares the quotients \<^verbatim>\<open>domain_sizes[d] / counts[d]\<close>. They are floating
  point in the source; the model compares the exact fractions by cross multiplication, which is
  the same order for domains of fewer than $2^{26}$ flip-flops (two different fractions with
  numerators and denominators below $2^{26}$ have different double precision values).
\<close>

section \<open>Definitions\<close>

definition balanced_chain_lengths :: "int \<Rightarrow> int \<Rightarrow> int list res" where
  "balanced_chain_lengths ff_count chain_count =
     (if chain_count < 1 then Inl (ScanError ''scan_chains must be >= 1'')
      else if ff_count < 1 then Inl (ScanError ''no eligible FF cells found to stitch'')
      else if ff_count < chain_count then Inl (ScanError ''scan_chains cannot exceed eligible FF count'')
      else Inr (map (\<lambda>index. ff_count div chain_count + (if index < ff_count mod chain_count then 1 else 0))
             [0..chain_count - 1]))"

text \<open>\<^verbatim>\<open>max(open_domains, key=lambda d: domain_sizes[d] / counts[d])\<close>: the first of the widest.\<close>

definition widest :: "int list \<Rightarrow> int list \<Rightarrow> nat list \<Rightarrow> nat option" where
  "widest domain_sizes counts ds =
     (case ds of [] \<Rightarrow> None
      | d # rest \<Rightarrow> Some (foldl (\<lambda>best x.
          if domain_sizes ! best * counts ! x < domain_sizes ! x * counts ! best then x else best) d rest))"

definition open_domains :: "int list \<Rightarrow> int list \<Rightarrow> nat list" where
  "open_domains domain_sizes counts = filter (\<lambda>d. counts ! d < domain_sizes ! d) [0..<length domain_sizes]"

fun add_chains :: "nat \<Rightarrow> int list \<Rightarrow> int list \<Rightarrow> int list res" where
  "add_chains 0 domain_sizes counts = Inr counts"
| "add_chains (Suc n) domain_sizes counts =
     (case widest domain_sizes counts (open_domains domain_sizes counts) of
        None \<Rightarrow> Inl (ValueError ''max() iterable argument is empty'')
      | Some w \<Rightarrow> add_chains n domain_sizes (counts[w := counts ! w + 1]))"

definition chains_per_domain :: "int list \<Rightarrow> int \<Rightarrow> int list res" where
  "chains_per_domain domain_sizes chain_count =
     add_chains (nat (chain_count - int (length domain_sizes))) domain_sizes
       (replicate (length domain_sizes) 1)"

text \<open>\<^verbatim>\<open>itertools.accumulate\<close>.\<close>

fun accumulate :: "int \<Rightarrow> int list \<Rightarrow> int list" where
  "accumulate s [] = []"
| "accumulate s (x # xs) = (s + x) # accumulate (s + x) xs"

definition chain_lengths :: "int list \<Rightarrow> int \<Rightarrow> int list res" where
  "chain_lengths domain_sizes chain_count =
     bind_res (balanced_chain_lengths (sum_list domain_sizes) chain_count) (\<lambda>lengths.
       if set (accumulate 0 domain_sizes) \<subseteq> set (accumulate 0 lengths) then Inr lengths
       else bind_res (chains_per_domain domain_sizes chain_count) (\<lambda>counts.
            bind_res (map_res (\<lambda>(size, count). balanced_chain_lengths size count)
                (zip domain_sizes counts)) (\<lambda>per_domain.
            Inr (concat per_domain))))"

definition chain_count_from_options :: "int list \<Rightarrow> int \<Rightarrow> int option \<Rightarrow> int res" where
  "chain_count_from_options domain_sizes scan_chains max_len =
     (if scan_chains < 1 then Inl (ScanError ''scan_chains must be >= 1'')
      else case max_len of
        None \<Rightarrow> Inr scan_chains
      | Some m \<Rightarrow>
          if m < 1 then Inl (ScanError ''max_chain_length must be >= 1'')
          else if scan_chains = 1
               then Inr (max 1 (sum_list (map (\<lambda>n. - ((- n) div m)) domain_sizes)))
               else Inr scan_chains)"

section \<open>The even split\<close>

lemma sum_list_upto_extra:
  "0 \<le> r \<Longrightarrow> r \<le> c \<Longrightarrow> sum_list (map (\<lambda>i. q + (if i < r then 1 else 0)) [0..c - 1]) = c * q + (r::int)"
proof (induction "nat c" arbitrary: c r)
  case 0
  then have "c = 0" "r = 0" by auto
  then show ?case by simp
next
  case (Suc k)
  have up: "[0..c - 1] = [0..(c - 1) - 1] @ [c - 1]" using Suc upto_rec2 [of 0 "c - 1"] by simp
  show ?case
  proof (cases "r = c")
    case True
    have "sum_list (map (\<lambda>i. q + (if i < r then 1 else 0)) [0..(c - 1) - 1]) =
        sum_list (map (\<lambda>i. q + (if i < c - 1 then 1 else 0)) [0..(c - 1) - 1])"
      using True by (intro arg_cong [where f = sum_list] map_cong) auto
    with Suc.hyps(1) [of "c - 1" "c - 1"] Suc.hyps(2) True Suc.prems show ?thesis
      by (simp add: up algebra_simps)
  next
    case False
    with Suc.hyps(1) [of "c - 1" r] Suc.hyps(2) Suc.prems show ?thesis
      by (simp add: up algebra_simps)
  qed
qed

lemma balanced_ok:
  assumes "1 \<le> c" and "c \<le> n"
  obtains ls where "balanced_chain_lengths n c = Inr ls" and "sum_list ls = n" and "length ls = nat c"
    and "\<forall>l \<in> set ls. l = n div c \<or> l = n div c + 1" and "\<forall>l \<in> set ls. 1 \<le> l"
proof -
  define ls where "ls = map (\<lambda>i. n div c + (if i < n mod c then 1 else 0)) [0..c - 1]"
  have "balanced_chain_lengths n c = Inr ls"
    using assms by (simp add: balanced_chain_lengths_def ls_def)
  moreover have "sum_list ls = n"
  proof -
    have "n mod c \<le> c" using assms pos_mod_bound [of c n] by linarith
    then show ?thesis using sum_list_upto_extra [of "n mod c" c "n div c"] assms by (simp add: ls_def)
  qed
  moreover have "1 \<le> n div c"
    using assms zdiv_mono1 [of c n c] by simp
  ultimately show ?thesis using that [of ls] assms by (auto simp: ls_def)
qed

lemma balanced_le:
  assumes "balanced_chain_lengths n c = Inr ls" and "n \<le> m * c" and "l \<in> set ls"
  shows "l \<le> m"
proof -
  from assms have c: "1 \<le> c" "c \<le> n" and
    ls: "ls = map (\<lambda>i. n div c + (if i < n mod c then 1 else 0)) [0..c - 1]"
    by (auto simp: balanced_chain_lengths_def split: if_splits)
  from ls assms(3) obtain i where l: "l = n div c + (if i < n mod c then 1 else 0)" "0 \<le> i"
    by auto
  have q: "n = c * (n div c) + n mod c" by simp
  have r: "0 \<le> n mod c" "n mod c < c" using c by auto
  show ?thesis
  proof (cases "n mod c = 0")
    case True
    then have "n div c \<le> m" using q assms(2) c mult_le_cancel_left_pos [of c "n div c" m] by (simp add: mult.commute)
    with True l show ?thesis by auto
  next
    case False
    then have "c * (n div c) < c * m" using q r assms(2) mult.commute [of m c] by linarith
    then have "n div c < m" using c by simp
    with l show ?thesis by auto
  qed
qed

section \<open>The greedy allocation\<close>

text \<open>Allocations between one chain and one flip-flop per chain, in which every further chain went
  to a domain that was then widest.\<close>

definition greedy_inv :: "int list \<Rightarrow> int list \<Rightarrow> bool" where
  "greedy_inv sizes counts =
     (length counts = length sizes \<and>
      (\<forall>d < length sizes. 1 \<le> counts ! d \<and> counts ! d \<le> sizes ! d) \<and>
      (\<forall>d < length sizes. \<forall>e < length sizes. 1 < counts ! d \<longrightarrow> counts ! e < sizes ! e \<longrightarrow>
         sizes ! e * (counts ! d - 1) \<le> sizes ! d * counts ! e))"

lemma greedy_invD:
  assumes "greedy_inv sizes counts"
  shows "length counts = length sizes"
    and "d < length sizes \<Longrightarrow> 1 \<le> counts ! d" and "d < length sizes \<Longrightarrow> counts ! d \<le> sizes ! d"
    and "d < length sizes \<Longrightarrow> e < length sizes \<Longrightarrow> 1 < counts ! d \<Longrightarrow> counts ! e < sizes ! e \<Longrightarrow>
         sizes ! e * (counts ! d - 1) \<le> sizes ! d * counts ! e"
  using assms by (auto simp: greedy_inv_def)

lemma widest_max:
  assumes "widest sizes counts ds = Some w" and pos: "\<forall>d \<in> set ds. 0 < counts ! d \<and> 0 < sizes ! d"
  shows "w \<in> set ds \<and> (\<forall>e \<in> set ds. sizes ! e * counts ! w \<le> sizes ! w * counts ! e)"
proof -
  let ?f = "\<lambda>best x. if sizes ! best * counts ! x < sizes ! x * counts ! best then x else best"
  have trans: "sizes ! e * counts ! y \<le> sizes ! y * counts ! e"
    if "sizes ! e * counts ! x \<le> sizes ! x * counts ! e" "sizes ! x * counts ! y \<le> sizes ! y * counts ! x"
      "0 < counts ! x" "0 < counts ! y" "0 < counts ! e" for e x y
  proof -
    have "(sizes ! e * counts ! y) * counts ! x = (sizes ! e * counts ! x) * counts ! y" by simp
    also have "\<dots> \<le> (sizes ! x * counts ! e) * counts ! y" using that by (intro mult_right_mono) auto
    also have "\<dots> = (sizes ! x * counts ! y) * counts ! e" by simp
    also have "\<dots> \<le> (sizes ! y * counts ! x) * counts ! e" using that by (intro mult_right_mono) auto
    finally have "(sizes ! e * counts ! y) * counts ! x \<le> (sizes ! y * counts ! e) * counts ! x"
      by (simp add: algebra_simps)
    with that(3) show ?thesis by simp
  qed
  have "foldl ?f d rest \<in> insert d (set rest) \<and>
      (\<forall>e \<in> insert d (set rest). sizes ! e * counts ! (foldl ?f d rest) \<le> sizes ! (foldl ?f d rest) * counts ! e)"
    if "\<forall>d \<in> insert d (set rest). 0 < counts ! d" for d rest
    using that
  proof (induction rest arbitrary: d)
    case (Cons x rest)
    define b where "b = ?f d x"
    have IH: "foldl ?f b rest \<in> insert b (set rest)"
      "\<forall>e \<in> insert b (set rest). sizes ! e * counts ! (foldl ?f b rest) \<le> sizes ! (foldl ?f b rest) * counts ! e"
      using Cons.IH [of b] Cons.prems by (auto simp: b_def)
    have pos': "0 < counts ! b" "0 < counts ! (foldl ?f b rest)" "0 < counts ! d" "0 < counts ! x"
      using Cons.prems IH(1) by (auto simp: b_def split: if_splits)
    have "sizes ! d * counts ! b \<le> sizes ! b * counts ! d" "sizes ! x * counts ! b \<le> sizes ! b * counts ! x"
      by (auto simp: b_def)
    then have "sizes ! d * counts ! (foldl ?f b rest) \<le> sizes ! (foldl ?f b rest) * counts ! d"
      "sizes ! x * counts ! (foldl ?f b rest) \<le> sizes ! (foldl ?f b rest) * counts ! x"
      using trans [of d b "foldl ?f b rest"] trans [of x b "foldl ?f b rest"] IH(2) pos' by auto
    with IH show ?case by (auto simp: b_def [symmetric]) (auto simp: b_def)
  qed simp
  with assms show ?thesis by (auto simp: widest_def split: list.splits)
qed

lemma greedy_step:
  assumes inv: "greedy_inv sizes counts" and "sum_list counts < sum_list sizes"
  obtains w where "widest sizes counts (open_domains sizes counts) = Some w"
    and "greedy_inv sizes (counts[w := counts ! w + 1])" and "w < length counts"
proof -
  note D = greedy_invD [OF inv]
  have "\<exists>d < length sizes. counts ! d < sizes ! d"
  proof (rule ccontr)
    assume "\<not> ?thesis"
    then have le: "\<And>d. d < length sizes \<Longrightarrow> sizes ! d \<le> counts ! d" by (meson not_less)
    have "sizes = counts" by (rule nth_equalityI) (use D(1,3) le in \<open>auto intro: antisym\<close>)
    with assms(2) show False by simp
  qed
  then have "open_domains sizes counts \<noteq> []" by (auto simp: open_domains_def filter_empty_conv)
  then obtain w where w: "widest sizes counts (open_domains sizes counts) = Some w"
    by (cases "open_domains sizes counts") (auto simp: widest_def)
  have "\<forall>d \<in> set (open_domains sizes counts). 0 < counts ! d \<and> 0 < sizes ! d"
    using D(2) by (fastforce simp: open_domains_def)
  from widest_max [OF w this] have wo: "w < length sizes" "counts ! w < sizes ! w"
    and wm: "\<And>e. e < length sizes \<Longrightarrow> counts ! e < sizes ! e \<Longrightarrow> sizes ! e * counts ! w \<le> sizes ! w * counts ! e"
    by (auto simp: open_domains_def)
  have s0: "0 \<le> sizes ! d" if "d < length sizes" for d using D(2,3) [OF that] by linarith
  define c' where "c' = counts[w := counts ! w + 1]"
  have c'w: "c' ! w = counts ! w + 1" and c'o: "d \<noteq> w \<Longrightarrow> c' ! d = counts ! d" for d
    using wo D(1) by (auto simp: c'_def)
  have "greedy_inv sizes c'"
    unfolding greedy_inv_def
  proof (intro conjI allI impI)
    show "length c' = length sizes" by (simp add: c'_def D)
    fix d assume d: "d < length sizes"
    show "1 \<le> c' ! d" "c' ! d \<le> sizes ! d"
      using D(2,3) [OF d] wo c'w c'o by (cases "d = w"; simp)+
    fix e assume e: "e < length sizes" and gt: "1 < c' ! d" and op: "c' ! e < sizes ! e"
    have ope: "counts ! e < sizes ! e" and mono: "counts ! e \<le> c' ! e"
      using op c'w c'o by (cases "e = w"; simp)+
    have "sizes ! e * (c' ! d - 1) \<le> sizes ! d * counts ! e"
    proof (cases "d = w")
      case True
      then show ?thesis using wm [OF e ope] by (simp add: c'w)
    next
      case False
      then show ?thesis using D(4) [OF d e _ ope] gt by (simp add: c'o)
    qed
    also have "\<dots> \<le> sizes ! d * c' ! e" using mono s0 [OF d] by (rule mult_left_mono)
    finally show "sizes ! e * (c' ! d - 1) \<le> sizes ! d * c' ! e" .
  qed
  then show ?thesis using that w wo D(1) by (simp add: c'_def)
qed

lemma sum_list_incr: "w < length counts \<Longrightarrow> sum_list (counts[w := counts ! w + 1]) = sum_list counts + (1::int)"
proof (induction counts arbitrary: w)
  case (Cons a counts)
  then show ?case by (cases w) auto
qed simp

lemma add_chains_greedy:
  assumes "greedy_inv sizes counts" and "sum_list counts + int n \<le> sum_list sizes"
  shows "\<exists>r. add_chains n sizes counts = Inr r \<and> greedy_inv sizes r \<and> sum_list r = sum_list counts + int n"
  using assms
proof (induction n arbitrary: counts)
  case (Suc n)
  then have lt: "sum_list counts < sum_list sizes" by simp
  obtain w where w: "widest sizes counts (open_domains sizes counts) = Some w"
    "greedy_inv sizes (counts[w := counts ! w + 1])" "w < length counts"
    by (rule greedy_step [OF Suc.prems(1) lt])
  show ?case using Suc.IH [OF w(2)] Suc.prems(2) w(1) sum_list_incr [OF w(3)] by auto
qed simp

lemma sum_list_ge_length: "\<forall>n \<in> set sizes. 1 \<le> (n::int) \<Longrightarrow> int (length sizes) \<le> sum_list sizes"
  by (induction sizes) auto

lemma chains_per_domain_greedy:
  assumes pos: "\<forall>n \<in> set sizes. 1 \<le> n" and c: "int (length sizes) \<le> c" "c \<le> sum_list sizes"
  shows "\<exists>r. chains_per_domain sizes c = Inr r \<and> greedy_inv sizes r \<and> sum_list r = c"
proof -
  have "greedy_inv sizes (replicate (length sizes) 1)"
    using pos by (auto simp: greedy_inv_def)
  moreover have s: "sum_list (replicate (length sizes) (1::int)) = int (length sizes)"
    by (simp add: sum_list_replicate)
  ultimately show ?thesis
    using add_chains_greedy [of sizes "replicate (length sizes) 1" "nat (c - int (length sizes))"] c
    by (simp add: chains_per_domain_def)
qed

text \<open>No allocation of as many chains does better than the greedy one.\<close>

lemma greedy_optimal:
  assumes inv: "greedy_inv sizes counts" and m: "1 \<le> m"
    and xs: "length xs = length sizes" "\<forall>d < length sizes. 1 \<le> xs ! d" "sum_list xs = sum_list counts"
    and fits: "\<forall>d < length sizes. sizes ! d \<le> m * xs ! d" and e: "e < length sizes"
  shows "sizes ! e \<le> m * counts ! e"
proof (rule ccontr)
  note D = greedy_invD [OF inv]
  assume "\<not> ?thesis"
  then have big: "m * counts ! e < sizes ! e" by simp
  have "1 \<le> counts ! e" using D(2) e by simp
  with m have "counts ! e \<le> m * counts ! e" by (simp add: mult_le_cancel_right1)
  with big have op: "counts ! e < sizes ! e" by linarith
  have "m * counts ! e < m * xs ! e" using big fits e by fastforce
  with m have less: "counts ! e < xs ! e" by simp
  have "\<exists>d < length sizes. xs ! d < counts ! d"
  proof (rule ccontr)
    assume "\<not> ?thesis"
    then have le: "\<forall>d < length sizes. counts ! d \<le> xs ! d" by (meson not_less)
    have "sum_list counts = (\<Sum>d < length sizes. counts ! d)" using D(1) by (simp add: sum_list_sum_nth lessThan_atLeast0)
    also have "\<dots> < (\<Sum>d < length sizes. xs ! d)"
      by (rule sum_strict_mono_ex1) (use le less e in auto)
    also have "\<dots> = sum_list xs" using xs(1) by (simp add: sum_list_sum_nth lessThan_atLeast0)
    finally show False using xs(3) by simp
  qed
  then obtain d where d: "d < length sizes" "xs ! d < counts ! d" by blast
  have x1: "1 \<le> xs ! d" using xs(2) d by simp
  then have gt: "0 < counts ! d - 1" "1 < counts ! d" using d by linarith+
  have "sizes ! e * (counts ! d - 1) \<le> sizes ! d * counts ! e" using D(4) [OF d(1) e gt(2) op] .
  also have "\<dots> \<le> (m * xs ! d) * counts ! e" using fits d(1) \<open>1 \<le> counts ! e\<close> by (intro mult_right_mono) auto
  also have "\<dots> \<le> (m * (counts ! d - 1)) * counts ! e" using d(2) m \<open>1 \<le> counts ! e\<close>
    by (intro mult_right_mono mult_left_mono) auto
  finally have "sizes ! e * (counts ! d - 1) \<le> (m * counts ! e) * (counts ! d - 1)" by (simp add: algebra_simps)
  with gt(1) big show False by simp
qed

section \<open>Chains never straddle a clock domain\<close>

lemma accumulate_append: "accumulate s (xs @ ys) = accumulate s xs @ accumulate (s + sum_list xs) ys"
  by (induction xs arbitrary: s) (auto simp: add.assoc)

lemma accumulate_end: "xs \<noteq> [] \<Longrightarrow> s + sum_list xs \<in> set (accumulate s xs)"
proof (induction xs arbitrary: s)
  case (Cons x xs)
  show ?case
  proof (cases "xs = []")
    case False
    with Cons.IH [of "s + x"] show ?thesis by (simp add: add.assoc)
  qed simp
qed simp

text \<open>Concatenating blocks of lengths whose sums are the domain sizes keeps every domain end.\<close>

lemma accumulate_concat:
  "list_all2 (\<lambda>n ls. sum_list ls = n \<and> ls \<noteq> []) sizes lss \<Longrightarrow>
     set (accumulate s sizes) \<subseteq> set (accumulate s (concat lss))"
proof (induction sizes lss arbitrary: s rule: list_all2_induct)
  case (Cons n sizes ls lss)
  then have "s + n \<in> set (accumulate s ls)" using accumulate_end [of ls s] by auto
  with Cons show ?case by (auto simp: accumulate_append)
qed simp

lemma map_res_balanced:
  assumes "list_all2 (\<lambda>n c. 1 \<le> c \<and> c \<le> n) sizes counts"
  shows "\<exists>lss. map_res (\<lambda>(size, count). balanced_chain_lengths size count) (zip sizes counts) = Inr lss
    \<and> list_all2 (\<lambda>n ls. sum_list ls = n \<and> ls \<noteq> []) sizes lss
    \<and> length (concat lss) = nat (sum_list counts) \<and> (\<forall>l \<in> set (concat lss). 1 \<le> l)
    \<and> (\<forall>m. (\<forall>d < length sizes. sizes ! d \<le> m * counts ! d) \<longrightarrow> (\<forall>l \<in> set (concat lss). l \<le> m))"
  using assms
proof (induction sizes counts rule: list_all2_induct)
  case (Cons n sizes c counts)
  obtain ls where ls: "balanced_chain_lengths n c = Inr ls" "sum_list ls = n" "length ls = nat c"
    "\<forall>l \<in> set ls. 1 \<le> l"
    using balanced_ok [of c n] Cons by metis
  from Cons obtain lss where IH:
    "map_res (\<lambda>(size, count). balanced_chain_lengths size count) (zip sizes counts) = Inr lss"
    "list_all2 (\<lambda>n ls. sum_list ls = n \<and> ls \<noteq> []) sizes lss"
    "length (concat lss) = nat (sum_list counts)" "\<forall>l \<in> set (concat lss). 1 \<le> l"
    "\<And>m. \<forall>d < length sizes. sizes ! d \<le> m * counts ! d \<Longrightarrow> \<forall>l \<in> set (concat lss). l \<le> m"
    by blast
  have "0 \<le> sum_list counts"
    using Cons.hyps(2) by (induction sizes counts rule: list_all2_induct) auto
  then have len: "length (concat (ls # lss)) = nat (sum_list (c # counts))"
    using ls(3) IH(3) Cons.hyps(1) by (simp add: nat_add_distrib)
  have bound: "\<forall>l \<in> set (concat (ls # lss)). l \<le> m"
    if "\<forall>d < length (n # sizes). (n # sizes) ! d \<le> m * (c # counts) ! d" for m
  proof -
    have n: "n \<le> m * c" and rest: "\<forall>d < length sizes. sizes ! d \<le> m * counts ! d"
      using that by (auto simp: All_less_Suc2)
    have "\<forall>l \<in> set ls. l \<le> m" using balanced_le [OF ls(1) n] by blast
    with IH(5) [OF rest] show ?thesis by auto
  qed
  have "ls \<noteq> []" using ls(3) Cons.hyps(1) by auto
  then have "list_all2 (\<lambda>n ls. sum_list ls = n \<and> ls \<noteq> []) (n # sizes) (ls # lss)" using ls(2) IH(2) by simp
  moreover have "map_res (\<lambda>(size, count). balanced_chain_lengths size count) (zip (n # sizes) (c # counts)) =
      Inr (ls # lss)" using ls(1) IH(1) by simp
  moreover have "\<forall>l \<in> set (concat (ls # lss)). 1 \<le> l" using ls(4) IH(4) by auto
  ultimately show ?case using len bound by blast
qed simp

lemma chain_lengths_spec:
  assumes pos: "\<forall>n \<in> set sizes. 1 \<le> n" and ne: "sizes \<noteq> []"
    and c: "int (length sizes) \<le> chain_count" "chain_count \<le> sum_list sizes"
  shows "\<exists>ls. chain_lengths sizes chain_count = Inr ls \<and> sum_list ls = sum_list sizes
    \<and> int (length ls) = chain_count \<and> (\<forall>l \<in> set ls. 1 \<le> l)
    \<and> set (accumulate 0 sizes) \<subseteq> set (accumulate 0 ls)
    \<and> (\<forall>m. 1 \<le> m \<longrightarrow> (\<exists>xs. length xs = length sizes \<and> (\<forall>d < length sizes. 1 \<le> xs ! d)
         \<and> sum_list xs = chain_count \<and> (\<forall>d < length sizes. sizes ! d \<le> m * xs ! d)) \<longrightarrow> (\<forall>l \<in> set ls. l \<le> m))"
proof -
  have c1: "1 \<le> chain_count" using ne c(1) by (cases sizes) auto
  obtain ls where ls: "balanced_chain_lengths (sum_list sizes) chain_count = Inr ls"
    "sum_list ls = sum_list sizes" "length ls = nat chain_count" "\<forall>l \<in> set ls. 1 \<le> l"
    using balanced_ok [OF c1 c(2)] by metis
  have total: "sum_list sizes \<le> m * chain_count"
    if xs: "length xs = length sizes" "sum_list xs = chain_count" "\<forall>d < length sizes. sizes ! d \<le> m * xs ! d" for m xs
  proof -
    have "sum_list sizes = (\<Sum>d < length sizes. sizes ! d)" by (simp add: sum_list_sum_nth lessThan_atLeast0)
    also have "\<dots> \<le> (\<Sum>d < length sizes. m * xs ! d)" using xs(3) by (intro sum_mono) auto
    also have "\<dots> = m * sum_list xs" using xs(1) by (simp add: sum_list_sum_nth lessThan_atLeast0 sum_distrib_left)
    finally show ?thesis using xs(2) by simp
  qed
  show ?thesis
  proof (cases "set (accumulate 0 sizes) \<subseteq> set (accumulate 0 ls)")
    case True
    then have "chain_lengths sizes chain_count = Inr ls" using ls(1) by (simp add: chain_lengths_def)
    moreover have "\<forall>l \<in> set ls. l \<le> m"
      if "length xs = length sizes" "sum_list xs = chain_count" "\<forall>d < length sizes. sizes ! d \<le> m * xs ! d" for m xs
      using balanced_le [OF ls(1) total [OF that]] by blast
    ultimately show ?thesis using ls True c1 by (intro exI [of _ ls]) auto
  next
    case False
    obtain r where r: "chains_per_domain sizes chain_count = Inr r" "greedy_inv sizes r" "sum_list r = chain_count"
      using chains_per_domain_greedy [OF pos c] by blast
    have "list_all2 (\<lambda>n c. 1 \<le> c \<and> c \<le> n) sizes r"
      using greedy_invD [OF r(2)] by (auto simp: list_all2_conv_all_nth)
    from map_res_balanced [OF this] obtain lss where
      lss: "map_res (\<lambda>(size, count). balanced_chain_lengths size count) (zip sizes r) = Inr lss"
      "list_all2 (\<lambda>n ls. sum_list ls = n \<and> ls \<noteq> []) sizes lss"
      "length (concat lss) = nat (sum_list r)" "\<forall>l \<in> set (concat lss). 1 \<le> l"
      "\<And>m. \<forall>d < length sizes. sizes ! d \<le> m * r ! d \<Longrightarrow> \<forall>l \<in> set (concat lss). l \<le> m"
      by blast
    have "chain_lengths sizes chain_count = Inr (concat lss)"
      using ls(1) False r(1) lss(1) by (simp add: chain_lengths_def)
    moreover have "sum_list (concat lss) = sum_list sizes"
      using lss(2) by (induction sizes lss rule: list_all2_induct) auto
    moreover have "\<forall>l \<in> set (concat lss). l \<le> m"
      if "1 \<le> m" "length xs = length sizes" "\<forall>d < length sizes. 1 \<le> xs ! d" "sum_list xs = chain_count"
        "\<forall>d < length sizes. sizes ! d \<le> m * xs ! d" for m xs
      using greedy_optimal [OF r(2) that(1-3) _ that(5)] that(4) r(3) by (intro lss(5)) auto
    ultimately show ?thesis using lss(3,4) accumulate_concat [OF lss(2), of 0] r(3) c1
      by (intro exI [of _ "concat lss"]) auto
  qed
qed

lemma ceil_div:
  assumes "1 \<le> (m::int)" and "1 \<le> n"
  shows "1 \<le> - ((- n) div m)" "- ((- n) div m) \<le> n" "n \<le> m * - ((- n) div m)"
proof -
  have e: "- n = m * ((- n) div m) + (- n) mod m" by simp
  have r: "0 \<le> (- n) mod m" using assms by auto
  show le: "n \<le> m * - ((- n) div m)" using e r by linarith
  have "0 < m * - ((- n) div m)" using le assms by linarith
  then have "0 < - ((- n) div m)" using assms zero_less_mult_iff [of m "- ((- n) div m)"] by linarith
  then show "1 \<le> - ((- n) div m)" by linarith
  have "- n \<le> (- n) div m"
  proof -
    have "(- n) div 1 \<le> (- n) div m" using assms zdiv_mono2_neg [of "- n" 1 m] by simp
    then show ?thesis by simp
  qed
  then show "- ((- n) div m) \<le> n" by simp
qed

lemma chain_lengths_fit:
  assumes pos: "\<forall>n \<in> set sizes. 1 \<le> n" and ne: "sizes \<noteq> []"
    and count: "chain_count_from_options sizes 1 (Some m) = Inr chain_count"
  shows "\<exists>ls. chain_lengths sizes chain_count = Inr ls \<and> (\<forall>l \<in> set ls. l \<le> m)"
proof -
  define xs where "xs = map (\<lambda>n. - ((- n) div m)) sizes"
  from count have m: "1 \<le> m" and cc: "chain_count = max 1 (sum_list xs)"
    by (auto simp: chain_count_from_options_def xs_def split: if_splits)
  have x: "1 \<le> xs ! d" "sizes ! d \<le> m * xs ! d" if "d < length sizes" for d
    using ceil_div [OF m, of "sizes ! d"] pos that by (auto simp: xs_def)
  have "int (length xs) \<le> sum_list xs"
    using pos ceil_div(1) [OF m] by (intro sum_list_ge_length) (auto simp: xs_def)
  moreover have "0 < length xs" using ne by (simp add: xs_def)
  ultimately have eq: "chain_count = sum_list xs" unfolding cc by linarith
  then have lo: "int (length sizes) \<le> chain_count"
    using \<open>int (length xs) \<le> sum_list xs\<close> by (simp add: xs_def)
  have "sum_list xs \<le> sum_list sizes"
    unfolding xs_def using pos
  proof (induction sizes)
    case (Cons n ns)
    then show ?case using ceil_div(2) [OF m, of n] by simp
  qed simp
  with chain_lengths_spec [OF pos ne lo] obtain ls where "chain_lengths sizes chain_count = Inr ls"
    and fit: "\<forall>m. 1 \<le> m \<longrightarrow> (\<exists>xs. length xs = length sizes \<and> (\<forall>d < length sizes. 1 \<le> xs ! d)
         \<and> sum_list xs = chain_count \<and> (\<forall>d < length sizes. sizes ! d \<le> m * xs ! d)) \<longrightarrow> (\<forall>l \<in> set ls. l \<le> m)"
    by (auto simp: eq)
  moreover have "length xs = length sizes" by (simp add: xs_def)
  ultimately have "\<forall>l \<in> set ls. l \<le> m" using m x eq by blast
  with \<open>chain_lengths sizes chain_count = Inr ls\<close> show ?thesis by blast
qed

text \<open>
  C18. Chain lengths for any number of chains between the number of clock domains and the number of
  flip-flops: the computation succeeds, gives exactly that many chains, none empty, holding all
  flip-flops together, and every clock domain ends where some chain ends, so that no chain spans
  two domains.
\<close>

theorem chain_lengths_partition:
  assumes pos: "\<forall>n \<in> set sizes. 1 \<le> n" and ne: "sizes \<noteq> []"
    and c: "int (length sizes) \<le> chain_count" "chain_count \<le> sum_list sizes"
  shows "\<exists>ls. chain_lengths sizes chain_count = Inr ls \<and> sum_list ls = sum_list sizes
    \<and> int (length ls) = chain_count \<and> (\<forall>l \<in> set ls. 1 \<le> l)
    \<and> set (accumulate 0 sizes) \<subseteq> set (accumulate 0 ls)"
  using chain_lengths_spec [OF assms] by blast

theorem chain_lengths_partition_witness:
  "\<exists>ls. chain_lengths [5, 2] 3 = Inr ls \<and> sum_list ls = sum_list [5, 2]
    \<and> int (length ls) = 3 \<and> (\<forall>l \<in> set ls. 1 \<le> l)
    \<and> set (accumulate 0 [5, 2]) \<subseteq> set (accumulate 0 ls)"
  by (rule chain_lengths_partition) simp_all

text \<open>
  When only a maximal chain length is asked for, the chain count chosen from it is enough:
  every chain that is then laid out respects the limit, so the later check of the computed lengths
  against the limit cannot fail.
\<close>

theorem max_chain_length_respected:
  assumes pos: "\<forall>n \<in> set sizes. 1 \<le> n" and ne: "sizes \<noteq> []"
    and count: "chain_count_from_options sizes 1 (Some m) = Inr chain_count"
  shows "\<exists>ls. chain_lengths sizes chain_count = Inr ls \<and> (\<forall>l \<in> set ls. l \<le> m)"
  using chain_lengths_fit [OF assms] by blast

theorem max_chain_length_respected_witness:
  "\<exists>ls. chain_lengths [5, 2] 3 = Inr ls \<and> (\<forall>l \<in> set ls. l \<le> 3)"
  by (rule max_chain_length_respected) (simp_all add: chain_count_from_options_def)

text \<open>
  C19. The allocation of chains to clock domains keeps the longest chain as short as the count
  allows: if any allocation \<open>xs\<close> of the same number of chains, at least one per domain, keeps every
  domain within \<open>m\<close> flip-flops per chain, so does the computed one; it gives every domain at least
  one chain and at most one per flip-flop.
\<close>

theorem chains_per_domain_optimal:
  assumes pos: "\<forall>n \<in> set sizes. 1 \<le> n" and c: "int (length sizes) \<le> c" "c \<le> sum_list sizes"
  shows "\<exists>r. chains_per_domain sizes c = Inr r \<and> sum_list r = c \<and> length r = length sizes
    \<and> (\<forall>d < length sizes. 1 \<le> r ! d \<and> r ! d \<le> sizes ! d)
    \<and> (\<forall>m xs. 1 \<le> m \<longrightarrow> length xs = length sizes \<longrightarrow> (\<forall>d < length sizes. 1 \<le> xs ! d) \<longrightarrow>
         sum_list xs = c \<longrightarrow> (\<forall>d < length sizes. sizes ! d \<le> m * xs ! d) \<longrightarrow>
         (\<forall>d < length sizes. sizes ! d \<le> m * r ! d))"
proof -
  obtain r where r: "chains_per_domain sizes c = Inr r" "greedy_inv sizes r" "sum_list r = c"
    using chains_per_domain_greedy [OF assms] by blast
  then show ?thesis using greedy_optimal [OF r(2)] greedy_invD [OF r(2)] by auto
qed

theorem chains_per_domain_optimal_witness:
  "\<exists>r. chains_per_domain [5, 2] 4 = Inr r \<and> sum_list r = 4 \<and> length r = length [5::int, 2]
    \<and> (\<forall>d < length [5::int, 2]. 1 \<le> r ! d \<and> r ! d \<le> [5, 2] ! d)
    \<and> (\<forall>m xs. 1 \<le> m \<longrightarrow> length xs = length [5::int, 2] \<longrightarrow> (\<forall>d < length [5::int, 2]. 1 \<le> xs ! d) \<longrightarrow>
         sum_list xs = 4 \<longrightarrow> (\<forall>d < length [5::int, 2]. [5, 2] ! d \<le> m * xs ! d) \<longrightarrow>
         (\<forall>d < length [5::int, 2]. [5, 2] ! d \<le> m * r ! d))"
  by (rule chains_per_domain_optimal) simp_all

end
