(* ===== verification/Scan_Stitch.thy ===== *)
theory Scan_Stitch
  imports Netlist Chain_Lengths Scan_Protocol "HOL-Library.Multiset"
begin

text \<open>
  Scan insertion: \<^verbatim>\<open>faultflow/scan/stitch.py\<close>. The planner collects the flip-flops that can be put on a
  scan chain, orders them by clock net and name, cuts the order into chains and links each cell's
  scan input to its predecessor's output; the stitcher rewrites the netlist accordingly. Files are
  replaced by their parsed contents: \<^verbatim>\<open>netlist_json\<close> and \<^verbatim>\<open>cell_map_json\<close> are JSON values, and
  \<open>stitch_scan_json\<close> returns the netlist it would write.
\<close>

section \<open>Data\<close>

definition SCAN_CELL_TYPE :: string where "SCAN_CELL_TYPE = ''$scanff_faultflow''"
definition YOSYS_SCAN_CELL_TYPE :: string where "YOSYS_SCAN_CELL_TYPE = CHR 92 # ''$scanff_faultflow''"
definition SCAN_RESET_CELL_TYPE :: string where "SCAN_RESET_CELL_TYPE = ''$scanff_r_faultflow''"
definition YOSYS_SCAN_RESET_CELL_TYPE :: string where
  "YOSYS_SCAN_RESET_CELL_TYPE = CHR 92 # ''$scanff_r_faultflow''"
definition SCAN_SET_CELL_TYPE :: string where "SCAN_SET_CELL_TYPE = ''$scanff_s_faultflow''"
definition YOSYS_SCAN_SET_CELL_TYPE :: string where
  "YOSYS_SCAN_SET_CELL_TYPE = CHR 92 # ''$scanff_s_faultflow''"

definition YOSYS_CAPTURE_AND_CELL :: string where
  "YOSYS_CAPTURE_AND_CELL = CHR 92 # ''$faultflow_capture_and''"
definition YOSYS_CAPTURE_OR_CELL :: string where
  "YOSYS_CAPTURE_OR_CELL = CHR 92 # ''$faultflow_capture_or''"
definition YOSYS_CAPTURE_INV_CELL :: string where
  "YOSYS_CAPTURE_INV_CELL = CHR 92 # ''$faultflow_capture_inv''"

definition SCAN_CELL_TYPES :: "string list" where
  "SCAN_CELL_TYPES = [SCAN_CELL_TYPE, YOSYS_SCAN_CELL_TYPE, SCAN_RESET_CELL_TYPE,
     YOSYS_SCAN_RESET_CELL_TYPE, SCAN_SET_CELL_TYPE, YOSYS_SCAN_SET_CELL_TYPE]"

definition WBR_SCAN_ATTR :: string where "WBR_SCAN_ATTR = ''faultflow_wbr''"
definition WBR_CHAIN_ATTR :: string where "WBR_CHAIN_ATTR = ''faultflow_wbr_chain''"
definition WBR_BIT_ATTR :: string where "WBR_BIT_ATTR = ''wbr_bit''"
definition DEFAULT_WBR_SCAN_IN :: string where "DEFAULT_WBR_SCAN_IN = ''wbr_si''"
definition DEFAULT_WBR_SCAN_OUT :: string where "DEFAULT_WBR_SCAN_OUT = ''wbr_so''"

definition CONST_NETS :: "int dict" where "CONST_NETS = [(''0'', -1), (''1'', -2)]"
definition CONST_BITS :: "(int \<times> string) list" where
  "CONST_BITS = dict_of (map (\<lambda>(b, net). (net, b)) CONST_NETS)"

record ScanCellRecord =
  rec_instance :: string
  rec_original_type :: string
  rec_chain_index :: int
  rec_chain_position :: int
  rec_clock_net :: int
  rec_data_net :: int
  rec_scan_in_net :: int
  rec_scan_enable_net :: int
  rec_q_net :: int

record IneligibleFF =
  inel_instance :: string
  inel_cell_type :: string
  inel_reason :: string

record ScanChainRecord =
  ch_index :: int
  ch_scan_in :: string
  ch_scan_out :: string
  ch_scan_in_net :: int
  ch_scan_out_net :: int
  ch_cells :: "ScanCellRecord list"

definition chain_length :: "ScanChainRecord \<Rightarrow> int" where
  "chain_length c = int (length (ch_cells c))"

record ScanPlan =
  plan_top :: string
  plan_chain_count :: int
  plan_cell_count :: int
  plan_clock_nets :: "int list"
  plan_scan_inputs :: "string list"
  plan_scan_outputs :: "string list"
  plan_scan_enable :: string
  plan_chains :: "ScanChainRecord list"
  plan_cells :: "ScanCellRecord list"
  plan_ineligible_ffs :: "IneligibleFF list"
  plan_wrapper_chains :: "ScanChainRecord list"

record ScanStitchResult = ScanPlan +
  result_output_json :: string

record EligibleFF =
  ff_instance :: string
  ff_cell :: jobj
  ff_ff_meta :: jobj
  ff_original_type :: string
  ff_clock_net :: int
  ff_data_net :: int
  ff_q_net :: int
  ff_async_kind :: string
  ff_async_net :: int
  ff_async_pin :: "string option"
  ff_enable_net :: int
  ff_enable_level :: string
  ff_enable_const :: "bool option"

record WBRCell =
  wbr_instance :: string
  wbr_cell_type :: string
  wbr_chain_group :: int
  wbr_bit_pos :: int
  wbr_clock_net :: int
  wbr_cti_net :: int
  wbr_cto_net :: int
  wbr_se_net :: int
  wbr_func_net :: int

section \<open>Reading flip-flop connections\<close>

text \<open>\<^verbatim>\<open>value[0] in CONST_NETS\<close> raises \<open>TypeError\<close> when the bit is a list or an object.\<close>

definition data_net :: "json \<Rightarrow> int option res" where
  "data_net value =
     (case maybe_one_bit value of
        Some n \<Rightarrow> Inr (Some n)
      | None \<Rightarrow>
          (case as_list value of
             Some [b] \<Rightarrow> (case b of
                 JStr s \<Rightarrow> Inr (map_of CONST_NETS s)
               | JList _ \<Rightarrow> Inl TypeError
               | JObj _ \<Rightarrow> Inl TypeError
               | _ \<Rightarrow> Inr None)
           | _ \<Rightarrow> Inr None))"

definition wire_bit :: "int \<Rightarrow> json" where
  "wire_bit net = (case map_of CONST_BITS net of None \<Rightarrow> JInt net | Some s \<Rightarrow> JStr s)"

definition resolve_enable_bit :: "jobj \<Rightarrow> string \<Rightarrow> int option \<times> bool option" where
  "resolve_enable_bit conns pin =
     (case as_list (get_or conns pin JNull) of
        Some [b] \<Rightarrow>
          (case as_int b of
             Some n \<Rightarrow> (Some n, None)
           | None \<Rightarrow> if b = JStr ''0'' \<or> b = JStr ''1'' then (None, Some (b = JStr ''1''))
                     else (None, None))
      | _ \<Rightarrow> (None, None))"

definition nonempty_str :: "json \<Rightarrow> string option" where
  "nonempty_str v = (case as_str v of Some s \<Rightarrow> if s = [] then None else Some s | None \<Rightarrow> None)"

definition ff_pin :: "jobj \<Rightarrow> string \<Rightarrow> string option" where
  "ff_pin ff_meta key = nonempty_str (get_or ff_meta key JNull)"

fun async_control_in :: "(string \<times> string) list \<Rightarrow> jobj \<Rightarrow> string \<times> string option" where
  "async_control_in [] ff_meta = (''none'', None)"
| "async_control_in ((key, kind) # rest) ff_meta =
     (case get_or ff_meta key JNull of
        JNull \<Rightarrow> async_control_in rest ff_meta
      | JObj spec \<Rightarrow> (kind, nonempty_str (get_or spec ''pin'' JNull))
      | spec \<Rightarrow> (kind, nonempty_str spec))"

definition async_control :: "jobj \<Rightarrow> string \<times> string option" where
  "async_control = async_control_in [(''clear'', ''reset''), (''reset'', ''reset''),
     (''preset'', ''set''), (''set'', ''set'')]"

definition enable_control :: "jobj \<Rightarrow> string option \<times> string" where
  "enable_control ff_meta =
     (case as_obj (get_or ff_meta ''enable'' JNull) of
        None \<Rightarrow> (None, ''HIGH'')
      | Some spec \<Rightarrow>
          (case nonempty_str (get_or spec ''pin'' JNull) of
             None \<Rightarrow> (None, ''HIGH'')
           | Some pin \<Rightarrow>
               (let level = get_or spec ''level'' JNull
                in (Some pin, if level = JStr ''LOW'' then ''LOW'' else ''HIGH''))))"

definition name_set :: "jobj \<Rightarrow> string list" where
  "name_set module =
     concat (map (\<lambda>key. case as_obj (get_or module key (JObj [])) of None \<Rightarrow> [] | Some d \<Rightarrow> map fst d)
       [''ports'', ''netnames''])"

definition check_names_free :: "jobj \<Rightarrow> string list \<Rightarrow> unit res" where
  "check_names_free module names =
     (case find (\<lambda>name. name \<in> set (name_set module)) names of
        Some name \<Rightarrow> Inl (ScanError (''scan artifact name already exists: '' @ name))
      | None \<Rightarrow> if \<not> distinct names then Inl (ScanError ''generated scan port names are not unique'')
                else Inr ())"

definition is_ffish :: "string \<Rightarrow> bool" where
  "is_ffish cell_type =
     (let lowered = lower_str cell_type
      in contains_str lowered ''dff'' \<or> ends_with lowered ''ff'' \<or> contains_str lowered ''scanff'')"

section \<open>Which flip-flops can be scanned\<close>

fun pin_reasons :: "(string \<times> string) list \<Rightarrow> jobj \<Rightarrow> jobj \<Rightarrow> string option res" where
  "pin_reasons [] ff_meta conns = Inr None"
| "pin_reasons ((key, reason) # rest) ff_meta conns =
     (case ff_pin ff_meta key of
        None \<Rightarrow> Inr (Some reason)
      | Some pin \<Rightarrow>
          bind_res (if key = ''data'' then data_net (get_or conns pin JNull)
                    else Inr (maybe_one_bit (get_or conns pin JNull)))
            (\<lambda>net. if net = None then Inr (Some reason) else pin_reasons rest ff_meta conns))"

definition reason_for_ff :: "jobj \<Rightarrow> jobj \<Rightarrow> string option res" where
  "reason_for_ff cell ff_meta =
     (case as_obj (get_or cell ''connections'' (JObj [])) of
        None \<Rightarrow> Inr (Some ''unsupported_ff_shape'')
      | Some conns \<Rightarrow>
          if has_key ff_meta ''scan'' then Inr (Some ''existing_scan_cell'')
          else
            let has_clear = has_key ff_meta ''clear'' \<or> has_key ff_meta ''reset'';
                has_preset = has_key ff_meta ''preset'' \<or> has_key ff_meta ''set'';
                async_bad = (case snd (async_control ff_meta) of
                    None \<Rightarrow> True | Some pin \<Rightarrow> maybe_one_bit (get_or conns pin JNull) = None);
                enable_bad = (case fst (enable_control ff_meta) of
                    None \<Rightarrow> True | Some pin \<Rightarrow> resolve_enable_bit conns pin = (None, None))
            in if has_clear \<and> has_preset then Inr (Some ''has_async_reset_set'')
               else if (has_clear \<or> has_preset) \<and> async_bad then Inr (Some ''unsupported_ff_shape'')
               else if has_key ff_meta ''enable'' \<and> enable_bad then Inr (Some ''unsupported_ff_shape'')
               else if get_or ff_meta ''trigger'' JNull = JStr ''NEGEDGE'' then Inr (Some ''negedge_clock'')
               else if get_or ff_meta ''trigger'' JNull \<noteq> JStr ''POSEDGE''
                    then Inr (Some ''unsupported_ff_shape'')
               else pin_reasons [(''clock'', ''no_clock_pin''), (''data'', ''no_data_pin''),
                      (''output'', ''no_output_pin'')] ff_meta conns)"

definition internal_error :: "string \<Rightarrow> py_exc" where
  "internal_error name = ScanError (name @ '': internal FF metadata validation failed'')"

definition enable_nets :: "jobj \<Rightarrow> string option \<Rightarrow> int \<times> bool option" where
  "enable_nets conns enable_pin =
     (case enable_pin of
        None \<Rightarrow> (-1, None)
      | Some pin \<Rightarrow> (case resolve_enable_bit conns pin of
          (net, const) \<Rightarrow> (case net of None \<Rightarrow> -1 | Some n \<Rightarrow> n, const)))"

definition async_bit :: "string \<Rightarrow> jobj \<Rightarrow> string \<times> string option \<Rightarrow> int res" where
  "async_bit name conns control =
     (case snd control of
        None \<Rightarrow> Inr (-1)
      | Some pin \<Rightarrow> if fst control = ''none'' then Inr (-1)
                    else one_bit (get_or conns pin JNull) (name @ ''.'' @ pin))"

definition eligible_ff :: "string \<Rightarrow> jobj \<Rightarrow> jobj \<Rightarrow> string \<Rightarrow> EligibleFF res" where
  "eligible_ff name cell ff_meta cell_type =
     bind_res (getitem cell ''connections'') (\<lambda>raw_conns.
     bind_res (lift_option AttributeError (as_obj raw_conns)) (\<lambda>conns.
     bind_res (lift_option (internal_error name) (ff_pin ff_meta ''clock'')) (\<lambda>clk_pin.
     bind_res (lift_option (internal_error name) (ff_pin ff_meta ''data'')) (\<lambda>d_pin.
     bind_res (lift_option (internal_error name) (ff_pin ff_meta ''output'')) (\<lambda>q_pin.
     bind_res (bind_res (data_net (get_or conns d_pin JNull)) (lift_option (internal_error name))) (\<lambda>dn.
     bind_res (async_bit name conns (async_control ff_meta)) (\<lambda>async_net.
     bind_res (one_bit (get_or conns clk_pin JNull) (name @ ''.'' @ clk_pin)) (\<lambda>clock_net.
     bind_res (one_bit (get_or conns q_pin JNull) (name @ ''.'' @ q_pin)) (\<lambda>q_net.
     Inr \<lparr>ff_instance = name, ff_cell = cell, ff_ff_meta = ff_meta, ff_original_type = cell_type,
          ff_clock_net = clock_net, ff_data_net = dn, ff_q_net = q_net,
          ff_async_kind = fst (async_control ff_meta), ff_async_net = async_net,
          ff_async_pin = snd (async_control ff_meta),
          ff_enable_net = fst (enable_nets conns (fst (enable_control ff_meta))),
          ff_enable_level = snd (enable_control ff_meta),
          ff_enable_const = snd (enable_nets conns (fst (enable_control ff_meta)))\<rparr>)))))))))"

text \<open>The body of the loop of \<^verbatim>\<open>_collect_ffs\<close>: a cell is eligible, ineligible or not a flip-flop.\<close>

datatype ff_class = Eligible EligibleFF | Ineligible IneligibleFF | NotFF

definition ineligible :: "string \<Rightarrow> string \<Rightarrow> string \<Rightarrow> ff_class" where
  "ineligible name cell_type reason =
     Ineligible \<lparr>inel_instance = name, inel_cell_type = cell_type, inel_reason = reason\<rparr>"

definition has_wbr_attr :: "jobj \<Rightarrow> bool" where
  "has_wbr_attr cell =
     (case as_obj (get_or cell ''attributes'' (JObj [])) of
        None \<Rightarrow> False | Some attrs \<Rightarrow> has_key attrs WBR_SCAN_ATTR)"

definition classify_cell :: "jobj \<Rightarrow> string \<Rightarrow> json \<Rightarrow> ff_class res" where
  "classify_cell cell_map name raw =
     (case as_obj raw of
        None \<Rightarrow> Inl (ScanError (name @ '': cell entry is malformed''))
      | Some cell \<Rightarrow>
          let cell_type = py_str (get_or cell ''type'' (JStr []))
          in if cell_type \<in> set SCAN_CELL_TYPES
             then Inr (ineligible name cell_type ''existing_scan_cell'')
             else if has_wbr_attr cell then Inr (ineligible name cell_type ''wbr_scan_cell'')
             else case lookup_cell cell_map cell_type of
                 None \<Rightarrow> Inr (if is_ffish cell_type
                             then ineligible name cell_type ''unknown_cell_type'' else NotFF)
               | Some (_, entry) \<Rightarrow>
                   if get_or entry ''node_type'' JNull \<noteq> JStr ''FF'' then Inr NotFF
                   else case as_obj (get_or entry ''ff'' JNull) of
                       None \<Rightarrow> Inr (ineligible name cell_type ''unsupported_ff_shape'')
                     | Some ff_meta \<Rightarrow>
                         bind_res (reason_for_ff cell ff_meta) (\<lambda>reason.
                           case reason of
                             Some r \<Rightarrow> Inr (ineligible name cell_type r)
                           | None \<Rightarrow> bind_res (eligible_ff name cell ff_meta cell_type)
                                       (\<lambda>ff. Inr (Eligible ff))))"

fun eligible_of :: "ff_class \<Rightarrow> EligibleFF option" where
  "eligible_of (Eligible ff) = Some ff"
| "eligible_of _ = None"

fun ineligible_of :: "ff_class \<Rightarrow> IneligibleFF option" where
  "ineligible_of (Ineligible ff) = Some ff"
| "ineligible_of _ = None"

definition collect_ffs :: "jobj \<Rightarrow> jobj \<Rightarrow> (EligibleFF list \<times> IneligibleFF list) res" where
  "collect_ffs module cell_map =
     (case as_obj (get_or module ''cells'' (JObj [])) of
        None \<Rightarrow> Inl (ScanError ''top module cells must be an object'')
      | Some cells \<Rightarrow>
          bind_res (map_res (\<lambda>(name, raw). classify_cell cell_map name raw) (sort_key fst cells))
            (\<lambda>classes. Inr (List.map_filter eligible_of classes,
                            List.map_filter ineligible_of classes)))"


section \<open>The plan\<close>

definition scan_port_names :: "int \<Rightarrow> string \<Rightarrow> string \<Rightarrow> (string list \<times> string list) res" where
  "scan_port_names chain_count scan_in_base scan_out_base =
     (if chain_count < 1 then Inl (ScanError ''scan_chains must be >= 1'')
      else if chain_count = 1 then Inr ([scan_in_base], [scan_out_base])
      else Inr (map (\<lambda>index. scan_in_base @ ''_'' @ show_int index) [0..chain_count - 1],
                map (\<lambda>index. scan_out_base @ ''_'' @ show_int index) [0..chain_count - 1]))"

definition clock_counts :: "EligibleFF list \<Rightarrow> (int \<times> int) list" where
  "clock_counts eligible =
     fold (\<lambda>ff counts. dict_set counts (ff_clock_net ff) (get_or counts (ff_clock_net ff) 0 + 1)) eligible []"

definition domain_sizes :: "EligibleFF list \<Rightarrow> int list" where
  "domain_sizes eligible =
     (let counts = clock_counts eligible
      in map (\<lambda>net. get_or counts net 0) (sort (map fst counts)))"

text \<open>The inner loop of \<^verbatim>\<open>_build_plan\<close>: the records of one chain, each fed by the previous output.\<close>

fun chain_records :: "int \<Rightarrow> int \<Rightarrow> int \<Rightarrow> int \<Rightarrow> EligibleFF list \<Rightarrow> ScanCellRecord list" where
  "chain_records scan_enable_bit chain_index chain_position previous_q [] = []"
| "chain_records scan_enable_bit chain_index chain_position previous_q (ff # ffs) =
     \<lparr>rec_instance = ff_instance ff, rec_original_type = ff_original_type ff,
      rec_chain_index = chain_index, rec_chain_position = chain_position,
      rec_clock_net = ff_clock_net ff, rec_data_net = ff_data_net ff,
      rec_scan_in_net = previous_q, rec_scan_enable_net = scan_enable_bit, rec_q_net = ff_q_net ff\<rparr>
     # chain_records scan_enable_bit chain_index (chain_position + 1) (ff_q_net ff) ffs"

text \<open>The outer loop: \<open>chain_index\<close> counts the chains and \<open>cursor\<close> the flip-flops used so far.\<close>

fun build_chains ::
  "EligibleFF list \<Rightarrow> int \<Rightarrow> int list \<Rightarrow> string list \<Rightarrow> string list \<Rightarrow> nat \<Rightarrow> nat \<Rightarrow> int list
    \<Rightarrow> ScanChainRecord list res" where
  "build_chains eligible scan_enable_bit scan_in_bits scan_inputs scan_outputs chain_index cursor [] = Inr []"
| "build_chains eligible scan_enable_bit scan_in_bits scan_inputs scan_outputs chain_index cursor (len # lengths) =
     bind_res (nth_res scan_in_bits chain_index) (\<lambda>first.
     let chain_ffs = take (nat len) (drop cursor eligible);
         clocks = sorted_set (map ff_clock_net chain_ffs)
     in if 1 < length clocks
        then Inl (ScanError (''chain '' @ show_nat chain_index @ '' spans multiple clock domains ('' @
               py_repr (JList (map JInt clocks)) @ ''); increase scan_chains so each '' @
               ''domain occupies complete chains''))
        else bind_res (nth_res scan_inputs chain_index) (\<lambda>scan_in.
             bind_res (nth_res scan_outputs chain_index) (\<lambda>scan_out.
             bind_res (build_chains eligible scan_enable_bit scan_in_bits scan_inputs scan_outputs
                 (chain_index + 1) (cursor + nat len) lengths) (\<lambda>rest.
             Inr (\<lparr>ch_index = int chain_index, ch_scan_in = scan_in, ch_scan_out = scan_out,
                   ch_scan_in_net = first,
                   ch_scan_out_net = (if chain_ffs = [] then first else ff_q_net (last chain_ffs)),
                   ch_cells = chain_records scan_enable_bit (int chain_index) 0 first chain_ffs\<rparr>
                  # rest)))))"

definition build_plan ::
  "string \<Rightarrow> jobj \<Rightarrow> EligibleFF list \<Rightarrow> IneligibleFF list \<Rightarrow> int \<Rightarrow> int option \<Rightarrow> string \<Rightarrow> string
    \<Rightarrow> string \<Rightarrow> int \<Rightarrow> int list \<Rightarrow> ScanPlan res" where
  "build_plan top_name module eligible0 inelig scan_chains max_len scan_in_base scan_out_base
      scan_enable scan_enable_bit scan_in_bits =
     (if eligible0 = [] then
        if inelig \<noteq> []
        then Inl (ScanError (''no eligible FF cells found to stitch; reasons: '' @
               join_str '', '' (sorted_set (map inel_reason inelig))))
        else Inl (ScanError ''no eligible FF cells found to stitch'')
      else
        let clocks = sorted_set (map ff_clock_net eligible0);
            eligible = sort_key (\<lambda>ff. (ff_clock_net ff, ff_instance ff)) eligible0;
            sizes = domain_sizes eligible
        in bind_res (chain_count_from_options sizes scan_chains max_len) (\<lambda>chain_count.
           if chain_count < int (length clocks)
           then Inl (ScanError (''scan_chains ('' @ show_int chain_count @
                  '') must be >= number of clock domains ('' @ show_nat (length clocks) @
                  '') so each domain gets at least one chain''))
           else bind_res (chain_lengths sizes chain_count) (\<lambda>lengths.
           case Option.bind max_len (\<lambda>m. find (\<lambda>len. m < len) lengths) of
             Some len \<Rightarrow> Inl (ScanError (''computed chain length '' @ show_int len @
               '' exceeds max_chain_length '' @ (case max_len of Some m \<Rightarrow> show_int m | None \<Rightarrow> [])))
           | None \<Rightarrow>
             bind_res (scan_port_names chain_count scan_in_base scan_out_base) (\<lambda>(scan_inputs, scan_outputs).
             bind_res (check_names_free module (scan_inputs @ scan_outputs @ [scan_enable])) (\<lambda>_.
             bind_res (build_chains eligible scan_enable_bit scan_in_bits scan_inputs scan_outputs 0 0 lengths)
               (\<lambda>chs. let records = concat (map ch_cells chs)
                 in Inr \<lparr>plan_top = top_name, plan_chain_count = chain_count,
                      plan_cell_count = int (length records), plan_clock_nets = clocks,
                      plan_scan_inputs = scan_inputs, plan_scan_outputs = scan_outputs,
                      plan_scan_enable = scan_enable, plan_chains = chs, plan_cells = records,
                      plan_ineligible_ffs = inelig, plan_wrapper_chains = []\<rparr>))))))"

section \<open>Wrapper chains\<close>

definition wbr_pin :: "jobj \<Rightarrow> string \<Rightarrow> string \<Rightarrow> string" where
  "wbr_pin wbr key dflt = py_str (get_or wbr key (JStr dflt))"

definition int_attr :: "jobj \<Rightarrow> string \<Rightarrow> int res" where
  "int_attr attrs key = py_int (JStr (py_str (get_or attrs key (JStr ''0''))))"

definition wbr_cell :: "jobj \<Rightarrow> string \<Rightarrow> json \<Rightarrow> WBRCell option res" where
  "wbr_cell cell_map name raw =
     (case as_obj raw of
        None \<Rightarrow> Inr None
      | Some cell \<Rightarrow>
          (case as_obj (get_or cell ''attributes'' (JObj [])) of
             None \<Rightarrow> Inr None
           | Some attrs \<Rightarrow>
               if \<not> has_key attrs WBR_SCAN_ATTR then Inr None
               else let cell_type = py_str (get_or cell ''type'' (JStr []))
               in case lookup_cell cell_map cell_type of
                 None \<Rightarrow> Inl (ScanError (name @ '': WBR scan cell '' @ repr_str cell_type @
                            '' not found in cell map''))
               | Some (_, entry) \<Rightarrow>
                   (case as_obj (get_or entry ''wbr'' (JObj [])) of
                      None \<Rightarrow> Inl (ScanError (name @ '': '' @ repr_str cell_type @
                                '' does not have wbr.scan=true in cell map''))
                    | Some wbr \<Rightarrow>
                        if \<not> truthy (get_or wbr ''scan'' JNull)
                        then Inl (ScanError (name @ '': '' @ repr_str cell_type @
                                '' does not have wbr.scan=true in cell map''))
                        else case as_obj (get_or cell ''connections'' (JObj [])) of
                          None \<Rightarrow> Inl (ScanError (name @ '': WBR scan cell has no connections''))
                        | Some conns \<Rightarrow>
                            let net = (\<lambda>pin. one_bit (get_or conns pin JNull) (name @ ''.'' @ pin))
                            in bind_res (int_attr attrs WBR_CHAIN_ATTR) (\<lambda>chain_group.
                               bind_res (int_attr attrs WBR_BIT_ATTR) (\<lambda>bit_pos.
                               bind_res (net (wbr_pin wbr ''clock_pin'' ''CLK'')) (\<lambda>clk.
                               bind_res (net (wbr_pin wbr ''chain_in_pin'' ''CTI'')) (\<lambda>cti.
                               bind_res (net (wbr_pin wbr ''chain_out_pin'' ''CTO'')) (\<lambda>cto.
                               bind_res (net (wbr_pin wbr ''scan_enable_pin'' ''SE'')) (\<lambda>se.
                               Inr (Some \<lparr>wbr_instance = name, wbr_cell_type = cell_type,
                                 wbr_chain_group = chain_group, wbr_bit_pos = bit_pos,
                                 wbr_clock_net = clk, wbr_cti_net = cti, wbr_cto_net = cto,
                                 wbr_se_net = se,
                                 wbr_func_net = (case maybe_one_bit (get_or conns
                                     (wbr_pin wbr ''func_in_pin'' ''FROM_SYS'') JNull) of
                                   None \<Rightarrow> -1 | Some n \<Rightarrow> n)\<rparr>))))))))))"

definition collect_wbr_cells :: "jobj \<Rightarrow> jobj \<Rightarrow> WBRCell list res" where
  "collect_wbr_cells module cell_map =
     (case as_obj (get_or module ''cells'' (JObj [])) of
        None \<Rightarrow> Inr []
      | Some cells \<Rightarrow>
          bind_res (map_res (\<lambda>(name, raw). wbr_cell cell_map name raw) (sort_key fst cells))
            (\<lambda>found. Inr (sort_key (\<lambda>c. (wbr_chain_group c, wbr_bit_pos c))
                        (List.map_filter id found))))"

definition wrapper_records :: "int \<Rightarrow> WBRCell list \<Rightarrow> ScanCellRecord list" where
  "wrapper_records group_idx cells_of_group =
     map (\<lambda>(pos, cell).
       \<lparr>rec_instance = wbr_instance cell, rec_original_type = wbr_cell_type cell,
        rec_chain_index = group_idx, rec_chain_position = pos, rec_clock_net = wbr_clock_net cell,
        rec_data_net = (if 0 \<le> wbr_func_net cell then wbr_func_net cell else 0),
        rec_scan_in_net = wbr_cti_net cell, rec_scan_enable_net = wbr_se_net cell,
        rec_q_net = wbr_cto_net cell\<rparr>) (zip [0..int (length cells_of_group) - 1] cells_of_group)"

definition build_wrapper_chains ::
  "jobj \<Rightarrow> WBRCell list \<Rightarrow> string \<Rightarrow> string \<Rightarrow> ScanChainRecord list res" where
  "build_wrapper_chains module wbr_cells si_base so_base =
     (let group_ids = sorted_set (map wbr_chain_group wbr_cells);
          ports = (case as_obj (get_or module ''ports'' (JObj [])) of None \<Rightarrow> [] | Some d \<Rightarrow> d);
          port_name = (\<lambda>base group_idx. if length group_ids = 1 then base
                         else base @ ''_'' @ show_int group_idx)
      in map_res (\<lambda>group_idx.
           let cells_of_group = sort_key wbr_bit_pos (filter (\<lambda>c. wbr_chain_group c = group_idx) wbr_cells);
               si_name = port_name si_base group_idx
           in case Option.bind (Option.bind (map_of ports si_name) as_obj)
                     (\<lambda>p. maybe_one_bit (get_or p ''bits'' JNull)) of
                None \<Rightarrow> Inl (ScanError (''wrapper scan-in port '' @ repr_str si_name @
                    '' not found in module; run wrap_ports with wbr_model='' @ repr_str ''scan'' @ '' first''))
              | Some si_net \<Rightarrow>
                  Inr \<lparr>ch_index = group_idx, ch_scan_in = si_name, ch_scan_out = port_name so_base group_idx,
                       ch_scan_in_net = si_net, ch_scan_out_net = wbr_cto_net (last cells_of_group),
                       ch_cells = wrapper_records group_idx cells_of_group\<rparr>) group_ids)"

section \<open>Entry points\<close>

definition scan_clock_domains :: "json \<Rightarrow> json \<Rightarrow> string \<Rightarrow> (int \<times> int) list res" where
  "scan_clock_domains netlist_json cell_map_json top_name =
     bind_res (load_json netlist_json ''netlist_json'') (\<lambda>data.
     bind_res (top_module data top_name) (\<lambda>(_, module).
     bind_res (load_json cell_map_json ''cell_map_json'') (\<lambda>cell_map.
     bind_res (collect_ffs module cell_map) (\<lambda>(eligible, _).
     Inr (clock_counts eligible)))))"

text \<open>The common part of \<^verbatim>\<open>plan_scan_json\<close> and \<^verbatim>\<open>stitch_scan_json\<close>: collect, number the new nets, plan
  the internal and the wrapper chains.\<close>

definition plan_module ::
  "string \<Rightarrow> jobj \<Rightarrow> jobj \<Rightarrow> int \<Rightarrow> int option \<Rightarrow> string \<Rightarrow> string \<Rightarrow> string
    \<Rightarrow> (EligibleFF list \<times> int \<times> ScanPlan) res" where
  "plan_module top_name module cell_map scan_chains max_len scan_in_base scan_out_base scan_enable =
     bind_res (collect_ffs module cell_map) (\<lambda>(eligible, inelig).
     bind_res (chain_count_from_options (domain_sizes eligible) scan_chains max_len) (\<lambda>chain_count.
     bind_res (next_net_id module) (\<lambda>next_id.
     let scan_in_bits = map (\<lambda>index. next_id + index) [0..chain_count - 1];
         scan_enable_bit = next_id + chain_count
     in bind_res (build_plan top_name module eligible inelig scan_chains max_len scan_in_base
            scan_out_base scan_enable scan_enable_bit scan_in_bits) (\<lambda>plan.
        bind_res (collect_wbr_cells module cell_map) (\<lambda>wbr_cells.
        bind_res (build_wrapper_chains module wbr_cells DEFAULT_WBR_SCAN_IN DEFAULT_WBR_SCAN_OUT)
          (\<lambda>wrapper_chains.
        Inr (eligible, scan_enable_bit, plan\<lparr>plan_wrapper_chains := wrapper_chains\<rparr>)))))))"

definition plan_scan_json ::
  "json \<Rightarrow> json \<Rightarrow> string \<Rightarrow> int \<Rightarrow> int option \<Rightarrow> string \<Rightarrow> string \<Rightarrow> string \<Rightarrow> ScanPlan res" where
  "plan_scan_json netlist_json cell_map_json top_name scan_chains max_len scan_in_base scan_out_base scan_enable =
     bind_res (load_json netlist_json ''netlist_json'') (\<lambda>data.
     bind_res (load_json cell_map_json ''cell_map_json'') (\<lambda>cell_map.
     bind_res (top_module data top_name) (\<lambda>(name, module).
     bind_res (plan_module name module cell_map scan_chains max_len scan_in_base scan_out_base scan_enable)
       (\<lambda>(_, _, plan). Inr plan))))"

definition internal_cell :: "string \<Rightarrow> json \<Rightarrow> json \<Rightarrow> json" where
  "internal_cell cell_type directions connections =
     JObj [(''hide_name'', JInt 0), (''type'', JStr cell_type), (''parameters'', JObj []),
           (''attributes'', JObj [(''faultflow_internal'', JStr ''1'')]),
           (''port_directions'', directions), (''connections'', connections)]"

definition add_internal_buf1_cell :: "jobj \<Rightarrow> string \<Rightarrow> string \<Rightarrow> int \<Rightarrow> int \<Rightarrow> jobj" where
  "add_internal_buf1_cell cells name cell_type in_bit out_bit =
     dict_set cells name (internal_cell cell_type
       (JObj [(''A'', JStr ''input''), (''Y'', JStr ''output'')])
       (JObj [(''A'', JList [JInt in_bit]), (''Y'', JList [JInt out_bit])]))"

definition add_internal_gate2_cell ::
  "jobj \<Rightarrow> string \<Rightarrow> string \<Rightarrow> json \<Rightarrow> int \<Rightarrow> int \<Rightarrow> jobj" where
  "add_internal_gate2_cell cells name cell_type a_bit b_bit out_bit =
     dict_set cells name (internal_cell cell_type
       (JObj [(''A'', JStr ''input''), (''B'', JStr ''input''), (''Y'', JStr ''output'')])
       (JObj [(''A'', JList [a_bit]), (''B'', JList [JInt b_bit]), (''Y'', JList [JInt out_bit])]))"

definition add_enable_hold_mux ::
  "jobj \<Rightarrow> string \<Rightarrow> json \<Rightarrow> int \<Rightarrow> int \<Rightarrow> string \<Rightarrow> int \<Rightarrow> jobj \<times> int \<times> int" where
  "add_enable_hold_mux cells name d_net q_net enable_net enable_level next_id =
     (let not_enable_net = next_id;
          c1 = add_internal_buf1_cell cells (''$ffenmux_inv_'' @ name) YOSYS_CAPTURE_INV_CELL
                 enable_net not_enable_net;
          d_gate = (if enable_level = ''HIGH'' then enable_net else not_enable_net);
          q_gate = (if enable_level = ''HIGH'' then not_enable_net else enable_net);
          d_gated = next_id + 1;
          c2 = add_internal_gate2_cell c1 (''$ffenmux_d_'' @ name) YOSYS_CAPTURE_AND_CELL d_net d_gate d_gated;
          q_gated = next_id + 2;
          c3 = add_internal_gate2_cell c2 (''$ffenmux_q_'' @ name) YOSYS_CAPTURE_AND_CELL
                 (JInt q_net) q_gate q_gated;
          muxed_d = next_id + 3;
          c4 = add_internal_gate2_cell c3 (''$ffenmux_or_'' @ name) YOSYS_CAPTURE_OR_CELL
                 (JInt d_gated) q_gated muxed_d
      in (c4, muxed_d, next_id + 4))"

definition scan_cell_type_of :: "EligibleFF \<Rightarrow> string" where
  "scan_cell_type_of ff =
     (if ff_async_kind ff = ''reset'' then YOSYS_SCAN_RESET_CELL_TYPE
      else if ff_async_kind ff = ''set'' then YOSYS_SCAN_SET_CELL_TYPE else YOSYS_SCAN_CELL_TYPE)"

definition async_port :: "EligibleFF \<Rightarrow> json \<Rightarrow> jobj" where
  "async_port ff v =
     (if ff_async_kind ff = ''reset'' then [(''RESET_B'', v)]
      else if ff_async_kind ff = ''set'' then [(''SET_B'', v)] else [])"

definition scan_cell_json :: "EligibleFF \<Rightarrow> ScanCellRecord \<Rightarrow> json \<Rightarrow> json res" where
  "scan_cell_json ff r d_bit =
     bind_res (dict_copy (get_or (ff_cell ff) ''attributes'' (JObj []))) (\<lambda>attrs.
     bind_res (dict_copy (get_or (ff_cell ff) ''parameters'' (JObj []))) (\<lambda>parameters.
     Inr (JObj [(''hide_name'', get_or (ff_cell ff) ''hide_name'' (JInt 0)),
       (''type'', JStr (scan_cell_type_of ff)),
       (''parameters'', JObj parameters),
       (''attributes'', JObj (dict_update attrs
          [(''faultflow_original_type'', JStr (rec_original_type r)),
           (''faultflow_scan'', JStr ''1''),
           (''faultflow_scan_chain'', JStr (show_int (rec_chain_index r))),
           (''faultflow_scan_index'', JStr (show_int (rec_chain_position r)))])),
       (''port_directions'', JObj ([(''CLK'', JStr ''input''), (''D'', JStr ''input''),
          (''SDI'', JStr ''input''), (''SE'', JStr ''input''), (''Q'', JStr ''output'')]
          @ async_port ff (JStr ''input''))),
       (''connections'', JObj ([(''CLK'', JList [JInt (rec_clock_net r)]), (''D'', JList [d_bit]),
          (''SDI'', JList [JInt (rec_scan_in_net r)]), (''SE'', JList [JInt (rec_scan_enable_net r)]),
          (''Q'', JList [JInt (rec_q_net r)])] @ async_port ff (JList [JInt (ff_async_net ff)])))])))"

text \<open>What drives the scan cell's D: the data net, a hold multiplexer in front of it, or, with the enable
  tied to a constant, the data net or the cell's own output.\<close>

definition scan_data_input ::
  "EligibleFF \<Rightarrow> ScanCellRecord \<Rightarrow> jobj \<Rightarrow> int \<Rightarrow> jobj \<times> json \<times> int" where
  "scan_data_input ff r cells mux_next_id =
     (let dnet = wire_bit (rec_data_net r)
      in if ff_enable_net ff \<noteq> -1 then
           (case add_enable_hold_mux cells (rec_instance r) dnet (rec_q_net r) (ff_enable_net ff)
               (ff_enable_level ff) mux_next_id of (cells', muxed, next_id) \<Rightarrow> (cells', JInt muxed, next_id))
         else case ff_enable_const ff of
             Some const \<Rightarrow>
               (let active = (if ff_enable_level ff = ''HIGH'' then const else \<not> const)
                in (cells, if active then dnet else JInt (rec_q_net r), mux_next_id))
           | None \<Rightarrow> (cells, dnet, mux_next_id))"

definition stitch_record ::
  "EligibleFF dict \<Rightarrow> ScanCellRecord \<Rightarrow> jobj \<times> int \<Rightarrow> (jobj \<times> int) res" where
  "stitch_record by_instance r = (\<lambda>(cells, mux_next_id).
     bind_res (getitem by_instance (rec_instance r)) (\<lambda>ff.
     case scan_data_input ff r cells mux_next_id of (cells', d_bit, next_id) \<Rightarrow>
       bind_res (scan_cell_json ff r d_bit) (\<lambda>cell.
       Inr (dict_set cells' (rec_instance r) cell, next_id))))"

definition stitch_module ::
  "jobj \<Rightarrow> EligibleFF list \<Rightarrow> int \<Rightarrow> ScanPlan \<Rightarrow> jobj res" where
  "stitch_module module eligible scan_enable_bit plan =
     bind_res (fold_res (\<lambda>ch m. add_port m (ch_scan_in ch) ''input'' (ch_scan_in_net ch))
         (plan_chains plan) module) (\<lambda>m1.
     bind_res (add_port m1 (plan_scan_enable plan) ''input'' scan_enable_bit) (\<lambda>m2.
     bind_res (getitem m2 ''cells'') (\<lambda>raw_cells.
     bind_res (lift_option TypeError (as_obj raw_cells)) (\<lambda>cells.
     bind_res (fold_res (stitch_record (dict_of (map (\<lambda>ff. (ff_instance ff, ff)) eligible)))
         (plan_cells plan) (cells, scan_enable_bit + 1)) (\<lambda>(cells', _).
     fold_res (\<lambda>ch m. add_port m (ch_scan_out ch) ''output'' (ch_scan_out_net ch))
       (plan_chains plan) (dict_set m2 ''cells'' (JObj cells')))))))"

definition stitch_scan_json ::
  "json \<Rightarrow> json \<Rightarrow> string \<Rightarrow> string \<Rightarrow> int \<Rightarrow> int option \<Rightarrow> string \<Rightarrow> string \<Rightarrow> string
    \<Rightarrow> (ScanStitchResult \<times> jobj) res" where
  "stitch_scan_json netlist_json cell_map_json top_name output_json scan_chains max_len
      scan_in_base scan_out_base scan_enable =
     bind_res (load_json netlist_json ''netlist_json'') (\<lambda>data.
     bind_res (load_json cell_map_json ''cell_map_json'') (\<lambda>cell_map.
     bind_res (top_module data top_name) (\<lambda>(name, _).
     bind_res (top_module data name) (\<lambda>(_, module).
     bind_res (plan_module name module cell_map scan_chains max_len scan_in_base scan_out_base scan_enable)
       (\<lambda>(eligible, scan_enable_bit, plan).
     bind_res (stitch_module module eligible scan_enable_bit plan) (\<lambda>stitched.
     Inr (ScanPlan.extend plan (ScanStitchResult.fields output_json), set_module data name stitched)))))))"


section \<open>Clock domains\<close>

lemma clock_counts_fold:
  fixes d :: "(int \<times> int) list"
  defines "step \<equiv> \<lambda>ff counts. dict_set counts (ff_clock_net ff) (get_or counts (ff_clock_net ff) 0 + 1)"
  shows "get_or (fold step el d) n 0 = get_or d n 0 + int (length (filter (\<lambda>ff. ff_clock_net ff = n) el))"
    and "fst ` set (fold step el d) = fst ` set d \<union> ff_clock_net ` set el"
    and "distinct (map fst d) \<Longrightarrow> distinct (map fst (fold step el d))"
  by (induction el arbitrary: d) (auto simp: step_def dom_update distinct_update image_iff)

lemma domain_sizes_eq:
  "domain_sizes el = map (\<lambda>n. int (length (filter (\<lambda>k. k = n) (map ff_clock_net el))))
     (sorted_set (map ff_clock_net el))"
proof -
  have s: "sort (map fst (clock_counts el)) = sorted_set (map ff_clock_net el)"
  proof (rule sorted_distinct_set_unique)
    show "distinct (sort (map fst (clock_counts el)))"
      using clock_counts_fold(3) [of "[]" el] by (simp add: clock_counts_def)
    show "set (sort (map fst (clock_counts el))) = set (sorted_set (map ff_clock_net el))"
      using clock_counts_fold(2) [of el "[]"] by (simp add: clock_counts_def)
  qed simp_all
  have "get_or (clock_counts el) n 0 = int (length (filter (\<lambda>k. k = n) (map ff_clock_net el)))" for n
    using clock_counts_fold(1) [of el "[]" n]
    by (simp add: clock_counts_def get_or_def filter_map comp_def)
  with s show ?thesis by (simp add: domain_sizes_def)
qed

lemma sorted_set_mset: "mset xs = mset ys \<Longrightarrow> sorted_set xs = sorted_set ys"
  by (intro sorted_distinct_set_unique) (auto dest: mset_eq_setD)

lemma domain_sizes_mset:
  assumes "mset el = mset el'"
  shows "domain_sizes el = domain_sizes el'"
proof -
  have m: "mset (map ff_clock_net el) = mset (map ff_clock_net el')" using assms by simp
  have "length (filter P (map ff_clock_net el)) = length (filter P (map ff_clock_net el'))" for P
    using m by (metis mset_filter size_mset)
  with sorted_set_mset [OF m] show ?thesis by (simp add: domain_sizes_eq)
qed

text \<open>The ends of the domains in packing order: how many flip-flops have a clock net up to \<open>k\<close>.\<close>

lemma accumulate_counts:
  assumes "sorted ns" and "distinct ns"
  shows "accumulate s (map (\<lambda>n. int (length (filter (\<lambda>k. k = n) xs))) ns) =
    map (\<lambda>k. s + int (length (filter (\<lambda>x. x \<in> set ns \<and> x \<le> k) xs))) (ns :: int list)"
  using assms
proof (induction ns arbitrary: s)
  case (Cons n ns)
  have first: "filter (\<lambda>x. (x = n \<or> x \<in> set ns) \<and> x \<le> n) xs = filter (\<lambda>x. x = n) xs"
    using Cons.prems by (intro filter_cong) force+
  have rest: "int (length (filter (\<lambda>x. x = n) xs)) + int (length (filter (\<lambda>x. x \<in> set ns \<and> x \<le> k) xs)) =
      int (length (filter (\<lambda>x. (x = n \<or> x \<in> set ns) \<and> x \<le> k) xs))" if "k \<in> set ns" for k
  proof (induction xs)
    case (Cons y ys)
    have "n \<notin> set ns" "n \<le> k" using \<open>sorted (n # ns)\<close> \<open>distinct (n # ns)\<close> that by auto
    with Cons show ?case by auto
  qed simp
  show ?case using Cons first rest by (auto simp: add.assoc)
qed simp

lemma length_filter_sorted:
  "sorted xs \<Longrightarrow> Suc i < length xs \<Longrightarrow> xs ! i \<noteq> xs ! Suc i \<Longrightarrow>
     length (filter (\<lambda>x. x \<le> xs ! i) xs) = Suc i" for xs :: "int list"
proof (induction xs arbitrary: i)
  case (Cons y ys)
  show ?case
  proof (cases i)
    case 0
    with Cons.prems obtain z zs where ys: "ys = z # zs" by (cases ys) auto
    with Cons.prems 0 have "\<forall>v \<in> set ys. \<not> v \<le> y" by force
    with 0 show ?thesis by simp
  next
    case (Suc j)
    with Cons.prems have "y \<le> ys ! j" "length (filter (\<lambda>x. x \<le> ys ! j) ys) = Suc j"
      using Cons.IH [of j] by auto
    with Suc show ?thesis by simp
  qed
qed simp

text \<open>Wherever the clock net changes in packing order, a domain ends.\<close>

lemma clock_change_ends_domain:
  assumes "sorted (map ff_clock_net el)" and "Suc i < length el"
    and "ff_clock_net (el ! i) \<noteq> ff_clock_net (el ! Suc i)"
  shows "int (Suc i) \<in> set (accumulate 0 (domain_sizes el))"
proof -
  let ?xs = "map ff_clock_net el"
  have "length (filter (\<lambda>x. x \<le> ?xs ! i) ?xs) = Suc i"
    using assms by (intro length_filter_sorted) auto
  moreover have "filter (\<lambda>x. x \<in> set (sorted_set ?xs) \<and> x \<le> ?xs ! i) ?xs = filter (\<lambda>x. x \<le> ?xs ! i) ?xs"
    by (intro filter_cong) auto
  moreover have mem: "?xs ! i \<in> set (sorted_set ?xs)" using assms(2) by (metis Suc_lessD length_map nth_mem set_sorted_set)
  moreover have "accumulate 0 (domain_sizes el) = map (\<lambda>k. 0 + int (length (filter (\<lambda>x.
      x \<in> set (sorted_set ?xs) \<and> x \<le> k) ?xs))) (sorted_set ?xs)"
    unfolding domain_sizes_eq by (rule accumulate_counts) simp_all
  ultimately show ?thesis by (simp only: set_map image_eqI [OF _ mem] add_0)
qed

lemma domain_sizes_pos: "n \<in> set (domain_sizes el) \<Longrightarrow> 1 \<le> n"
proof -
  assume "n \<in> set (domain_sizes el)"
  then obtain k where k: "k \<in> set (map ff_clock_net el)"
    and n: "n = int (length (filter (\<lambda>x. x = k) (map ff_clock_net el)))"
    by (auto simp: domain_sizes_eq)
  then have "filter (\<lambda>x. x = k) (map ff_clock_net el) \<noteq> []" by (auto simp: filter_empty_conv)
  with n show "1 \<le> n" by (cases "filter (\<lambda>x. x = k) (map ff_clock_net el)") auto
qed

lemma accumulate_last: "xs \<noteq> [] \<Longrightarrow> last (accumulate s xs) = s + sum_list xs"
proof (induction xs arbitrary: s)
  case (Cons x xs)
  show ?case
  proof (cases "xs = []")
    case False
    then have "accumulate (s + x) xs \<noteq> []" by (cases xs) auto
    with Cons.IH [OF False, of "s + x"] show ?thesis by (simp add: add.assoc)
  qed simp
qed simp

lemma sum_domain_sizes: "sum_list (domain_sizes el) = int (length el)"
proof (cases "el = []")
  case True
  then show ?thesis by (simp add: domain_sizes_eq sorted_set_def)
next
  case False
  let ?xs = "map ff_clock_net el" and ?ns = "sorted_set (map ff_clock_net el)"
  have ne: "?ns \<noteq> []" using False by simp
  then have d: "domain_sizes el \<noteq> []" by (simp add: domain_sizes_eq)
  have "x \<le> last ?ns" if mem: "x \<in> set ?ns" for x
  proof -
    obtain i where i: "i < length ?ns" "x = ?ns ! i" using mem unfolding in_set_conv_nth by blast
    then have "?ns ! i \<le> ?ns ! (length ?ns - 1)" by (intro sorted_nth_mono) simp_all
    with i ne show ?thesis by (simp add: last_conv_nth)
  qed
  then have "filter (\<lambda>x. x \<in> set ?ns \<and> x \<le> last ?ns) ?xs = ?xs"
    by (auto simp: filter_id_conv)
  moreover have "accumulate 0 (domain_sizes el) = map (\<lambda>k. 0 + int (length (filter (\<lambda>x.
      x \<in> set ?ns \<and> x \<le> k) ?xs))) ?ns"
    unfolding domain_sizes_eq by (rule accumulate_counts) simp_all
  ultimately have "last (accumulate 0 (domain_sizes el)) = int (length ?xs)"
    by (simp only: last_map [OF ne] add_0)
  with accumulate_last [OF d, of 0] show ?thesis by simp
qed

lemma length_domain_sizes: "length (domain_sizes el) = length (sorted_set (map ff_clock_net el))"
  by (simp add: domain_sizes_eq)

section \<open>Planned chains\<close>

text \<open>One chain of a plan over the flip-flops \<open>ffs\<close>, and what it means for a chain to be wired head to
  tail: every scan input is the previous output, the chain's ends are its scan ports' nets.\<close>

definition planned_chain :: "int \<Rightarrow> nat \<Rightarrow> int \<Rightarrow> string \<Rightarrow> string \<Rightarrow> EligibleFF list \<Rightarrow> ScanChainRecord" where
  "planned_chain scan_enable_bit index first scan_in scan_out ffs =
     \<lparr>ch_index = int index, ch_scan_in = scan_in, ch_scan_out = scan_out, ch_scan_in_net = first,
      ch_scan_out_net = (if ffs = [] then first else ff_q_net (last ffs)),
      ch_cells = chain_records scan_enable_bit (int index) 0 first ffs\<rparr>"

fun linked :: "int \<Rightarrow> ScanCellRecord list \<Rightarrow> int \<Rightarrow> bool" where
  "linked net [] out = (net = out)"
| "linked net (r # rs) out = (rec_scan_in_net r = net \<and> linked (rec_q_net r) rs out)"

definition single_clock :: "EligibleFF list \<Rightarrow> bool" where
  "single_clock ffs = (\<forall>f \<in> set ffs. \<forall>g \<in> set ffs. ff_clock_net f = ff_clock_net g)"

lemma chain_records_instances [simp]:
  "map rec_instance (chain_records se ci pos q ffs) = map ff_instance ffs"
  "map rec_clock_net (chain_records se ci pos q ffs) = map ff_clock_net ffs"
  "map rec_q_net (chain_records se ci pos q ffs) = map ff_q_net ffs"
  by (induction ffs arbitrary: pos q) auto

lemma chain_records_Nil [simp]: "chain_records se ci pos q ffs = [] \<longleftrightarrow> ffs = []"
  by (cases ffs) auto

lemma length_chain_records [simp]: "length (chain_records se ci pos q ffs) = length ffs"
  by (induction ffs arbitrary: pos q) auto

lemma linked_chain_records:
  "linked q (chain_records se ci pos q ffs) (if ffs = [] then q else ff_q_net (last ffs))"
  by (induction ffs arbitrary: pos q) auto

lemma chain_records_nth:
  "i < length ffs \<Longrightarrow> rec_chain_position (chain_records se ci pos q ffs ! i) = pos + int i
    \<and> rec_chain_index (chain_records se ci pos q ffs ! i) = ci
    \<and> rec_scan_enable_net (chain_records se ci pos q ffs ! i) = se"
  by (induction ffs arbitrary: pos q i) (auto simp: nth_Cons' algebra_simps)

text \<open>A run of a list in which no two neighbours differ is constant.\<close>

lemma no_change_constant:
  assumes "\<And>i. Suc i < length xs \<Longrightarrow> f (xs ! i) = f (xs ! Suc i)"
  shows "\<forall>x \<in> set xs. \<forall>y \<in> set xs. f x = f y"
proof -
  have "i < length xs \<Longrightarrow> f (xs ! i) = f (xs ! 0)" for i
    by (induction i) (use assms in force)+
  then show ?thesis by (metis in_set_conv_nth)
qed

lemma accumulate_ge: "\<forall>l \<in> set ls. 1 \<le> l \<Longrightarrow> v \<in> set (accumulate s ls) \<Longrightarrow> s < v"
  by (induction ls arbitrary: s) force+

lemma sorted_set_single: "\<forall>x \<in> set xs. \<forall>y \<in> set xs. x = y \<Longrightarrow> \<not> 1 < length (sorted_set xs)"
proof
  assume all: "\<forall>x \<in> set xs. \<forall>y \<in> set xs. x = y" and "1 < length (sorted_set xs)"
  then have "xs \<noteq> []" by (cases xs) (auto simp: sorted_set_def)
  with \<open>1 < length (sorted_set xs)\<close> have "sorted_set xs ! 0 \<noteq> sorted_set xs ! 1"
    using nth_eq_iff_index_eq [of "sorted_set xs" 0 1] by simp
  moreover have "sorted_set xs ! 0 \<in> set xs" "sorted_set xs ! 1 \<in> set xs"
    using \<open>1 < length (sorted_set xs)\<close> by (metis nth_mem set_sorted_set less_trans zero_less_one)+
  ultimately show False using all by blast
qed

text \<open>When every change of clock falls on a chain end, building the chains cannot fail; the flip-flops
  are cut into consecutive runs, each on one clock.\<close>

lemma build_chains_spec:
  assumes "\<forall>l \<in> set lengths. 1 \<le> l"
    and "int cursor + sum_list lengths = int (length el)"
    and "\<And>i. cursor \<le> i \<Longrightarrow> Suc i < length el \<Longrightarrow> ff_clock_net (el ! i) \<noteq> ff_clock_net (el ! Suc i) \<Longrightarrow>
           int (Suc i) \<in> set (accumulate (int cursor) lengths)"
    and "index + length lengths \<le> length bits" "index + length lengths \<le> length ins"
      "index + length lengths \<le> length outs"
  shows "\<exists>ffss. concat ffss = drop cursor el \<and> length ffss = length lengths
    \<and> (\<forall>ffs \<in> set ffss. ffs \<noteq> [] \<and> single_clock ffs)
    \<and> map (\<lambda>ffs. int (length ffs)) ffss = lengths
    \<and> build_chains el se bits ins outs index cursor lengths =
        Inr (map (\<lambda>(i, ffs). planned_chain se i (bits ! i) (ins ! i) (outs ! i) ffs)
          (zip [index..<index + length lengths] ffss))"
  using assms
proof (induction lengths arbitrary: index cursor)
  case Nil
  then show ?case by simp
next
  case (Cons l ls)
  define ffs where "ffs = take (nat l) (drop cursor el)"
  have l: "1 \<le> l" using Cons.prems(1) by simp
  have "0 \<le> sum_list ls" using Cons.prems(1) by (intro sum_list_nonneg) auto
  with Cons.prems(2) l have fit: "cursor + nat l \<le> length el" by simp
  have len: "length ffs = nat l" using fit by (simp add: ffs_def)
  have "\<exists>ffss. concat ffss = drop (cursor + nat l) el \<and> length ffss = length ls
      \<and> (\<forall>ffs \<in> set ffss. ffs \<noteq> [] \<and> single_clock ffs)
      \<and> map (\<lambda>ffs. int (length ffs)) ffss = ls
      \<and> build_chains el se bits ins outs (index + 1) (cursor + nat l) ls =
          Inr (map (\<lambda>(i, ffs). planned_chain se i (bits ! i) (ins ! i) (outs ! i) ffs)
            (zip [index + 1..<index + 1 + length ls] ffss))"
  proof (rule Cons.IH)
    fix i assume i: "cursor + nat l \<le> i" "Suc i < length el" "ff_clock_net (el ! i) \<noteq> ff_clock_net (el ! Suc i)"
    then have "int (Suc i) \<in> set (accumulate (int cursor) (l # ls))" by (intro Cons.prems(3)) auto
    with i(1) l show "int (Suc i) \<in> set (accumulate (int (cursor + nat l)) ls)" by auto
  qed (use Cons.prems l in auto)
  then obtain ffss where ffss: "concat ffss = drop (cursor + nat l) el" "length ffss = length ls"
    "\<forall>ffs \<in> set ffss. ffs \<noteq> [] \<and> single_clock ffs" "map (\<lambda>ffs. int (length ffs)) ffss = ls"
    and rest: "build_chains el se bits ins outs (index + 1) (cursor + nat l) ls =
          Inr (map (\<lambda>(i, ffs). planned_chain se i (bits ! i) (ins ! i) (outs ! i) ffs)
            (zip [index + 1..<index + 1 + length ls] ffss))"
    by blast
  have sc: "single_clock ffs"
    unfolding single_clock_def
  proof (rule no_change_constant, rule ccontr)
    fix i assume i: "Suc i < length ffs" and "ff_clock_net (ffs ! i) \<noteq> ff_clock_net (ffs ! Suc i)"
    then have "int (Suc (cursor + i)) \<in> set (accumulate (int cursor) (l # ls))"
      using len fit by (intro Cons.prems(3)) (auto simp: ffs_def)
    moreover have "int (Suc (cursor + i)) < int cursor + l" using i len by linarith
    ultimately show False
      using accumulate_ge [of ls "int (Suc (cursor + i))" "int cursor + l"] Cons.prems(1) by auto
  qed
  then have "\<forall>x \<in> set (map ff_clock_net ffs). \<forall>y \<in> set (map ff_clock_net ffs). x = y"
    unfolding single_clock_def set_map by blast
  then have "\<not> 1 < length (sorted_set (map ff_clock_net ffs))"
    by (rule sorted_set_single)
  then have "build_chains el se bits ins outs index cursor (l # ls) =
      Inr (planned_chain se index (bits ! index) (ins ! index) (outs ! index) ffs #
        map (\<lambda>(i, ffs). planned_chain se i (bits ! i) (ins ! i) (outs ! i) ffs)
            (zip [index + 1..<index + 1 + length ls] ffss))"
    using Cons.prems(4-6) rest unfolding ffs_def
    by (simp add: nth_res_def Let_def planned_chain_def)
  moreover have "ffs \<noteq> []" using len l by auto
  moreover have "concat (ffs # ffss) = drop cursor el"
    using append_take_drop_id [of "nat l" "drop cursor el"] ffss(1)
    by (simp add: ffs_def add.commute)
  moreover have "map (\<lambda>ffs. int (length ffs)) (ffs # ffss) = l # ls" using len l ffss(4) by simp
  moreover have "[index..<index + length (l # ls)] = index # [index + 1..<index + 1 + length ls]"
    using upt_conv_Cons [of index "index + length (l # ls)"] by (simp del: upt_Suc)
  ultimately show ?case using ffss(2,3) sc by (intro exI [of _ "ffs # ffss"]) simp
qed

lemma chain_lengths_of_ffs:
  assumes "eligible \<noteq> []" and "int (length (sorted_set (map ff_clock_net eligible))) \<le> c"
    and "c \<le> int (length eligible)"
  shows "\<exists>ls. chain_lengths (domain_sizes eligible) c = Inr ls \<and> sum_list ls = int (length eligible)
    \<and> int (length ls) = c \<and> (\<forall>l \<in> set ls. 1 \<le> l)
    \<and> set (accumulate 0 (domain_sizes eligible)) \<subseteq> set (accumulate 0 ls)"
proof -
  have "domain_sizes eligible \<noteq> []" using assms(1) by (simp add: domain_sizes_eq)
  with chain_lengths_spec [of "domain_sizes eligible" c] assms(2,3) show ?thesis
    by (simp add: domain_sizes_pos length_domain_sizes sum_domain_sizes) blast
qed


lemma scan_port_names_length:
  "scan_port_names c a b = Inr (ins, outs) \<Longrightarrow> int (length ins) = c \<and> int (length outs) = c"
  by (auto simp: scan_port_names_def split: if_splits)

lemma scan_port_names_total: "1 \<le> c \<Longrightarrow> \<exists>ins outs. scan_port_names c a b = Inr (ins, outs)"
  by (auto simp: scan_port_names_def)

abbreviation packed :: "EligibleFF list \<Rightarrow> EligibleFF list" where
  "packed eligible \<equiv> sort_key (\<lambda>ff. (ff_clock_net ff, ff_instance ff)) eligible"

lemma sorted_clocks_packed: "sorted (map ff_clock_net (packed eligible))"
proof -
  have "sorted (map (\<lambda>ff. (ff_clock_net ff, ff_instance ff)) (packed eligible))" by (rule sorted_sort_key)
  then show ?thesis
    unfolding sorted_map by (rule sorted_wrt_mono_rel [rotated]) (auto simp: less_eq_prod_def)
qed

text \<open>The lengths that \<^verbatim>\<open>_build_plan\<close> computes pass its check against \<open>max_chain_length\<close> whenever the
  chain count was derived from that limit.\<close>

lemma lengths_within_limit:
  assumes "eligible \<noteq> []" and "chain_count_from_options (domain_sizes eligible) scan_chains max_len = Inr c"
    and "max_len \<noteq> None \<longrightarrow> scan_chains = 1"
    and "chain_lengths (domain_sizes eligible) c = Inr ls"
  shows "Option.bind max_len (\<lambda>m. find (\<lambda>len. m < len) ls) = None"
proof (cases max_len)
  case (Some m)
  have "domain_sizes eligible \<noteq> []" using assms(1) by (simp add: domain_sizes_eq)
  moreover have "\<forall>n \<in> set (domain_sizes eligible). 1 \<le> n" using domain_sizes_pos by blast
  ultimately have "\<forall>l \<in> set ls. l \<le> m"
    using chain_lengths_fit [of "domain_sizes eligible" m c] assms(2-4) Some by auto
  with Some show ?thesis by (auto simp: find_None_iff)
qed simp

lemma build_plan_chains:
  assumes ne: "eligible \<noteq> []"
    and count: "chain_count_from_options (domain_sizes eligible) scan_chains max_len = Inr c"
    and lim: "max_len \<noteq> None \<longrightarrow> scan_chains = 1"
    and c: "int (length (sorted_set (map ff_clock_net eligible))) \<le> c" "c \<le> int (length eligible)"
    and names: "scan_port_names c scan_in_base scan_out_base = Inr (ins, outs)"
      "check_names_free module (ins @ outs @ [scan_enable]) = Inr ()"
    and bits: "int (length bits) = c"
  shows "\<exists>ffss plan. build_plan top_name module eligible inelig scan_chains max_len scan_in_base
      scan_out_base scan_enable se bits = Inr plan
    \<and> concat ffss = packed eligible \<and> length ffss = nat c
    \<and> (\<forall>ffs \<in> set ffss. ffs \<noteq> [] \<and> single_clock ffs)
    \<and> plan_chains plan = map (\<lambda>(i, ffs). planned_chain se i (bits ! i) (ins ! i) (outs ! i) ffs)
        (zip [0..<nat c] ffss)
    \<and> plan_cells plan = concat (map ch_cells (plan_chains plan))
    \<and> plan_chain_count plan = c \<and> plan_scan_enable plan = scan_enable \<and> plan_top plan = top_name
    \<and> plan_scan_inputs plan = ins \<and> plan_scan_outputs plan = outs"
proof -
  have sizes: "domain_sizes (packed eligible) = domain_sizes eligible" by (rule domain_sizes_mset) simp
  obtain ls where ls: "chain_lengths (domain_sizes eligible) c = Inr ls"
    "sum_list ls = int (length eligible)" "int (length ls) = c" "\<forall>l \<in> set ls. 1 \<le> l"
    "set (accumulate 0 (domain_sizes eligible)) \<subseteq> set (accumulate 0 ls)"
    using chain_lengths_of_ffs [OF ne c] by blast
  have "\<exists>ffss. concat ffss = drop 0 (packed eligible) \<and> length ffss = length ls
    \<and> (\<forall>ffs \<in> set ffss. ffs \<noteq> [] \<and> single_clock ffs)
    \<and> map (\<lambda>ffs. int (length ffs)) ffss = ls
    \<and> build_chains (packed eligible) se bits ins outs 0 0 ls =
        Inr (map (\<lambda>(i, ffs). planned_chain se i (bits ! i) (ins ! i) (outs ! i) ffs)
          (zip [0..<0 + length ls] ffss))"
  proof (rule build_chains_spec)
    fix i assume i: "Suc i < length (packed eligible)"
      "ff_clock_net (packed eligible ! i) \<noteq> ff_clock_net (packed eligible ! Suc i)"
    have "int (Suc i) \<in> set (accumulate 0 (domain_sizes eligible))"
      using clock_change_ends_domain [OF sorted_clocks_packed i] sizes by simp
    with ls(5) show "int (Suc i) \<in> set (accumulate (int 0) ls)" by auto
  qed (use ls scan_port_names_length [OF names(1)] bits in auto)
  then obtain ffss where ffss: "concat ffss = packed eligible" "length ffss = length ls"
    "\<forall>ffs \<in> set ffss. ffs \<noteq> [] \<and> single_clock ffs"
    "build_chains (packed eligible) se bits ins outs 0 0 ls =
        Inr (map (\<lambda>(i, ffs). planned_chain se i (bits ! i) (ins ! i) (outs ! i) ffs)
          (zip [0..<length ls] ffss))"
    by auto
  moreover have "length ls = nat c" using ls(3) by auto
  ultimately show ?thesis
    using lengths_within_limit [OF ne count lim ls(1)] ne count c(1) names ls(1) sizes
    by (intro exI [of _ ffss]) (simp add: build_plan_def Let_def)
qed

lemma planned_chains_instances:
  "length is = length ffss \<Longrightarrow>
     map rec_instance (concat (map ch_cells (map (\<lambda>(i, ffs). planned_chain se i (bits i) (ins i) (outs i) ffs)
       (zip is ffss)))) = map ff_instance (concat ffss)"
  by (induction "is" ffss rule: list_induct2) (auto simp: planned_chain_def)

lemma planned_chain_ok:
  assumes "ffs \<noteq> []" and "single_clock ffs" and "ch = planned_chain se i first scan_in scan_out ffs"
  shows "ch_cells ch \<noteq> []" "linked (ch_scan_in_net ch) (ch_cells ch) (ch_scan_out_net ch)"
    "\<forall>r \<in> set (ch_cells ch). \<forall>r' \<in> set (ch_cells ch). rec_clock_net r = rec_clock_net r'"
    "\<forall>r \<in> set (ch_cells ch). rec_scan_enable_net r = se"
proof -
  show "ch_cells ch \<noteq> []" "linked (ch_scan_in_net ch) (ch_cells ch) (ch_scan_out_net ch)"
    using assms(1) linked_chain_records [of first se "int i" 0 ffs] unfolding assms(3) planned_chain_def by auto
  have "rec_clock_net ` set (ch_cells ch) = ff_clock_net ` set ffs"
    unfolding assms(3) planned_chain_def by (simp flip: set_map)
  then have img: "rec_clock_net r \<in> ff_clock_net ` set ffs" if "r \<in> set (ch_cells ch)" for r using that by blast
  show "\<forall>r \<in> set (ch_cells ch). \<forall>r' \<in> set (ch_cells ch). rec_clock_net r = rec_clock_net r'"
  proof (intro ballI)
    fix r r' assume "r \<in> set (ch_cells ch)" "r' \<in> set (ch_cells ch)"
    with img [of r] img [of r'] obtain f g where "f \<in> set ffs" "g \<in> set ffs"
      "rec_clock_net r = ff_clock_net f" "rec_clock_net r' = ff_clock_net g" by auto
    then show "rec_clock_net r = rec_clock_net r'" using assms(2) unfolding single_clock_def by metis
  qed
  show "\<forall>r \<in> set (ch_cells ch). rec_scan_enable_net r = se"
    unfolding assms(3) planned_chain_def by (auto simp: in_set_conv_nth chain_records_nth)
qed

text \<open>Conversely, whatever plan is made has this shape.\<close>

lemma build_chains_Inr:
  assumes "build_chains el se bits ins outs index cursor lengths = Inr chs"
  shows "\<exists>ffss. concat ffss = take (sum_list (map nat lengths)) (drop cursor el) \<and> length ffss = length lengths
    \<and> chs = map (\<lambda>(i, ffs). planned_chain se i (bits ! i) (ins ! i) (outs ! i) ffs)
        (zip [index..<index + length lengths] ffss)
    \<and> (lengths \<noteq> [] \<longrightarrow> index + length lengths \<le> length bits \<and> index + length lengths \<le> length ins
         \<and> index + length lengths \<le> length outs)
    \<and> ((\<forall>l \<in> set lengths. 1 \<le> l) \<longrightarrow> cursor + sum_list (map nat lengths) \<le> length el \<longrightarrow>
         (\<forall>ffs \<in> set ffss. ffs \<noteq> []))"
  using assms
proof (induction lengths arbitrary: index cursor chs)
  case Nil
  then show ?case by simp
next
  case (Cons l ls)
  define ffs where "ffs = take (nat l) (drop cursor el)"
  from Cons.prems obtain rest where rest: "build_chains el se bits ins outs (index + 1) (cursor + nat l) ls = Inr rest"
    and here: "index < length bits" "index < length ins" "index < length outs"
    and chs: "chs = planned_chain se index (bits ! index) (ins ! index) (outs ! index) ffs # rest"
    by (auto simp: bind_res_eq_Inr nth_res_eq_Inr Let_def planned_chain_def ffs_def split: if_splits)
  from Cons.IH [OF rest] obtain ffss where ffss: "concat ffss = take (sum_list (map nat ls)) (drop (cursor + nat l) el)"
    "length ffss = length ls" "rest = map (\<lambda>(i, ffs). planned_chain se i (bits ! i) (ins ! i) (outs ! i) ffs)
        (zip [index + 1..<index + 1 + length ls] ffss)"
    "ls \<noteq> [] \<longrightarrow> index + 1 + length ls \<le> length bits \<and> index + 1 + length ls \<le> length ins
         \<and> index + 1 + length ls \<le> length outs"
    "(\<forall>l \<in> set ls. 1 \<le> l) \<longrightarrow> cursor + nat l + sum_list (map nat ls) \<le> length el \<longrightarrow> (\<forall>ffs \<in> set ffss. ffs \<noteq> [])"
    by blast
  have "ffs \<noteq> []" if "1 \<le> l" "cursor + nat l + sum_list (map nat ls) \<le> length el"
    using that by (auto simp: ffs_def)
  with ffss(5) have ne: "(\<forall>l \<in> set (l # ls). 1 \<le> l) \<longrightarrow> cursor + sum_list (map nat (l # ls)) \<le> length el \<longrightarrow>
      (\<forall>f \<in> set (ffs # ffss). f \<noteq> [])" by auto
  have "concat (ffs # ffss) = take (sum_list (map nat (l # ls))) (drop cursor el)"
    using ffss(1) take_add [of "nat l" "sum_list (map nat ls)" "drop cursor el"]
    by (simp add: ffs_def add.commute)
  moreover have "[index..<index + length (l # ls)] = index # [index + 1..<index + 1 + length ls]"
    using upt_conv_Cons [of index "index + length (l # ls)"] by (simp del: upt_Suc)
  moreover have "index + length (l # ls) \<le> length bits \<and> index + length (l # ls) \<le> length ins
      \<and> index + length (l # ls) \<le> length outs" using ffss(4) here by (cases ls) auto
  moreover have "length (ffs # ffss) = length (l # ls)" using ffss(2) by simp
  ultimately show ?case
    using ffss(3) ne chs by (intro exI [of _ "ffs # ffss"]) simp
qed

lemma build_plan_Inr:
  assumes "build_plan top_name module eligible inelig scan_chains max_len scan_in_base
      scan_out_base scan_enable se bits = Inr plan"
  shows "\<exists>ins outs ffss. concat ffss = packed eligible
    \<and> plan_chains plan = map (\<lambda>(i, ffs). planned_chain se i (bits ! i) (ins ! i) (outs ! i) ffs)
        (zip [0..<length ffss] ffss)
    \<and> length ffss \<le> length bits \<and> length ins = length ffss \<and> length outs = length ffss
    \<and> (\<forall>ffs \<in> set ffss. ffs \<noteq> [])
    \<and> check_names_free module (ins @ outs @ [scan_enable]) = Inr ()
    \<and> plan_cells plan = concat (map ch_cells (plan_chains plan))
    \<and> plan_scan_enable plan = scan_enable \<and> plan_top plan = top_name"
proof -
  from assms obtain c lengths ins outs chs where ne: "eligible \<noteq> []"
    and c: "int (length (sorted_set (map ff_clock_net eligible))) \<le> c"
    and l: "chain_lengths (domain_sizes (packed eligible)) c = Inr lengths"
    and n: "scan_port_names c scan_in_base scan_out_base = Inr (ins, outs)"
      "check_names_free module (ins @ outs @ [scan_enable]) = Inr ()"
    and b: "build_chains (packed eligible) se bits ins outs 0 0 lengths = Inr chs"
    and plan: "plan_chains plan = chs" "plan_cells plan = concat (map ch_cells chs)"
      "plan_scan_enable plan = scan_enable" "plan_top plan = top_name"
    by (auto simp: build_plan_def Let_def bind_res_eq_Inr not_less split: if_splits option.splits)
  have sizes: "domain_sizes (packed eligible) = domain_sizes eligible" by (rule domain_sizes_mset) simp
  have "c \<le> int (length eligible)"
    using l by (auto simp: chain_lengths_def balanced_chain_lengths_def sizes sum_domain_sizes split: if_splits)
  from chain_lengths_of_ffs [OF ne c this] l sizes
  have ls: "sum_list lengths = int (length eligible)" "int (length lengths) = c" "\<forall>l \<in> set lengths. 1 \<le> l" by auto
  have nat_sum: "\<forall>l \<in> set ls. 1 \<le> l \<Longrightarrow> int (sum_list (map nat ls)) = sum_list ls" for ls
    by (induction ls) auto
  have all: "sum_list (map nat lengths) = length eligible" using nat_sum [OF ls(3)] ls(1) by simp
  from build_chains_Inr [OF b] all obtain ffss where f: "concat ffss = packed eligible" "length ffss = length lengths"
    "chs = map (\<lambda>(i, ffs). planned_chain se i (bits ! i) (ins ! i) (outs ! i) ffs) (zip [0..<length lengths] ffss)"
    "lengths \<noteq> [] \<longrightarrow> length lengths \<le> length bits" "\<forall>ffs \<in> set ffss. ffs \<noteq> []"
    using ls(3) by auto
  moreover have "length ins = length ffss" "length outs = length ffss"
    using scan_port_names_length [OF n(1)] ls(2) f(2) by auto
  moreover have "length ffss \<le> length bits" using f(2,4) by (cases "lengths = []") auto
  ultimately show ?thesis
    using n(2) plan by (intro exI [of _ ins] exI [of _ outs] exI [of _ ffss]) simp
qed

text \<open>
  C5. Scan planning. For any chain count between the number of clock domains and the number of
  eligible flip-flops (and a chain length limit only when the count is derived from it), with
  unused port names, a plan is made: it has that many chains, no chain is empty, every flip-flop is
  in exactly one chain, each chain is wired head to tail from its scan-in net to its scan-out net,
  all its cells are on one clock and on the shared scan enable. In particular the error that a
  chain spans several clock domains cannot occur.
\<close>

theorem build_plan_correct:
  assumes "eligible \<noteq> []"
    and "chain_count_from_options (domain_sizes eligible) scan_chains max_len = Inr c"
    and "max_len \<noteq> None \<longrightarrow> scan_chains = 1"
    and "int (length (sorted_set (map ff_clock_net eligible))) \<le> c" "c \<le> int (length eligible)"
    and "scan_port_names c scan_in_base scan_out_base = Inr (ins, outs)"
      "check_names_free module (ins @ outs @ [scan_enable]) = Inr ()"
    and "int (length bits) = c"
  shows "\<exists>plan. build_plan top_name module eligible inelig scan_chains max_len scan_in_base
      scan_out_base scan_enable se bits = Inr plan
    \<and> int (length (plan_chains plan)) = c
    \<and> mset (map rec_instance (concat (map ch_cells (plan_chains plan)))) = mset (map ff_instance eligible)
    \<and> (\<forall>ch \<in> set (plan_chains plan). ch_cells ch \<noteq> []
         \<and> linked (ch_scan_in_net ch) (ch_cells ch) (ch_scan_out_net ch)
         \<and> (\<forall>r \<in> set (ch_cells ch). \<forall>r' \<in> set (ch_cells ch). rec_clock_net r = rec_clock_net r')
         \<and> (\<forall>r \<in> set (ch_cells ch). rec_scan_enable_net r = se))"
proof -
  obtain ffss plan where plan: "build_plan top_name module eligible inelig scan_chains max_len scan_in_base
      scan_out_base scan_enable se bits = Inr plan"
    and ffss: "concat ffss = packed eligible" "length ffss = nat c"
      "\<forall>ffs \<in> set ffss. ffs \<noteq> [] \<and> single_clock ffs"
    and chs: "plan_chains plan = map (\<lambda>(i, ffs). planned_chain se i (bits ! i) (ins ! i) (outs ! i) ffs)
        (zip [0..<nat c] ffss)"
    using build_plan_chains [OF assms] by blast
  have "int (length (plan_chains plan)) = c" using ffss(2) assms(4) by (simp add: chs)
  moreover have "map rec_instance (concat (map ch_cells (plan_chains plan))) =
      map ff_instance (packed eligible)"
    unfolding chs ffss(1) [symmetric] by (rule planned_chains_instances) (simp add: ffss(2))
  then have "mset (map rec_instance (concat (map ch_cells (plan_chains plan)))) = mset (map ff_instance eligible)"
    by simp
  moreover have "ch_cells ch \<noteq> [] \<and> linked (ch_scan_in_net ch) (ch_cells ch) (ch_scan_out_net ch)
         \<and> (\<forall>r \<in> set (ch_cells ch). \<forall>r' \<in> set (ch_cells ch). rec_clock_net r = rec_clock_net r')
         \<and> (\<forall>r \<in> set (ch_cells ch). rec_scan_enable_net r = se)" if "ch \<in> set (plan_chains plan)" for ch
  proof -
    from that obtain i ffs where "ffs \<in> set ffss"
      and ch: "ch = planned_chain se i (bits ! i) (ins ! i) (outs ! i) ffs"
      unfolding chs by (auto dest: set_zip_rightD)
    with ffss(3) have "ffs \<noteq> []" "single_clock ffs" by auto
    from planned_chain_ok [OF this ch] show ?thesis by blast
  qed
  ultimately show ?thesis using plan by blast
qed

text \<open>Three flip-flops on two clocks, two chains.\<close>

definition ex_ff :: "string \<Rightarrow> int \<Rightarrow> int \<Rightarrow> int \<Rightarrow> EligibleFF" where
  "ex_ff name clk d q =
     \<lparr>ff_instance = name, ff_cell = [(''type'', JStr ''DFF'')], ff_ff_meta = [], ff_original_type = ''DFF'',
      ff_clock_net = clk, ff_data_net = d, ff_q_net = q, ff_async_kind = ''none'', ff_async_net = -1,
      ff_async_pin = None, ff_enable_net = -1, ff_enable_level = ''HIGH'', ff_enable_const = None\<rparr>"

definition ex_ffs :: "EligibleFF list" where
  "ex_ffs = [ex_ff ''b'' 2 5 6, ex_ff ''a'' 2 3 4, ex_ff ''c'' 1 6 7]"

theorem build_plan_correct_witness:
  "\<exists>plan. build_plan ''m'' [] ex_ffs [] 2 None ''si'' ''so'' ''se'' 12 [10, 11] = Inr plan
    \<and> int (length (plan_chains plan)) = 2
    \<and> mset (map rec_instance (concat (map ch_cells (plan_chains plan)))) = mset (map ff_instance ex_ffs)
    \<and> (\<forall>ch \<in> set (plan_chains plan). ch_cells ch \<noteq> []
         \<and> linked (ch_scan_in_net ch) (ch_cells ch) (ch_scan_out_net ch)
         \<and> (\<forall>r \<in> set (ch_cells ch). \<forall>r' \<in> set (ch_cells ch). rec_clock_net r = rec_clock_net r')
         \<and> (\<forall>r \<in> set (ch_cells ch). rec_scan_enable_net r = 12))"
proof (rule build_plan_correct [where ins = "[''si_0'', ''si_1'']" and outs = "[''so_0'', ''so_1'']"])
  show "ex_ffs \<noteq> []" by (simp add: ex_ffs_def)
  show "chain_count_from_options (domain_sizes ex_ffs) 2 None = Inr 2"
    by (simp add: chain_count_from_options_def)
  show "int (length (sorted_set (map ff_clock_net ex_ffs))) \<le> 2" by code_simp
  show "2 \<le> int (length ex_ffs)" by (simp add: ex_ffs_def)
  show "scan_port_names 2 ''si'' ''so'' = Inr ([''si_0'', ''si_1''], [''so_0'', ''so_1''])" by code_simp
  show "check_names_free [] ([''si_0'', ''si_1''] @ [''so_0'', ''so_1''] @ [''se'']) = Inr ()" by code_simp
qed simp_all

end
