(* ===== verification/Scan_Check.thy ===== *)
theory Scan_Check
  imports Scan_Stitch
begin

text \<open>
  The structural check of a scanned netlist against its manifest: \<^verbatim>\<open>faultflow/scan/checks.py\<close>. It
  walks every manifest chain through the netlist, from the scan-in port over the scan cells'
  connections, and collects the errors it finds. The functions append to a shared list of errors
  and may raise, in which case the errors found so far are kept; \<open>'a chk\<close> is that effect. The file
  system (parsed files, hashes, existence) is a parameter.
\<close>

section \<open>Errors that accumulate\<close>

type_synonym 'a chk = "string list \<times> 'a res"

definition ret :: "'a \<Rightarrow> 'a chk" where "ret x = ([], Inr x)"
definition lift_res :: "'a res \<Rightarrow> 'a chk" where "lift_res r = ([], r)"
definition err :: "string \<Rightarrow> unit chk" where "err e = ([e], Inr ())"
definition err_if :: "bool \<Rightarrow> string \<Rightarrow> unit chk" where "err_if c e = (if c then err e else ret ())"

definition bind_chk :: "'a chk \<Rightarrow> ('a \<Rightarrow> 'b chk) \<Rightarrow> 'b chk" where
  "bind_chk m f = (case m of
      (es, Inl e) \<Rightarrow> (es, Inl e)
    | (es, Inr x) \<Rightarrow> (case f x of (es', r) \<Rightarrow> (es @ es', r)))"

fun fold_chk :: "('a \<Rightarrow> 's \<Rightarrow> 's chk) \<Rightarrow> 'a list \<Rightarrow> 's \<Rightarrow> 's chk" where
  "fold_chk f [] s = ret s"
| "fold_chk f (x # xs) s = bind_chk (f x s) (\<lambda>s'. fold_chk f xs s')"

section \<open>Reading ports and pins\<close>

definition WBR_SCAN_CELL_TYPES :: "string list" where
  "WBR_SCAN_CELL_TYPES = [''$wbc_in_scan_faultflow'', CHR 92 # ''$wbc_in_scan_faultflow'',
     ''$wbc_out_scan_faultflow'', CHR 92 # ''$wbc_out_scan_faultflow'']"

record StructuralCheckResult =
  scr_warnings :: "string list"
  scr_errors :: "string list"

definition passed :: "StructuralCheckResult \<Rightarrow> bool" where
  "passed r = (scr_errors r = [])"

definition port_bit :: "jobj \<Rightarrow> string \<Rightarrow> string \<Rightarrow> int res" where
  "port_bit module name direction =
     (case Option.bind (as_obj (get_or module ''ports'' (JObj []))) (\<lambda>ports. map_of ports name) of
        None \<Rightarrow> Inl (ScanError (''missing scan port: '' @ name))
      | Some raw \<Rightarrow>
          (case as_obj raw of
             None \<Rightarrow> Inl (ScanError (''scan port '' @ name @ '' must be direction '' @ direction))
           | Some port \<Rightarrow>
               if get_or port ''direction'' JNull \<noteq> JStr direction
               then Inl (ScanError (''scan port '' @ name @ '' must be direction '' @ direction))
               else lift_option (ScanError (''scan port '' @ name @ '' must be one concrete bit''))
                      (maybe_one_bit (get_or port ''bits'' JNull))))"

definition conn_bit :: "jobj \<Rightarrow> string \<Rightarrow> string \<Rightarrow> int res" where
  "conn_bit cell pin name =
     (case as_obj (get_or cell ''connections'' (JObj [])) of
        None \<Rightarrow> Inl (ScanError (name @ '': connections must be an object''))
      | Some conns \<Rightarrow>
          lift_option (ScanError (name @ ''.'' @ pin @ '' must be one concrete bit''))
            (maybe_one_bit (get_or conns pin JNull)))"

section \<open>Indexing the scan cells\<close>

record chain_index =
  node_by_in :: "(int \<times> string) list"
  out_by_node :: "int dict"
  clock_nets :: "int list"
  names :: "string list"
  se_nets :: "int list"

definition empty_index :: chain_index where
  "empty_index = \<lparr>node_by_in = [], out_by_node = [], clock_nets = [], names = [], se_nets = []\<rparr>"

text \<open>\<^verbatim>\<open>cell.get("type") in cell_types\<close>: an unhashable value raises.\<close>

definition type_in :: "string list \<Rightarrow> jobj \<Rightarrow> bool res" where
  "type_in cell_types cell =
     (case get_or cell ''type'' JNull of
        JStr t \<Rightarrow> Inr (t \<in> set cell_types)
      | JList _ \<Rightarrow> Inl TypeError
      | JObj _ \<Rightarrow> Inl TypeError
      | _ \<Rightarrow> Inr False)"

definition index_cell ::
  "string list \<Rightarrow> string \<Rightarrow> string \<Rightarrow> int option \<Rightarrow> string \<times> json \<Rightarrow> chain_index \<Rightarrow> chain_index chk" where
  "index_cell cell_types in_pin out_pin require_se = (\<lambda>(name, raw) st.
     case as_obj raw of
       None \<Rightarrow> ret st
     | Some cell \<Rightarrow>
         bind_chk (lift_res (type_in cell_types cell)) (\<lambda>member.
         if \<not> member then ret st
         else
         bind_chk (lift_res (conn_bit cell in_pin name)) (\<lambda>chain_in.
         bind_chk (lift_res (conn_bit cell out_pin name)) (\<lambda>chain_out.
         bind_chk (lift_res (conn_bit cell ''SE'' name)) (\<lambda>se.
         bind_chk (lift_res (conn_bit cell ''CLK'' name)) (\<lambda>clk.
         bind_chk (err_if (has_key (node_by_in st) chain_in)
           (''multiple scan cells share '' @ in_pin @ '' net '' @ show_int chain_in)) (\<lambda>_.
         bind_chk (err_if (require_se \<noteq> None \<and> require_se \<noteq> Some se)
           (name @ '': SE does not use shared scan enable'')) (\<lambda>_.
         ret \<lparr>node_by_in = dict_set (node_by_in st) chain_in name,
              out_by_node = dict_set (out_by_node st) name chain_out,
              clock_nets = List.insert clk (clock_nets st),
              names = List.insert name (names st),
              se_nets = List.insert se (se_nets st)\<rparr>))))))))"

definition collect_chain_cells ::
  "jobj \<Rightarrow> string list \<Rightarrow> string \<Rightarrow> string \<Rightarrow> int option \<Rightarrow> chain_index chk" where
  "collect_chain_cells cells_obj cell_types in_pin out_pin require_se =
     fold_chk (index_cell cell_types in_pin out_pin require_se) cells_obj empty_index"

section \<open>Walking the chains\<close>

text \<open>The \<^verbatim>\<open>while\<close> loop: the cells reached from \<open>cur\<close>, the net where the walk ends, and whether it ran
  into a cell again. A cell is appended at most once, so the loop ends.\<close>

function walk ::
  "(int \<times> string) list \<Rightarrow> int dict \<Rightarrow> int \<Rightarrow> string list \<Rightarrow> (string list \<times> int \<times> bool) res" where
  "walk by_in by_node cur derived =
     (case map_of by_in cur of
        None \<Rightarrow> Inr (derived, cur, False)
      | Some name \<Rightarrow>
          if name \<in> set derived then Inr (derived, cur, True)
          else case map_of by_node name of
            None \<Rightarrow> Inl (KeyError name)
          | Some next_net \<Rightarrow> walk by_in by_node next_net (derived @ [name]))"
  by pat_completeness auto
termination
proof (relation "measure (\<lambda>(by_in, by_node, cur, derived). card (snd ` set by_in - set derived))")
  fix by_in :: "(int \<times> string) list" and cur :: int and derived name
  assume "map_of by_in cur = Some name" and new: "name \<notin> set derived"
  then have "name \<in> snd ` set by_in" by (force dest: map_of_SomeD)
  with new have "snd ` set by_in - set (derived @ [name]) \<subset> snd ` set by_in - set derived" by auto
  then show "((by_in, by_node, next_net, derived @ [name]), by_in, by_node, cur, derived)
      \<in> measure (\<lambda>(by_in, by_node, cur, derived). card (snd ` set by_in - set derived))" for by_node next_net
    by (simp add: psubset_card_mono)
qed simp

declare walk.simps [simp del]

text \<open>A chain's errors after the walk, and the cells added to those seen so far.\<close>

fun mark_seen :: "string list \<Rightarrow> string list \<Rightarrow> string list chk" where
  "mark_seen [] seen = ret seen"
| "mark_seen (name # rest) seen =
     bind_chk (err_if (name \<in> set seen) (''duplicate scan cell in chains: '' @ name)) (\<lambda>_.
     mark_seen rest (List.insert name seen))"

definition validate_chain ::
  "jobj \<Rightarrow> (int \<times> string) list \<Rightarrow> int dict \<Rightarrow> json \<Rightarrow> string list \<Rightarrow> string list chk" where
  "validate_chain module by_in by_node raw seen =
     (case as_obj raw of
        None \<Rightarrow> bind_chk (err ''manifest chain entry must be an object'') (\<lambda>_. ret seen)
      | Some raw_chain \<Rightarrow>
          let scan_in = py_str (get_or raw_chain ''scan_in'' JNull);
              scan_out = py_str (get_or raw_chain ''scan_out'' JNull);
              label = py_str (get_or raw_chain ''index'' JNull)
          in bind_chk (lift_res (py_tuple (get_or raw_chain ''cells'' (JList [])))) (\<lambda>raw_cells.
             case bind_res (port_bit module scan_in ''input'') (\<lambda>cur.
                  bind_res (port_bit module scan_out ''output'') (\<lambda>out. Inr (cur, out))) of
               Inl e \<Rightarrow> bind_chk (err (case e of ScanError msg \<Rightarrow> msg | _ \<Rightarrow> [])) (\<lambda>_. ret seen)
             | Inr (start, scan_out_net) \<Rightarrow>
                 bind_chk (lift_res (walk by_in by_node start [])) (\<lambda>(derived, cur, cyclic).
                 bind_chk (err_if cyclic (''cycle found in chain '' @ label)) (\<lambda>_.
                 bind_chk (err_if (cur \<noteq> scan_out_net) (''chain '' @ label @ '' terminates at net '' @
                     show_int cur @ '', not scan_out '' @ show_int scan_out_net)) (\<lambda>_.
                 bind_chk (err_if (derived \<noteq> map py_str raw_cells) (''chain '' @ label @
                     '' manifest order does not match JSON connectivity'')) (\<lambda>_.
                 mark_seen derived seen))))))"

definition validate_chains ::
  "jobj \<Rightarrow> json list \<Rightarrow> (int \<times> string) list \<Rightarrow> int dict \<Rightarrow> string list chk" where
  "validate_chains module raw_chains by_in by_node =
     fold_chk (validate_chain module by_in by_node) raw_chains []"

section \<open>The check\<close>

record file_system =
  fs_json :: "string \<Rightarrow> json option"
  fs_hash :: "string \<Rightarrow> string"
  fs_exists :: "string \<Rightarrow> bool"

definition minus_set :: "string list \<Rightarrow> string list \<Rightarrow> string list" where
  "minus_set xs ys = sorted_set (filter (\<lambda>x. x \<notin> set ys) xs)"

definition exc_text :: "py_exc \<Rightarrow> string option" where
  "exc_text e = (case e of ScanError msg \<Rightarrow> Some msg | KeyError k \<Rightarrow> Some (repr_str k)
     | OSError msg \<Rightarrow> Some msg | _ \<Rightarrow> None)"

definition read_json :: "file_system \<Rightarrow> string \<Rightarrow> jobj res" where
  "read_json fs path =
     (case fs_json fs path of
        None \<Rightarrow> Inl (OSError path)
      | Some parsed \<Rightarrow> load_json parsed path)"

definition manifest_list :: "jobj \<Rightarrow> string \<Rightarrow> string \<Rightarrow> json list res" where
  "manifest_list manifest key msg =
     lift_option (ScanError msg) (as_list (get_or manifest key (JList [])))"

definition check_body :: "file_system \<Rightarrow> jobj \<Rightarrow> bool \<Rightarrow> unit chk" where
  "check_body fs manifest require_techmap =
     bind_chk (lift_res (getitem manifest ''generic_json'')) (\<lambda>raw_path.
     let path = py_str raw_path in
     bind_chk (err_if (fs_hash fs path \<noteq> py_str (get_or manifest ''generic_json_hash'' (JStr [])))
       ''generic JSON hash does not match manifest'') (\<lambda>_.
     bind_chk (lift_res (read_json fs path)) (\<lambda>data.
     bind_chk (lift_res (getitem manifest ''top'')) (\<lambda>raw_top.
     bind_chk (lift_res (top_module data (py_str raw_top))) (\<lambda>(_, module).
     bind_chk (lift_res (getitem manifest ''scan_enable'')) (\<lambda>raw_se.
     bind_chk (lift_res (port_bit module (py_str raw_se) ''input'')) (\<lambda>se_net.
     bind_chk (lift_res (manifest_list manifest ''chains'' ''manifest chains must be a list'')) (\<lambda>chs.
     bind_chk (lift_res (manifest_list manifest ''wrapper_chains''
         ''manifest wrapper_chains must be a list'')) (\<lambda>wchs.
     bind_chk (lift_res (lift_option (ScanError ''scanned module cells must be an object'')
         (as_obj (get_or module ''cells'' (JObj []))))) (\<lambda>cells_obj.
     bind_chk (collect_chain_cells cells_obj SCAN_CELL_TYPES ''SDI'' ''Q'' (Some se_net)) (\<lambda>ff.
     bind_chk (collect_chain_cells cells_obj WBR_SCAN_CELL_TYPES ''CTI'' ''CTO'' None) (\<lambda>wbr.
     bind_chk (if 1 < length (se_nets wbr) then err ''WBR scan cells do not share one scan enable''
        else err_if (se_nets wbr \<noteq> [] \<and> names ff = [] \<and> se_nets wbr \<noteq> [se_net])
               ''WBR scan cells: SE does not use shared scan enable'') (\<lambda>_.
     bind_chk (err_if (clock_nets ff @ clock_nets wbr = []) ''scanned design has no scan clock net'') (\<lambda>_.
     bind_chk (validate_chains module chs (node_by_in ff) (out_by_node ff)) (\<lambda>seen.
     bind_chk (validate_chains module wchs (node_by_in wbr) (out_by_node wbr)) (\<lambda>wbr_seen.
     bind_chk (err_if (minus_set (names ff) seen \<noteq> [])
       (''scan FFs missing from manifest: '' @ join_str '', '' (minus_set (names ff) seen))) (\<lambda>_.
     bind_chk (err_if (minus_set seen (names ff) \<noteq> [])
       (''manifest lists non-scan FFs: '' @ join_str '', '' (minus_set seen (names ff)))) (\<lambda>_.
     bind_chk (err_if (minus_set (names wbr) wbr_seen \<noteq> [])
       (''WBR scan cells missing from manifest wrapper_chains: '' @
          join_str '', '' (minus_set (names wbr) wbr_seen))) (\<lambda>_.
     bind_chk (err_if (minus_set wbr_seen (names wbr) \<noteq> [])
       (''manifest wrapper_chains list non-WBR cells: '' @
          join_str '', '' (minus_set wbr_seen (names wbr)))) (\<lambda>_.
     err_if (require_techmap \<and>
         (case nonempty_str (get_or manifest ''sky130_verilog'' JNull) of
            None \<Rightarrow> True | Some sky \<Rightarrow> \<not> fs_exists fs sky))
       ''required Sky130 techmap artifact is missing''))))))))))))))))))))"

definition check_scan_structure :: "file_system \<Rightarrow> jobj \<Rightarrow> bool \<Rightarrow> StructuralCheckResult res" where
  "check_scan_structure fs manifest require_techmap =
     (case check_body fs manifest require_techmap of
        (es, Inr _) \<Rightarrow> Inr \<lparr>scr_warnings = [], scr_errors = es\<rparr>
      | (es, Inl e) \<Rightarrow>
          (case exc_text e of
             Some msg \<Rightarrow> Inr \<lparr>scr_warnings = [], scr_errors = es @ [msg]\<rparr>
           | None \<Rightarrow> Inl e))"


section \<open>Runs without errors\<close>

named_theorems chk_simps \<open>when a check reports nothing\<close>

lemma bind_chk_ok [chk_simps]: "bind_chk m f = ([], Inr y) \<longleftrightarrow> (\<exists>x. m = ([], Inr x) \<and> f x = ([], Inr y))"
  by (auto simp: bind_chk_def split: sum.splits prod.splits)

lemma ret_ok [chk_simps]: "ret x = ([], Inr y) \<longleftrightarrow> x = y"
  by (simp add: ret_def)

lemma lift_res_ok [chk_simps]: "lift_res r = ([], Inr y) \<longleftrightarrow> r = Inr y"
  by (simp add: lift_res_def)

lemma err_ok [chk_simps]: "err e = ([], Inr y) \<longleftrightarrow> False"
  by (simp add: err_def)

lemma err_if_ok [chk_simps]: "err_if c e = ([], Inr y) \<longleftrightarrow> \<not> c"
  by (simp add: err_if_def err_def ret_def)

lemma bind_chk_run [simp]: "bind_chk ([], Inr x) f = f x"
  by (cases "f x") (simp add: bind_chk_def)

lemma bind_chk_lift [simp]: "bind_chk (lift_res (Inr x)) f = f x"
  by (simp add: lift_res_def)

lemma bind_chk_ret [simp]: "bind_chk (ret x) f = f x"
  by (simp add: ret_def)

lemma bind_chk_err_if [simp]: "\<not> c \<Longrightarrow> bind_chk (err_if c e) f = f ()"
  by (simp add: err_if_def)

text \<open>A cell of one of the given types, with its pins.\<close>

definition scan_cell_of :: "string list \<Rightarrow> jobj \<Rightarrow> string \<Rightarrow> jobj option" where
  "scan_cell_of cell_types cells name =
     (case Option.bind (map_of cells name) as_obj of
        None \<Rightarrow> None
      | Some cell \<Rightarrow> if type_in cell_types cell = Inr True then Some cell else None)"

definition scan_cell_names :: "string list \<Rightarrow> jobj \<Rightarrow> string list" where
  "scan_cell_names cell_types cells =
     filter (\<lambda>name. scan_cell_of cell_types cells name \<noteq> None) (map fst cells)"

lemma index_cell_ok:
  assumes "index_cell types in_pin out_pin req (name, raw) st = ([], Inr st')"
  shows "st' = st \<and> (\<forall>cell. as_obj raw = Some cell \<longrightarrow> type_in types cell \<noteq> Inr True)
    \<or> (\<exists>cell i out se clk. as_obj raw = Some cell \<and> type_in types cell = Inr True
        \<and> conn_bit cell in_pin name = Inr i \<and> conn_bit cell out_pin name = Inr out
        \<and> conn_bit cell ''SE'' name = Inr se \<and> (req = None \<or> req = Some se)
        \<and> conn_bit cell ''CLK'' name = Inr clk \<and> \<not> has_key (node_by_in st) i
        \<and> st' = \<lparr>node_by_in = dict_set (node_by_in st) i name, out_by_node = dict_set (out_by_node st) name out,
              clock_nets = List.insert clk (clock_nets st), names = List.insert name (names st),
              se_nets = List.insert se (se_nets st)\<rparr>)"
  using assms
  by (auto simp: index_cell_def chk_simps split: option.splits if_splits)

text \<open>What a clean index says about the cells: each scan cell is found by its chain input and has its
  output recorded, and nothing else is.\<close>

lemma index_sound:
  assumes "fold_chk (index_cell types in_pin out_pin req) cells st = ([], Inr ff)"
    and "distinct (map fst cells)"
  shows "(\<forall>net n. map_of (node_by_in st) net = Some n \<longrightarrow> map_of (node_by_in ff) net = Some n)
    \<and> (\<forall>n. n \<notin> fst ` set cells \<longrightarrow> map_of (out_by_node ff) n = map_of (out_by_node st) n)
    \<and> (\<forall>net n. map_of (node_by_in ff) net = Some n \<longrightarrow> map_of (node_by_in st) net = Some n
         \<or> (\<exists>cell. scan_cell_of types cells n = Some cell \<and> conn_bit cell in_pin n = Inr net))
    \<and> (\<forall>n cell. scan_cell_of types cells n = Some cell \<longrightarrow>
         (\<exists>i out se. conn_bit cell in_pin n = Inr i \<and> map_of (node_by_in ff) i = Some n
           \<and> conn_bit cell out_pin n = Inr out \<and> map_of (out_by_node ff) n = Some out
           \<and> conn_bit cell ''SE'' n = Inr se \<and> (req = None \<or> req = Some se)))
    \<and> set (names ff) = set (names st) \<union> set (scan_cell_names types cells)"
  using assms
proof (induction cells arbitrary: st)
  case Nil
  then show ?case by (auto simp: chk_simps scan_cell_of_def scan_cell_names_def)
next
  case (Cons kv cells)
  obtain name raw where kv: "kv = (name, raw)" by force
  from Cons.prems(1) obtain st1 where s1: "index_cell types in_pin out_pin req (name, raw) st = ([], Inr st1)"
    and s2: "fold_chk (index_cell types in_pin out_pin req) cells st1 = ([], Inr ff)"
    by (auto simp: chk_simps kv)
  have new: "name \<notin> fst ` set cells" and d: "distinct (map fst cells)" using Cons.prems(2) kv by auto
  then have none: "scan_cell_of types cells name = None"
    by (simp add: scan_cell_of_def map_of_eq_None_iff [THEN iffD2])
  have of_Cons: "scan_cell_of types (kv # cells) n = (if n = name then
      (case as_obj raw of None \<Rightarrow> None | Some cell \<Rightarrow> if type_in types cell = Inr True then Some cell else None)
      else scan_cell_of types cells n)" for n
    by (simp add: scan_cell_of_def kv)
  have nm: "set (scan_cell_names types (kv # cells)) =
      (if scan_cell_of types (kv # cells) name = None then {} else {name}) \<union> set (scan_cell_names types cells)"
    using new by (auto simp: scan_cell_names_def of_Cons [unfolded kv] kv split: if_splits option.splits)
  note IH = Cons.IH [OF s2 d]
  from index_cell_ok [OF s1] consider
    "st1 = st" "\<forall>cell. as_obj raw = Some cell \<longrightarrow> type_in types cell \<noteq> Inr True"
    | cell i out se clk where "as_obj raw = Some cell" "type_in types cell = Inr True"
      "conn_bit cell in_pin name = Inr i" "conn_bit cell out_pin name = Inr out" "conn_bit cell ''SE'' name = Inr se"
      "\<not> has_key (node_by_in st) i" "req = None \<or> req = Some se"
      "st1 = \<lparr>node_by_in = dict_set (node_by_in st) i name, out_by_node = dict_set (out_by_node st) name out,
              clock_nets = List.insert clk (clock_nets st), names = List.insert name (names st),
              se_nets = List.insert se (se_nets st)\<rparr>"
    by blast
  then show ?case
  proof cases
    case 1
    then have "scan_cell_of types (kv # cells) name = None" by (auto simp: of_Cons split: option.splits)
    then have "scan_cell_of types (kv # cells) = scan_cell_of types cells" "set (scan_cell_names types (kv # cells)) = set (scan_cell_names types cells)"
      using none nm by (auto simp: of_Cons fun_eq_iff)
    with IH \<open>st1 = st\<close> show ?thesis by (auto simp: kv)
  next
    case (2 cell i out se clk)
    note c = 2(1-5) and free = 2(6) and req = 2(7) and st1 = 2(8)
    then have sc: "scan_cell_of types (kv # cells) name = Some cell" by (simp add: of_Cons)
    have st_i: "map_of (node_by_in st) i = None" using free by (simp add: has_key_def)
    have "map_of (node_by_in ff) i = Some name" using IH by (auto simp: st1)
    moreover have "map_of (out_by_node ff) name = Some out" using IH new by (auto simp: st1)
    ultimately have this_cell: "\<exists>i out se. conn_bit cell in_pin name = Inr i \<and> map_of (node_by_in ff) i = Some name
           \<and> conn_bit cell out_pin name = Inr out \<and> map_of (out_by_node ff) name = Some out
           \<and> conn_bit cell ''SE'' name = Inr se \<and> (req = None \<or> req = Some se)"
      using c req by blast
    have nm': "set (scan_cell_names types (kv # cells)) = {name} \<union> set (scan_cell_names types cells)"
      using nm sc by simp
    show ?thesis
    proof (intro conjI allI impI)
      fix net n assume "map_of (node_by_in st) net = Some n"
      moreover from this have "net \<noteq> i" using st_i by auto
      ultimately show "map_of (node_by_in ff) net = Some n" using IH by (simp add: st1)
    next
      fix n assume "n \<notin> fst ` set (kv # cells)"
      then show "map_of (out_by_node ff) n = map_of (out_by_node st) n" using IH by (simp add: st1 kv)
    next
      fix net n assume found: "map_of (node_by_in ff) net = Some n"
      show "map_of (node_by_in st) net = Some n
         \<or> (\<exists>cell. scan_cell_of types (kv # cells) n = Some cell \<and> conn_bit cell in_pin n = Inr net)"
      proof (cases "n = name \<and> net = i")
        case True
        then show ?thesis using sc c(3) by auto
      next
        case False
        from IH [THEN conjunct2, THEN conjunct2, THEN conjunct1, rule_format, OF found]
        have "map_of (node_by_in st1) net = Some n
          \<or> (\<exists>cell. scan_cell_of types cells n = Some cell \<and> conn_bit cell in_pin n = Inr net)" .
        then show ?thesis
        proof
          assume "map_of (node_by_in st1) net = Some n"
          with False show ?thesis by (auto simp: st1 split: if_splits)
        next
          assume later: "\<exists>cell. scan_cell_of types cells n = Some cell \<and> conn_bit cell in_pin n = Inr net"
          with none have "n \<noteq> name" by auto
          with later show ?thesis by (simp add: of_Cons)
        qed
      qed
    next
      fix n cell' assume "scan_cell_of types (kv # cells) n = Some cell'"
      then show "\<exists>i out se. conn_bit cell' in_pin n = Inr i \<and> map_of (node_by_in ff) i = Some n
           \<and> conn_bit cell' out_pin n = Inr out \<and> map_of (out_by_node ff) n = Some out
           \<and> conn_bit cell' ''SE'' n = Inr se \<and> (req = None \<or> req = Some se)"
        using IH this_cell sc by (cases "n = name") (auto simp: of_Cons)
    next
      show "set (names ff) = set (names st) \<union> set (scan_cell_names types (kv # cells))"
        using IH nm' by (simp add: st1)
    qed
  qed
qed


section \<open>What a clean check guarantees\<close>

text \<open>The cells \<open>names\<close> are, in this order, the scan path of the netlist from net \<open>cur\<close> to net \<open>out\<close>.\<close>

fun physical_path :: "jobj \<Rightarrow> string list \<Rightarrow> string \<Rightarrow> string \<Rightarrow> int \<Rightarrow> string list \<Rightarrow> int \<Rightarrow> bool" where
  "physical_path cells types in_pin out_pin cur [] out = (cur = out)"
| "physical_path cells types in_pin out_pin cur (name # rest) out =
     (case scan_cell_of types cells name of
        None \<Rightarrow> False
      | Some cell \<Rightarrow> conn_bit cell in_pin name = Inr cur
          \<and> (case conn_bit cell out_pin name of
               Inl _ \<Rightarrow> False
             | Inr next_net \<Rightarrow> physical_path cells types in_pin out_pin next_net rest out))"

definition manifest_cells :: "json \<Rightarrow> string list" where
  "manifest_cells raw =
     (case as_obj raw of
        None \<Rightarrow> []
      | Some ch \<Rightarrow> (case py_tuple (get_or ch ''cells'' (JList [])) of Inl _ \<Rightarrow> [] | Inr xs \<Rightarrow> map py_str xs))"

definition chain_matches :: "jobj \<Rightarrow> jobj \<Rightarrow> string list \<Rightarrow> string \<Rightarrow> string \<Rightarrow> json \<Rightarrow> bool" where
  "chain_matches module cells types in_pin out_pin raw =
     (case as_obj raw of
        None \<Rightarrow> False
      | Some ch \<Rightarrow>
          (case (port_bit module (py_str (get_or ch ''scan_in'' JNull)) ''input'',
                 port_bit module (py_str (get_or ch ''scan_out'' JNull)) ''output'') of
             (Inr start, Inr out) \<Rightarrow> physical_path cells types in_pin out_pin start (manifest_cells raw) out
           | _ \<Rightarrow> False))"

text \<open>All chains of a manifest list match, and together they hold every scan cell exactly once.\<close>

definition chains_match :: "jobj \<Rightarrow> jobj \<Rightarrow> string list \<Rightarrow> string \<Rightarrow> string \<Rightarrow> json list \<Rightarrow> bool" where
  "chains_match module cells types in_pin out_pin raws =
     ((\<forall>raw \<in> set raws. chain_matches module cells types in_pin out_pin raw)
      \<and> distinct (concat (map manifest_cells raws))
      \<and> set (concat (map manifest_cells raws)) = set (scan_cell_names types cells))"

lemma walk_path:
  assumes "walk by_in by_node cur derived = Inr (ds, end_net, cyclic)"
    and "\<And>net n. map_of by_in net = Some n \<Longrightarrow> \<exists>cell out. scan_cell_of types cells n = Some cell
      \<and> conn_bit cell in_pin n = Inr net \<and> conn_bit cell out_pin n = Inr out \<and> map_of by_node n = Some out"
  shows "\<exists>rest. ds = derived @ rest \<and> physical_path cells types in_pin out_pin cur rest end_net"
  using assms
proof (induction by_in by_node cur derived rule: walk.induct)
  case (1 by_in by_node cur derived)
  show ?case
  proof (cases "map_of by_in cur")
    case None
    with 1(2) show ?thesis by (simp add: walk.simps [of by_in by_node])
  next
    case (Some name)
    show ?thesis
    proof (cases "name \<in> set derived")
      case True
      with Some 1(2) show ?thesis by (simp add: walk.simps [of by_in by_node])
    next
      case False
      from 1(3) [OF Some] obtain cell out where c: "scan_cell_of types cells name = Some cell"
        "conn_bit cell in_pin name = Inr cur" "conn_bit cell out_pin name = Inr out" "map_of by_node name = Some out"
        by blast
      with Some False 1(2) have "walk by_in by_node out (derived @ [name]) = Inr (ds, end_net, cyclic)"
        by (simp add: walk.simps [of by_in by_node cur])
      from 1(1) [OF Some False c(4) this 1(3)] c show ?thesis by auto
    qed
  qed
qed

lemma mark_seen_ok:
  "mark_seen ds seen = ([], Inr seen') \<longleftrightarrow>
     distinct ds \<and> set ds \<inter> set seen = {} \<and> seen' = rev ds @ seen"
  by (induction ds seen arbitrary: seen' rule: mark_seen.induct) (auto simp: chk_simps List.insert_def)

lemma validate_chain_ok:
  assumes "validate_chain module by_in by_node raw seen = ([], Inr seen')"
    and "\<And>net n. map_of by_in net = Some n \<Longrightarrow> \<exists>cell out. scan_cell_of types cells n = Some cell
      \<and> conn_bit cell in_pin n = Inr net \<and> conn_bit cell out_pin n = Inr out \<and> map_of by_node n = Some out"
  shows "chain_matches module cells types in_pin out_pin raw \<and> distinct (manifest_cells raw)
    \<and> set (manifest_cells raw) \<inter> set seen = {} \<and> seen' = rev (manifest_cells raw) @ seen"
proof -
  from assms(1) obtain ch raw_cells start out derived where
    ch: "as_obj raw = Some ch" "py_tuple (get_or ch ''cells'' (JList [])) = Inr raw_cells"
    "port_bit module (py_str (get_or ch ''scan_in'' JNull)) ''input'' = Inr start"
    "port_bit module (py_str (get_or ch ''scan_out'' JNull)) ''output'' = Inr out"
    and w: "walk by_in by_node start [] = Inr (derived, out, False)" "derived = map py_str raw_cells"
    and m: "mark_seen derived seen = ([], Inr seen')"
    by (auto simp: validate_chain_def chk_simps Let_def bind_res_def split: option.splits sum.splits)
  have "physical_path cells types in_pin out_pin start derived out"
    using walk_path [OF w(1) assms(2)] by auto
  moreover have "manifest_cells raw = derived" using ch(1,2) w(2) by (simp add: manifest_cells_def)
  ultimately show ?thesis using ch m by (auto simp: chain_matches_def mark_seen_ok)
qed

lemma validate_chains_ok:
  assumes "fold_chk (validate_chain module by_in by_node) raws seen = ([], Inr seen')"
    and "\<And>net n. map_of by_in net = Some n \<Longrightarrow> \<exists>cell out. scan_cell_of types cells n = Some cell
      \<and> conn_bit cell in_pin n = Inr net \<and> conn_bit cell out_pin n = Inr out \<and> map_of by_node n = Some out"
  shows "(\<forall>raw \<in> set raws. chain_matches module cells types in_pin out_pin raw)
    \<and> distinct (concat (map manifest_cells raws)) \<and> set (concat (map manifest_cells raws)) \<inter> set seen = {}
    \<and> set seen' = set (concat (map manifest_cells raws)) \<union> set seen"
  using assms(1)
proof (induction raws arbitrary: seen)
  case Nil
  then show ?case by (simp add: chk_simps)
next
  case (Cons raw raws)
  then obtain s1 where s1: "validate_chain module by_in by_node raw seen = ([], Inr s1)"
    "fold_chk (validate_chain module by_in by_node) raws s1 = ([], Inr seen')"
    by (auto simp: chk_simps)
  from validate_chain_ok [OF s1(1) assms(2)] Cons.IH [OF s1(2)] show ?case by auto
qed

lemma minus_set_Nil: "minus_set xs ys = [] \<longleftrightarrow> set xs \<subseteq> set ys"
  by (auto simp: minus_set_def filter_empty_conv)

text \<open>Both halves of the check: a clean index, clean chains and no cell missing or in excess.\<close>

lemma clean_half:
  assumes idx: "collect_chain_cells cells types in_pin out_pin req = ([], Inr ff)"
    and chs: "validate_chains module raws (node_by_in ff) (out_by_node ff) = ([], Inr seen)"
    and eq: "minus_set (names ff) seen = []" "minus_set seen (names ff) = []"
    and d: "distinct (map fst cells)"
  shows "chains_match module cells types in_pin out_pin raws"
    "\<forall>n cell. scan_cell_of types cells n = Some cell \<longrightarrow>
       (\<exists>se. conn_bit cell ''SE'' n = Inr se \<and> (req = None \<or> req = Some se))"
proof -
  note s = index_sound [OF idx [unfolded collect_chain_cells_def] d]
  have look: "\<exists>cell out. scan_cell_of types cells n = Some cell \<and> conn_bit cell in_pin n = Inr net
      \<and> conn_bit cell out_pin n = Inr out \<and> map_of (out_by_node ff) n = Some out"
    if "map_of (node_by_in ff) net = Some n" for net n
    using s that by (fastforce simp: empty_index_def)
  have "set (names ff) = set (scan_cell_names types cells)" using s by (simp add: empty_index_def)
  with validate_chains_ok [OF chs [unfolded validate_chains_def] look] eq
  show "chains_match module cells types in_pin out_pin raws"
    by (simp add: chains_match_def minus_set_Nil)
  show "\<forall>n cell. scan_cell_of types cells n = Some cell \<longrightarrow>
       (\<exists>se. conn_bit cell ''SE'' n = Inr se \<and> (req = None \<or> req = Some se))"
    using s by blast
qed


text \<open>
  C4. The structural check is sound. If \<^verbatim>\<open>check_scan_structure\<close> reports no error, then in the checked
  module every manifest chain is a real scan path: following SDI and Q (CTI and CTO for wrapper
  chains) from the chain's scan-in port visits exactly the listed cells in the listed order and
  ends at its scan-out port; the manifest chains together hold every scan cell of the module exactly
  once; and every internal scan cell is driven by the manifest's scan enable.
\<close>

theorem check_scan_structure_sound:
  assumes check: "check_scan_structure fs manifest require_techmap = Inr r" and ok: "passed r"
    and json: "read_json fs (py_str (get_or manifest ''generic_json'' JNull)) = Inr data"
    and mod: "top_module data (py_str (get_or manifest ''top'' JNull)) = Inr (top_name, module)"
    and cells: "as_obj (get_or module ''cells'' (JObj [])) = Some cells" "distinct (map fst cells)"
  shows "\<exists>se chs wchs. port_bit module (py_str (get_or manifest ''scan_enable'' JNull)) ''input'' = Inr se
    \<and> as_list (get_or manifest ''chains'' (JList [])) = Some chs
    \<and> as_list (get_or manifest ''wrapper_chains'' (JList [])) = Some wchs
    \<and> chains_match module cells SCAN_CELL_TYPES ''SDI'' ''Q'' chs
    \<and> chains_match module cells WBR_SCAN_CELL_TYPES ''CTI'' ''CTO'' wchs
    \<and> (\<forall>name cell. scan_cell_of SCAN_CELL_TYPES cells name = Some cell \<longrightarrow> conn_bit cell ''SE'' name = Inr se)"
proof -
  from check ok have "check_body fs manifest require_techmap = ([], Inr ())"
    by (auto simp: check_scan_structure_def passed_def split: prod.splits sum.splits option.splits)
  note run = this [unfolded check_body_def Let_def chk_simps]
  from run json mod cells obtain se chs wchs ff wbr seen wseen where
    se: "port_bit module (py_str (get_or manifest ''scan_enable'' JNull)) ''input'' = Inr se"
    and lists: "as_list (get_or manifest ''chains'' (JList [])) = Some chs"
      "as_list (get_or manifest ''wrapper_chains'' (JList [])) = Some wchs"
    and ff: "collect_chain_cells cells SCAN_CELL_TYPES ''SDI'' ''Q'' (Some se) = ([], Inr ff)"
      "validate_chains module chs (node_by_in ff) (out_by_node ff) = ([], Inr seen)"
      "minus_set (names ff) seen = []" "minus_set seen (names ff) = []"
    and wbr: "collect_chain_cells cells WBR_SCAN_CELL_TYPES ''CTI'' ''CTO'' None = ([], Inr wbr)"
      "validate_chains module wchs (node_by_in wbr) (out_by_node wbr) = ([], Inr wseen)"
      "minus_set (names wbr) wseen = []" "minus_set wseen (names wbr) = []"
    by (auto simp: getitem_def get_or_def manifest_list_def lift_option_eq_Inr chk_simps split: option.splits)
  have "\<forall>name cell. scan_cell_of SCAN_CELL_TYPES cells name = Some cell \<longrightarrow> conn_bit cell ''SE'' name = Inr se"
    using clean_half(2) [OF ff cells(2)] by auto
  with se lists clean_half(1) [OF ff cells(2)] clean_half(1) [OF wbr cells(2)] show ?thesis by blast
qed


text \<open>One scan cell between the ports \<open>si\<close> and \<open>so\<close>.\<close>

definition ex_port :: "string \<Rightarrow> int \<Rightarrow> json" where
  "ex_port dir net = JObj [(''direction'', JStr dir), (''bits'', JList [JInt net])]"

definition ex_scan_cells :: jobj where
  "ex_scan_cells = [(''f'', JObj [(''type'', JStr SCAN_CELL_TYPE), (''connections'', JObj
     [(''CLK'', JList [JInt 2]), (''D'', JList [JInt 3]), (''SDI'', JList [JInt 4]), (''SE'', JList [JInt 5]),
      (''Q'', JList [JInt 6])])])]"

definition ex_scan_module :: jobj where
  "ex_scan_module = [(''ports'', JObj [(''si'', ex_port ''input'' 4), (''se'', ex_port ''input'' 5),
     (''so'', ex_port ''output'' 6)]), (''cells'', JObj ex_scan_cells)]"

definition ex_scan_fs :: file_system where
  "ex_scan_fs = \<lparr>fs_json = (\<lambda>_. Some (JObj [(''modules'', JObj [(''m'', JObj ex_scan_module)])])),
     fs_hash = (\<lambda>_. ''h''), fs_exists = (\<lambda>_. False)\<rparr>"

definition ex_scan_manifest :: jobj where
  "ex_scan_manifest = [(''generic_json'', JStr ''o''), (''generic_json_hash'', JStr ''h''), (''top'', JStr ''m''),
     (''scan_enable'', JStr ''se''), (''chains'', JList [JObj [(''index'', JInt 0), (''scan_in'', JStr ''si''),
       (''scan_out'', JStr ''so''), (''cells'', JList [JStr ''f''])]])]"

theorem check_scan_structure_sound_witness:
  "\<exists>se chs wchs. port_bit ex_scan_module (py_str (get_or ex_scan_manifest ''scan_enable'' JNull)) ''input'' = Inr se
    \<and> as_list (get_or ex_scan_manifest ''chains'' (JList [])) = Some chs
    \<and> as_list (get_or ex_scan_manifest ''wrapper_chains'' (JList [])) = Some wchs
    \<and> chains_match ex_scan_module ex_scan_cells SCAN_CELL_TYPES ''SDI'' ''Q'' chs
    \<and> chains_match ex_scan_module ex_scan_cells WBR_SCAN_CELL_TYPES ''CTI'' ''CTO'' wchs
    \<and> (\<forall>name cell. scan_cell_of SCAN_CELL_TYPES ex_scan_cells name = Some cell \<longrightarrow> conn_bit cell ''SE'' name = Inr se)"
proof (rule check_scan_structure_sound [where fs = ex_scan_fs and require_techmap = False
    and r = "\<lparr>scr_warnings = [], scr_errors = []\<rparr>" and top_name = "''m''"
    and data = "[(''modules'', JObj [(''m'', JObj ex_scan_module)])]"])
  show "check_scan_structure ex_scan_fs ex_scan_manifest False = Inr \<lparr>scr_warnings = [], scr_errors = []\<rparr>"
    by code_simp
  show "read_json ex_scan_fs (py_str (get_or ex_scan_manifest ''generic_json'' JNull)) =
      Inr [(''modules'', JObj [(''m'', JObj ex_scan_module)])]"
    by (simp add: read_json_def ex_scan_fs_def load_json_def)
  show "top_module [(''modules'', JObj [(''m'', JObj ex_scan_module)])] (py_str (get_or ex_scan_manifest ''top'' JNull))
      = Inr (''m'', ex_scan_module)"
    by (simp add: top_module_def get_or_def ex_scan_manifest_def py_str_def)
qed (simp_all add: passed_def ex_scan_module_def ex_scan_cells_def get_or_def)

end
