(* ===== verification/Scan_Reports.thy ===== *)
theory Scan_Reports
  imports Scan_Stitch
begin

text \<open>
  The scan manifest and the text reports: \<^verbatim>\<open>faultflow/scan/reports.py\<close>, and the readers of manifest
  fields in \<^verbatim>\<open>faultflow/scan/manifest.py\<close>. Functions that write a file are modelled by the text or
  the JSON value they write. The hash of the written netlist is an argument.
\<close>

section \<open>The manifest\<close>

definition cell_row :: "ScanCellRecord \<Rightarrow> json" where
  "cell_row c = JObj [(''instance'', JStr (rec_instance c)), (''original_type'', JStr (rec_original_type c)),
     (''chain_index'', JInt (rec_chain_index c)), (''chain_position'', JInt (rec_chain_position c)),
     (''clock_net'', JInt (rec_clock_net c)), (''data_net'', JInt (rec_data_net c)),
     (''scan_in_net'', JInt (rec_scan_in_net c)), (''scan_enable_net'', JInt (rec_scan_enable_net c)),
     (''q_net'', JInt (rec_q_net c))]"

definition chain_row :: "ScanChainRecord \<Rightarrow> json" where
  "chain_row c = JObj [(''index'', JInt (ch_index c)), (''scan_in'', JStr (ch_scan_in c)),
     (''scan_out'', JStr (ch_scan_out c)), (''scan_in_net'', JInt (ch_scan_in_net c)),
     (''scan_out_net'', JInt (ch_scan_out_net c)), (''length'', JInt (chain_length c)),
     (''cells'', JList (map (\<lambda>r. JStr (rec_instance r)) (ch_cells c))),
     (''cell_records'', JList (map cell_row (ch_cells c)))]"

definition ineligible_row :: "IneligibleFF \<Rightarrow> json" where
  "ineligible_row ff = JObj [(''instance'', JStr (inel_instance ff)), (''cell_type'', JStr (inel_cell_type ff)),
     (''reason'', JStr (inel_reason ff))]"

definition fold1 :: "('a \<Rightarrow> 'a \<Rightarrow> 'a) \<Rightarrow> 'a \<Rightarrow> 'a list \<Rightarrow> 'a" where
  "fold1 f dflt xs = (case xs of [] \<Rightarrow> dflt | y # ys \<Rightarrow> fold f ys y)"

definition manifest_from_result ::
  "ScanStitchResult \<Rightarrow> string \<Rightarrow> string \<Rightarrow> string \<Rightarrow> string option \<Rightarrow> json \<Rightarrow> jobj" where
  "manifest_from_result r json_hash source_json techmap_verilog sky130_verilog check_result =
     [(''version'', JInt 2), (''top'', JStr (plan_top r)), (''source_json'', JStr source_json),
      (''generic_json'', JStr (result_output_json r)), (''generic_json_hash'', JStr json_hash),
      (''techmap_verilog'', JStr techmap_verilog),
      (''sky130_verilog'', (case sky130_verilog of None \<Rightarrow> JNull | Some p \<Rightarrow> JStr p)),
      (''chain_order_policy'', JStr ''sorted by instance name, not netlist order''),
      (''chain_count'', JInt (plan_chain_count r)), (''cell_count'', JInt (plan_cell_count r)),
      (''clock_nets'', JList (map JInt (plan_clock_nets r))),
      (''scan_inputs'', JList (map JStr (plan_scan_inputs r))),
      (''scan_outputs'', JList (map JStr (plan_scan_outputs r))),
      (''scan_enable'', JStr (plan_scan_enable r)),
      (''max_chain_length'', JInt (fold1 max 0 (map chain_length (plan_chains r)))),
      (''min_chain_length'', JInt (fold1 min 0 (map chain_length (plan_chains r)))),
      (''chains'', JList (map chain_row (plan_chains r))),
      (''wrapper_chains'', JList (map chain_row (plan_wrapper_chains r))),
      (''cells'', JList (map cell_row (plan_cells r))),
      (''ineligible_ffs'', JList (map ineligible_row (plan_ineligible_ffs r))),
      (''latest_check'', check_result)]"

definition short_chain_row :: "ScanChainRecord \<Rightarrow> json" where
  "short_chain_row c = JObj [(''index'', JInt (ch_index c)), (''scan_in'', JStr (ch_scan_in c)),
     (''scan_out'', JStr (ch_scan_out c)), (''length'', JInt (chain_length c)),
     (''cells'', JList (map (\<lambda>r. JStr (rec_instance r)) (ch_cells c)))]"

definition dry_run_manifest :: "ScanPlan \<Rightarrow> jobj" where
  "dry_run_manifest p =
     [(''version'', JInt 1), (''top'', JStr (plan_top p)),
      (''chain_order_policy'', JStr ''sorted by instance name, not netlist order''),
      (''chain_count'', JInt (plan_chain_count p)), (''cell_count'', JInt (plan_cell_count p)),
      (''clock_nets'', JList (map JInt (plan_clock_nets p))),
      (''scan_inputs'', JList (map JStr (plan_scan_inputs p))),
      (''scan_outputs'', JList (map JStr (plan_scan_outputs p))),
      (''scan_enable'', JStr (plan_scan_enable p)),
      (''chains'', JList (map short_chain_row (plan_chains p))),
      (''wrapper_chains'', JList (map short_chain_row (plan_wrapper_chains p))),
      (''ineligible_ffs'', JList (map ineligible_row (plan_ineligible_ffs p)))]"

definition manifest_clock_net_ids :: "(string \<Rightarrow> py_exc) \<Rightarrow> jobj \<Rightarrow> int list res" where
  "manifest_clock_net_ids error_cls manifest =
     (case get_or manifest ''clock_nets'' JNull of
        JList (n # ns) \<Rightarrow> map_res py_int (n # ns)
      | _ \<Rightarrow> (case as_int (get_or manifest ''clock_net'' JNull) of
          None \<Rightarrow> Inl (error_cls ''scan manifest must have clock_nets (list) or clock_net (int)'')
        | Some clk \<Rightarrow> Inr [clk]))"

section \<open>Text reports\<close>

definition as_list_or_empty :: "json \<Rightarrow> json list" where
  "as_list_or_empty value = (case as_list value of None \<Rightarrow> [] | Some xs \<Rightarrow> xs)"

definition dict_list :: "json \<Rightarrow> jobj list" where
  "dict_list value = List.map_filter as_obj (as_list_or_empty value)"

text \<open>\<^verbatim>\<open>f"{d.get(key)}"\<close>.\<close>

definition show_key :: "jobj \<Rightarrow> string \<Rightarrow> string" where
  "show_key d key = py_str (get_or d key JNull)"

definition newline :: string where "newline = [CHR 10]"

definition scan_chains_text :: "jobj \<Rightarrow> string" where
  "scan_chains_text manifest =
     join_str newline
       ([''top: '' @ show_key manifest ''top'',
         ''chain order: sorted by instance name, not netlist order'',
         ''chains: '' @ show_key manifest ''chain_count'' @ '' cells: '' @ show_key manifest ''cell_count'']
        @ map (\<lambda>chain. ''Chain '' @ show_key chain ''index'' @ '' ('' @ show_key chain ''length'' @ '' FFs): '' @
            show_key chain ''scan_in'' @ '' -> '' @
            join_str '' -> '' (map py_str (as_list_or_empty (get_or chain ''cells'' (JList [])))) @
            '' -> '' @ show_key chain ''scan_out'') (dict_list (get_or manifest ''chains'' (JList []))))
     @ newline"

text \<open>\<^verbatim>\<open>sorted(Counter(xs).items())\<close>.\<close>

definition counter_items :: "string list \<Rightarrow> (string \<times> nat) list" where
  "counter_items xs = map (\<lambda>k. (k, length (filter (\<lambda>x. x = k) xs))) (sorted_set xs)"

definition latest_check_lines :: "json \<Rightarrow> string list" where
  "latest_check_lines latest =
     (case as_obj latest of
        None \<Rightarrow> [''  not run'']
      | Some d \<Rightarrow>
          [''  status: '' @ show_key d ''status'', ''  timestamp: '' @ show_key d ''timestamp'']
          @ (case as_obj (get_or d ''techmap_equivalence'' JNull) of
               None \<Rightarrow> []
             | Some eqv \<Rightarrow> [''  techmap equivalence: PASS vectors='' @ py_str (get_or eqv ''vector_count'' (JInt 0))])
          @ map (\<lambda>e. ''  error: '' @ py_str e) (as_list_or_empty (get_or d ''errors'' (JList [])))
          @ map (\<lambda>e. ''  warning: '' @ py_str e) (as_list_or_empty (get_or d ''warnings'' (JList []))))"

definition render_scan_report :: "jobj \<Rightarrow> string" where
  "render_scan_report manifest =
     (let inelig = dict_list (get_or manifest ''ineligible_ffs'' (JList []));
          reasons = map (\<lambda>item. show_key item ''reason'')
            (filter (\<lambda>item. truthy (get_or item ''reason'' JNull)) inelig)
      in join_str newline
        ([''faultflow scan report'', ''top: '' @ show_key manifest ''top'',
          ''chain order: sorted by instance name, not netlist order'',
          ''chains: '' @ show_key manifest ''chain_count'',
          ''scan cells: '' @ show_key manifest ''cell_count'',
          ''clock net: '' @ show_key manifest ''clock_net'',
          ''scan enable: '' @ show_key manifest ''scan_enable'',
          ''scan inputs: '' @ join_str '', '' (map py_str (as_list_or_empty (get_or manifest ''scan_inputs'' (JList [])))),
          ''scan outputs: '' @ join_str '', '' (map py_str (as_list_or_empty (get_or manifest ''scan_outputs'' (JList [])))),
          ''generic json: '' @ show_key manifest ''generic_json'',
          ''generic json hash: '' @ show_key manifest ''generic_json_hash'',
          ''techmap: '' @ show_key manifest ''techmap_verilog'',
          ''sky130 verilog: '' @ show_key manifest ''sky130_verilog'', [], ''chains:'']
         @ map (\<lambda>chain. ''  chain '' @ show_key chain ''index'' @ '' length='' @ show_key chain ''length'' @ '' '' @
             show_key chain ''scan_in'' @ '' -> '' @
             join_str '' -> '' (map py_str (as_list_or_empty (get_or chain ''cells'' (JList [])))) @
             '' -> '' @ show_key chain ''scan_out'') (dict_list (get_or manifest ''chains'' (JList [])))
         @ [[], ''ineligible FFs:'']
         @ (if inelig = [] then [''  none'']
            else map (\<lambda>(reason, count). ''  '' @ reason @ '': '' @ show_nat count) (counter_items reasons)
              @ map (\<lambda>item. ''  '' @ show_key item ''instance'' @ '' '' @ show_key item ''cell_type'' @ '' '' @
                  show_key item ''reason'') inelig)
         @ [[], ''latest check:''] @ latest_check_lines (get_or manifest ''latest_check'' JNull))
        @ newline)"

definition format_dry_run :: "ScanPlan \<Rightarrow> string" where
  "format_dry_run p =
     join_str newline
       ([''scan dry-run top='' @ plan_top p, ''chain order: sorted by instance name, not netlist order'',
         ''eligible_ffs='' @ show_int (plan_cell_count p),
         ''ineligible_ffs='' @ show_nat (length (plan_ineligible_ffs p)),
         ''chains='' @ show_int (plan_chain_count p), ''scan_enable='' @ plan_scan_enable p,
         ''scan_inputs='' @ join_str '','' (plan_scan_inputs p),
         ''scan_outputs='' @ join_str '','' (plan_scan_outputs p)]
        @ map (\<lambda>(reason, count). ''ineligible_reason '' @ reason @ ''='' @ show_nat count)
            (counter_items (map inel_reason (plan_ineligible_ffs p)))
        @ map (\<lambda>c. ''chain '' @ show_int (ch_index c) @ '' length='' @ show_int (chain_length c) @ '': '' @
            ch_scan_in c @ '' -> '' @ join_str '' -> '' (map rec_instance (ch_cells c)) @ '' -> '' @ ch_scan_out c)
            (plan_chains p)
        @ [''dry-run wrote no scan artifacts''])"

section \<open>Reading a manifest back\<close>

lemma fold1_max: "x \<in> set xs \<Longrightarrow> x \<le> fold1 max d xs" for x :: int
proof (cases xs)
  case (Cons y ys)
  assume "x \<in> set xs"
  with Cons show ?thesis using fold_max_ge(1) [of x ys y] fold_max_ge(2) [of y ys] by (auto simp: fold1_def)
qed simp

lemma fold_chain_rows:
  "fold (\<lambda>raw lengths. case as_obj raw of
      None \<Rightarrow> lengths
    | Some d \<Rightarrow> (case (as_int (get_or d ''index'' JNull), as_int (get_or d ''length'' JNull)) of
         (Some index, Some len) \<Rightarrow> dict_set lengths index len | _ \<Rightarrow> lengths)) (map chain_row chs) ls =
   dict_update ls (map (\<lambda>c. (ch_index c, chain_length c)) chs)"
  by (induction chs arbitrary: ls) (simp_all add: chain_row_def get_or_def dict_update_def)

text \<open>
  The manifest hands the chain geometry over to the pattern serialiser: with distinct chain
  indices, \<^verbatim>\<open>_chain_lengths\<close> reads back exactly the planned length of every chain, and the manifest's
  \<open>max_chain_length\<close> is at least as long as every chain, so that serialising a vector for this design
  never fails on a chain longer than the maximum.
\<close>

theorem manifest_chain_lengths:
  fixes r json_hash source_json techmap sky check_result
  assumes "distinct (map ch_index (plan_chains r))"
  defines "manifest \<equiv> manifest_from_result r json_hash source_json techmap sky check_result"
  shows "chain_lengths_of manifest = map (\<lambda>c. (ch_index c, chain_length c)) (plan_chains r)
    \<and> (\<exists>m. get_or manifest ''max_chain_length'' JNull = JInt m \<and> (\<forall>c \<in> set (plan_chains r). chain_length c \<le> m))"
proof -
  have "chain_lengths_of manifest = dict_update [] (map (\<lambda>c. (ch_index c, chain_length c)) (plan_chains r))"
    using fold_chain_rows [of "plan_chains r" "[]"]
    by (simp add: chain_lengths_of_def manifest_def manifest_from_result_def get_or_def)
  also have "\<dots> = map (\<lambda>c. (ch_index c, chain_length c)) (plan_chains r)"
    using assms(1) dict_of_distinct [of "map (\<lambda>c. (ch_index c, chain_length c)) (plan_chains r)"]
    by (simp add: dict_of_def comp_def)
  finally show ?thesis
    by (simp add: manifest_def manifest_from_result_def get_or_def fold1_max)
qed

definition ex_chain :: "int \<Rightarrow> ScanChainRecord" where
  "ex_chain i = planned_chain 12 (nat i) (10 + i) ''si'' ''so'' [ex_ff ''a'' 2 3 4, ex_ff ''b'' 2 5 6]"

definition ex_result :: ScanStitchResult where
  "ex_result = \<lparr>plan_top = ''m'', plan_chain_count = 2, plan_cell_count = 4, plan_clock_nets = [2],
     plan_scan_inputs = [''si''], plan_scan_outputs = [''so''], plan_scan_enable = ''se'',
     plan_chains = [ex_chain 0, ex_chain 1], plan_cells = [], plan_ineligible_ffs = [],
     plan_wrapper_chains = [], result_output_json = ''o.json''\<rparr>"

theorem manifest_chain_lengths_witness:
  "chain_lengths_of (manifest_from_result ex_result ''h'' ''s'' ''t'' None JNull)
      = map (\<lambda>c. (ch_index c, chain_length c)) (plan_chains ex_result)
    \<and> (\<exists>m. get_or (manifest_from_result ex_result ''h'' ''s'' ''t'' None JNull) ''max_chain_length'' JNull = JInt m
        \<and> (\<forall>c \<in> set (plan_chains ex_result). chain_length c \<le> m))"
  by (rule manifest_chain_lengths) (simp add: ex_result_def ex_chain_def planned_chain_def)

text \<open>The report reads the version 1 key \<open>clock_net\<close>, which the version 2 manifest does not have.\<close>

lemma report_clock_net_None:
  "show_key (manifest_from_result r json_hash source_json techmap sky check_result) ''clock_net'' = ''None''"
  by (simp add: show_key_def manifest_from_result_def get_or_def py_str_def)

end
