(* ===== verification/Scan_Flow.thy ===== *)
theory Scan_Flow
  imports Scan_Check Scan_Reports
begin

text \<open>
  The scan flow as a whole: the netlist that \<^verbatim>\<open>stitch_scan_json\<close> writes, together with the manifest
  that \<^verbatim>\<open>manifest_from_result\<close> derives from the same plan, passes \<^verbatim>\<open>check_scan_structure\<close>. The theory
  has the converse direction of the lemmas of \<open>Scan_Check\<close>: when the index and the walk succeed.
\<close>

section \<open>When the check finds nothing\<close>

text \<open>Every cell either is not a scan cell or has its pins, no two cells share a chain input.\<close>

lemma index_complete:
  assumes "distinct (map fst cells)"
    and "\<And>n raw cell. (n, raw) \<in> set cells \<Longrightarrow> as_obj raw = Some cell \<Longrightarrow>
      type_in types cell = Inr False \<or> (type_in types cell = Inr True
        \<and> conn_bit cell in_pin n = Inr (fi n) \<and> (\<exists>out. conn_bit cell out_pin n = Inr out)
        \<and> (\<exists>se. conn_bit cell ''SE'' n = Inr se \<and> (req = None \<or> req = Some se))
        \<and> (\<exists>clk. conn_bit cell ''CLK'' n = Inr clk))"
    and "inj_on fi (set (scan_cell_names types cells))"
    and "fi ` set (scan_cell_names types cells) \<inter> fst ` set (node_by_in st) = {}"
  shows "\<exists>ff. fold_chk (index_cell types in_pin out_pin req) cells st = ([], Inr ff)"
  using assms
proof (induction cells arbitrary: st)
  case Nil
  then show ?case by (simp add: ret_def)
next
  case (Cons kv cells)
  obtain name raw where kv: "kv = (name, raw)" by force
  have new: "name \<notin> fst ` set cells" and d: "distinct (map fst cells)" using Cons.prems(1) kv by auto
  have sub: "set (scan_cell_names types cells) \<subseteq> set (scan_cell_names types (kv # cells))"
    using new by (auto simp: scan_cell_names_def scan_cell_of_def kv split: option.splits if_splits)
  have out: "name \<notin> set (scan_cell_names types cells)" using new by (auto simp: scan_cell_names_def)
  have IH: "\<exists>ff. fold_chk (index_cell types in_pin out_pin req) cells st' = ([], Inr ff)"
    if "fi ` set (scan_cell_names types cells) \<inter> fst ` set (node_by_in st') = {}" for st'
  proof (rule Cons.IH [OF d _ _ that])
    show "inj_on fi (set (scan_cell_names types cells))" using Cons.prems(3) sub by (rule inj_on_subset)
  qed (use Cons.prems(2) in auto)
  have keep: "fi ` set (scan_cell_names types cells) \<inter> fst ` set (node_by_in st) = {}"
    using Cons.prems(4) sub by blast
  show ?case
  proof (cases "\<exists>cell. as_obj raw = Some cell \<and> type_in types cell = Inr True")
    case False
    then have "index_cell types in_pin out_pin req (name, raw) st = ret st"
      using Cons.prems(2) [of name raw] by (auto simp: index_cell_def kv split: option.splits)
    then show ?thesis using IH [OF keep] by (simp add: kv)
  next
    case True
    then obtain cell where cell: "as_obj raw = Some cell" "type_in types cell = Inr True" by blast
    with Cons.prems(2) [of name raw cell] obtain o1 se clk where
      pins: "conn_bit cell in_pin name = Inr (fi name)" "conn_bit cell out_pin name = Inr o1"
        "conn_bit cell ''SE'' name = Inr se" "req = None \<or> req = Some se" "conn_bit cell ''CLK'' name = Inr clk"
      by (auto simp: kv)
    have mem: "name \<in> set (scan_cell_names types (kv # cells))"
      using cell by (simp add: scan_cell_names_def scan_cell_of_def kv)
    have free: "\<not> has_key (node_by_in st) (fi name)"
      using Cons.prems(4) mem by (auto simp: has_key_iff)
    have "fi name \<notin> fi ` set (scan_cell_names types cells)"
      using Cons.prems(3) mem sub out by (auto dest: inj_onD)
    with keep have "fi ` set (scan_cell_names types cells) \<inter> fst ` set (dict_set (node_by_in st) (fi name) name) = {}"
      by (simp add: dom_update)
    moreover have "index_cell types in_pin out_pin req (name, raw) st =
        ret \<lparr>node_by_in = dict_set (node_by_in st) (fi name) name, out_by_node = dict_set (out_by_node st) name o1,
              clock_nets = List.insert clk (clock_nets st), names = List.insert name (names st),
              se_nets = List.insert se (se_nets st)\<rparr>"
      using cell pins free by (auto simp: index_cell_def)
    ultimately show ?thesis using IH by (simp add: kv)
  qed
qed

text \<open>A path of the index whose end feeds no cell is what the walk finds.\<close>

fun index_path :: "(int \<times> string) list \<Rightarrow> int dict \<Rightarrow> int \<Rightarrow> string list \<Rightarrow> int \<Rightarrow> bool" where
  "index_path by_in by_node cur [] out = (cur = out)"
| "index_path by_in by_node cur (name # rest) out =
     (map_of by_in cur = Some name \<and>
      (case map_of by_node name of None \<Rightarrow> False | Some next_net \<Rightarrow> index_path by_in by_node next_net rest out))"

lemma walk_complete:
  assumes "index_path by_in by_node cur rest out" and "map_of by_in out = None"
    and "distinct (derived @ rest)"
  shows "walk by_in by_node cur derived = Inr (derived @ rest, out, False)"
  using assms
proof (induction rest arbitrary: cur derived)
  case Nil
  then show ?case by (simp add: walk.simps [of by_in by_node out])
next
  case (Cons name rest)
  then obtain next_net where n: "map_of by_in cur = Some name" "map_of by_node name = Some next_net"
    "index_path by_in by_node next_net rest out" by (auto split: option.splits)
  with Cons.IH [of next_net "derived @ [name]"] Cons.prems show ?case
    by (simp add: walk.simps [of by_in by_node cur])
qed

lemma fold_chk_map_seen:
  assumes "\<And>x seen. x \<in> set xs \<Longrightarrow> set (g x) \<inter> set seen = {} \<Longrightarrow> distinct (g x) \<Longrightarrow> f x seen = ([], Inr (rev (g x) @ seen))"
    and "distinct (concat (map g xs))" and "set (concat (map g xs)) \<inter> set seen = {}"
  shows "\<exists>seen'. fold_chk f xs seen = ([], Inr seen') \<and> set seen' = set (concat (map g xs)) \<union> set seen"
  using assms
proof (induction xs arbitrary: seen)
  case Nil
  then show ?case by (simp add: ret_def)
next
  case (Cons x xs)
  have step: "f x seen = ([], Inr (rev (g x) @ seen))" using Cons.prems by (intro Cons.prems(1)) auto
  have "\<exists>seen'. fold_chk f xs (rev (g x) @ seen) = ([], Inr seen')
      \<and> set seen' = set (concat (map g xs)) \<union> set (rev (g x) @ seen)"
    using Cons.prems by (intro Cons.IH) auto
  then show ?case using step by auto
qed

section \<open>The stitched cells\<close>

definition MUX_PREFIX :: string where "MUX_PREFIX = ''$ffenmux_''"

definition not_scan :: "json \<Rightarrow> bool" where
  "not_scan raw = (case as_obj raw of None \<Rightarrow> True
     | Some cell \<Rightarrow> type_in SCAN_CELL_TYPES cell = Inr False \<and> type_in WBR_SCAN_CELL_TYPES cell = Inr False)"

definition scan_pins :: "ScanCellRecord \<Rightarrow> json \<Rightarrow> bool" where
  "scan_pins r raw = (case as_obj raw of None \<Rightarrow> False
     | Some cell \<Rightarrow> type_in SCAN_CELL_TYPES cell = Inr True \<and> type_in WBR_SCAN_CELL_TYPES cell = Inr False
         \<and> conn_bit cell ''SDI'' (rec_instance r) = Inr (rec_scan_in_net r)
         \<and> conn_bit cell ''Q'' (rec_instance r) = Inr (rec_q_net r)
         \<and> conn_bit cell ''SE'' (rec_instance r) = Inr (rec_scan_enable_net r)
         \<and> conn_bit cell ''CLK'' (rec_instance r) = Inr (rec_clock_net r))"

lemmas type_defs = SCAN_CELL_TYPES_def WBR_SCAN_CELL_TYPES_def SCAN_CELL_TYPE_def YOSYS_SCAN_CELL_TYPE_def
  SCAN_RESET_CELL_TYPE_def YOSYS_SCAN_RESET_CELL_TYPE_def SCAN_SET_CELL_TYPE_def YOSYS_SCAN_SET_CELL_TYPE_def
  YOSYS_CAPTURE_AND_CELL_def YOSYS_CAPTURE_OR_CELL_def YOSYS_CAPTURE_INV_CELL_def

lemma scan_cell_json_pins: "scan_cell_json ff r d_bit = Inr raw \<Longrightarrow> scan_pins r raw"
  by (auto simp: scan_cell_json_def bind_res_eq_Inr scan_pins_def type_in_def get_or_def conn_bit_def
      scan_cell_type_of_def type_defs lift_option_def)

lemma internal_cell_not_scan:
  "cell_type = YOSYS_CAPTURE_AND_CELL \<or> cell_type = YOSYS_CAPTURE_OR_CELL \<or> cell_type = YOSYS_CAPTURE_INV_CELL \<Longrightarrow>
     not_scan (internal_cell cell_type dirs conns)"
  by (auto simp: not_scan_def internal_cell_def type_in_def get_or_def type_defs)


lemma mux_names: "starts_with (''$ffenmux_inv_'' @ n) MUX_PREFIX" "starts_with (''$ffenmux_d_'' @ n) MUX_PREFIX"
  "starts_with (''$ffenmux_q_'' @ n) MUX_PREFIX" "starts_with (''$ffenmux_or_'' @ n) MUX_PREFIX"
  by (simp_all add: starts_with_def MUX_PREFIX_def)

text \<open>The hold multiplexer only writes cells under its own prefix, and none is a scan cell.\<close>

lemma add_enable_hold_mux_cells:
  assumes "add_enable_hold_mux cells name d q en lvl k = (cells', muxed, k')"
  shows "map_of cells' n = map_of cells n
      \<or> starts_with n MUX_PREFIX \<and> (\<exists>raw. map_of cells' n = Some raw \<and> not_scan raw)"
    and "distinct (map fst cells) \<Longrightarrow> distinct (map fst cells')"
  using assms mux_names [of name]
  by (auto simp: add_enable_hold_mux_def Let_def add_internal_buf1_cell_def add_internal_gate2_cell_def
      internal_cell_not_scan distinct_update split: if_splits)

lemma scan_data_input_cells:
  assumes "scan_data_input ff r cells k = (cells', d_bit, k')"
  shows "cells' = cells \<or> (\<exists>d q en lvl muxed k1. add_enable_hold_mux cells (rec_instance r) d q en lvl k = (cells', muxed, k1))"
  using assms by (auto simp: scan_data_input_def Let_def split: if_splits option.splits prod.splits)

definition stitched_ok :: "ScanCellRecord list \<Rightarrow> jobj \<Rightarrow> bool" where
  "stitched_ok rs cells =
     (distinct (map fst cells)
      \<and> (\<forall>r \<in> set rs. \<exists>raw. map_of cells (rec_instance r) = Some raw \<and> scan_pins r raw)
      \<and> (\<forall>n raw. map_of cells n = Some raw \<longrightarrow> n \<notin> rec_instance ` set rs \<longrightarrow> not_scan raw))"

lemma stitched_okD:
  assumes "stitched_ok rs cells" and "map_of cells n = Some raw"
  shows "r \<in> set rs \<Longrightarrow> n = rec_instance r \<Longrightarrow> scan_pins r raw"
    and "n \<notin> rec_instance ` set rs \<Longrightarrow> not_scan raw"
proof -
  show "scan_pins r raw" if "r \<in> set rs" "n = rec_instance r"
  proof -
    from assms(1) that(1) obtain raw' where "map_of cells (rec_instance r) = Some raw'" "scan_pins r raw'"
      unfolding stitched_ok_def by blast
    with assms(2) that(2) show ?thesis by simp
  qed
  show "n \<notin> rec_instance ` set rs \<Longrightarrow> not_scan raw"
    using assms unfolding stitched_ok_def by blast
qed

lemma stitch_record_step:
  assumes step: "stitch_record by_instance r (cells, k) = Inr (cells', k')"
    and ok: "stitched_ok rs cells" and new: "rec_instance r \<notin> rec_instance ` set rs"
    and names: "\<forall>r' \<in> set (r # rs). \<not> starts_with (rec_instance r') MUX_PREFIX"
  shows "stitched_ok (r # rs) cells'"
proof -
  from step obtain ff where ff: "(case scan_data_input ff r cells k of (c, d_bit, n) \<Rightarrow>
       bind_res (scan_cell_json ff r d_bit) (\<lambda>cell. Inr (dict_set c (rec_instance r) cell, n))) = Inr (cells', k')"
    by (auto simp: stitch_record_def bind_res_eq_Inr)
  obtain cells1 d_bit n1 where sdi: "scan_data_input ff r cells k = (cells1, d_bit, n1)" by (rule prod_cases3)
  with ff obtain raw where raw: "scan_cell_json ff r d_bit = Inr raw"
    and cells': "cells' = dict_set cells1 (rec_instance r) raw"
    by (auto simp: bind_res_eq_Inr)
  note c1 = scan_data_input_cells [OF sdi]
  have look: "map_of cells1 n = map_of cells n
      \<or> starts_with n MUX_PREFIX \<and> (\<exists>raw. map_of cells1 n = Some raw \<and> not_scan raw)" for n
    using c1 add_enable_hold_mux_cells(1) by blast
  have "distinct (map fst cells1)"
    using c1 ok add_enable_hold_mux_cells(2) by (auto simp: stitched_ok_def)
  then have "distinct (map fst cells')" by (simp add: cells' distinct_update)
  moreover have "\<exists>raw. map_of cells' (rec_instance r') = Some raw \<and> scan_pins r' raw" if "r' \<in> set (r # rs)" for r'
  proof (cases "r' = r")
    case True
    then show ?thesis using scan_cell_json_pins [OF raw] by (simp add: cells')
  next
    case False
    with that have r': "r' \<in> set rs" by simp
    with new have "rec_instance r' \<noteq> rec_instance r" by (metis imageI)
    moreover have "map_of cells1 (rec_instance r') = map_of cells (rec_instance r')"
      using look names r' by auto
    moreover from ok r' obtain raw' where "map_of cells (rec_instance r') = Some raw'" "scan_pins r' raw'"
      unfolding stitched_ok_def by blast
    ultimately show ?thesis by (intro exI [of _ raw']) (simp add: cells')
  qed
  moreover have "not_scan raw'" if "map_of cells' n = Some raw'" "n \<notin> rec_instance ` set (r # rs)" for n raw'
    using look [of n] that ok by (auto simp: stitched_ok_def cells')
  ultimately show ?thesis unfolding stitched_ok_def by blast
qed

lemma stitch_records:
  assumes "fold_res (stitch_record by_instance) rs (cells, k) = Inr (cells', k')"
    and "stitched_ok done cells" and "distinct (map rec_instance (rs @ done))"
    and "\<forall>r \<in> set (rs @ done). \<not> starts_with (rec_instance r) MUX_PREFIX"
  shows "stitched_ok (rev rs @ done) cells'"
  using assms
proof (induction rs arbitrary: cells k "done")
  case Nil
  then show ?case by simp
next
  case (Cons r rs)
  then obtain c1 k1 where s: "stitch_record by_instance r (cells, k) = Inr (c1, k1)"
    "fold_res (stitch_record by_instance) rs (c1, k1) = Inr (cells', k')"
    by (auto simp: bind_res_eq_Inr)
  have "stitched_ok (r # done) c1"
    using Cons.prems by (intro stitch_record_step [OF s(1) Cons.prems(2)]) auto
  from Cons.IH [OF s(2) this] Cons.prems show ?case by auto
qed

section \<open>The stitched ports\<close>

lemma add_port_ok:
  assumes "add_port m name dir b = Inr m'"
  shows "port_bit m' name dir = Inr b"
    and "n \<noteq> name \<Longrightarrow> port_bit m' n d = port_bit m n d"
    and "map_of m' ''cells'' = map_of m ''cells''"
proof -
  from assms obtain ports nets v where ports: "as_obj (get_or m ''ports'' (JObj [])) = Some ports"
    and m': "m' = dict_set (dict_set m ''ports'' (JObj (dict_set ports name
        (JObj [(''direction'', JStr dir), (''bits'', JList [JInt b])])))) ''netnames'' v"
    by (auto simp: add_port_def set_in_def bind_res_eq_Inr split: option.splits)
  show "port_bit m' name dir = Inr b"
    by (simp add: port_bit_def m' get_or_def lift_option_def)
  show "n \<noteq> name \<Longrightarrow> port_bit m' n d = port_bit m n d"
    using ports by (simp add: port_bit_def m')
  show "map_of m' ''cells'' = map_of m ''cells''" by (simp add: m')
qed

lemma add_ports_ok:
  assumes "fold_res (\<lambda>ch m. add_port m (nm ch) dir (bt ch)) chs m = Inr m'" and "distinct (map nm chs)"
  shows "\<forall>ch \<in> set chs. port_bit m' (nm ch) dir = Inr (bt ch)"
    and "\<forall>n d. n \<notin> nm ` set chs \<longrightarrow> port_bit m' n d = port_bit m n d"
    and "map_of m' ''cells'' = map_of m ''cells''"
  using assms
proof (induction chs arbitrary: m)
  case (Cons ch chs)
  {
    case 1
    then show ?case using Cons.IH add_port_ok by (fastforce simp: bind_res_eq_Inr)
  next
    case 2
    then show ?case using Cons.IH(2) add_port_ok(2) by (fastforce simp: bind_res_eq_Inr)
  next
    case 3
    then show ?case using Cons.IH(3) add_port_ok(3) by (fastforce simp: bind_res_eq_Inr)
  }
qed simp_all


section \<open>Nets of the plan\<close>

lemma chain_records_scan_in:
  "ffs \<noteq> [] \<Longrightarrow> map rec_scan_in_net (chain_records se ci pos q ffs) = q # butlast (map ff_q_net ffs)"
proof (induction ffs arbitrary: pos q)
  case (Cons ff ffs)
  then show ?case by (cases "ffs = []") (simp_all add: Cons.IH)
qed simp

text \<open>Fresh, distinct chain heads and flip-flop outputs that nothing else drives: no two scan inputs
  share a net, and no chain end feeds a scan input.\<close>

lemma disjoint_head:
  "S \<subseteq> A \<union> B \<Longrightarrow> f \<notin> A \<Longrightarrow> f \<notin> B \<Longrightarrow> Q \<inter> B = {} \<Longrightarrow> A \<inter> Q = {} \<Longrightarrow> P \<subseteq> Q \<Longrightarrow> insert f P \<inter> S = {}"
  by blast

lemma disjoint_elem: "S \<subseteq> A \<union> B \<Longrightarrow> x \<in> Q \<Longrightarrow> Q \<inter> B = {} \<Longrightarrow> A \<inter> Q = {} \<Longrightarrow> x \<notin> S"
  by blast

lemma distinct_heads_and_tails:
  assumes "distinct (map fst L)" and "distinct (concat (map snd L))"
    and "fst ` set L \<inter> set (concat (map snd L)) = {}"
  shows "distinct (concat (map (\<lambda>(first, qs). first # butlast qs) L))"
    and "(f, qs) \<in> set L \<Longrightarrow> qs \<noteq> [] \<Longrightarrow> last qs \<notin> set (concat (map (\<lambda>(first, qs). first # butlast qs) L))"
proof -
  have sub: "set (concat (map (\<lambda>(first, qs). first # butlast qs) L)) \<subseteq> fst ` set L \<union> set (concat (map snd L))" for L
    by (induction L) (auto dest: in_set_butlastD)
  show "distinct (concat (map (\<lambda>(first, qs). first # butlast qs) L))"
    using assms
  proof (induction L)
    case (Cons l L)
    obtain f qs where l: "l = (f, qs)" by force
    have "f \<notin> fst ` set L" "f \<notin> set (concat (map snd L))" "set qs \<inter> set (concat (map snd L)) = {}"
      "fst ` set L \<inter> set qs = {}" "f \<notin> set qs" "distinct qs" using Cons.prems by (auto simp: l)
    note d = this
    have bq: "set (butlast qs) \<subseteq> set qs" by (auto dest: in_set_butlastD)
    have "insert f (set (butlast qs)) \<inter> set (concat (map (\<lambda>(first, qs). first # butlast qs) L)) = {}"
      by (rule disjoint_head [OF sub [of L] d(1-4) bq])
    moreover have "distinct (f # butlast qs)" using d(5,6) bq by (auto simp: distinct_butlast)
    moreover have "distinct (concat (map (\<lambda>(first, qs). first # butlast qs) L))"
      using Cons.prems by (intro Cons.IH) (auto simp: l)
    ultimately show ?case
      by (simp only: l list.map prod.case concat.simps distinct_append list.set)
  qed simp
  show "(f, qs) \<in> set L \<Longrightarrow> qs \<noteq> [] \<Longrightarrow> last qs \<notin> set (concat (map (\<lambda>(first, qs). first # butlast qs) L))"
    using assms
  proof (induction L)
    case (Cons l L)
    obtain f' qs' where l: "l = (f', qs')" by force
    have disj: "set qs' \<inter> set (concat (map snd L)) = {}" "f' \<notin> set (concat (map snd L))" "fst ` set L \<inter> set qs' = {}"
      "f' \<notin> set qs'" "distinct qs'" using Cons.prems by (auto simp: l)
    show ?case
    proof (cases "(f, qs) = l")
      case True
      have "distinct (butlast qs @ [last qs])" using Cons.prems(2) disj(5) True l by simp
      then have "last qs \<in> set qs" "last qs \<notin> set (butlast qs)"
        using last_in_set [OF Cons.prems(2)] unfolding distinct_append by simp_all
      moreover from this(1) have "last qs \<notin> set (concat (map (\<lambda>(first, qs). first # butlast qs) L))"
        using True l by (intro disjoint_elem [OF sub [of L] _ disj(1,3)]) simp
      ultimately show ?thesis using True l disj by auto
    next
      case False
      then have mem: "(f, qs) \<in> set L" using Cons.prems(1) by auto
      then have "last qs \<in> set (concat (map snd L))" using Cons.prems(2) by (force intro: last_in_set)
      then have "last qs \<notin> set (f' # butlast qs')" using disj by (auto dest: in_set_butlastD)
      moreover have "last qs \<notin> set (concat (map (\<lambda>(first, qs). first # butlast qs) L))"
        using Cons.prems disj by (intro Cons.IH [OF mem]) (simp_all add: l Int_Un_distrib)
      ultimately show ?thesis
        by (simp only: l list.map prod.case concat.simps set_append Un_iff) simp
    qed
  qed simp
qed

section \<open>Eligible flip-flops come from the cells\<close>

lemma eligible_ff_pins:
  assumes "eligible_ff name cell ff_meta ty = Inr ff"
  shows "ff_instance ff = name" "ff_q_net ff \<in> set (conn_bits_of (JObj cell))"
proof -
  from assms show "ff_instance ff = name"
    by (auto simp: eligible_ff_def bind_res_eq_Inr)
  from assms obtain raw conns q_pin where "getitem cell ''connections'' = Inr raw" "as_obj raw = Some conns"
    "maybe_one_bit (get_or conns q_pin JNull) = Some (ff_q_net ff)"
    by (auto simp: eligible_ff_def bind_res_eq_Inr lift_option_eq_Inr one_bit_Inr)
  from \<open>maybe_one_bit (get_or conns q_pin JNull) = Some (ff_q_net ff)\<close>
  obtain v b where v: "map_of conns q_pin = Some v" "v = JList [b]" "as_int b = Some (ff_q_net ff)"
    by (auto simp: maybe_one_bit_def get_or_def split: option.splits list.splits elim!: as_list.elims)
  then have "ff_q_net ff \<in> set (int_bits v)" by (simp add: int_bits_def List.map_filter_def)
  moreover have "(q_pin, v) \<in> set conns" using v(1) by (rule map_of_SomeD)
  ultimately show "ff_q_net ff \<in> set (conn_bits_of (JObj cell))"
    using \<open>getitem cell ''connections'' = Inr raw\<close> \<open>as_obj raw = Some conns\<close>
    by (force simp: conn_bits_of_def getitem_def get_or_def split: option.splits)
qed

lemma classify_Eligible:
  assumes "classify_cell cell_map name raw = Inr (Eligible ff)"
  shows "ff_instance ff = name \<and> (\<exists>cell. as_obj raw = Some cell \<and> ff_q_net ff \<in> set (conn_bits_of raw))"
proof -
  from assms obtain cell ff_meta ty where c: "as_obj raw = Some cell" "eligible_ff name cell ff_meta ty = Inr ff"
    by (auto simp: classify_cell_def Let_def ineligible_def bind_res_eq_Inr split: option.splits if_splits)
  then have "raw = JObj cell" by (cases raw) auto
  with eligible_ff_pins [OF c(2)] c(1) show ?thesis by auto
qed

lemma classify_list:
  assumes "list_all2 (\<lambda>(name, raw) cl. classify_cell cell_map name raw = Inr cl) kvs classes"
  shows "\<exists>P. map ff_instance (List.map_filter eligible_of classes) = map fst (filter P kvs)"
    and "ff \<in> set (List.map_filter eligible_of classes) \<Longrightarrow>
      \<exists>raw. (ff_instance ff, raw) \<in> set kvs \<and> ff_q_net ff \<in> set (conn_bits_of raw)"
proof -
  have "map ff_instance (List.map_filter eligible_of classes) =
      map fst (filter (\<lambda>(name, raw). \<exists>ff. classify_cell cell_map name raw = Inr (Eligible ff)) kvs)"
    using assms
  proof (induction kvs classes rule: list_all2_induct)
    case (Cons kv kvs cl classes)
    then show ?case by (cases cl) (auto simp: map_filter_simps dest: classify_Eligible)
  qed (simp add: map_filter_simps)
  then show "\<exists>P. map ff_instance (List.map_filter eligible_of classes) = map fst (filter P kvs)" by blast
  show "ff \<in> set (List.map_filter eligible_of classes) \<Longrightarrow>
      \<exists>raw. (ff_instance ff, raw) \<in> set kvs \<and> ff_q_net ff \<in> set (conn_bits_of raw)"
    using assms
  proof (induction kvs classes rule: list_all2_induct)
    case (Cons kv kvs cl classes)
    then show ?case by (cases cl) (auto simp: map_filter_simps dest: classify_Eligible)
  qed (simp add: map_filter_simps)
qed

lemma collect_ffs_cells:
  assumes "collect_ffs module cell_map = Inr (el, inel)" and "as_obj (get_or module ''cells'' (JObj [])) = Some cells"
    and "distinct (map fst cells)"
  shows "distinct (map ff_instance el)"
    and "ff \<in> set el \<Longrightarrow> \<exists>raw. (ff_instance ff, raw) \<in> set cells \<and> ff_q_net ff \<in> set (conn_bits_of raw)"
proof -
  from assms(1,2) obtain classes where
    cl: "list_all2 (\<lambda>(name, raw) cl. classify_cell cell_map name raw = Inr cl) (sort_key fst cells) classes"
    and el: "el = List.map_filter eligible_of classes"
    by (auto simp: collect_ffs_def bind_res_eq_Inr map_res_eq_Inr case_prod_unfold)
  have "distinct (map fst (sort_key fst cells))" using assms(3) by (simp add: distinct_map)
  with classify_list(1) [OF cl] show "distinct (map ff_instance el)"
    unfolding el by (metis distinct_map_filter)
  show "ff \<in> set el \<Longrightarrow> \<exists>raw. (ff_instance ff, raw) \<in> set cells \<and> ff_q_net ff \<in> set (conn_bits_of raw)"
    using classify_list(2) [OF cl] unfolding el by auto
qed


section \<open>A stitched netlist passes the check\<close>

text \<open>The facts about a plan that the check needs: fresh chain heads, every output driven once.\<close>

lemma plan_nets:
  assumes chs: "plan_chs = map (\<lambda>(i, ffs). planned_chain se i (bits ! i) (ins ! i) (outs ! i) ffs)
        (zip [0..<length ffss] ffss)"
    and ne: "\<forall>ffs \<in> set ffss. ffs \<noteq> []" and len: "length ffss \<le> length bits"
    and bits: "distinct bits" and q: "distinct (map ff_q_net (concat ffss))"
    and fresh: "set bits \<inter> ff_q_net ` set (concat ffss) = {}"
  shows "distinct (map rec_scan_in_net (concat (map ch_cells plan_chs)))"
    and "ch \<in> set plan_chs \<Longrightarrow> ch_scan_out_net ch \<notin> rec_scan_in_net ` set (concat (map ch_cells plan_chs))"
proof -
  define L where "L = map (\<lambda>(i, ffs). (bits ! i, map ff_q_net ffs)) (zip [0..<length ffss] ffss)"
  have fsts: "map fst L = take (length ffss) bits"
    using len by (intro nth_equalityI) (auto simp: L_def)
  have snds: "map snd L = map (map ff_q_net) ffss"
    by (intro nth_equalityI) (auto simp: L_def)
  have eq: "map rec_scan_in_net (concat (map ch_cells plan_chs)) = concat (map (\<lambda>(first, qs). first # butlast qs) L)"
    using ne unfolding chs L_def map_concat
    by (auto simp: planned_chain_def chain_records_scan_in dest!: set_zip_rightD intro!: arg_cong [of _ _ concat])
  have d: "distinct (map fst L)" "distinct (concat (map snd L))" "fst ` set L \<inter> set (concat (map snd L)) = {}"
    unfolding set_map [symmetric] fsts snds using bits q fresh set_take_subset [of "length ffss" bits]
    by (simp_all add: map_concat [symmetric]) blast
  show "distinct (map rec_scan_in_net (concat (map ch_cells plan_chs)))"
    unfolding eq by (rule distinct_heads_and_tails(1) [OF d])
  assume "ch \<in> set plan_chs"
  then obtain i ffs where ffs: "(i, ffs) \<in> set (zip [0..<length ffss] ffss)"
    and ch: "ch = planned_chain se i (bits ! i) (ins ! i) (outs ! i) ffs" by (auto simp: chs)
  then have nonempty: "ffs \<noteq> []" using ne by (auto dest: set_zip_rightD)
  then have "ch_scan_out_net ch = last (map ff_q_net ffs)" by (simp add: ch planned_chain_def last_map)
  moreover have "(bits ! i, map ff_q_net ffs) \<in> set L" using ffs by (force simp: L_def)
  ultimately show "ch_scan_out_net ch \<notin> rec_scan_in_net ` set (concat (map ch_cells plan_chs))"
    using distinct_heads_and_tails(2) [OF d] nonempty unfolding set_map [symmetric] eq by simp
qed

lemma linked_index_path:
  assumes "linked net rs out"
    and "\<forall>r \<in> set rs. map_of by_in (rec_scan_in_net r) = Some (rec_instance r)
      \<and> map_of by_node (rec_instance r) = Some (rec_q_net r)"
  shows "index_path by_in by_node net (map rec_instance rs) out"
  using assms by (induction net rs out rule: linked.induct) auto

lemma manifest_cells_chain_row: "manifest_cells (chain_row ch) = map rec_instance (ch_cells ch)"
  by (simp add: manifest_cells_def chain_row_def get_or_def py_tuple_def py_str_def comp_def)

lemma validate_chain_clean:
  assumes "port_bit m (ch_scan_in ch) ''input'' = Inr (ch_scan_in_net ch)"
    and "port_bit m (ch_scan_out ch) ''output'' = Inr (ch_scan_out_net ch)"
    and "index_path by_in by_node (ch_scan_in_net ch) (map rec_instance (ch_cells ch)) (ch_scan_out_net ch)"
    and "map_of by_in (ch_scan_out_net ch) = None"
    and "distinct (map rec_instance (ch_cells ch))" "set (map rec_instance (ch_cells ch)) \<inter> set seen = {}"
  shows "validate_chain m by_in by_node (chain_row ch) seen = ([], Inr (rev (map rec_instance (ch_cells ch)) @ seen))"
proof -
  have "walk by_in by_node (ch_scan_in_net ch) [] = Inr ([] @ map rec_instance (ch_cells ch), ch_scan_out_net ch, False)"
    using assms(3-5) by (intro walk_complete) auto
  moreover have "mark_seen (map rec_instance (ch_cells ch)) seen = ([], Inr (rev (map rec_instance (ch_cells ch)) @ seen))"
    using assms(5,6) by (simp add: mark_seen_ok)
  ultimately show ?thesis
    using assms(1,2) by (simp add: validate_chain_def chain_row_def get_or_def py_str_def py_tuple_def comp_def)
qed

lemma index_skip:
  "\<forall>(n, raw) \<in> set cells. \<forall>cell. as_obj raw = Some cell \<longrightarrow> type_in types cell = Inr False \<Longrightarrow>
     fold_chk (index_cell types in_pin out_pin req) cells st = ret st"
  by (induction cells arbitrary: st) (auto simp: index_cell_def split: option.splits)

lemma index_has_clock:
  "fold_chk (index_cell types in_pin out_pin req) cells st = ([], Inr ff) \<Longrightarrow>
     names st = [] \<or> clock_nets st \<noteq> [] \<Longrightarrow> names ff = [] \<or> clock_nets ff \<noteq> []"
proof (induction cells arbitrary: st)
  case Nil
  then show ?case by (simp add: chk_simps)
next
  case (Cons kv cells)
  then obtain st1 where s: "index_cell types in_pin out_pin req (fst kv, snd kv) st = ([], Inr st1)"
    "fold_chk (index_cell types in_pin out_pin req) cells st1 = ([], Inr ff)" by (auto simp: chk_simps)
  from index_cell_ok [OF s(1)] Cons.prems(2) have "names st1 = [] \<or> clock_nets st1 \<noteq> []"
    by (auto simp: List.insert_def split: if_splits)
  from Cons.IH [OF s(2) this] show ?case .
qed


lemma stitched_scan_cell:
  assumes "stitched_ok rs cells"
  shows "r \<in> set rs \<Longrightarrow> \<exists>cell. scan_cell_of SCAN_CELL_TYPES cells (rec_instance r) = Some cell
      \<and> conn_bit cell ''SDI'' (rec_instance r) = Inr (rec_scan_in_net r)
      \<and> conn_bit cell ''Q'' (rec_instance r) = Inr (rec_q_net r)"
    and "set (scan_cell_names SCAN_CELL_TYPES cells) = rec_instance ` set rs"
proof -
  show one: "\<exists>cell. scan_cell_of SCAN_CELL_TYPES cells (rec_instance r) = Some cell
      \<and> conn_bit cell ''SDI'' (rec_instance r) = Inr (rec_scan_in_net r)
      \<and> conn_bit cell ''Q'' (rec_instance r) = Inr (rec_q_net r)" if "r \<in> set rs" for r
  proof -
    from assms that obtain raw where "map_of cells (rec_instance r) = Some raw" "scan_pins r raw"
      unfolding stitched_ok_def by blast
    then show ?thesis by (auto simp: scan_pins_def scan_cell_of_def split: option.splits)
  qed
  have "n \<in> rec_instance ` set rs" if "scan_cell_of SCAN_CELL_TYPES cells n \<noteq> None" for n
  proof (rule ccontr)
    assume "n \<notin> rec_instance ` set rs"
    with assms have "not_scan raw" if "map_of cells n = Some raw" for raw using that unfolding stitched_ok_def by blast
    with that show False by (auto simp: scan_cell_of_def not_scan_def split: option.splits if_splits bind_splits)
  qed
  moreover have "rec_instance r \<in> fst ` set cells" if "r \<in> set rs" for r
    using assms that unfolding stitched_ok_def by (metis domI dom_map_of_conv_image_fst)
  ultimately show "set (scan_cell_names SCAN_CELL_TYPES cells) = rec_instance ` set rs"
    using one by (fastforce simp: scan_cell_names_def)
qed

lemma stitched_index:
  assumes ok: "stitched_ok rs cells" and inst: "distinct (map rec_instance rs)"
    and si: "distinct (map rec_scan_in_net rs)" and se: "\<forall>r \<in> set rs. rec_scan_enable_net r = se"
  shows "\<exists>ff. collect_chain_cells cells SCAN_CELL_TYPES ''SDI'' ''Q'' (Some se) = ([], Inr ff)
    \<and> set (names ff) = rec_instance ` set rs
    \<and> (\<forall>r \<in> set rs. map_of (node_by_in ff) (rec_scan_in_net r) = Some (rec_instance r)
         \<and> map_of (out_by_node ff) (rec_instance r) = Some (rec_q_net r))
    \<and> (\<forall>net. net \<notin> rec_scan_in_net ` set rs \<longrightarrow> map_of (node_by_in ff) net = None)
    \<and> (rs \<noteq> [] \<longrightarrow> clock_nets ff \<noteq> [])"
proof -
  define fi where "fi n = the (map_of (map (\<lambda>r. (rec_instance r, rec_scan_in_net r)) rs) n)" for n
  have fi: "fi (rec_instance r) = rec_scan_in_net r" if "r \<in> set rs" for r
  proof -
    have "map_of (map (\<lambda>r. (rec_instance r, rec_scan_in_net r)) rs) (rec_instance r) = Some (rec_scan_in_net r)"
      using that inst by (intro map_of_is_SomeI) (auto simp: comp_def)
    then show ?thesis by (simp add: fi_def)
  qed
  have dist: "distinct (map fst cells)" using ok by (simp add: stitched_ok_def)
  have "\<exists>ff. fold_chk (index_cell SCAN_CELL_TYPES ''SDI'' ''Q'' (Some se)) cells empty_index = ([], Inr ff)"
  proof (rule index_complete [OF dist, where fi = fi])
    fix n raw cell assume mem: "(n, raw) \<in> set cells" and cell: "as_obj raw = Some cell"
    then have look: "map_of cells n = Some raw" using dist by simp
    show "type_in SCAN_CELL_TYPES cell = Inr False \<or> (type_in SCAN_CELL_TYPES cell = Inr True
        \<and> conn_bit cell ''SDI'' n = Inr (fi n) \<and> (\<exists>out. conn_bit cell ''Q'' n = Inr out)
        \<and> (\<exists>se'. conn_bit cell ''SE'' n = Inr se' \<and> (Some se = None \<or> Some se = Some se'))
        \<and> (\<exists>clk. conn_bit cell ''CLK'' n = Inr clk))"
    proof (cases "n \<in> rec_instance ` set rs")
      case True
      then obtain r where r: "r \<in> set rs" "n = rec_instance r" by blast
      then have "scan_pins r raw" by (rule stitched_okD(1) [OF ok look])
      then show ?thesis using cell r fi se by (simp add: scan_pins_def)
    next
      case False
      with ok look have "not_scan raw" unfolding stitched_ok_def by blast
      then show ?thesis using cell by (simp add: not_scan_def)
    qed
  next
    show "inj_on fi (set (scan_cell_names SCAN_CELL_TYPES cells))"
      unfolding stitched_scan_cell(2) [OF ok] using si fi by (auto simp: inj_on_def distinct_map)
  qed (simp add: empty_index_def)
  then obtain ff where ff: "collect_chain_cells cells SCAN_CELL_TYPES ''SDI'' ''Q'' (Some se) = ([], Inr ff)"
    by (auto simp: collect_chain_cells_def)
  note s = index_sound [OF ff [unfolded collect_chain_cells_def] dist]
  have nm: "set (names ff) = rec_instance ` set rs"
    using s stitched_scan_cell(2) [OF ok] by (simp add: empty_index_def)
  moreover have "map_of (node_by_in ff) (rec_scan_in_net r) = Some (rec_instance r)
         \<and> map_of (out_by_node ff) (rec_instance r) = Some (rec_q_net r)" if "r \<in> set rs" for r
    using stitched_scan_cell(1) [OF ok that] s by fastforce
  moreover have "map_of (node_by_in ff) net = None" if "net \<notin> rec_scan_in_net ` set rs" for net
  proof (rule ccontr)
    assume "map_of (node_by_in ff) net \<noteq> None"
    then obtain n where n: "map_of (node_by_in ff) net = Some n" by blast
    have "\<exists>cell. scan_cell_of SCAN_CELL_TYPES cells n = Some cell \<and> conn_bit cell ''SDI'' n = Inr net"
      using s n by (simp add: empty_index_def)
    moreover from this have "n \<in> set (scan_cell_names SCAN_CELL_TYPES cells)"
      by (force simp: scan_cell_names_def scan_cell_of_def split: option.splits bind_splits dest: map_of_SomeD)
    then obtain r where "r \<in> set rs" "n = rec_instance r" using stitched_scan_cell(2) [OF ok] by blast
    ultimately show False using stitched_scan_cell(1) [OF ok] that by fastforce
  qed
  moreover have "clock_nets ff \<noteq> []" if "rs \<noteq> []"
    using index_has_clock [OF ff [unfolded collect_chain_cells_def]] nm that by (auto simp: empty_index_def)
  ultimately show ?thesis using ff by blast
qed

lemma stitched_no_wbr:
  assumes "stitched_ok rs cells"
  shows "collect_chain_cells cells WBR_SCAN_CELL_TYPES ''CTI'' ''CTO'' None = ([], Inr empty_index)"
proof -
  have "type_in WBR_SCAN_CELL_TYPES cell = Inr False" if "(n, raw) \<in> set cells" "as_obj raw = Some cell" for n raw cell
  proof -
    have look: "map_of cells n = Some raw" using assms that(1) by (simp add: stitched_ok_def)
    show ?thesis
    proof (cases "n \<in> rec_instance ` set rs")
      case True
      then obtain r where "r \<in> set rs" "n = rec_instance r" by blast
      then have "scan_pins r raw" by (rule stitched_okD(1) [OF assms look])
      then show ?thesis using that(2) by (simp add: scan_pins_def)
    next
      case False
      with assms look have "not_scan raw" unfolding stitched_ok_def by blast
      then show ?thesis using that(2) by (simp add: not_scan_def)
    qed
  qed
  then show ?thesis
    unfolding collect_chain_cells_def by (subst index_skip) (auto simp: ret_def)
qed


text \<open>The check runs clean on any module whose ports and cells realise a list of linked chains.\<close>

lemma check_body_clean:
  assumes json: "read_json fs (result_output_json r) = Inr data" and hash: "fs_hash fs (result_output_json r) = h"
    and mod: "top_module data (plan_top r) = Inr (t, m)"
    and se: "port_bit m (plan_scan_enable r) ''input'' = Inr se"
    and wrap: "plan_wrapper_chains r = []"
    and cells: "as_obj (get_or m ''cells'' (JObj [])) = Some cells"
    and ok: "stitched_ok rs cells" and rs: "set rs = set (concat (map ch_cells (plan_chains r)))" "rs \<noteq> []"
    and ports: "\<forall>ch \<in> set (plan_chains r). port_bit m (ch_scan_in ch) ''input'' = Inr (ch_scan_in_net ch)
       \<and> port_bit m (ch_scan_out ch) ''output'' = Inr (ch_scan_out_net ch)
       \<and> linked (ch_scan_in_net ch) (ch_cells ch) (ch_scan_out_net ch)
       \<and> ch_scan_out_net ch \<notin> rec_scan_in_net ` set rs"
    and inst: "distinct (map rec_instance (concat (map ch_cells (plan_chains r))))"
    and inst': "distinct (map rec_instance rs)" "distinct (map rec_scan_in_net rs)"
    and ses: "\<forall>c \<in> set rs. rec_scan_enable_net c = se"
  shows "check_body fs (manifest_from_result r h src tm sky chk) False = ([], Inr ())"
proof -
  let ?man = "manifest_from_result r h src tm sky chk"
  from stitched_index [OF ok inst' ses] obtain ff where
    ff: "collect_chain_cells cells SCAN_CELL_TYPES ''SDI'' ''Q'' (Some se) = ([], Inr ff)"
    and nm: "set (names ff) = rec_instance ` set rs"
    and look: "\<forall>c \<in> set rs. map_of (node_by_in ff) (rec_scan_in_net c) = Some (rec_instance c)
         \<and> map_of (out_by_node ff) (rec_instance c) = Some (rec_q_net c)"
    and other: "\<forall>net. net \<notin> rec_scan_in_net ` set rs \<longrightarrow> map_of (node_by_in ff) net = None"
    and clk: "clock_nets ff \<noteq> []" using rs(2) by blast
  have "\<exists>seen. fold_chk (validate_chain m (node_by_in ff) (out_by_node ff)) (map chain_row (plan_chains r)) [] = ([], Inr seen)
      \<and> set seen = set (concat (map manifest_cells (map chain_row (plan_chains r)))) \<union> set []"
  proof (rule fold_chk_map_seen)
    fix raw seen assume "raw \<in> set (map chain_row (plan_chains r))" and fresh: "set (manifest_cells raw) \<inter> set seen = {}"
      and dist: "distinct (manifest_cells raw)"
    then obtain ch where ch: "ch \<in> set (plan_chains r)" and raw: "raw = chain_row ch" by auto
    have sub: "set (ch_cells ch) \<subseteq> set rs" using ch rs(1) by auto
    show "validate_chain m (node_by_in ff) (out_by_node ff) raw seen = ([], Inr (rev (manifest_cells raw) @ seen))"
      unfolding raw manifest_cells_chain_row
    proof (rule validate_chain_clean)
      show "index_path (node_by_in ff) (out_by_node ff) (ch_scan_in_net ch) (map rec_instance (ch_cells ch)) (ch_scan_out_net ch)"
        using ports ch look sub by (intro linked_index_path) auto
    qed (use ports ch other fresh dist raw in \<open>auto simp: manifest_cells_chain_row\<close>)
  qed (use inst in \<open>simp_all add: manifest_cells_chain_row comp_def map_concat\<close>)
  then obtain seen where seen: "validate_chains m (map chain_row (plan_chains r)) (node_by_in ff) (out_by_node ff) = ([], Inr seen)"
    and sset: "set seen = rec_instance ` set rs"
    by (auto simp: validate_chains_def rs(1) manifest_cells_chain_row image_UN)
  have keys: "getitem ?man ''generic_json'' = Inr (JStr (result_output_json r))" "getitem ?man ''top'' = Inr (JStr (plan_top r))"
    "getitem ?man ''scan_enable'' = Inr (JStr (plan_scan_enable r))" "get_or ?man ''generic_json_hash'' x = JStr h"
    "get_or ?man ''chains'' x = JList (map chain_row (plan_chains r))" "get_or ?man ''wrapper_chains'' x = JList []" for x
    using wrap by (simp_all add: manifest_from_result_def getitem_def get_or_def)
  have strs: "py_str (JStr s) = s" for s by (simp add: py_str_def)
  have minus: "minus_set (names ff) seen = []" "minus_set seen (names ff) = []" "minus_set [] [] = []"
    by (simp_all add: minus_set_Nil nm sset)
  show ?thesis
    unfolding check_body_def Let_def keys strs chk_simps manifest_list_def
    using json hash mod se cells ff seen minus clk stitched_no_wbr [OF ok]
    by (simp add: keys strs lift_option_def chk_simps validate_chains_def ret_def empty_index_def)
qed


lemma planned_chains_q_nets:
  "length is = length ffss \<Longrightarrow>
     map rec_q_net (concat (map ch_cells (map (\<lambda>(i, ffs). planned_chain se i (bits i) (ins i) (outs i) ffs)
       (zip is ffss)))) = map ff_q_net (concat ffss)"
  by (induction "is" ffss rule: list_induct2) (auto simp: planned_chain_def)

lemma build_plan_nonempty:
  "build_plan top_name module eligible inelig scan_chains max_len a b se seb bits = Inr plan \<Longrightarrow> eligible \<noteq> []"
  by (auto simp: build_plan_def split: if_splits)

lemma check_names_freeD:
  "check_names_free module nms = Inr () \<Longrightarrow> distinct nms \<and> set nms \<inter> set (name_set module) = {}"
  by (auto simp: check_names_free_def find_None_iff split: option.splits if_splits)

text \<open>The ports and the cells of a stitched module.\<close>

lemma stitch_module_ok:
  assumes "stitch_module module eligible se plan = Inr m"
    and "as_obj (get_or module ''cells'' (JObj [])) = Some cells" and "stitched_ok [] cells"
    and names: "distinct (map ch_scan_in (plan_chains plan) @ map ch_scan_out (plan_chains plan) @ [plan_scan_enable plan])"
    and inst: "distinct (map rec_instance (plan_cells plan))"
    and mux: "\<forall>r \<in> set (plan_cells plan). \<not> starts_with (rec_instance r) MUX_PREFIX"
  shows "\<exists>cells'. as_obj (get_or m ''cells'' (JObj [])) = Some cells' \<and> stitched_ok (rev (plan_cells plan)) cells'"
    and "port_bit m (plan_scan_enable plan) ''input'' = Inr se"
    and "\<forall>ch \<in> set (plan_chains plan). port_bit m (ch_scan_in ch) ''input'' = Inr (ch_scan_in_net ch)
       \<and> port_bit m (ch_scan_out ch) ''output'' = Inr (ch_scan_out_net ch)"
proof -
  from assms(1) obtain m1 m2 raw c cells' k' where
    m1: "fold_res (\<lambda>ch m. add_port m (ch_scan_in ch) ''input'' (ch_scan_in_net ch)) (plan_chains plan) module = Inr m1"
    and m2: "add_port m1 (plan_scan_enable plan) ''input'' se = Inr m2"
    and c: "getitem m2 ''cells'' = Inr raw" "as_obj raw = Some c"
    and cells': "fold_res (stitch_record (dict_of (map (\<lambda>ff. (ff_instance ff, ff)) eligible)))
         (plan_cells plan) (c, se + 1) = Inr (cells', k')"
    and m: "fold_res (\<lambda>ch m. add_port m (ch_scan_out ch) ''output'' (ch_scan_out_net ch))
       (plan_chains plan) (dict_set m2 ''cells'' (JObj cells')) = Inr m"
    by (auto simp: stitch_module_def bind_res_eq_Inr lift_option_eq_Inr)
  have d: "distinct (map ch_scan_in (plan_chains plan))" "distinct (map ch_scan_out (plan_chains plan))"
    using names by auto
  note p1 = add_ports_ok [OF m1 d(1)] and p2 = add_port_ok [OF m2] and p3 = add_ports_ok [OF m d(2)]
  have "map_of module ''cells'' = Some raw" using c(1) p1(3) p2(3) by (simp add: getitem_def split: option.splits)
  with assms(2) c(2) have "c = cells" by (simp add: get_or_def)
  have "stitched_ok (rev (plan_cells plan) @ []) cells'"
    using inst mux assms(3) unfolding \<open>c = cells\<close> [symmetric]
    by (intro stitch_records [OF cells']) auto
  moreover have "get_or m ''cells'' (JObj []) = JObj cells'" using p3(3) by (simp add: get_or_def)
  ultimately show "\<exists>cells'. as_obj (get_or m ''cells'' (JObj [])) = Some cells' \<and> stitched_ok (rev (plan_cells plan)) cells'"
    by simp
  have swap: "port_bit (dict_set m2 ''cells'' v) n d = port_bit m2 n d" for v n d by (simp add: port_bit_def)
  show "port_bit m (plan_scan_enable plan) ''input'' = Inr se"
    using p3(2) p2(1) names by (auto simp: swap)
  show "\<forall>ch \<in> set (plan_chains plan). port_bit m (ch_scan_in ch) ''input'' = Inr (ch_scan_in_net ch)
       \<and> port_bit m (ch_scan_out ch) ''output'' = Inr (ch_scan_out_net ch)"
  proof (intro ballI conjI)
    fix ch assume ch: "ch \<in> set (plan_chains plan)"
    show "port_bit m (ch_scan_out ch) ''output'' = Inr (ch_scan_out_net ch)" using p3(1) ch by blast
    have "ch_scan_in ch \<in> ch_scan_in ` set (plan_chains plan)" using ch by (rule imageI)
    then have "ch_scan_in ch \<notin> ch_scan_out ` set (plan_chains plan)" "ch_scan_in ch \<noteq> plan_scan_enable plan"
      using names by auto
    then show "port_bit m (ch_scan_in ch) ''input'' = Inr (ch_scan_in_net ch)"
      using p3(2) p2(2) p1(1) ch by (simp add: swap)
  qed
qed

lemma q_nets_below:
  assumes "collect_ffs module cell_map = Inr (el, inel)" and "as_obj (get_or module ''cells'' (JObj [])) = Some cells"
    and "distinct (map fst cells)" and "next_net_id module = Inr n" and "ff \<in> set el"
  shows "ff_q_net ff < n"
proof -
  obtain raw where raw: "(ff_instance ff, raw) \<in> set cells" "ff_q_net ff \<in> set (conn_bits_of raw)"
    using collect_ffs_cells(2) [OF assms(1-3,5)] by blast
  obtain bits where bits: "module_bits module = Inr bits" using assms(4) by (auto simp: next_net_id_def bind_res_eq_Inr)
  have "get_or module ''cells'' (JObj []) = JObj cells" using assms(2) by (cases "get_or module ''cells'' (JObj [])") auto
  with bits raw have "ff_q_net ff \<in> set bits"
    by (force simp: module_bits_def bind_res_eq_Inr values_of_def split: option.splits)
  with next_net_id_fresh(1) [OF assms(4) bits] show ?thesis by blast
qed

text \<open>
  C1. Stitching and checking agree. Take a module without scan cells, in which no two of the
  planned flip-flops drive the same net and no instance is named like a hold multiplexer, and let
  \<^verbatim>\<open>stitch_scan_json\<close> succeed on it without wrapper chains. Then \<^verbatim>\<open>check_scan_structure\<close>, run on the
  written netlist with the manifest that \<^verbatim>\<open>manifest_from_result\<close> derives from the result, reports no
  error.
\<close>

theorem stitch_passes_check:
  assumes stitch: "stitch_scan_json (JObj data) cell_map_json top_name out_path scan_chains max_len
      scan_in_base scan_out_base scan_enable = Inr (r, stitched)"
    and mod: "top_module data (plan_top r) = Inr (t, module)"
    and cells: "as_obj (get_or module ''cells'' (JObj [])) = Some cells" "distinct (map fst cells)"
      "\<forall>(n, raw) \<in> set cells. not_scan raw"
    and q: "distinct (map rec_q_net (plan_cells r))"
    and mux: "\<forall>c \<in> set (plan_cells r). \<not> starts_with (rec_instance c) MUX_PREFIX"
    and wrap: "plan_wrapper_chains r = []"
    and fs: "fs_json fs out_path = Some (JObj stitched)" "fs_hash fs out_path = h"
  shows "\<exists>res. check_scan_structure fs (manifest_from_result r h src tm sky chk) False = Inr res \<and> passed res"
proof -
  from stitch obtain cell_map name t' module' eligible se plan m where
    mod': "top_module data name = Inr (t', module')"
    and plan: "plan_module name module' cell_map scan_chains max_len scan_in_base scan_out_base scan_enable
      = Inr (eligible, se, plan)"
    and m: "stitch_module module' eligible se plan = Inr m"
    and r: "r = ScanPlan.extend plan (ScanStitchResult.fields out_path)"
    and st: "stitched = set_module data name m"
    by (auto simp: stitch_scan_json_def bind_res_eq_Inr load_json_def)
  from plan obtain inel c n plan0 wrapped where ffs: "collect_ffs module' cell_map = Inr (eligible, inel)"
    and n: "next_net_id module' = Inr n" and se: "se = n + c"
    and p0: "build_plan name module' eligible inel scan_chains max_len scan_in_base scan_out_base scan_enable
        (n + c) (map (\<lambda>i. n + i) [0..c - 1]) = Inr plan0"
    and plan_eq: "plan = plan0\<lparr>plan_wrapper_chains := wrapped\<rparr>"
    by (auto simp: plan_module_def bind_res_eq_Inr Let_def)
  define bits where "bits = map (\<lambda>i. n + i) [0..c - 1]"
  from build_plan_Inr [OF p0] obtain ins outs ffss where
    ffss: "concat ffss = packed eligible" "length ffss \<le> length bits" "length ins = length ffss"
      "length outs = length ffss" "\<forall>ffs \<in> set ffss. ffs \<noteq> []"
    and chs: "plan_chains plan0 = map (\<lambda>(i, ffs). planned_chain se i (bits ! i) (ins ! i) (outs ! i) ffs)
        (zip [0..<length ffss] ffss)"
    and free: "check_names_free module' (ins @ outs @ [scan_enable]) = Inr ()"
    and pc: "plan_cells plan0 = concat (map ch_cells (plan_chains plan0))"
    and pn: "plan_scan_enable plan0 = scan_enable" "plan_top plan0 = name"
    unfolding bits_def se by blast
  have r_eq: "plan_chains r = plan_chains plan0" "plan_cells r = plan_cells plan0" "plan_top r = name"
    "plan_scan_enable r = scan_enable" "result_output_json r = out_path"
    and plan_fields: "plan_chains plan = plan_chains plan0" "plan_cells plan = plan_cells plan0"
      "plan_scan_enable plan = scan_enable"
    using pn by (simp_all add: r plan_eq ScanPlan.extend_def ScanStitchResult.fields_def)
  have "module' = module" using mod mod' r_eq(3) by simp
  note ffs = ffs [unfolded this] and n = n [unfolded this] and m = m [unfolded this]
  have len_eq: "length (plan_chains plan0) = length ffss" by (simp add: chs)
  have "map ch_scan_in (plan_chains plan0) = ins" "map ch_scan_out (plan_chains plan0) = outs"
    using ffss(3,4) by (auto intro!: nth_equalityI simp: chs planned_chain_def)
  then have names: "distinct (map ch_scan_in (plan_chains plan) @ map ch_scan_out (plan_chains plan) @ [plan_scan_enable plan])"
    using check_names_freeD [OF free] plan_fields by simp
  have inst_eq: "map rec_instance (plan_cells plan0) = map ff_instance (packed eligible)"
    unfolding pc chs ffss(1) [symmetric] by (rule planned_chains_instances) simp
  have q_eq: "map rec_q_net (plan_cells plan0) = map ff_q_net (concat ffss)"
    unfolding pc chs by (rule planned_chains_q_nets) simp
  have "distinct (map ff_instance eligible)" by (rule collect_ffs_cells(1) [OF ffs cells(1,2)])
  then have inst: "distinct (map rec_instance (plan_cells plan0))" unfolding inst_eq by (simp add: distinct_map)
  have "ff_q_net ff < n" if "ff \<in> set (concat ffss)" for ff
    using q_nets_below [OF ffs cells(1,2) n] that unfolding ffss(1) by simp
  then have fresh: "set bits \<inter> ff_q_net ` set (concat ffss) = {}" by (fastforce simp: bits_def)
  have "distinct bits" by (simp add: bits_def distinct_map inj_on_def)
  note nets = plan_nets [OF chs ffss(5,2) this q [unfolded r_eq q_eq] fresh]
  have se_all: "\<forall>c \<in> set (plan_cells plan0). rec_scan_enable_net c = se"
    unfolding pc chs by (auto simp: planned_chain_def in_set_conv_nth [of _ "chain_records _ _ _ _ _"] chain_records_nth)
  have link: "\<forall>ch \<in> set (plan_chains plan0). linked (ch_scan_in_net ch) (ch_cells ch) (ch_scan_out_net ch)"
    unfolding chs using linked_chain_records by (auto simp: planned_chain_def split: if_splits)
  have "stitched_ok [] cells" using cells by (auto simp: stitched_ok_def dest: map_of_SomeD)
  note sm = stitch_module_ok [OF m cells(1) this names inst [folded plan_fields(2)] mux [unfolded r_eq(2), folded plan_fields(2)]]
  from sm(1) obtain cells' where cells': "as_obj (get_or m ''cells'' (JObj [])) = Some cells'"
    "stitched_ok (rev (plan_cells plan)) cells'" by blast
  have "check_body fs (manifest_from_result r h src tm sky chk) False = ([], Inr ())"
  proof (rule check_body_clean [where rs = "rev (plan_cells plan)" and se = se and t = name and m = m and data = stitched])
    show "read_json fs (result_output_json r) = Inr stitched"
      using fs(1) by (simp add: read_json_def load_json_def r_eq)
    show "top_module stitched (plan_top r) = Inr (name, m)"
      by (simp add: st set_module_def top_module_def r_eq)
    show "rev (plan_cells plan) \<noteq> []"
      using inst_eq build_plan_nonempty [OF p0] unfolding plan_fields by (metis Nil_is_map_conv Nil_is_rev_conv length_0_conv length_sort)
    show "\<forall>ch \<in> set (plan_chains r). port_bit m (ch_scan_in ch) ''input'' = Inr (ch_scan_in_net ch)
       \<and> port_bit m (ch_scan_out ch) ''output'' = Inr (ch_scan_out_net ch)
       \<and> linked (ch_scan_in_net ch) (ch_cells ch) (ch_scan_out_net ch)
       \<and> ch_scan_out_net ch \<notin> rec_scan_in_net ` set (rev (plan_cells plan))"
      using sm(3) link nets(2) unfolding r_eq plan_fields pc by simp
  qed (use fs(2) sm(2) wrap cells' inst nets(1) se_all in
      \<open>simp_all add: r_eq plan_fields pc distinct_map rev_map [symmetric] del: rev_map\<close>)
  then show ?thesis by (simp add: check_scan_structure_def passed_def)
qed


text \<open>A module with two flip-flops, one with a clock enable.\<close>

definition ex_dff :: "string \<Rightarrow> (string \<times> int) list \<Rightarrow> json" where
  "ex_dff ty pins = JObj [(''type'', JStr ty), (''attributes'', JObj []),
     (''connections'', JObj (map (\<lambda>(pin, net). (pin, JList [JInt net])) pins))]"

definition ex_module :: jobj where
  "ex_module = [(''ports'', JObj []), (''netnames'', JObj []),
     (''cells'', JObj [(''b'', ex_dff ''EDFF'' [(''C'', 2), (''D'', 3), (''DE'', 6), (''Q'', 4)]),
                       (''a'', ex_dff ''DFF'' [(''C'', 2), (''D'', 4), (''Q'', 5)])])]"

definition ex_data :: jobj where
  "ex_data = [(''modules'', JObj [(''m'', JObj ex_module)])]"

definition ex_cell_map :: json where
  "ex_cell_map =
     (let ff = [(''clock'', JStr ''C''), (''data'', JStr ''D''), (''output'', JStr ''Q''), (''trigger'', JStr ''POSEDGE'')]
      in JObj [(''DFF'', JObj [(''node_type'', JStr ''FF''), (''ff'', JObj ff)]),
               (''EDFF'', JObj [(''node_type'', JStr ''FF''), (''ff'', JObj (ff @
                  [(''enable'', JObj [(''pin'', JStr ''DE''), (''level'', JStr ''HIGH'')])]))])])"

definition ex_stitch :: "(ScanStitchResult \<times> jobj) res" where
  "ex_stitch = stitch_scan_json (JObj ex_data) ex_cell_map ''m'' ''o'' 1 None ''si'' ''so'' ''se''"

definition ex_fs :: file_system where
  "ex_fs = \<lparr>fs_json = (\<lambda>_. Some (JObj (snd (projr ex_stitch)))), fs_hash = (\<lambda>_. ''h''), fs_exists = (\<lambda>_. False)\<rparr>"

theorem stitch_passes_check_witness:
  "\<exists>res. check_scan_structure ex_fs (manifest_from_result (fst (projr ex_stitch)) ''h'' ''s'' ''t'' None JNull) False = Inr res
    \<and> passed res"
proof (rule stitch_passes_check [where data = ex_data and module = ex_module and out_path = "''o''"
    and t = "''m''" and stitched = "snd (projr ex_stitch)"])
  have "\<not> isl ex_stitch" by code_simp
  then show "stitch_scan_json (JObj ex_data) ex_cell_map ''m'' ''o'' 1 None ''si'' ''so'' ''se'' =
      Inr (fst (projr ex_stitch), snd (projr ex_stitch))"
    unfolding ex_stitch_def [symmetric] by (cases ex_stitch) auto
  show "top_module ex_data (plan_top (fst (projr ex_stitch))) = Inr (''m'', ex_module)" by code_simp
  show "as_obj (get_or ex_module ''cells'' (JObj [])) =
      Some [(''b'', ex_dff ''EDFF'' [(''C'', 2), (''D'', 3), (''DE'', 6), (''Q'', 4)]),
            (''a'', ex_dff ''DFF'' [(''C'', 2), (''D'', 4), (''Q'', 5)])]"
    by (simp add: ex_module_def get_or_def)
  show "distinct (map rec_q_net (plan_cells (fst (projr ex_stitch))))" by code_simp
  show "\<forall>c \<in> set (plan_cells (fst (projr ex_stitch))). \<not> starts_with (rec_instance c) MUX_PREFIX" by code_simp
  show "plan_wrapper_chains (fst (projr ex_stitch)) = []" by code_simp
qed (simp_all add: ex_fs_def ex_dff_def not_scan_def type_in_def get_or_def type_defs)

end
