(* ===== verification/Hold_Mux.thy ===== *)
theory Hold_Mux
  imports Scan_Stitch
begin

text \<open>
  The functional mode of a stitched flip-flop. The generic scan cells have no enable pin, so
  \<^verbatim>\<open>stitch_scan_json\<close> puts an inverter, two AND gates and an OR gate in front of D when the original
  flip-flop has a clock enable (\<^verbatim>\<open>_add_enable_hold_mux\<close>). The theory gives those gates their meaning on
  net values and shows that what the scan cell captures is the original flip-flop's next state.
\<close>

section \<open>Gate semantics\<close>

definition bit_value :: "(int \<Rightarrow> bool) \<Rightarrow> json \<Rightarrow> bool" where
  "bit_value v b = (case as_int b of Some n \<Rightarrow> v n | None \<Rightarrow> b = JStr ''1'')"

definition pin_value :: "(int \<Rightarrow> bool) \<Rightarrow> jobj \<Rightarrow> string \<Rightarrow> bool" where
  "pin_value v cell pin =
     (case Option.bind (as_obj (get_or cell ''connections'' JNull)) (\<lambda>conns. as_list (get_or conns pin JNull)) of
        Some [b] \<Rightarrow> bit_value v b
      | _ \<Rightarrow> False)"

text \<open>A valuation agrees with a cell when the output of a synthesised gate is its function of the
  inputs; other cells are not constrained.\<close>

definition gate_sat :: "(int \<Rightarrow> bool) \<Rightarrow> json \<Rightarrow> bool" where
  "gate_sat v raw =
     (case as_obj raw of
        None \<Rightarrow> True
      | Some cell \<Rightarrow>
          (let ty = get_or cell ''type'' JNull;
               a = pin_value v cell ''A''; b = pin_value v cell ''B''; y = pin_value v cell ''Y''
           in (ty = JStr YOSYS_CAPTURE_INV_CELL \<longrightarrow> y = (\<not> a))
              \<and> (ty = JStr YOSYS_CAPTURE_AND_CELL \<longrightarrow> y = (a \<and> b))
              \<and> (ty = JStr YOSYS_CAPTURE_OR_CELL \<longrightarrow> y = (a \<or> b))))"

definition netlist_sat :: "(int \<Rightarrow> bool) \<Rightarrow> jobj \<Rightarrow> bool" where
  "netlist_sat v cells = (\<forall>raw \<in> set (map snd cells). gate_sat v raw)"

text \<open>The flip-flop before stitching: it loads D when its enable is active and holds Q otherwise.\<close>

definition enable_active :: "(int \<Rightarrow> bool) \<Rightarrow> EligibleFF \<Rightarrow> bool" where
  "enable_active v ff =
     (let level = (\<lambda>e. if ff_enable_level ff = ''HIGH'' then e else \<not> e)
      in if ff_enable_net ff \<noteq> -1 then level (v (ff_enable_net ff))
         else case ff_enable_const ff of Some const \<Rightarrow> level const | None \<Rightarrow> True)"

definition next_state :: "(int \<Rightarrow> bool) \<Rightarrow> EligibleFF \<Rightarrow> bool" where
  "next_state v ff = (if enable_active v ff then bit_value v (wire_bit (ff_data_net ff)) else v (ff_q_net ff))"

section \<open>The multiplexer\<close>

lemma gate_sat_internal:
  assumes "gate_sat v (internal_cell ty dirs (JObj conns))"
  shows "ty = YOSYS_CAPTURE_INV_CELL \<Longrightarrow> conns = [(''A'', JList [a]), (''Y'', JList [JInt y])] \<Longrightarrow> v y = (\<not> bit_value v a)"
    and "ty = YOSYS_CAPTURE_AND_CELL \<Longrightarrow> conns = [(''A'', JList [a]), (''B'', JList [JInt b]), (''Y'', JList [JInt y])] \<Longrightarrow>
      v y = (bit_value v a \<and> v b)"
    and "ty = YOSYS_CAPTURE_OR_CELL \<Longrightarrow> conns = [(''A'', JList [a]), (''B'', JList [JInt b]), (''Y'', JList [JInt y])] \<Longrightarrow>
      v y = (bit_value v a \<or> v b)"
  using assms
  by (auto simp: gate_sat_def internal_cell_def get_or_def pin_value_def bit_value_def YOSYS_CAPTURE_INV_CELL_def
      YOSYS_CAPTURE_AND_CELL_def YOSYS_CAPTURE_OR_CELL_def Let_def)

lemma netlist_satD: "netlist_sat v cells \<Longrightarrow> map_of cells n = Some raw \<Longrightarrow> gate_sat v raw"
  by (force simp: netlist_sat_def dest: map_of_SomeD)

lemma hold_mux_value:
  assumes mux: "add_enable_hold_mux cells name d q en level k = (cells', muxed, k')" and sat: "netlist_sat v cells'"
  shows "v muxed = (if (if level = ''HIGH'' then v en else \<not> v en) then bit_value v d else v q)"
proof -
  define dg qg where "dg = (if level = ''HIGH'' then en else k)" and "qg = (if level = ''HIGH'' then k else en)"
  have look: "map_of cells' (''$ffenmux_inv_'' @ name) = Some (internal_cell YOSYS_CAPTURE_INV_CELL
        (JObj [(''A'', JStr ''input''), (''Y'', JStr ''output'')]) (JObj [(''A'', JList [JInt en]), (''Y'', JList [JInt k])]))"
    "map_of cells' (''$ffenmux_d_'' @ name) = Some (internal_cell YOSYS_CAPTURE_AND_CELL
        (JObj [(''A'', JStr ''input''), (''B'', JStr ''input''), (''Y'', JStr ''output'')])
        (JObj [(''A'', JList [d]), (''B'', JList [JInt dg]), (''Y'', JList [JInt (k + 1)])]))"
    "map_of cells' (''$ffenmux_q_'' @ name) = Some (internal_cell YOSYS_CAPTURE_AND_CELL
        (JObj [(''A'', JStr ''input''), (''B'', JStr ''input''), (''Y'', JStr ''output'')])
        (JObj [(''A'', JList [JInt q]), (''B'', JList [JInt qg]), (''Y'', JList [JInt (k + 2)])]))"
    "map_of cells' (''$ffenmux_or_'' @ name) = Some (internal_cell YOSYS_CAPTURE_OR_CELL
        (JObj [(''A'', JStr ''input''), (''B'', JStr ''input''), (''Y'', JStr ''output'')])
        (JObj [(''A'', JList [JInt (k + 1)]), (''B'', JList [JInt (k + 2)]), (''Y'', JList [JInt muxed])]))"
    using mux by (auto simp: add_enable_hold_mux_def Let_def add_internal_buf1_cell_def add_internal_gate2_cell_def
        dg_def qg_def)
  note sats = look [THEN netlist_satD [OF sat]]
  have "v k = (\<not> v en)" using gate_sat_internal(1) [OF sats(1)] by (simp add: bit_value_def)
  moreover have "v (k + 1) = (bit_value v d \<and> v dg)" using gate_sat_internal(2) [OF sats(2)] by simp
  moreover have "v (k + 2) = (v q \<and> v qg)" using gate_sat_internal(2) [OF sats(3)] by (simp add: bit_value_def)
  moreover have "v muxed = (v (k + 1) \<or> v (k + 2))" using gate_sat_internal(3) [OF sats(4)] by (simp add: bit_value_def)
  ultimately show ?thesis by (auto simp: dg_def qg_def)
qed

text \<open>
  C14. Stitching keeps the clock enable. Whatever \<^verbatim>\<open>stitch_scan_json\<close> connects to the D pin of the
  scan cell that replaces a flip-flop (the data net, the hold multiplexer, or for an enable tied to
  a constant the data net or the cell's own output), its value under any valuation of the nets that
  the synthesised gates admit is the next state of the original flip-flop: D when the enable is
  active at its level, the held Q otherwise.
\<close>

theorem scan_data_input_next_state:
  assumes "scan_data_input ff r cells k = (cells', d_bit, k')" and "netlist_sat v cells'"
    and "rec_data_net r = ff_data_net ff" "rec_q_net r = ff_q_net ff"
  shows "bit_value v d_bit = next_state v ff"
proof (cases "ff_enable_net ff = -1")
  case True
  then show ?thesis
    using assms by (auto simp: scan_data_input_def Let_def next_state_def enable_active_def bit_value_def split: option.splits)
next
  case False
  then obtain muxed where "add_enable_hold_mux cells (rec_instance r) (wire_bit (rec_data_net r)) (rec_q_net r)
      (ff_enable_net ff) (ff_enable_level ff) k = (cells', muxed, k')" "d_bit = JInt muxed"
    using assms(1) by (auto simp: scan_data_input_def Let_def split: prod.splits)
  with hold_mux_value [OF this(1) assms(2)] assms(3,4) False show ?thesis
    by (simp add: next_state_def enable_active_def bit_value_def)
qed

definition ex_enable_ff :: EligibleFF where
  "ex_enable_ff = (ex_ff ''b'' 2 3 4)\<lparr>ff_enable_net := 6, ff_enable_level := ''LOW''\<rparr>"

definition ex_record :: ScanCellRecord where
  "ex_record = hd (chain_records 12 0 0 10 [ex_enable_ff])"

theorem scan_data_input_next_state_witness:
  "bit_value (\<lambda>n. n \<in> {4, 6, 15, 16}) (fst (snd (scan_data_input ex_enable_ff ex_record [] 13)))
     = next_state (\<lambda>n. n \<in> {4, 6, 15, 16}) ex_enable_ff"
proof (rule scan_data_input_next_state)
  show "scan_data_input ex_enable_ff ex_record [] 13 =
      (fst (scan_data_input ex_enable_ff ex_record [] 13),
       fst (snd (scan_data_input ex_enable_ff ex_record [] 13)),
       snd (snd (scan_data_input ex_enable_ff ex_record [] 13)))" by simp
  show "netlist_sat (\<lambda>n. n \<in> {4, 6, 15, 16}) (fst (scan_data_input ex_enable_ff ex_record [] 13))" by code_simp
qed (simp_all add: ex_record_def ex_enable_ff_def)

end
