(* ===== verification/Worklist.thy ===== *)
theory Worklist
  imports Py_Prelude
begin

text \<open>
  The worklist loops of the program. Two shapes occur: \<^verbatim>\<open>_ff_d_reachable\<close> (\<^verbatim>\<open>rule_check/rules.py\<close>) marks a
  node when it is popped, \<^verbatim>\<open>_forward_reachable\<close> and \<^verbatim>\<open>_backward_reachable\<close> (\<^verbatim>\<open>scan/domain_reach.py\<close>) mark it
  when it is pushed. Both take the successors of a node from a dictionary with finitely many keys,
  which is why they end; \<open>keys\<close> is their list. Both compute the set of reachable nodes.
\<close>

section \<open>The loops\<close>

text \<open>Mark on push: \<open>visited\<close> starts as the seeds, and only new nodes enter the worklist.\<close>

definition push_new :: "'a list \<Rightarrow> 'a list \<times> 'a list \<Rightarrow> 'a list \<times> 'a list" where
  "push_new nodes st = fold (\<lambda>n (visited, worklist).
     if n \<in> set visited then (visited, worklist) else (visited @ [n], worklist @ [n])) nodes st"

definition succs_of :: "'a list \<Rightarrow> ('a \<Rightarrow> 'a list) \<Rightarrow> 'a \<Rightarrow> 'a list" where
  "succs_of keys succ n = (if n \<in> set keys then succ n else [])"

definition targets :: "'a list \<Rightarrow> ('a \<Rightarrow> 'a list) \<Rightarrow> 'a set" where
  "targets keys succ = (\<Union>n \<in> set keys. set (succ n))"

lemma finite_targets [simp]: "finite (targets keys succ)"
  by (simp add: targets_def)

lemma push_new_Cons:
  "push_new (n # ns) (visited, wl) =
     push_new ns (if n \<in> set visited then (visited, wl) else (visited @ [n], wl @ [n]))"
  by (simp add: push_new_def)

lemma push_new_spec:
  assumes "push_new nodes (visited, wl) = (visited', wl')"
  shows "set visited' = set visited \<union> set nodes"
    and "set wl' \<subseteq> set wl \<union> set nodes" "set wl \<subseteq> set wl'"
    and "set visited' - set visited \<subseteq> set wl'"
    and "visited' = visited \<and> wl' = wl \<or> set visited \<subset> set visited'"
proof -
  have "set visited' = set visited \<union> set nodes \<and> set wl' \<subseteq> set wl \<union> set nodes \<and> set wl \<subseteq> set wl'
    \<and> set visited' - set visited \<subseteq> set wl' \<and> (visited' = visited \<and> wl' = wl \<or> set visited \<subset> set visited')"
    using assms
  proof (induction nodes arbitrary: visited wl)
    case Nil
    then show ?case by (simp add: push_new_def)
  next
    case (Cons n ns)
    show ?case
    proof (cases "n \<in> set visited")
      case True
      with Cons.prems Cons.IH [of visited wl] show ?thesis by (auto simp: push_new_Cons)
    next
      case False
      with Cons.prems Cons.IH [of "visited @ [n]" "wl @ [n]"] show ?thesis by (auto simp: push_new_Cons)
    qed
  qed
  then show "set visited' = set visited \<union> set nodes" "set wl' \<subseteq> set wl \<union> set nodes" "set wl \<subseteq> set wl'"
    "set visited' - set visited \<subseteq> set wl'" "visited' = visited \<and> wl' = wl \<or> set visited \<subset> set visited'" by blast+
qed

function push_search :: "'a list \<Rightarrow> ('a \<Rightarrow> 'a list) \<Rightarrow> 'a list \<Rightarrow> 'a list \<Rightarrow> 'a list" where
  "push_search keys succ visited worklist =
     (if worklist = [] then visited
      else case push_new (succs_of keys succ (last worklist)) (visited, butlast worklist) of
        (visited', worklist') \<Rightarrow> push_search keys succ visited' worklist')"
  by pat_completeness auto
termination
proof (relation "inv_image (less_than <*lex*> less_than)
    (\<lambda>(keys, succ, visited, worklist). (card (targets keys succ - set visited), length worklist))", goal_cases)
  case (2 keys succ visited worklist visited' worklist')
  let ?ns = "succs_of keys succ (last worklist)"
  from 2(2) have p: "push_new ?ns (visited, butlast worklist) = (visited', worklist')" by simp
  note s = push_new_spec [OF p]
  have sub: "set ?ns \<subseteq> targets keys succ" by (auto simp: succs_of_def targets_def)
  from s(5) show ?case
  proof
    assume "visited' = visited \<and> worklist' = butlast worklist"
    with 2(1) show ?thesis by simp
  next
    assume "set visited \<subset> set visited'"
    then obtain n where "n \<in> set visited'" "n \<notin> set visited" by blast
    with s(1) sub have "targets keys succ - set visited' \<subset> targets keys succ - set visited" by blast
    then have "card (targets keys succ - set visited') < card (targets keys succ - set visited)"
      by (intro psubset_card_mono) auto
    then show ?thesis by simp
  qed
qed auto

declare push_search.simps [simp del]

text \<open>Mark on pop: a node already visited is skipped when it comes up again.\<close>

function pop_search :: "'a list \<Rightarrow> ('a \<Rightarrow> 'a list) \<Rightarrow> 'a list \<Rightarrow> 'a list \<Rightarrow> 'a list" where
  "pop_search keys succ visited worklist =
     (if worklist = [] then visited
      else if last worklist \<in> set visited then pop_search keys succ visited (butlast worklist)
      else pop_search keys succ (visited @ [last worklist])
             (butlast worklist @ succs_of keys succ (last worklist)))"
  by pat_completeness auto
termination
proof (relation "inv_image (less_than <*lex*> less_than)
    (\<lambda>(keys, succ, visited, worklist). (card (set keys - set visited), length worklist))", goal_cases)
  case (3 keys succ visited worklist)
  show ?case
  proof (cases "last worklist \<in> set keys")
    case True
    with 3(2) have "card (set keys - set (visited @ [last worklist])) < card (set keys - set visited)"
      by (intro psubset_card_mono) auto
    then show ?thesis by simp
  next
    case False
    then have "set keys - set (visited @ [last worklist]) = set keys - set visited" by auto
    with False 3(1) show ?thesis by (simp add: succs_of_def)
  qed
qed auto

declare pop_search.simps [simp del]

section \<open>What a search computes\<close>

definition edges :: "'a list \<Rightarrow> ('a \<Rightarrow> 'a list) \<Rightarrow> ('a \<times> 'a) set" where
  "edges keys succ = {(a, b). b \<in> set (succs_of keys succ a)}"

locale search_result =
  fixes R :: "('a \<times> 'a) set" and seeds :: "'a set" and found :: "'a set"
  assumes seeds_found: "seeds \<subseteq> found"
    and closed: "a \<in> found \<Longrightarrow> (a, b) \<in> R \<Longrightarrow> b \<in> found"
    and sound: "n \<in> found \<Longrightarrow> \<exists>s \<in> seeds. (s, n) \<in> R\<^sup>*"
begin

lemma reach_closed: "(s, n) \<in> R\<^sup>* \<Longrightarrow> s \<in> found \<Longrightarrow> n \<in> found"
  by (induction rule: rtrancl_induct) (auto intro: closed)

lemma found_eq: "found = R\<^sup>* `` seeds"
  using sound reach_closed seeds_found by blast

end

lemma last_butlast_set: "wl \<noteq> [] \<Longrightarrow> set wl = insert (last wl) (set (butlast wl))"
  by (induction wl) auto

lemma push_search_result:
  assumes "set worklist \<subseteq> set visited" and "seeds \<subseteq> set visited"
    and "\<And>a b. a \<in> set visited - set worklist \<Longrightarrow> (a, b) \<in> edges keys succ \<Longrightarrow> b \<in> set visited"
    and "\<And>n. n \<in> set visited \<Longrightarrow> \<exists>s \<in> seeds. (s, n) \<in> (edges keys succ)\<^sup>*"
  shows "search_result (edges keys succ) seeds (set (push_search keys succ visited worklist))"
  using assms
proof (induction keys succ visited worklist rule: push_search.induct)
  case (1 keys succ visited worklist)
  show ?case
  proof (cases "worklist = []")
    case True
    then show ?thesis using 1 by (simp add: push_search.simps [of keys succ visited "[]"] search_result_def)
  next
    case False
    obtain v w where vw: "push_new (succs_of keys succ (last worklist)) (visited, butlast worklist) = (v, w)" by force
    note s = push_new_spec [OF vw]
    have wl: "set worklist = insert (last worklist) (set (butlast worklist))" using False by (rule last_butlast_set)
    have "search_result (edges keys succ) seeds (set (push_search keys succ v w))"
    proof (rule 1(1) [OF False vw [symmetric]])
      show "set w \<subseteq> set v" using s(1,2) 1(2) wl by auto
      show "seeds \<subseteq> set v" using s(1) 1(3) by blast
      show "b \<in> set v" if "a \<in> set v - set w" "(a, b) \<in> edges keys succ" for a b
      proof (cases "a = last worklist")
        case True
        then show ?thesis using that(2) s(1) by (auto simp: edges_def)
      next
        case False
        with that(1) s(1,3,4) wl have "a \<in> set visited - set worklist" by auto
        then show ?thesis using 1(4) that(2) s(1) by blast
      qed
      show "\<exists>s \<in> seeds. (s, n) \<in> (edges keys succ)\<^sup>*" if "n \<in> set v" for n
      proof (cases "n \<in> set visited")
        case True
        then show ?thesis by (rule 1(5))
      next
        case False
        with that s(1) have "(last worklist, n) \<in> edges keys succ" by (auto simp: edges_def)
        moreover have "last worklist \<in> set visited" using wl 1(2) by auto
        ultimately show ?thesis using 1(5) by (meson rtrancl.rtrancl_into_rtrancl)
      qed
    qed
    then show ?thesis using False vw by (simp add: push_search.simps [of keys succ visited worklist])
  qed
qed

lemma pop_search_result:
  assumes "seeds \<subseteq> set visited \<union> set worklist"
    and "\<And>a b. a \<in> set visited \<Longrightarrow> (a, b) \<in> edges keys succ \<Longrightarrow> b \<in> set visited \<union> set worklist"
    and "\<And>n. n \<in> set visited \<union> set worklist \<Longrightarrow> \<exists>s \<in> seeds. (s, n) \<in> (edges keys succ)\<^sup>*"
  shows "search_result (edges keys succ) seeds (set (pop_search keys succ visited worklist))"
  using assms
proof (induction keys succ visited worklist rule: pop_search.induct)
  case (1 keys succ visited worklist)
  show ?case
  proof (cases "worklist = []")
    case True
    then show ?thesis using 1 by (simp add: pop_search.simps [of keys succ visited "[]"] search_result_def)
  next
    case False
    have wl: "set worklist = insert (last worklist) (set (butlast worklist))" using False by (rule last_butlast_set)
    show ?thesis
    proof (cases "last worklist \<in> set visited")
      case True
      then have "search_result (edges keys succ) seeds (set (pop_search keys succ visited (butlast worklist)))"
        using 1(3-5) wl by (intro 1(1) [OF False]) (simp_all add: insert_absorb Un_commute)
      then show ?thesis using False True by (simp add: pop_search.simps [of keys succ visited worklist])
    next
      case new: False
      have "search_result (edges keys succ) seeds (set (pop_search keys succ (visited @ [last worklist])
          (butlast worklist @ succs_of keys succ (last worklist))))"
      proof (rule 1(2) [OF False new])
        show "seeds \<subseteq> set (visited @ [last worklist]) \<union> set (butlast worklist @ succs_of keys succ (last worklist))"
          using 1(3) wl by auto
        show "b \<in> set (visited @ [last worklist]) \<union> set (butlast worklist @ succs_of keys succ (last worklist))"
          if "a \<in> set (visited @ [last worklist])" "(a, b) \<in> edges keys succ" for a b
          using that 1(4) [of a b] wl by (auto simp: edges_def)
        show "\<exists>s \<in> seeds. (s, n) \<in> (edges keys succ)\<^sup>*"
          if "n \<in> set (visited @ [last worklist]) \<union> set (butlast worklist @ succs_of keys succ (last worklist))" for n
        proof (cases "n \<in> set visited \<union> set worklist")
          case True
          then show ?thesis by (rule 1(5))
        next
          case False
          with that wl have "(last worklist, n) \<in> edges keys succ" by (auto simp: edges_def)
          moreover have "last worklist \<in> set visited \<union> set worklist" using wl by simp
          ultimately show ?thesis using 1(5) by (meson rtrancl.rtrancl_into_rtrancl)
        qed
      qed
      then show ?thesis using False new by (simp add: pop_search.simps [of keys succ visited worklist])
    qed
  qed
qed

interpretation push: search_result "edges keys succ" "set seeds" "set (push_search keys succ seeds seeds)"
  for keys :: "'a list" and succ and seeds
  by (rule push_search_result) auto

interpretation pop: search_result "edges keys succ" "set seeds" "set (pop_search keys succ [] seeds)"
  for keys :: "'a list" and succ and seeds
  by (rule pop_search_result) auto

lemmas push_search_reach = push.found_eq
lemmas pop_search_reach = pop.found_eq

end
