(* ===== verification/Comb_Cycle.thy ===== *)
theory Comb_Cycle
  imports Py_Prelude
begin

text \<open>
  The search for a combinational loop: the depth-first search of \<^verbatim>\<open>_find_comb_cycle\<close> in
  \<^verbatim>\<open>faultflow/rule_check/rules.py\<close>, with its explicit stack of (node, next successor) pairs, its path and
  its colours. The graph is a dictionary from nodes to successor lists. The search ends on every
  graph; a cycle it returns is a cycle of the graph, and when it returns none there is none.
\<close>

section \<open>Definitions\<close>

type_synonym 'a graph = "('a \<times> 'a list) list"

datatype colour = WHITE | GRAY | BLACK

record 'a dfs =
  stack :: "('a \<times> nat) list"
  path :: "'a list"
  colours :: "('a \<times> colour) list"

definition colour_of :: "('a \<times> colour) list \<Rightarrow> 'a \<Rightarrow> colour" where
  "colour_of cols n = get_or cols n WHITE"

definition graph_succs :: "'a graph \<Rightarrow> 'a \<Rightarrow> 'a list" where
  "graph_succs adj n = get_or adj n []"

text \<open>\<^verbatim>\<open>path[path.index(nxt):]\<close>.\<close>

definition from_index :: "'a \<Rightarrow> 'a list \<Rightarrow> 'a list res" where
  "from_index x xs = (if x \<in> set xs then Inr (dropWhile (\<lambda>y. y \<noteq> x) xs) else Inl (ValueError ''not in list''))"

text \<open>One round of the inner loop on a non-empty stack (its top first here): either a cycle is found,
  or the state changes.\<close>

datatype 'a dfs_result = Cycle "'a list" | Continue "'a dfs"

definition dfs_step :: "'a graph \<Rightarrow> 'a \<times> nat \<Rightarrow> ('a \<times> nat) list \<Rightarrow> 'a dfs \<Rightarrow> 'a dfs_result res" where
  "dfs_step adj top_entry rest st =
     (case top_entry of (node, idx) \<Rightarrow>
        let succs = graph_succs adj node
        in if idx < length succs then
             let nxt = succs ! idx
             in (case colour_of (colours st) nxt of
                   GRAY \<Rightarrow> bind_res (from_index nxt (path st)) (\<lambda>suffix. Inr (Cycle (suffix @ [nxt])))
                 | WHITE \<Rightarrow> Inr (Continue \<lparr>stack = (nxt, 0) # (node, idx + 1) # rest,
                     path = path st @ [nxt], colours = dict_set (colours st) nxt GRAY\<rparr>)
                 | BLACK \<Rightarrow> Inr (Continue (st\<lparr>stack := (node, idx + 1) # rest\<rparr>)))
           else Inr (Continue \<lparr>stack = rest,
                  path = (if path st \<noteq> [] \<and> last (path st) = node then butlast (path st) else path st),
                  colours = dict_set (colours st) node BLACK\<rparr>))"

definition nodes :: "'a graph \<Rightarrow> 'a set" where
  "nodes adj = fst ` set adj \<union> (\<Union>n \<in> fst ` set adj. set (graph_succs adj n))"

lemma finite_nodes [simp]: "finite (nodes adj)"
  by (simp add: nodes_def)

definition work :: "'a graph \<Rightarrow> ('a \<times> nat) list \<Rightarrow> nat" where
  "work adj stk = sum_list (map (\<lambda>(n, i). length (graph_succs adj n) - i) stk)"

definition whites :: "'a graph \<Rightarrow> ('a \<times> colour) list \<Rightarrow> 'a set" where
  "whites adj cols = {n \<in> nodes adj. colour_of cols n = WHITE}"

lemma finite_whites [simp]: "finite (whites adj cols)"
  by (simp add: whites_def)

lemma graph_succs_nodes: "m \<in> set (graph_succs adj n) \<Longrightarrow> m \<in> nodes adj"
proof -
  assume m: "m \<in> set (graph_succs adj n)"
  then obtain ms where "map_of adj n = Some ms" by (cases "map_of adj n") (auto simp: graph_succs_def get_or_def)
  then have "n \<in> fst ` set adj" by (force dest: map_of_SomeD)
  with m show ?thesis by (auto simp: nodes_def)
qed

lemma colour_of_set [simp]: "colour_of (dict_set cols n c) m = (if m = n then c else colour_of cols m)"
  by (simp add: colour_of_def)

text \<open>Every round shrinks the set of white nodes, or the successors left to look at, or the stack.\<close>

lemma dfs_step_decreases:
  assumes "dfs_step adj (node, idx) rest st = Inr (Continue st')"
  shows "card (whites adj (colours st')) < card (whites adj (colours st))
    \<or> card (whites adj (colours st')) = card (whites adj (colours st))
      \<and> (work adj (stack st') < work adj ((node, idx) # rest)
         \<or> work adj (stack st') = work adj ((node, idx) # rest) \<and> length (stack st') < length ((node, idx) # rest))"
proof (cases "idx < length (graph_succs adj node)")
  case True
  let ?nxt = "graph_succs adj node ! idx"
  have "?nxt \<in> nodes adj" using True by (intro graph_succs_nodes [of _ adj node] nth_mem)
  show ?thesis
  proof (cases "colour_of (colours st) ?nxt")
    case WHITE
    with assms True have st': "colours st' = dict_set (colours st) ?nxt GRAY"
      by (auto simp: dfs_step_def Let_def)
    then have "whites adj (colours st') \<subset> whites adj (colours st)"
      using WHITE \<open>?nxt \<in> nodes adj\<close> by (auto simp: whites_def split: if_splits)
    then show ?thesis by (simp add: psubset_card_mono)
  next
    case GRAY
    with assms True show ?thesis by (simp add: dfs_step_def Let_def bind_res_eq_Inr)
  next
    case BLACK
    with assms True show ?thesis by (auto simp: dfs_step_def Let_def work_def)
  qed
next
  case False
  with assms have st': "stack st' = rest" "colours st' = dict_set (colours st) node BLACK"
    by (auto simp: dfs_step_def Let_def)
  then have "whites adj (colours st') \<subseteq> whites adj (colours st)"
    by (auto simp: whites_def split: if_splits)
  then consider "whites adj (colours st') = whites adj (colours st)" | "whites adj (colours st') \<subset> whites adj (colours st)"
    by blast
  then show ?thesis
    using False by cases (auto simp: st'(1) work_def intro: psubset_card_mono)
qed

function dfs_loop :: "'a graph \<Rightarrow> 'a dfs \<Rightarrow> ('a list option \<times> ('a \<times> colour) list) res" where
  "dfs_loop adj st =
     (case stack st of
        [] \<Rightarrow> Inr (None, colours st)
      | top_entry # rest \<Rightarrow>
          (case dfs_step adj top_entry rest st of
             Inl e \<Rightarrow> Inl e
           | Inr (Cycle c) \<Rightarrow> Inr (Some c, colours st)
           | Inr (Continue st') \<Rightarrow> dfs_loop adj st'))"
  by pat_completeness auto
termination
proof (relation "inv_image (less_than <*lex*> less_than <*lex*> less_than)
    (\<lambda>(adj, st). (card (whites adj (colours st)), work adj (stack st), length (stack st)))", goal_cases)
  case (2 adj st top_entry rest r st')
  then have "dfs_step adj (fst top_entry, snd top_entry) rest st = Inr (Continue st')" by simp
  from dfs_step_decreases [OF this] 2(1) show ?case by auto
qed auto

declare dfs_loop.simps [simp del]

text \<open>The outer loop over the roots, with the colours kept from root to root.\<close>

fun dfs_roots :: "'a graph \<Rightarrow> 'a list \<Rightarrow> ('a \<times> colour) list \<Rightarrow> 'a list option res" where
  "dfs_roots adj [] cols = Inr None"
| "dfs_roots adj (root # roots) cols =
     (if colour_of cols root \<noteq> WHITE then dfs_roots adj roots cols
      else bind_res (dfs_loop adj \<lparr>stack = [(root, 0)], path = [root], colours = dict_set cols root GRAY\<rparr>)
        (\<lambda>(found, cols'). case found of Some c \<Rightarrow> Inr (Some c) | None \<Rightarrow> dfs_roots adj roots cols'))"

definition find_cycle :: "'a graph \<Rightarrow> 'a list option res" where
  "find_cycle adj = dfs_roots adj (map fst adj) []"

section \<open>The invariant\<close>

definition graph_edges :: "'a graph \<Rightarrow> ('a \<times> 'a) set" where
  "graph_edges adj = {(a, b). b \<in> set (graph_succs adj a)}"

text \<open>Finished nodes only lead to finished nodes and lie on no cycle.\<close>

definition blacks_ok :: "'a graph \<Rightarrow> ('a \<times> colour) list \<Rightarrow> bool" where
  "blacks_ok adj cols =
     (\<forall>a. colour_of cols a = BLACK \<longrightarrow>
        (a, a) \<notin> (graph_edges adj)\<^sup>+ \<and> (\<forall>b \<in> set (graph_succs adj a). colour_of cols b = BLACK))"

text \<open>The stack, read from the top: the successors before a node's position are finished, except the
  one whose exploration is above it on the stack.\<close>

fun stack_ok :: "'a graph \<Rightarrow> ('a \<times> colour) list \<Rightarrow> 'a option \<Rightarrow> ('a \<times> nat) list \<Rightarrow> bool" where
  "stack_ok adj cols child [] = True"
| "stack_ok adj cols child ((n, i) # rest) =
     (i \<le> length (graph_succs adj n)
      \<and> (case child of
           None \<Rightarrow> \<forall>j < i. colour_of cols (graph_succs adj n ! j) = BLACK
         | Some m \<Rightarrow> 0 < i \<and> graph_succs adj n ! (i - 1) = m
             \<and> (\<forall>j < i - 1. colour_of cols (graph_succs adj n ! j) = BLACK))
      \<and> stack_ok adj cols (Some n) rest)"

definition dfs_ok :: "'a graph \<Rightarrow> 'a dfs \<Rightarrow> bool" where
  "dfs_ok adj st =
     (path st = rev (map fst (stack st)) \<and> distinct (path st)
      \<and> (\<forall>n. colour_of (colours st) n = GRAY \<longleftrightarrow> n \<in> set (path st))
      \<and> blacks_ok adj (colours st) \<and> stack_ok adj (colours st) None (stack st))"

lemma stack_ok_mono:
  assumes "stack_ok adj cols child stk"
    and "\<And>n. colour_of cols n = BLACK \<Longrightarrow> colour_of cols' n = BLACK"
  shows "stack_ok adj cols' child stk"
  using assms by (induction adj cols child stk rule: stack_ok.induct) (auto split: option.splits)

lemma black_closed:
  assumes "blacks_ok adj cols" and "(a, b) \<in> (graph_edges adj)\<^sup>*" and "colour_of cols a = BLACK"
  shows "colour_of cols b = BLACK"
  using assms(2,3)
proof (induction rule: rtrancl_induct)
  case (step y z)
  then show ?case using assms(1) by (auto simp: blacks_ok_def graph_edges_def)
qed

text \<open>Finishing a node whose successors are all finished.\<close>

lemma blacks_ok_finish:
  assumes ok: "blacks_ok adj cols" and gray: "colour_of cols n \<noteq> BLACK"
    and succs: "\<forall>m \<in> set (graph_succs adj n). colour_of cols m = BLACK"
  shows "blacks_ok adj (dict_set cols n BLACK)"
proof -
  have "(n, n) \<notin> (graph_edges adj)\<^sup>+"
  proof
    assume "(n, n) \<in> (graph_edges adj)\<^sup>+"
    then obtain m where "(n, m) \<in> graph_edges adj" "(m, n) \<in> (graph_edges adj)\<^sup>*" by (meson tranclD)
    then show False using black_closed [OF ok] succs gray by (auto simp: graph_edges_def)
  qed
  then show ?thesis using ok succs by (auto simp: blacks_ok_def)
qed

text \<open>The path follows edges of the graph, so a gray successor of its last node closes a cycle.\<close>

fun walks :: "('a \<times> 'a) set \<Rightarrow> 'a list \<Rightarrow> bool" where
  "walks R [] = True"
| "walks R [x] = True"
| "walks R (x # y # xs) = ((x, y) \<in> R \<and> walks R (y # xs))"

definition is_cycle :: "'a graph \<Rightarrow> 'a list \<Rightarrow> bool" where
  "is_cycle adj c = (2 \<le> length c \<and> hd c = last c \<and> walks (graph_edges adj) c)"


lemma walks_append: "walks R (xs @ [y]) \<longleftrightarrow> walks R xs \<and> (xs = [] \<or> (last xs, y) \<in> R)"
  by (induction R xs rule: walks.induct) auto

lemma walks_dropWhile: "walks R xs \<Longrightarrow> walks R (dropWhile P xs)"
  by (induction R xs rule: walks.induct) auto

lemma stack_walks:
  assumes "stack_ok adj cols child stk"
  shows "walks (graph_edges adj) (rev (map fst stk) @ (case child of None \<Rightarrow> [] | Some m \<Rightarrow> [m]))"
  using assms
proof (induction adj cols child stk rule: stack_ok.induct)
  case (1 adj cols child)
  then show ?case by (cases child) auto
next
  case (2 adj cols child n i rest)
  then have IH: "walks (graph_edges adj) (rev (map fst rest) @ [n])" by simp
  show ?case
  proof (cases child)
    case None
    with IH show ?thesis by simp
  next
    case (Some m)
    with 2(2) have "(n, m) \<in> graph_edges adj" by (auto simp: graph_edges_def)
    with IH Some show ?thesis using walks_append [of _ "rev (map fst rest) @ [n]" m] by simp
  qed
qed

lemma cycle_found:
  assumes walk: "walks (graph_edges adj) p" and p: "p \<noteq> []" "m \<in> set p" and edge: "(last p, m) \<in> graph_edges adj"
  shows "is_cycle adj (dropWhile (\<lambda>y. y \<noteq> m) p @ [m])"
proof -
  let ?q = "dropWhile (\<lambda>y. y \<noteq> m) p"
  have q: "?q \<noteq> []" using p(2) by simp
  then have "hd ?q = m" using hd_dropWhile [of "\<lambda>y. y \<noteq> m" p] by simp
  moreover have "last ?q = last p"
    using q by (metis append_Nil2 last_appendR takeWhile_dropWhile_id)
  moreover have "walks (graph_edges adj) ?q" by (rule walks_dropWhile [OF walk])
  ultimately have "walks (graph_edges adj) (?q @ [m])" "hd (?q @ [m]) = m" using q edge by (auto simp: walks_append)
  moreover have "2 \<le> length (?q @ [m])" using q by (cases ?q) auto
  ultimately show ?thesis by (simp add: is_cycle_def)
qed

lemma is_cycle_trancl: "is_cycle adj c \<Longrightarrow> (hd c, hd c) \<in> (graph_edges adj)\<^sup>+"
proof -
  have "walks R c \<Longrightarrow> 2 \<le> length c \<Longrightarrow> (hd c, last c) \<in> R\<^sup>+" for R :: "('a \<times> 'a) set" and c
  proof (induction R c rule: walks.induct)
    case (3 R x y xs)
    then show ?case by (cases xs) (auto intro: trancl_into_trancl2)
  qed auto
  then show "is_cycle adj c \<Longrightarrow> (hd c, hd c) \<in> (graph_edges adj)\<^sup>+" by (metis is_cycle_def)
qed

text \<open>One round keeps the invariant, or finds a cycle; it never raises.\<close>

lemma dfs_step_ok:
  assumes ok: "dfs_ok adj st" and stk: "stack st = (node, idx) # rest"
  shows "(\<exists>c. dfs_step adj (node, idx) rest st = Inr (Cycle c) \<and> is_cycle adj c)
    \<or> (\<exists>st'. dfs_step adj (node, idx) rest st = Inr (Continue st') \<and> dfs_ok adj st'
         \<and> (\<forall>n. colour_of (colours st) n \<noteq> WHITE \<longrightarrow> colour_of (colours st') n \<noteq> WHITE))"
proof -
  let ?succs = "graph_succs adj node"
  have path: "path st = rev (map fst rest) @ [node]" and dist: "distinct (path st)"
    and gray: "\<And>n. colour_of (colours st) n = GRAY \<longleftrightarrow> n \<in> set (path st)"
    and blacks: "blacks_ok adj (colours st)" and sok: "stack_ok adj (colours st) None ((node, idx) # rest)"
    using ok [unfolded dfs_ok_def] stk by (simp, blast, blast, blast, simp)
  have walk: "walks (graph_edges adj) (path st)"
    using stack_walks [OF sok] path by simp
  show ?thesis
  proof (cases "idx < length ?succs")
    case True
    define nxt where "nxt = ?succs ! idx"
    have edge: "(node, nxt) \<in> graph_edges adj" using True by (simp add: graph_edges_def nxt_def)
    show ?thesis
    proof (cases "colour_of (colours st) nxt")
      case GRAY
      then have mem: "nxt \<in> set (path st)" using gray by simp
      then have "dfs_step adj (node, idx) rest st = Inr (Cycle (dropWhile (\<lambda>y. y \<noteq> nxt) (path st) @ [nxt]))"
        using True GRAY by (simp add: dfs_step_def Let_def nxt_def from_index_def)
      moreover have "is_cycle adj (dropWhile (\<lambda>y. y \<noteq> nxt) (path st) @ [nxt])"
        using walk mem edge path by (intro cycle_found) auto
      ultimately show ?thesis by blast
    next
      case WHITE
      define st' where "st' = \<lparr>stack = (nxt, 0) # (node, idx + 1) # rest, path = path st @ [nxt],
          colours = dict_set (colours st) nxt GRAY\<rparr>"
      have "dfs_step adj (node, idx) rest st = Inr (Continue st')"
        using True WHITE by (simp add: dfs_step_def Let_def nxt_def st'_def)
      moreover have "nxt \<notin> set (path st)" using gray [of nxt] WHITE by simp
      moreover have "blacks_ok adj (colours st')"
        using blacks WHITE unfolding blacks_ok_def st'_def by auto
      moreover have "stack_ok adj (colours st') (Some node) rest"
        using sok by (auto intro!: stack_ok_mono [where cols = "colours st"] simp: st'_def WHITE)
      moreover have "\<forall>j < idx. colour_of (colours st') (?succs ! j) = BLACK"
      proof (intro allI impI)
        fix j assume "j < idx"
        then have black: "colour_of (colours st) (?succs ! j) = BLACK" using sok by simp
        with WHITE have "?succs ! j \<noteq> nxt" by auto
        with black show "colour_of (colours st') (?succs ! j) = BLACK" by (simp add: st'_def)
      qed
      ultimately show ?thesis
        using path dist gray True by (intro disjI2 exI [of _ st']) (auto simp: dfs_ok_def st'_def nxt_def [symmetric])
    next
      case BLACK
      have "\<forall>j < idx + 1. colour_of (colours st) (?succs ! j) = BLACK"
        using sok BLACK by (auto simp: nxt_def less_Suc_eq)
      then have "dfs_ok adj (st\<lparr>stack := (node, idx + 1) # rest\<rparr>)"
        using path dist gray blacks sok True unfolding dfs_ok_def by simp
      then show ?thesis using True BLACK by (auto simp: dfs_step_def Let_def nxt_def)
    qed
  next
    case False
    define st' where "st' = \<lparr>stack = rest, path = rev (map fst rest), colours = dict_set (colours st) node BLACK\<rparr>"
    have "dfs_step adj (node, idx) rest st = Inr (Continue st')"
      using False path by (simp add: dfs_step_def Let_def st'_def)
    moreover have all: "\<forall>m \<in> set ?succs. colour_of (colours st) m = BLACK"
      using sok False by (auto simp: in_set_conv_nth)
    moreover have "colour_of (colours st) node = GRAY" using gray path by simp
    then have "blacks_ok adj (colours st')"
      unfolding st'_def dfs.simps by (intro blacks_ok_finish [OF blacks _ all]) simp
    moreover have "stack_ok adj (colours st') None rest"
    proof (cases rest)
      case (Cons e rest')
      obtain n i where e: "e = (n, i)" by force
      have "stack_ok adj (colours st') (Some node) rest"
        using sok by (auto intro!: stack_ok_mono [where cols = "colours st"] simp: st'_def)
      moreover have "colour_of (colours st') (graph_succs adj n ! j) = BLACK" if "j < i" for j
        using calculation that Cons e by (cases "j = i - 1") (auto simp: st'_def)
      ultimately show ?thesis using Cons e by auto
    qed simp
    moreover have "\<forall>n. colour_of (colours st') n = GRAY \<longleftrightarrow> n \<in> set (path st')"
      using gray path dist by (auto simp: st'_def)
    ultimately show ?thesis
      using dist path by (intro disjI2 exI [of _ st']) (auto simp: dfs_ok_def st'_def)
  qed
qed


lemma dfs_loop_ok:
  assumes "dfs_ok adj st"
  shows "(\<exists>c cols. dfs_loop adj st = Inr (Some c, cols) \<and> is_cycle adj c)
    \<or> (\<exists>cols. dfs_loop adj st = Inr (None, cols) \<and> blacks_ok adj cols
         \<and> (\<forall>n. colour_of cols n \<noteq> GRAY) \<and> (\<forall>n. colour_of (colours st) n \<noteq> WHITE \<longrightarrow> colour_of cols n \<noteq> WHITE))"
  using assms
proof (induction adj st rule: dfs_loop.induct)
  case (1 adj st)
  show ?case
  proof (cases "stack st")
    case Nil
    then show ?thesis using 1(2) by (auto simp: dfs_loop.simps [of adj st] dfs_ok_def)
  next
    case (Cons e rest)
    obtain node idx where e: "e = (node, idx)" by force
    from dfs_step_ok [OF 1(2) Cons [unfolded e]] show ?thesis
    proof (elim disjE exE conjE)
      fix c assume "dfs_step adj (node, idx) rest st = Inr (Cycle c)" "is_cycle adj c"
      then show ?thesis using Cons e by (simp add: dfs_loop.simps [of adj st])
    next
      fix st' assume step: "dfs_step adj (node, idx) rest st = Inr (Continue st')" and ok: "dfs_ok adj st'"
        and mono: "\<forall>n. colour_of (colours st) n \<noteq> WHITE \<longrightarrow> colour_of (colours st') n \<noteq> WHITE"
      then have "dfs_loop adj st = dfs_loop adj st'" using Cons e by (simp add: dfs_loop.simps [of adj st])
      moreover from 1(1) [OF Cons step [folded e] refl ok] mono
      have "(\<exists>c cols. dfs_loop adj st' = Inr (Some c, cols) \<and> is_cycle adj c)
        \<or> (\<exists>cols. dfs_loop adj st' = Inr (None, cols) \<and> blacks_ok adj cols
         \<and> (\<forall>n. colour_of cols n \<noteq> GRAY) \<and> (\<forall>n. colour_of (colours st) n \<noteq> WHITE \<longrightarrow> colour_of cols n \<noteq> WHITE))"
        by blast
      ultimately show ?thesis by simp
    qed
  qed
qed

lemma dfs_roots_ok:
  assumes "blacks_ok adj cols" and "\<forall>n. colour_of cols n \<noteq> GRAY"
    and "\<forall>n \<in> fst ` set adj. n \<in> set roots \<or> colour_of cols n \<noteq> WHITE"
  shows "(\<exists>c. dfs_roots adj roots cols = Inr (Some c) \<and> is_cycle adj c)
    \<or> (dfs_roots adj roots cols = Inr None \<and> acyclic (graph_edges adj))"
  using assms
proof (induction roots arbitrary: cols)
  case Nil
  then have black: "colour_of cols n = BLACK" if "n \<in> fst ` set adj" for n
    using that by (cases "colour_of cols n") auto
  have "(a, a) \<notin> (graph_edges adj)\<^sup>+" for a
  proof
    assume cyc: "(a, a) \<in> (graph_edges adj)\<^sup>+"
    then obtain b where "(a, b) \<in> graph_edges adj" by (meson tranclD)
    then have "map_of adj a \<noteq> None" by (cases "map_of adj a") (auto simp: graph_edges_def graph_succs_def get_or_def)
    then have "colour_of cols a = BLACK" by (intro black) (simp add: map_of_eq_None_iff)
    with Nil(1) cyc show False by (auto simp: blacks_ok_def)
  qed
  then show ?case by (simp add: acyclic_def)
next
  case (Cons root roots)
  show ?case
  proof (cases "colour_of cols root = WHITE")
    case False
    have "\<forall>n \<in> fst ` set adj. n \<in> set roots \<or> colour_of cols n \<noteq> WHITE"
    proof
      fix n assume "n \<in> fst ` set adj"
      with Cons.prems(3) have "n = root \<or> n \<in> set roots \<or> colour_of cols n \<noteq> WHITE" by auto
      with False show "n \<in> set roots \<or> colour_of cols n \<noteq> WHITE" by auto
    qed
    from Cons.IH [OF Cons.prems(1,2) this] False show ?thesis by simp
  next
    case True
    let ?st = "\<lparr>stack = [(root, 0)], path = [root], colours = dict_set cols root GRAY\<rparr>"
    have "dfs_ok adj ?st" using Cons.prems(1,2) True by (auto simp: dfs_ok_def blacks_ok_def)
    from dfs_loop_ok [OF this] show ?thesis
    proof (elim disjE exE conjE)
      fix c cols' assume "dfs_loop adj ?st = Inr (Some c, cols')" "is_cycle adj c"
      then show ?thesis using True by simp
    next
      fix cols' assume l: "dfs_loop adj ?st = Inr (None, cols')" and b: "blacks_ok adj cols'"
        "\<forall>n. colour_of cols' n \<noteq> GRAY" and m: "\<forall>n. colour_of (colours ?st) n \<noteq> WHITE \<longrightarrow> colour_of cols' n \<noteq> WHITE"
      have "\<forall>n \<in> fst ` set adj. n \<in> set roots \<or> colour_of cols' n \<noteq> WHITE"
      proof
        fix n assume "n \<in> fst ` set adj"
        with Cons.prems(3) have "n \<in> set roots \<or> n = root \<or> colour_of cols n \<noteq> WHITE" by auto
        then show "n \<in> set roots \<or> colour_of cols' n \<noteq> WHITE" using m [rule_format, of n] by (cases "n = root") auto
      qed
      from Cons.IH [OF b this] l True show ?thesis by simp
    qed
  qed
qed

lemma find_cycle_correct:
  "(\<exists>c. find_cycle adj = Inr (Some c) \<and> is_cycle adj c) \<or> (find_cycle adj = Inr None \<and> acyclic (graph_edges adj))"
  unfolding find_cycle_def by (rule dfs_roots_ok) (auto simp: blacks_ok_def colour_of_def get_or_def)

end
