(* ===== verification/Rule_Check.thy ===== *)
theory Rule_Check
  imports Scan_Check Worklist Comb_Cycle
begin

text \<open>
  The DFT rule checker: \<^verbatim>\<open>faultflow/rule_check/{model,facts,rules,report}.py\<close>. Structural facts are derived
  from the netlist and the cell map; every rule reads the facts and returns violations. Sets of the
  source are lists here, used through membership, \<open>sorted_set\<close> and their number of elements.
\<close>

section \<open>Violations and reports\<close>

datatype Severity = ERROR | WARNING | INFO

fun severity_value :: "Severity \<Rightarrow> string" where
  "severity_value ERROR = ''error''"
| "severity_value WARNING = ''warning''"
| "severity_value INFO = ''info''"

fun severity_upper :: "Severity \<Rightarrow> string" where
  "severity_upper ERROR = ''ERROR''"
| "severity_upper WARNING = ''WARNING''"
| "severity_upper INFO = ''INFO''"

record Violation =
  rule_id :: string
  severity :: Severity
  title :: string
  message :: string

definition violation :: "string \<Rightarrow> Severity \<Rightarrow> string \<Rightarrow> string \<Rightarrow> Violation" where
  "violation i s t m = \<lparr>rule_id = i, severity = s, title = t, message = m\<rparr>"

definition format_line :: "Violation \<Rightarrow> string" where
  "format_line v = ''['' @ severity_upper (severity v) @ ''] '' @ rule_id v @ '' '' @ title v @ '': '' @ message v"

record RuleCheckReport =
  report_top :: string
  violations :: "Violation list"

definition with_severity :: "Severity \<Rightarrow> RuleCheckReport \<Rightarrow> Violation list" where
  "with_severity s r = filter (\<lambda>v. severity v = s) (violations r)"

definition rule_check_passed :: "RuleCheckReport \<Rightarrow> bool \<Rightarrow> bool" where
  "rule_check_passed r strict =
     (if with_severity ERROR r \<noteq> [] then False
      else if strict \<and> with_severity WARNING r \<noteq> [] then False
      else True)"

section \<open>Netlist facts\<close>

record CellFact =
  cf_instance :: string
  cf_cell_type :: string
  cf_node_type :: string
  cf_gate_type :: "string option"
  cf_inputs :: "int dict"
  cf_outputs :: "int dict"
  cf_clock_pin :: "string option"
  cf_clock_net :: "int option"

definition is_ff :: "CellFact \<Rightarrow> bool" where
  "is_ff c = (cf_node_type c = ''FF'')"

definition is_buffer :: "CellFact \<Rightarrow> bool" where
  "is_buffer c = (cf_node_type c = ''GATE'' \<and> (cf_gate_type c = Some ''BUF'' \<or> cf_gate_type c = Some ''INV''))"

record NetlistFacts =
  nf_top :: string
  pis :: "int list"
  pos :: "int list"
  nf_cells :: "CellFact list"
  driver_of :: "(int \<times> string \<times> string) list"
  sinks_of :: "(int \<times> (string \<times> string) list) list"
  nf_clock_nets :: "int list"
  multi_driven :: "(int \<times> string list) list"
  net_names :: "(int \<times> string) list"

definition empty_facts :: "string \<Rightarrow> NetlistFacts" where
  "empty_facts top_name = \<lparr>nf_top = top_name, pis = [], pos = [], nf_cells = [], driver_of = [],
     sinks_of = [], nf_clock_nets = [], multi_driven = [], net_names = []\<rparr>"

definition net_name :: "NetlistFacts \<Rightarrow> int \<Rightarrow> string" where
  "net_name facts net = get_or (net_names facts) net (''net'' @ show_int net)"

definition add_port_fact :: "string \<times> json \<Rightarrow> NetlistFacts \<Rightarrow> NetlistFacts" where
  "add_port_fact = (\<lambda>(name, raw) facts.
     case as_obj raw of
       None \<Rightarrow> facts
     | Some port \<Rightarrow>
         fold (\<lambda>b f.
           let f1 = f\<lparr>net_names := setdefault (net_names f) b name\<rparr>;
               direction = get_or port ''direction'' JNull
           in if direction = JStr ''input'' then f1\<lparr>pis := List.insert b (pis f1)\<rparr>
              else if direction = JStr ''output'' then f1\<lparr>pos := List.insert b (pos f1)\<rparr> else f1)
           (bits_of raw) facts)"

definition add_netname_fact :: "string \<times> json \<Rightarrow> NetlistFacts \<Rightarrow> NetlistFacts" where
  "add_netname_fact = (\<lambda>(name, raw) facts.
     fold (\<lambda>b f. f\<lparr>net_names := setdefault (net_names f) b name\<rparr>) (bits_of raw) facts)"

text \<open>The nets on a list of pins, for the pins with a single concrete net.\<close>

definition pin_nets :: "jobj \<Rightarrow> string list \<Rightarrow> int dict" where
  "pin_nets conns pins =
     fold (\<lambda>pin nets. case maybe_one_bit (get_or conns pin JNull) of
        None \<Rightarrow> nets | Some net \<Rightarrow> dict_set nets pin net) pins []"

definition cell_fact :: "jobj \<Rightarrow> string \<Rightarrow> jobj \<Rightarrow> CellFact res" where
  "cell_fact cell_map name cell =
     (let cell_type = py_str (get_or cell ''type'' (JStr []));
          conns = (case as_obj (get_or cell ''connections'' (JObj [])) of None \<Rightarrow> [] | Some c \<Rightarrow> c)
      in case lookup_cell cell_map cell_type of
           None \<Rightarrow> Inr \<lparr>cf_instance = name, cf_cell_type = cell_type, cf_node_type = ''GATE'',
              cf_gate_type = None, cf_inputs = [], cf_outputs = [], cf_clock_pin = None, cf_clock_net = None\<rparr>
         | Some (_, entry) \<Rightarrow>
             bind_res (py_tuple (get_or entry ''inputs'' (JList []))) (\<lambda>raw_ins.
             let node_type = py_str (get_or entry ''node_type'' (JStr ''GATE''));
                 in_pins = List.map_filter as_str raw_ins;
                 out_pins = (case as_obj (get_or entry ''outputs'' (JObj [])) of
                     None \<Rightarrow> [] | Some outs \<Rightarrow> List.map_filter as_str (map snd outs));
                 clock_pin = (if node_type = ''FF'' then
                     Option.bind (as_obj (get_or entry ''ff'' JNull))
                       (\<lambda>ff_meta. nonempty_str (get_or ff_meta ''clock'' JNull)) else None);
                 input_nets = pin_nets conns in_pins
             in Inr \<lparr>cf_instance = name, cf_cell_type = cell_type, cf_node_type = node_type,
                  cf_gate_type = as_str (get_or entry ''gate_type'' JNull), cf_inputs = input_nets,
                  cf_outputs = pin_nets conns out_pins, cf_clock_pin = clock_pin,
                  cf_clock_net = Option.bind clock_pin (map_of input_nets)\<rparr>))"

definition add_driver :: "string \<Rightarrow> string \<times> int \<Rightarrow> NetlistFacts \<Rightarrow> NetlistFacts" where
  "add_driver name = (\<lambda>(pin, net) f.
     case map_of (driver_of f) net of
       Some (prior, _) \<Rightarrow>
         f\<lparr>multi_driven := dict_set (multi_driven f) net (get_or (multi_driven f) net [prior] @ [name])\<rparr>
     | None \<Rightarrow> f\<lparr>driver_of := dict_set (driver_of f) net (name, pin)\<rparr>)"

definition add_sink :: "string \<Rightarrow> string \<times> int \<Rightarrow> NetlistFacts \<Rightarrow> NetlistFacts" where
  "add_sink name = (\<lambda>(pin, net) f.
     f\<lparr>sinks_of := dict_set (sinks_of f) net (get_or (sinks_of f) net [] @ [(name, pin)])\<rparr>)"

definition add_cell_fact :: "CellFact \<Rightarrow> NetlistFacts \<Rightarrow> NetlistFacts" where
  "add_cell_fact c f0 =
     (let f1 = (case cf_clock_net c of None \<Rightarrow> f0
                  | Some net \<Rightarrow> f0\<lparr>nf_clock_nets := List.insert net (nf_clock_nets f0)\<rparr>);
          f2 = f1\<lparr>nf_cells := nf_cells f1 @ [c]\<rparr>;
          f3 = fold (add_driver (cf_instance c)) (cf_outputs c) f2
      in fold (add_sink (cf_instance c)) (cf_inputs c) f3)"

definition build_netlist_facts :: "json \<Rightarrow> json \<Rightarrow> string \<Rightarrow> NetlistFacts res" where
  "build_netlist_facts netlist_json cell_map_json top_name =
     bind_res (load_json netlist_json ''netlist_json'') (\<lambda>data.
     bind_res (load_json cell_map_json ''cell_map_json'') (\<lambda>cell_map.
     bind_res (top_module data top_name) (\<lambda>(_, module).
     let entries = (\<lambda>key. case as_obj (get_or module key (JObj [])) of None \<Rightarrow> [] | Some d \<Rightarrow> d);
         f1 = fold add_port_fact (entries ''ports'') (empty_facts top_name);
         f2 = fold add_netname_fact (entries ''netnames'') f1
     in fold_res (\<lambda>(name, raw) f.
          case as_obj raw of
            None \<Rightarrow> Inr f
          | Some cell \<Rightarrow> bind_res (cell_fact cell_map name cell) (\<lambda>c. Inr (add_cell_fact c f)))
          (entries ''cells'') f2)))"

section \<open>Clock rules\<close>

definition cell_index :: "NetlistFacts \<Rightarrow> CellFact dict" where
  "cell_index facts = dict_of (map (\<lambda>c. (cf_instance c, c)) (nf_cells facts))"

definition net_label :: "NetlistFacts \<Rightarrow> int \<Rightarrow> string" where
  "net_label facts net = net_name facts net @ '' (net '' @ show_int net @ '')''"

definition rule_multiple_clock_domains :: "NetlistFacts \<Rightarrow> Violation list" where
  "rule_multiple_clock_domains facts =
     (if length (nf_clock_nets facts) \<le> 1 then []
      else
        let count = (\<lambda>n. length (filter (\<lambda>c. is_ff c \<and> cf_clock_net c = Some n) (nf_cells facts)));
            dom_str = (\<lambda>n. net_name facts n @ '' ('' @ show_nat (count n) @ '' '' @
              (if count n = 1 then ''FF'' else ''FFs'') @ '')'')
        in [violation ''CLK003'' INFO ''multiple clock domains''
              (''design has '' @ show_nat (length (nf_clock_nets facts)) @ '' clock domains: '' @
               join_str '', '' (map dom_str (sort (nf_clock_nets facts))) @
               ''; stuck-at, scan ATPG, and per-domain at-speed transition are supported'')])"

text \<open>\<^verbatim>\<open>_ff_d_reachable\<close>: the nets reached from \<open>start_net\<close> through cells that are not flip-flops, and the
  flip-flop data pins on them.\<close>

definition comb_sinks :: "NetlistFacts \<Rightarrow> CellFact dict \<Rightarrow> int \<Rightarrow> int list" where
  "comb_sinks facts cells net =
     concat (map (\<lambda>(sink_inst, sink_pin).
       case map_of cells sink_inst of
         None \<Rightarrow> []
       | Some sink \<Rightarrow> if is_ff sink then [] else map snd (cf_outputs sink)) (get_or (sinks_of facts) net []))"

definition ff_pins :: "NetlistFacts \<Rightarrow> CellFact dict \<Rightarrow> int \<Rightarrow> (string \<times> string) list" where
  "ff_pins facts cells net =
     filter (\<lambda>(sink_inst, sink_pin).
       case map_of cells sink_inst of
         None \<Rightarrow> False
       | Some sink \<Rightarrow> is_ff sink \<and> Some sink_pin \<noteq> cf_clock_pin sink) (get_or (sinks_of facts) net [])"

definition ff_d_reachable :: "NetlistFacts \<Rightarrow> CellFact dict \<Rightarrow> int \<Rightarrow> (string \<times> string) list" where
  "ff_d_reachable facts cells start_net =
     remdups (concat (map (ff_pins facts cells)
       (pop_search (map fst (sinks_of facts)) (comb_sinks facts cells) [] [start_net])))"

definition cross_domain_pairs :: "NetlistFacts \<Rightarrow> (string \<times> string) list" where
  "cross_domain_pairs facts =
     (let cells = cell_index facts
      in remdups (concat (map (\<lambda>cell.
           if \<not> is_ff cell then []
           else concat (map (\<lambda>(_, q_net).
             List.map_filter (\<lambda>(dst_inst, _).
               case map_of cells dst_inst of
                 None \<Rightarrow> None
               | Some dst \<Rightarrow> if is_ff dst \<and> cf_clock_net dst \<noteq> cf_clock_net cell
                             then Some (cf_instance cell, dst_inst) else None)
               (ff_d_reachable facts cells q_net)) (cf_outputs cell))) (nf_cells facts))))"

definition rule_cross_domain_data_paths :: "NetlistFacts \<Rightarrow> Violation list" where
  "rule_cross_domain_data_paths facts =
     (if length (nf_clock_nets facts) \<le> 1 then []
      else let pairs = cross_domain_pairs facts
        in if pairs = [] then []
           else [violation ''CLK004'' INFO ''cross-domain data paths''
             (show_nat (length pairs) @ '' cross-domain FF->FF data path(s): '' @
              join_str '', '' (map (\<lambda>(s, d). s @ ''->'' @ d) (sort pairs)) @
              ''; masked during per-domain at-speed transition ATPG'')])"

text \<open>\<^verbatim>\<open>_clock_controllable\<close>: follow the clock back through buffers and inverters to an input.\<close>

definition buffer_input :: "NetlistFacts \<Rightarrow> CellFact dict \<Rightarrow> int \<Rightarrow> int option" where
  "buffer_input facts cells net =
     (case map_of (driver_of facts) net of
        None \<Rightarrow> None
      | Some (drv, _) \<Rightarrow>
          (case map_of cells drv of
             None \<Rightarrow> None
           | Some cell \<Rightarrow> if is_buffer cell \<and> length (cf_inputs cell) = 1 then Some (snd (hd (cf_inputs cell))) else None))"

function trace_clock :: "NetlistFacts \<Rightarrow> CellFact dict \<Rightarrow> int \<Rightarrow> int list \<Rightarrow> bool" where
  "trace_clock facts cells cur seen =
     (if cur \<in> set (pis facts) then True
      else if cur \<in> set seen then False
      else case buffer_input facts cells cur of
        None \<Rightarrow> False
      | Some next_net \<Rightarrow> trace_clock facts cells next_net (cur # seen))"
  by pat_completeness auto
termination
proof (relation "measure (\<lambda>(facts, cells, cur, seen). card (fst ` set (driver_of facts) - set seen))", goal_cases)
  case (2 facts cells cur seen next_net)
  then have "cur \<in> fst ` set (driver_of facts)"
    by (force simp: buffer_input_def dest: map_of_SomeD split: option.splits)
  with 2(2) have "fst ` set (driver_of facts) - set (cur # seen) \<subset> fst ` set (driver_of facts) - set seen" by auto
  then show ?case by (simp add: psubset_card_mono)
qed simp

declare trace_clock.simps [simp del]

definition clock_controllable :: "NetlistFacts \<Rightarrow> CellFact dict \<Rightarrow> int \<Rightarrow> bool" where
  "clock_controllable facts cells clock_net = trace_clock facts cells clock_net []"

definition rule_uncontrollable_clock :: "NetlistFacts \<Rightarrow> Violation list" where
  "rule_uncontrollable_clock facts =
     (let cells = cell_index facts
      in map (\<lambda>clock_net. violation ''CLK001'' ERROR ''uncontrollable clock''
             (''clock '' @ net_label facts clock_net @ '' is not controllable from a PI ('' @
              (case map_of (driver_of facts) clock_net of
                 Some (drv, _) \<Rightarrow> ''driven by '' @ drv | None \<Rightarrow> ''undriven internal net'') @
              ''); the scan/capture protocol cannot pulse it''))
           (filter (\<lambda>n. \<not> clock_controllable facts cells n) (sort (nf_clock_nets facts))))"

definition rule_clock_as_data :: "NetlistFacts \<Rightarrow> Violation list" where
  "rule_clock_as_data facts =
     (let cells = cell_index facts
      in concat (map (\<lambda>clock_net. List.map_filter (\<lambda>(inst, pin).
             case map_of cells inst of
               None \<Rightarrow> None
             | Some cell \<Rightarrow>
                 if is_ff cell \<and> Some pin = cf_clock_pin cell \<or> is_buffer cell then None
                 else Some (violation ''CLK002'' WARNING ''clock-as-data''
                   (''clock '' @ net_label facts clock_net @ '' also drives data pin '' @ inst @ ''.'' @ pin @
                    '' ('' @ cf_cell_type cell @ '')''))) (get_or (sinks_of facts) clock_net []))
           (sort (nf_clock_nets facts))))"

definition rule_multi_driver :: "NetlistFacts \<Rightarrow> Violation list" where
  "rule_multi_driver facts =
     map (\<lambda>(net, drivers). violation ''NET001'' ERROR ''multi-driver net''
       (''net '' @ net_label facts net @ '' is driven by '' @ show_nat (length drivers) @ '' cells: '' @
        join_str '', '' drivers)) (sort_key fst (multi_driven facts))"


section \<open>Combinational feedback\<close>

definition comb_graph :: "NetlistFacts \<Rightarrow> int graph" where
  "comb_graph facts =
     fold (\<lambda>cell adj.
       if is_ff cell then adj
       else fold (\<lambda>(_, inet) adj. fold (\<lambda>(_, onet) adj.
              if inet = onet then adj
              else dict_set adj inet (get_or adj inet [] @ [onet])) (cf_outputs cell) adj) (cf_inputs cell) adj)
       (nf_cells facts) []"

definition find_comb_cycle :: "NetlistFacts \<Rightarrow> int list option res" where
  "find_comb_cycle facts = find_cycle (comb_graph facts)"

definition rule_combinational_feedback :: "NetlistFacts \<Rightarrow> Violation list res" where
  "rule_combinational_feedback facts =
     bind_res (find_comb_cycle facts) (\<lambda>found.
       case found of
         None \<Rightarrow> Inr []
       | Some c \<Rightarrow> Inr [violation ''STRUCT001'' ERROR ''combinational feedback loop''
             (''combinational cycle through nets: '' @ join_str '' -> '' (map (net_name facts) c))])"

section \<open>Scan rules and the whole check\<close>

text \<open>The text of an exception that the scan check lets through (\<^verbatim>\<open>except Exception\<close>) is a parameter.\<close>

definition rules_scan :: "file_system \<Rightarrow> (py_exc \<Rightarrow> string) \<Rightarrow> jobj \<Rightarrow> Violation list" where
  "rules_scan fs exc_message manifest =
     (case check_scan_structure fs manifest False of
        Inl e \<Rightarrow> [violation ''SCAN001'' ERROR ''scan structure'' (''scan structural check failed: '' @ exc_message e)]
      | Inr r \<Rightarrow>
          map (violation ''SCAN001'' ERROR ''scan structure'') (scr_errors r)
          @ map (violation ''SCAN001'' WARNING ''scan structure'') (scr_warnings r)
          @ (case as_list (get_or manifest ''ineligible_ffs'' (JList [])) of
               None \<Rightarrow> []
             | Some inel \<Rightarrow> map (\<lambda>ff. violation ''SCAN010'' WARNING ''non-scannable FF''
                 (''FF '' @ py_str (get_or ff ''instance'' JNull) @ '' ('' @ py_str (get_or ff ''cell_type'' JNull) @
                  '') is not scannable: '' @ py_str (get_or ff ''reason'' JNull))) (List.map_filter as_obj inel)))"

definition run_rule_check ::
  "file_system \<Rightarrow> (py_exc \<Rightarrow> string) \<Rightarrow> json \<Rightarrow> json \<Rightarrow> string \<Rightarrow> jobj option \<Rightarrow> RuleCheckReport res" where
  "run_rule_check fs exc_message netlist_json cell_map_json top_name manifest =
     bind_res (build_netlist_facts netlist_json cell_map_json top_name) (\<lambda>facts.
     bind_res (rule_combinational_feedback facts) (\<lambda>feedback.
     Inr \<lparr>report_top = top_name,
          violations = rule_multiple_clock_domains facts @ rule_cross_domain_data_paths facts
            @ rule_uncontrollable_clock facts @ rule_clock_as_data facts @ rule_multi_driver facts @ feedback
            @ (case manifest of None \<Rightarrow> [] | Some m \<Rightarrow> rules_scan fs exc_message m)\<rparr>))"

section \<open>Reports\<close>

definition status_text :: "RuleCheckReport \<Rightarrow> bool \<Rightarrow> string" where
  "status_text r strict = (if rule_check_passed r strict then ''PASS'' else ''FAIL'')"

fun severity_order :: "Severity \<Rightarrow> nat" where
  "severity_order ERROR = 0"
| "severity_order WARNING = 1"
| "severity_order INFO = 2"

definition format_text :: "RuleCheckReport \<Rightarrow> bool \<Rightarrow> string" where
  "format_text r strict =
     join_str [CHR 10]
       ([''faultflow rule_check (DFT DRC) for '' @ report_top r,
         ''status: '' @ status_text r strict @ ''   errors='' @ show_nat (length (with_severity ERROR r)) @
         '' warnings='' @ show_nat (length (with_severity WARNING r)) @
         '' info='' @ show_nat (length (with_severity INFO r))]
        @ (if violations r = [] then [''no rule violations'']
           else map format_line (sort_key (\<lambda>v. (severity_order (severity v), rule_id v)) (violations r))))
     @ [CHR 10]"

definition to_json :: "RuleCheckReport \<Rightarrow> bool \<Rightarrow> jobj" where
  "to_json r strict =
     [(''version'', JInt 1), (''top'', JStr (report_top r)), (''status'', JStr (status_text r strict)),
      (''summary'', JObj [(''errors'', JInt (int (length (with_severity ERROR r)))),
         (''warnings'', JInt (int (length (with_severity WARNING r)))),
         (''info'', JInt (int (length (with_severity INFO r))))]),
      (''violations'', JList (map (\<lambda>v. JObj [(''rule_id'', JStr (rule_id v)),
         (''severity'', JStr (severity_value (severity v))), (''title'', JStr (title v)),
         (''message'', JStr (message v))]) (violations r)))]"

definition validate_report_shape :: "jobj \<Rightarrow> unit res" where
  "validate_report_shape report =
     (let missing = sorted_set (filter (\<lambda>k. \<not> has_key report k) [''version'', ''top'', ''status'', ''summary'', ''violations''])
      in if missing \<noteq> []
         then Inl (RuleCheckReportError (''rule_check report missing keys: '' @ py_repr (JList (map JStr missing))))
         else bind_res (py_tuple (get_or report ''summary'' JNull)) (\<lambda>summary_keys.
           let summary_missing = sorted_set (filter (\<lambda>k. JStr k \<notin> set summary_keys) [''errors'', ''warnings'', ''info''])
           in if summary_missing \<noteq> []
              then Inl (RuleCheckReportError (''rule_check summary missing keys: '' @
                     py_repr (JList (map JStr summary_missing))))
              else if as_list (get_or report ''violations'' JNull) = None
              then Inl (RuleCheckReportError ''rule_check report violations must be an array'')
              else Inr ()))"

end
