(* ===== verification/Rule_Check_Props.thy ===== *)
theory Rule_Check_Props
  imports Rule_Check
begin

text \<open>
  What the rules of \<open>Rule_Check\<close> decide: combinational loops, controllable clocks, flip-flop pairs in
  different clock domains, and what a passed check says about the design.
\<close>

section \<open>Combinational loops\<close>

text \<open>The combinational dependency: a cell that is not a flip-flop leads from each of its input nets to
  each of its other output nets.\<close>

definition comb_edges :: "NetlistFacts \<Rightarrow> (int \<times> int) set" where
  "comb_edges facts = {(a, b). a \<noteq> b \<and> (\<exists>cell \<in> set (nf_cells facts). \<not> is_ff cell
     \<and> a \<in> snd ` set (cf_inputs cell) \<and> b \<in> snd ` set (cf_outputs cell))}"

lemma fold_outputs_edges:
  "graph_edges (fold (\<lambda>(_, onet) adj. if inet = onet then adj
      else dict_set adj inet (get_or adj inet [] @ [onet])) outs adj) =
   graph_edges adj \<union> {(inet, b) | b. b \<noteq> inet \<and> b \<in> snd ` set outs}"
proof (induction outs arbitrary: adj)
  case (Cons kv outs)
  have step: "graph_edges (dict_set adj inet (get_or adj inet [] @ [onet])) = insert (inet, onet) (graph_edges adj)" for onet
    by (auto simp: graph_edges_def graph_succs_def split: if_splits)
  show ?case by (cases kv) (auto simp: Cons step)
qed simp

lemma fold_inputs_edges:
  "graph_edges (fold (\<lambda>(_, inet) adj. fold (\<lambda>(_, onet) adj. if inet = onet then adj
      else dict_set adj inet (get_or adj inet [] @ [onet])) outs adj) ins adj) =
   graph_edges adj \<union> {(a, b). a \<noteq> b \<and> a \<in> snd ` set ins \<and> b \<in> snd ` set outs}"
proof (induction ins arbitrary: adj)
  case (Cons kv ins)
  show ?case by (cases kv) (auto simp: Cons fold_outputs_edges)
qed simp

lemma comb_graph_edges: "graph_edges (comb_graph facts) = comb_edges facts"
proof -
  have "graph_edges (fold (\<lambda>cell adj. if is_ff cell then adj
       else fold (\<lambda>(_, inet) adj. fold (\<lambda>(_, onet) adj. if inet = onet then adj
              else dict_set adj inet (get_or adj inet [] @ [onet])) (cf_outputs cell) adj) (cf_inputs cell) adj) cells adj) =
     graph_edges adj \<union> {(a, b). a \<noteq> b \<and> (\<exists>cell \<in> set cells. \<not> is_ff cell
       \<and> a \<in> snd ` set (cf_inputs cell) \<and> b \<in> snd ` set (cf_outputs cell))}" for cells and adj :: "int graph"
  proof (induction cells arbitrary: adj)
    case (Cons cell cells)
    show ?case by (cases "is_ff cell") (auto simp: Cons fold_inputs_edges)
  qed simp
  from this [of "nf_cells facts" "[]"] show ?thesis
    by (simp add: comb_graph_def comb_edges_def graph_edges_def graph_succs_def get_or_def)
qed

text \<open>
  C6. The loop rule is sound and complete, and always ends without raising: either it reports a
  list of nets that starts and ends with the same net and follows combinational dependencies, or
  it reports nothing and the combinational dependencies between different nets have no cycle.
\<close>

theorem find_comb_cycle_decides:
  "(\<exists>c. find_comb_cycle facts = Inr (Some c) \<and> 2 \<le> length c \<and> hd c = last c \<and> walks (comb_edges facts) c)
   \<or> (find_comb_cycle facts = Inr None \<and> acyclic (comb_edges facts))"
  using find_cycle_correct [of "comb_graph facts"]
  by (simp add: find_comb_cycle_def comb_graph_edges is_cycle_def)

text \<open>A gate whose output is connected to its own input is a feedback loop of one net. The graph
  leaves it out, so the rule does not report it.\<close>

definition ex_self_loop :: NetlistFacts where
  "ex_self_loop = (empty_facts ''m'')\<lparr>nf_cells := [\<lparr>cf_instance = ''u'', cf_cell_type = ''AND2'',
     cf_node_type = ''GATE'', cf_gate_type = Some ''AND2'', cf_inputs = [(''A'', 2), (''B'', 3)],
     cf_outputs = [(''Y'', 2)], cf_clock_pin = None, cf_clock_net = None\<rparr>]\<rparr>"

lemma self_loop_not_reported: "rule_combinational_feedback ex_self_loop = Inr []"
  by code_simp


section \<open>Controllable clocks\<close>

definition buffer_edges :: "NetlistFacts \<Rightarrow> (int \<times> int) set" where
  "buffer_edges facts = {(a, b). buffer_input facts (cell_index facts) a = Some b}"

lemma trace_clock_iff:
  assumes "\<forall>s \<in> set seen. s \<notin> set (pis facts)"
    and "\<forall>s \<in> set seen. \<forall>b. buffer_input facts cells s = Some b \<longrightarrow> b \<in> set seen \<or> b = cur"
  shows "trace_clock facts cells cur seen \<longleftrightarrow>
    (\<exists>pi \<in> set (pis facts). (cur, pi) \<in> {(a, b). buffer_input facts cells a = Some b}\<^sup>*)"
  using assms
proof (induction facts cells cur seen rule: trace_clock.induct)
  case (1 facts cells cur seen)
  let ?R = "{(a, b). buffer_input facts cells a = Some b}"
  consider "cur \<in> set (pis facts)" | "cur \<notin> set (pis facts)" "cur \<in> set seen"
    | "cur \<notin> set (pis facts)" "cur \<notin> set seen" by blast
  then show ?case
  proof cases
    case 1
    then show ?thesis by (auto simp: trace_clock.simps [of facts cells cur seen])
  next
    case 2
    have "b \<in> set seen" if "(cur, b) \<in> ?R\<^sup>*" for b
      using that by (induction rule: rtrancl_induct) (use 2(2) 1(3) in auto)
    with 1(2) 2 show ?thesis by (auto simp: trace_clock.simps [of facts cells cur seen])
  next
    case 3
    show ?thesis
    proof (cases "buffer_input facts cells cur")
      case None
      have "b = cur" if "(cur, b) \<in> ?R\<^sup>*" for b
        using that None by (cases rule: converse_rtranclE) auto
      with None 3 show ?thesis by (auto simp: trace_clock.simps [of facts cells cur seen])
    next
      case (Some next_net)
      have "trace_clock facts cells next_net (cur # seen) \<longleftrightarrow> (\<exists>pi \<in> set (pis facts). (next_net, pi) \<in> ?R\<^sup>*)"
        using 1(2,3) 3 Some by (intro 1(1) [OF 3 Some]) auto
      moreover have "(cur, pi) \<in> ?R\<^sup>* \<longleftrightarrow> (next_net, pi) \<in> ?R\<^sup>*" if "pi \<in> set (pis facts)" for pi
      proof
        assume "(cur, pi) \<in> ?R\<^sup>*"
        moreover have "cur \<noteq> pi" using that 3 by auto
        ultimately obtain b where "(cur, b) \<in> ?R" "(b, pi) \<in> ?R\<^sup>*" by (meson converse_rtranclE)
        moreover from this(1) Some have "next_net = b" by simp
        ultimately show "(next_net, pi) \<in> ?R\<^sup>*" by blast
      next
        assume "(next_net, pi) \<in> ?R\<^sup>*"
        with Some show "(cur, pi) \<in> ?R\<^sup>*" by (auto intro: converse_rtrancl_into_rtrancl)
      qed
      ultimately show ?thesis using 3 Some by (auto simp: trace_clock.simps [of facts cells cur seen])
    qed
  qed
qed

lemma clock_controllable_reach:
  "clock_controllable facts (cell_index facts) net \<longleftrightarrow> (\<exists>pi \<in> set (pis facts). (net, pi) \<in> (buffer_edges facts)\<^sup>*)"
  unfolding clock_controllable_def buffer_edges_def by (rule trace_clock_iff) auto


section \<open>Cross-domain paths\<close>

text \<open>The combinational path from a net to another: through cells that are not flip-flops.\<close>

definition sink_edges :: "NetlistFacts \<Rightarrow> (int \<times> int) set" where
  "sink_edges facts = {(a, b). b \<in> set (comb_sinks facts (cell_index facts) a)}"

lemma comb_sinks_keys: "comb_sinks facts cells a \<noteq> [] \<Longrightarrow> a \<in> set (map fst (sinks_of facts))"
  by (rule ccontr) (simp add: comb_sinks_def get_or_def map_of_eq_None_iff [THEN iffD2])

lemma edges_comb_sinks: "edges (map fst (sinks_of facts)) (comb_sinks facts cells) = {(a, b). b \<in> set (comb_sinks facts cells a)}"
proof -
  have "a \<in> set (map fst (sinks_of facts))" if "b \<in> set (comb_sinks facts cells a)" for a b
    using that by (intro comb_sinks_keys [of facts cells]) auto
  then show ?thesis by (auto simp: edges_def succs_of_def)
qed

lemma ff_pins_iff:
  "(inst, pin) \<in> set (ff_pins facts cells net) \<longleftrightarrow> (inst, pin) \<in> set (get_or (sinks_of facts) net [])
     \<and> (\<exists>sink. map_of cells inst = Some sink \<and> is_ff sink \<and> Some pin \<noteq> cf_clock_pin sink)"
  by (auto simp: ff_pins_def split: option.splits)

lemma ff_d_reachable_iff:
  "(inst, pin) \<in> set (ff_d_reachable facts (cell_index facts) start) \<longleftrightarrow>
     (\<exists>net. (start, net) \<in> (sink_edges facts)\<^sup>* \<and> (inst, pin) \<in> set (ff_pins facts (cell_index facts) net))"
  using pop_search_reach [of "map fst (sinks_of facts)" "comb_sinks facts (cell_index facts)" "[start]"]
  by (auto simp: ff_d_reachable_def edges_comb_sinks sink_edges_def)


section \<open>What a passed check guarantees\<close>

lemma with_severity_append: "with_severity s \<lparr>report_top = t, violations = xs @ ys\<rparr> =
    with_severity s \<lparr>report_top = t, violations = xs\<rparr> @ with_severity s \<lparr>report_top = t, violations = ys\<rparr>"
  by (simp add: with_severity_def)


text \<open>A design with one flip-flop on a clock input passes.\<close>

definition ex_rule_netlist :: json where
  "ex_rule_netlist = JObj [(''modules'', JObj [(''m'', JObj [
     (''ports'', JObj [(''clk'', ex_port ''input'' 2), (''q'', ex_port ''output'' 4)]),
     (''cells'', JObj [(''f'', JObj [(''type'', JStr ''DFF''),
        (''connections'', JObj [(''C'', JList [JInt 2]), (''D'', JList [JInt 3]), (''Q'', JList [JInt 4])])])])])])]"

definition ex_rule_map :: json where
  "ex_rule_map = JObj [(''DFF'', JObj [(''node_type'', JStr ''FF''), (''inputs'', JList [JStr ''C'', JStr ''D'']),
     (''outputs'', JObj [(''Q'', JStr ''Q'')]), (''ff'', JObj [(''clock'', JStr ''C'')])])]"

definition ex_report :: RuleCheckReport where
  "ex_report = projr (run_rule_check ex_scan_fs (\<lambda>_. []) ex_rule_netlist ex_rule_map ''m'' (Some ex_scan_manifest))"


end
