(* ===== verification/Site_Key.thy ===== *)
theory Site_Key
  imports Py_Prelude
begin

text \<open>
  Fault site keys: \<^verbatim>\<open>faultflow/coverage/site_key.py\<close>, and the reader \<^verbatim>\<open>_net_id_of\<close> of
  \<^verbatim>\<open>faultflow/project/aggregate.py\<close> that recovers a net id from a key. Keys are the primary identity
  of a fault in the databases, so two different sites must never share one.
\<close>

section \<open>Definitions\<close>

record SiteProvenance =
  yosys_net_id :: int
  kind :: string
  consumer_instance :: string
  input_pin :: string
  pseudo_role :: string

definition from_dict :: "jobj \<Rightarrow> SiteProvenance res" where
  "from_dict raw =
     bind_res (bind_res (getitem raw ''yosys_net_id'') py_int) (\<lambda>net.
     bind_res (getitem raw ''kind'') (\<lambda>k.
     Inr \<lparr>yosys_net_id = net, kind = py_str k,
          consumer_instance = py_str (get_or raw ''consumer_instance'' (JStr [])),
          input_pin = py_str (get_or raw ''input_pin'' (JStr [])),
          pseudo_role = py_str (get_or raw ''pseudo_role'' (JStr []))\<rparr>))"

definition canonical_site_key :: "SiteProvenance \<Rightarrow> string res" where
  "canonical_site_key prov =
     (if kind prov = ''stem'' then Inr (''net:'' @ show_int (yosys_net_id prov) @ '':stem'')
      else if kind prov = ''branch'' then
        if consumer_instance prov = [] \<or> input_pin prov = []
        then Inl (ValueError ''branch site requires consumer_instance and input_pin'')
        else Inr (''net:'' @ show_int (yosys_net_id prov) @ '':branch:'' @ consumer_instance prov @ '':'' @ input_pin prov)
      else if kind prov = ''pseudo'' then
        if consumer_instance prov = [] \<or> pseudo_role prov = []
        then Inl (ValueError ''pseudo site requires consumer_instance and pseudo_role'')
        else Inr (''pseudo:'' @ pseudo_role prov @ '':'' @ consumer_instance prov)
      else Inl (ValueError (''unknown site kind: '' @ kind prov)))"

definition stem_site_key :: "int \<Rightarrow> string res" where
  "stem_site_key net = canonical_site_key
     \<lparr>yosys_net_id = net, kind = ''stem'', consumer_instance = [], input_pin = [], pseudo_role = []\<rparr>"

definition net_id_of :: "string \<Rightarrow> int \<Rightarrow> int" where
  "net_id_of fault_site_key net_id =
     (if 0 \<le> net_id then net_id
      else case split_on CHR '':'' fault_site_key of
        p0 # p1 # _ \<Rightarrow> if p0 = ''net'' then (case parse_int p1 of None \<Rightarrow> -1 | Some n \<Rightarrow> n) else -1
      | _ \<Rightarrow> -1)"

section \<open>Keys identify sites\<close>

text \<open>What a site is: a net's stem, a branch into a pin of an instance, or a pseudo port of a scan
  cell.\<close>

datatype site = Stem int | Branch int string string | Pseudo string string

definition site_of :: "SiteProvenance \<Rightarrow> site" where
  "site_of p =
     (if kind p = ''stem'' then Stem (yosys_net_id p)
      else if kind p = ''branch'' then Branch (yosys_net_id p) (consumer_instance p) (input_pin p)
      else Pseudo (pseudo_role p) (consumer_instance p))"

definition no_colon :: "string \<Rightarrow> bool" where
  "no_colon s = (CHR '':'' \<notin> set s)"

lemma split_at_first: "no_colon a \<Longrightarrow> no_colon b \<Longrightarrow> a @ '':'' @ s = b @ '':'' @ t \<longleftrightarrow> a = b \<and> s = t"
proof (induction a arbitrary: b)
  case Nil
  then show ?case by (cases b) (auto simp: no_colon_def)
next
  case (Cons c a)
  then show ?case by (cases b) (auto simp: no_colon_def)
qed

lemma split_at_last:
  assumes "no_colon a" and "no_colon b"
  shows "s @ '':'' @ a = t @ '':'' @ b \<longleftrightarrow> s = t \<and> a = b"
proof -
  have r: "no_colon (rev a)" "no_colon (rev b)" using assms by (auto simp: no_colon_def)
  have "s @ '':'' @ a = t @ '':'' @ b \<longleftrightarrow> rev (s @ '':'' @ a) = rev (t @ '':'' @ b)" by (simp only: rev_is_rev_conv)
  also have "\<dots> \<longleftrightarrow> rev a @ '':'' @ rev s = rev b @ '':'' @ rev t" by simp
  also have "\<dots> \<longleftrightarrow> s = t \<and> a = b" using split_at_first [OF r] by auto
  finally show ?thesis .
qed

lemma no_colon_show_int: "no_colon (show_int i)"
  by (simp add: no_colon_def show_int_no_colon)

lemma net_key_split:
  "''net:'' @ show_int i @ '':'' @ s = ''net:'' @ show_int j @ '':'' @ t \<longleftrightarrow> i = j \<and> s = t"
  using split_at_first [OF no_colon_show_int [of i] no_colon_show_int [of j], of s t] by simp

text \<open>The key of a site, by kind.\<close>

fun key_of :: "site \<Rightarrow> string" where
  "key_of (Stem n) = ''net:'' @ show_int n @ '':stem''"
| "key_of (Branch n inst pin) = ''net:'' @ show_int n @ '':branch:'' @ inst @ '':'' @ pin"
| "key_of (Pseudo role inst) = ''pseudo:'' @ role @ '':'' @ inst"

lemma canonical_key_of: "canonical_site_key p = Inr k \<Longrightarrow> k = key_of (site_of p)"
  by (auto simp: canonical_site_key_def site_of_def split: if_splits)

fun plain_site :: "site \<Rightarrow> bool" where
  "plain_site (Stem n) = True"
| "plain_site (Branch n inst pin) = no_colon pin"
| "plain_site (Pseudo role inst) = no_colon role"

lemma key_of_inject: "plain_site s \<Longrightarrow> plain_site t \<Longrightarrow> key_of s = key_of t \<Longrightarrow> s = t"
proof (cases s; cases t)
  fix n inst pin n' inst' pin'
  assume "plain_site s" "plain_site t" "key_of s = key_of t" and s: "s = Branch n inst pin" and t: "t = Branch n' inst' pin'"
  then have "no_colon pin" "no_colon pin'" "''net:'' @ show_int n @ '':'' @ ''branch:'' @ inst @ '':'' @ pin =
      ''net:'' @ show_int n' @ '':'' @ ''branch:'' @ inst' @ '':'' @ pin'" by simp_all
  then have "n = n'" "inst @ '':'' @ pin = inst' @ '':'' @ pin'" unfolding net_key_split by simp_all
  with split_at_last [OF \<open>no_colon pin\<close> \<open>no_colon pin'\<close>] s t show "s = t" by auto
next
  fix n n' inst' pin' assume "key_of s = key_of t" "s = Stem n" "t = Branch n' inst' pin'"
  then have "''net:'' @ show_int n @ '':'' @ ''stem'' = ''net:'' @ show_int n' @ '':'' @ ''branch:'' @ inst' @ '':'' @ pin'" by simp
  then show "s = t" unfolding net_key_split by simp
next
  fix n inst pin n' assume "key_of s = key_of t" "s = Branch n inst pin" "t = Stem n'"
  then have "''net:'' @ show_int n @ '':'' @ ''branch:'' @ inst @ '':'' @ pin = ''net:'' @ show_int n' @ '':'' @ ''stem''" by simp
  then show "s = t" unfolding net_key_split by simp
next
  fix role inst role' inst'
  assume "plain_site s" "plain_site t" "key_of s = key_of t" and st: "s = Pseudo role inst" "t = Pseudo role' inst'"
  then have "no_colon role" "no_colon role'" "role @ '':'' @ inst = role' @ '':'' @ inst'" by simp_all
  with split_at_first st show "s = t" by auto
qed auto

text \<open>
  C23. Site keys are unique. Two sites whose pin and role names hold no colon get the same canonical
  key exactly when they are the same site: the same stem, the same branch (net, instance and pin) or
  the same pseudo port. Instance names may hold colons.
\<close>

theorem canonical_site_key_injective:
  assumes "canonical_site_key p = Inr k" and "canonical_site_key q = Inr l"
    and "plain_site (site_of p)" "plain_site (site_of q)"
  shows "k = l \<longleftrightarrow> site_of p = site_of q"
  using key_of_inject [OF assms(3,4)] canonical_key_of [OF assms(1)] canonical_key_of [OF assms(2)] by auto

definition ex_branch :: "string \<Rightarrow> string \<Rightarrow> SiteProvenance" where
  "ex_branch inst pin = \<lparr>yosys_net_id = 7, kind = ''branch'', consumer_instance = inst, input_pin = pin, pseudo_role = []\<rparr>"

theorem canonical_site_key_injective_witness:
  "''net:7:branch:u:1:A'' = ''net:7:branch:u:1:B'' \<longleftrightarrow> site_of (ex_branch ''u:1'' ''A'') = site_of (ex_branch ''u:1'' ''B'')"
proof (rule canonical_site_key_injective)
  show "canonical_site_key (ex_branch ''u:1'' ''A'') = Inr ''net:7:branch:u:1:A''" by code_simp
  show "canonical_site_key (ex_branch ''u:1'' ''B'') = Inr ''net:7:branch:u:1:B''" by code_simp
qed (simp_all add: ex_branch_def site_of_def no_colon_def)

text \<open>
  The net id can be read back: on the canonical key of a stem or branch, \<^verbatim>\<open>_net_id_of\<close> returns the
  site's net id when no explicit one is given, and on the key of a pseudo port it returns -1.
\<close>

theorem net_id_of_canonical_key:
  assumes "canonical_site_key p = Inr k" and "net_id < 0"
  shows "net_id_of k net_id = (if kind p = ''pseudo'' then -1 else yosys_net_id p)"
proof -
  have split: "split_on CHR '':'' (''net:'' @ show_int i @ '':'' @ s) = ''net'' # show_int i # split_on CHR '':'' s" for i s
    using split_on_append_sep [of "CHR '':''" "''net''"] split_on_append_sep [of "CHR '':''" "show_int i" s]
      show_int_no_colon [of i] by simp
  have pseudo: "split_on CHR '':'' (''pseudo:'' @ s) = ''pseudo'' # split_on CHR '':'' s" for s
    using split_on_append_sep [of "CHR '':''" "''pseudo''" s] by simp
  have "net_id_of (''net:'' @ show_int i @ '':'' @ s) net_id = i" for i s
    unfolding net_id_of_def split using assms(2) by simp
  from this [of "yosys_net_id p" "''stem''"] this [of "yosys_net_id p" "''branch:'' @ consumer_instance p @ '':'' @ input_pin p"]
  have net: "net_id_of (''net:'' @ show_int (yosys_net_id p) @ '':stem'') net_id = yosys_net_id p"
    "net_id_of (''net:'' @ show_int (yosys_net_id p) @ '':branch:'' @ consumer_instance p @ '':'' @ input_pin p) net_id = yosys_net_id p"
    by simp_all
  have "net_id_of (''pseudo:'' @ s) net_id = -1" for s
    unfolding net_id_of_def pseudo using assms(2) by (auto split: list.splits)
  with net assms(1) show ?thesis by (auto simp: canonical_site_key_def split: if_splits)
qed

theorem net_id_of_canonical_key_witness:
  "net_id_of ''net:7:branch:u:1:A'' (-1) =
     (if kind (ex_branch ''u:1'' ''A'') = ''pseudo'' then -1 else yosys_net_id (ex_branch ''u:1'' ''A''))"
proof (rule net_id_of_canonical_key)
  show "canonical_site_key (ex_branch ''u:1'' ''A'') = Inr ''net:7:branch:u:1:A''" by code_simp
qed simp

end
