(* ===== verification/Domain_Reach.thy ===== *)
theory Domain_Reach
  imports Netlist Worklist
begin

text \<open>
  \<^verbatim>\<open>faultflow/scan/domain_reach.py\<close>: which nets no single clock domain can both launch a transition on
  and capture from. The code builds the sinks and the driver of every net, searches forward from the
  flip-flop outputs and backward from the flip-flop inputs and primary outputs of each domain, and
  reports the nets outside every intersection. The cell map, when one is given, is a JSON object of
  objects; the two files are given as parsed JSON.

  The main result, \<open>cross_domain_net_iff\<close>, says what the two searches decide together: a net is
  reported exactly if no domain has a combinational path from one of its flip-flops through the net
  to a capture point.
\<close>

section \<open>Pins\<close>

definition SCAN_CONTROL_PINS :: "string list" where
  "SCAN_CONTROL_PINS = [''CLK'', ''SE'', ''SCE'', ''SDI'', ''SI'']"

definition lstrip_backslash :: "string \<Rightarrow> string" where
  "lstrip_backslash s = dropWhile (\<lambda>c. c = CHR 0x5C) s"

text \<open>The fallback when neither port directions nor a matching cell-map entry settles the pin.\<close>

definition is_output_pin_default :: "string \<Rightarrow> string \<Rightarrow> bool" where
  "is_output_pin_default cell_type pin =
     (if lstrip_backslash cell_type = ''$scanff_faultflow'' then pin = ''Q''
      else pin \<in> {''Y'', ''X'', ''Q'', ''CO'', ''SUM'', ''S''})"

definition is_output_pin :: "string \<Rightarrow> string \<Rightarrow> string dict option \<Rightarrow> jobj dict option \<Rightarrow> bool" where
  "is_output_pin cell_type pin port_directions cell_map =
     (case port_directions of
        Some dirs \<Rightarrow> map_of dirs pin = Some ''output''
      | None \<Rightarrow>
          (case Option.bind cell_map (find (\<lambda>(pattern, entry). fnmatchcase cell_type pattern)) of
             None \<Rightarrow> is_output_pin_default cell_type pin
           | Some (pattern, entry) \<Rightarrow>
               (case as_obj (get_or entry ''outputs'' (JObj [])) of
                  Some outputs \<Rightarrow> has_key outputs pin
                | None \<Rightarrow> is_output_pin_default cell_type pin)))"

text \<open>The pins of a cell: name, whether it is an output, and its concrete bits. A cell that is not an
  object, or whose connections are not one, has none.\<close>

definition port_dirs_of :: "jobj \<Rightarrow> string dict option" where
  "port_dirs_of cell = map_option (map (\<lambda>(k, v). (k, py_str v))) (as_obj (get_or cell ''port_directions'' JNull))"

definition cell_pins :: "jobj dict option \<Rightarrow> json \<Rightarrow> (string \<times> bool \<times> int list) list" where
  "cell_pins cell_map j =
     (case as_obj j of
        None \<Rightarrow> []
      | Some cell \<Rightarrow>
          (case as_obj (get_or cell ''connections'' (JObj [])) of
             None \<Rightarrow> []
           | Some conns \<Rightarrow>
               map (\<lambda>(pin, bits_raw).
                 (pin, is_output_pin (py_str (get_or cell ''type'' (JStr []))) pin (port_dirs_of cell) cell_map,
                  int_bits bits_raw)) conns))"

text \<open>One iteration of the innermost loop of the graph construction: instance, pin, direction, bit.\<close>

type_synonym pin_use = "string \<times> string \<times> bool \<times> int"

definition pin_uses :: "jobj dict option \<Rightarrow> jobj \<Rightarrow> pin_use list" where
  "pin_uses cell_map cells =
     concat (map (\<lambda>(inst, cell).
       concat (map (\<lambda>(pin, is_out, bits). map (\<lambda>b. (inst, pin, is_out, b)) bits) (cell_pins cell_map cell))) cells)"

section \<open>The net graph\<close>

record net_graph =
  sinks_of :: "(int \<times> (string \<times> string) list) list"
  driver_of :: "(int \<times> (string \<times> string)) list"
  domain_q_nets :: "(int \<times> int list) list"
  domain_d_nets :: "(int \<times> int list) list"

definition add_to :: "('k \<times> 'v list) list \<Rightarrow> 'k \<Rightarrow> 'v \<Rightarrow> ('k \<times> 'v list) list" where
  "add_to d k v = dict_set d k (get_or d k [] @ [v])"

text \<open>\<open>ff_clock\<close> is \<^verbatim>\<open>ff_clock_net\<close>, whose keys are \<^verbatim>\<open>ff_instances\<close>.\<close>

definition add_pin_use :: "(string \<times> int) list \<Rightarrow> pin_use \<Rightarrow> net_graph \<Rightarrow> net_graph" where
  "add_pin_use ff_clock u g =
     (case u of (inst, pin, is_out, b) \<Rightarrow>
        if is_out then
          g\<lparr>driver_of := dict_set (driver_of g) b (inst, pin),
            domain_q_nets := (case map_of ff_clock inst of
                Some clk \<Rightarrow> if pin = ''Q'' then add_to (domain_q_nets g) clk b else domain_q_nets g
              | None \<Rightarrow> domain_q_nets g)\<rparr>
        else
          g\<lparr>sinks_of := add_to (sinks_of g) b (inst, pin),
            domain_d_nets := (case map_of ff_clock inst of
                Some clk \<Rightarrow> if pin \<notin> set SCAN_CONTROL_PINS then add_to (domain_d_nets g) clk b else domain_d_nets g
              | None \<Rightarrow> domain_d_nets g)\<rparr>)"

definition empty_graph :: "int list \<Rightarrow> net_graph" where
  "empty_graph clock_nets =
     \<lparr>sinks_of = [], driver_of = [], domain_q_nets = dict_of (map (\<lambda>c. (c, [])) clock_nets),
      domain_d_nets = dict_of (map (\<lambda>c. (c, [])) clock_nets)\<rparr>"

definition build_graph :: "(string \<times> int) list \<Rightarrow> int list \<Rightarrow> pin_use list \<Rightarrow> net_graph" where
  "build_graph ff_clock clock_nets uses = fold (add_pin_use ff_clock) uses (empty_graph clock_nets)"

section \<open>The searches\<close>

text \<open>The bits of the pins of \<^verbatim>\<open>cells.get(inst)\<close> with the given direction.\<close>

definition cell_bits :: "jobj dict option \<Rightarrow> jobj \<Rightarrow> bool \<Rightarrow> string \<Rightarrow> int list" where
  "cell_bits cell_map cells dir inst =
     (case map_of cells inst of
        None \<Rightarrow> []
      | Some cell \<Rightarrow> concat (map (\<lambda>(pin, is_out, bits). if is_out = dir then bits else []) (cell_pins cell_map cell)))"

definition forward_succ ::
  "jobj dict option \<Rightarrow> jobj \<Rightarrow> (string \<times> int) list \<Rightarrow> net_graph \<Rightarrow> int \<Rightarrow> int list" where
  "forward_succ cell_map cells ff_clock g net =
     concat (map (\<lambda>(inst, pin). if has_key ff_clock inst then [] else cell_bits cell_map cells True inst)
       (get_or (sinks_of g) net []))"

definition backward_succ ::
  "jobj dict option \<Rightarrow> jobj \<Rightarrow> (string \<times> int) list \<Rightarrow> net_graph \<Rightarrow> int \<Rightarrow> int list" where
  "backward_succ cell_map cells ff_clock g net =
     (case map_of (driver_of g) net of
        None \<Rightarrow> []
      | Some (inst, pin) \<Rightarrow> if has_key ff_clock inst then [] else cell_bits cell_map cells False inst)"

definition forward_reachable ::
  "jobj dict option \<Rightarrow> jobj \<Rightarrow> (string \<times> int) list \<Rightarrow> net_graph \<Rightarrow> int list \<Rightarrow> int list" where
  "forward_reachable cell_map cells ff_clock g seeds =
     push_search (map fst (sinks_of g)) (forward_succ cell_map cells ff_clock g) seeds seeds"

definition backward_reachable ::
  "jobj dict option \<Rightarrow> jobj \<Rightarrow> (string \<times> int) list \<Rightarrow> net_graph \<Rightarrow> int list \<Rightarrow> int list" where
  "backward_reachable cell_map cells ff_clock g seeds =
     push_search (map fst (driver_of g)) (backward_succ cell_map cells ff_clock g) seeds seeds"

section \<open>The result\<close>

record reach_design =
  clock_nets :: "int list"
  ff_clock_net :: "(string \<times> int) list"
  mod_cells :: jobj
  pi_nets :: "int list"
  po_nets :: "int list"

definition testable_in :: "jobj dict option \<Rightarrow> reach_design \<Rightarrow> net_graph \<Rightarrow> int \<Rightarrow> int list" where
  "testable_in cell_map d g clk =
     (let launch = forward_reachable cell_map (mod_cells d) (ff_clock_net d) g (get_or (domain_q_nets g) clk []);
          capture = backward_reachable cell_map (mod_cells d) (ff_clock_net d) g
            (get_or (domain_d_nets g) clk [] @ po_nets d)
      in filter (\<lambda>n. n \<in> set capture) launch)"

definition cross_domain_nets :: "jobj dict option \<Rightarrow> reach_design \<Rightarrow> int list" where
  "cross_domain_nets cell_map d =
     (let g = build_graph (ff_clock_net d) (clock_nets d) (pin_uses cell_map (mod_cells d));
          testable = concat (map (testable_in cell_map d g) (clock_nets d));
          all_nets = pi_nets d @ po_nets d @ map fst (driver_of g) @ map fst (sinks_of g)
      in filter (\<lambda>n. n \<notin> set (pi_nets d) \<and> n \<notin> set testable) (remdups all_nets))"

section \<open>Reading the files\<close>

definition record_clock :: "json \<Rightarrow> (string \<times> int) list \<Rightarrow> (string \<times> int) list" where
  "record_clock record m =
     (case as_obj record of
        None \<Rightarrow> m
      | Some r \<Rightarrow>
          (let inst = py_str (get_or r ''instance'' (JStr []))
           in case as_int (get_or r ''clock_net'' JNull) of
                Some clk \<Rightarrow> if inst \<noteq> [] then dict_set m inst clk else m
              | None \<Rightarrow> m))"

definition port_nets :: "string \<Rightarrow> json list \<Rightarrow> int list" where
  "port_nets direction ports =
     concat (map (\<lambda>j. case as_obj j of
         None \<Rightarrow> []
       | Some p \<Rightarrow> if get_or p ''direction'' (JStr []) = JStr direction
                  then int_bits (get_or p ''bits'' JNull) else []) ports)"

text \<open>\<^verbatim>\<open>None\<close> stands for the early returns of an empty set: fewer than two clock nets, or cells that are
  not an object.\<close>

definition read_design :: "json \<Rightarrow> jobj \<Rightarrow> reach_design option res" where
  "read_design data manifest =
     (case as_list (get_or manifest ''clock_nets'' (JList [])) of
        None \<Rightarrow> Inr None
      | Some raw \<Rightarrow>
          if length raw \<le> 1 then Inr None else
          bind_res (map_res py_int raw) (\<lambda>clks.
          bind_res (getitem manifest ''top'') (\<lambda>top_raw.
          bind_res (subscript data ''modules'') (\<lambda>modules.
          bind_res (subscript modules (py_str top_raw)) (\<lambda>module.
          bind_res (py_tuple (get_or manifest ''cells'' (JList []))) (\<lambda>records.
          bind_res (obj_get module ''cells'' (JObj [])) (\<lambda>cells_raw.
          case as_obj cells_raw of
            None \<Rightarrow> Inr None
          | Some cells \<Rightarrow>
              bind_res (obj_get module ''ports'' (JObj [])) (\<lambda>ports_raw.
              bind_res (values_of ports_raw) (\<lambda>ports.
              Inr (Some \<lparr>clock_nets = clks, ff_clock_net = fold record_clock records [], mod_cells = cells,
                         pi_nets = port_nets ''input'' ports, po_nets = port_nets ''output'' ports\<rparr>))))))))))"

definition compute_cross_domain_net_ids :: "json \<Rightarrow> jobj \<Rightarrow> jobj dict option \<Rightarrow> int list res" where
  "compute_cross_domain_net_ids data manifest cell_map =
     bind_res (read_design data manifest) (\<lambda>d.
       case d of None \<Rightarrow> Inr [] | Some design \<Rightarrow> Inr (cross_domain_nets cell_map design))"

text \<open>Tagging: a row whose net is cross-domain gets the tag unless its site is already excluded.\<close>

definition tag_row :: "int list \<Rightarrow> jobj \<Rightarrow> string dict \<Rightarrow> string dict res" where
  "tag_row ids row result =
     (let key = py_str (get_or row ''site_key'' (JStr []))
      in bind_res (py_int (get_or row ''yosys_net_id'' (JInt (-1)))) (\<lambda>yid.
           Inr (if yid \<in> set ids \<and> \<not> has_key result key then dict_set result key ''cross_domain'' else result)))"

definition tag_cross_domain_exclusions :: "jobj list \<Rightarrow> int list \<Rightarrow> string dict \<Rightarrow> string dict res" where
  "tag_cross_domain_exclusions generic_rows ids existing =
     (if ids = [] then Inr existing else fold_res (tag_row ids) generic_rows existing)"

section \<open>What the graph construction records\<close>

lemma get_or_Nil: "get_or [] k dflt = dflt"
  by (simp add: get_or_def)

lemma get_or_add_to: "get_or (add_to d k v) k' [] = (if k' = k then get_or d k [] @ [v] else get_or d k' [])"
  by (simp add: add_to_def get_or_def update_conv')

lemma fst_add_to: "fst ` set (add_to d k v) = insert k (fst ` set d)"
  by (simp add: add_to_def dom_update)

lemma fst_dict_set: "fst ` set (dict_set d k v) = insert k (fst ` set d)"
  by (simp add: dom_update)

lemma add_pin_use_fields:
  "sinks_of (add_pin_use ff (i, p, out, b) g) = (if out then sinks_of g else add_to (sinks_of g) b (i, p))"
  "driver_of (add_pin_use ff (i, p, out, b) g) = (if out then dict_set (driver_of g) b (i, p) else driver_of g)"
  "domain_q_nets (add_pin_use ff (i, p, out, b) g) = (case map_of ff i of
     Some clk \<Rightarrow> if out \<and> p = ''Q'' then add_to (domain_q_nets g) clk b else domain_q_nets g
   | None \<Rightarrow> domain_q_nets g)"
  "domain_d_nets (add_pin_use ff (i, p, out, b) g) = (case map_of ff i of
     Some clk \<Rightarrow> if \<not> out \<and> p \<notin> set SCAN_CONTROL_PINS then add_to (domain_d_nets g) clk b else domain_d_nets g
   | None \<Rightarrow> domain_d_nets g)"
  by (auto simp: add_pin_use_def split: option.splits)

lemmas graph_step = add_pin_use_fields get_or_add_to fst_add_to fst_dict_set

lemma sinks_fold:
  "set (get_or (sinks_of (fold (add_pin_use ff) uses g)) n []) =
     set (get_or (sinks_of g) n []) \<union> {(i, p). (i, p, False, n) \<in> set uses}"
  "fst ` set (sinks_of (fold (add_pin_use ff) uses g)) =
     fst ` set (sinks_of g) \<union> {n. \<exists>i p. (i, p, False, n) \<in> set uses}"
proof (induction uses arbitrary: g)
  case (Cons u uses)
  obtain i p out b where u: "u = (i, p, out, b)" by (cases u)
  { case 1 show ?case using Cons.IH(1) [of "add_pin_use ff u g"] by (cases out) (auto simp: u graph_step) }
  { case 2 show ?case using Cons.IH(2) [of "add_pin_use ff u g"] by (cases out) (auto simp: u graph_step) }
qed simp_all

lemma driver_keys_fold:
  "fst ` set (driver_of (fold (add_pin_use ff) uses g)) =
     fst ` set (driver_of g) \<union> {n. \<exists>i p. (i, p, True, n) \<in> set uses}"
proof (induction uses arbitrary: g)
  case (Cons u uses)
  obtain i p out b where u: "u = (i, p, out, b)" by (cases u)
  show ?case using Cons.IH [of "add_pin_use ff u g"] by (cases out) (auto simp: u graph_step split: option.splits)
qed simp

lemma driver_fold:
  "map_of (driver_of (fold (add_pin_use ff) uses g)) n = Some (i, p) \<Longrightarrow>
     (i, p, True, n) \<in> set uses \<or> map_of (driver_of g) n = Some (i, p)"
proof (induction uses arbitrary: g)
  case (Cons u uses)
  from Cons.IH [of "add_pin_use ff u g"] Cons.prems show ?case
    by (cases u) (auto simp: graph_step update_conv' split: if_splits)
qed simp

lemma domain_q_fold:
  "set (get_or (domain_q_nets (fold (add_pin_use ff) uses g)) c []) =
     set (get_or (domain_q_nets g) c []) \<union> {n. \<exists>i. (i, ''Q'', True, n) \<in> set uses \<and> map_of ff i = Some c}"
proof (induction uses arbitrary: g)
  case (Cons u uses)
  obtain i p out b where u: "u = (i, p, out, b)" by (cases u)
  show ?case using Cons.IH [of "add_pin_use ff u g"] by (cases out) (auto simp: u graph_step split: option.splits)
qed simp

lemma domain_d_fold:
  "set (get_or (domain_d_nets (fold (add_pin_use ff) uses g)) c []) =
     set (get_or (domain_d_nets g) c []) \<union>
     {n. \<exists>i p. (i, p, False, n) \<in> set uses \<and> p \<notin> set SCAN_CONTROL_PINS \<and> map_of ff i = Some c}"
proof (induction uses arbitrary: g)
  case (Cons u uses)
  obtain i p out b where u: "u = (i, p, out, b)" by (cases u)
  show ?case using Cons.IH [of "add_pin_use ff u g"] by (cases out) (auto simp: u graph_step split: option.splits)
qed simp

lemma get_or_empty_domains: "get_or (dict_of (map (\<lambda>c. (c, [])) cs)) k [] = []"
proof -
  have "snd ` set (dict_update d (map (\<lambda>c. (c, [])) cs)) \<subseteq> {[]}" if "snd ` set d \<subseteq> {[]}" for d 
    using that
  proof (induction cs arbitrary: d)
    case (Cons c cs)
    have "snd ` set (AList.update c [] d) \<subseteq> {[]}" using Cons.prems by (induction d) auto
    then show ?case using Cons.IH by (simp add: dict_update_def)
  qed (simp add: dict_update_def)
  from this [of "[]"] show ?thesis
    by (auto simp: get_or_def dict_of_def split: option.splits dest!: map_of_SomeD)
qed


section \<open>The netlist as a graph\<close>

text \<open>A combinational edge leads from an input net of a cell that is not a flip-flop of the manifest to
  an output net of the same cell. \<open>single_driver\<close>: no net is driven by two cells.\<close>

definition net_edges :: "(string \<times> int) list \<Rightarrow> pin_use list \<Rightarrow> (int \<times> int) set" where
  "net_edges ff uses = {(a, b). \<exists>i p p'. \<not> has_key ff i \<and> (i, p, False, a) \<in> set uses \<and> (i, p', True, b) \<in> set uses}"

definition launch_nets :: "(string \<times> int) list \<Rightarrow> pin_use list \<Rightarrow> int \<Rightarrow> int set" where
  "launch_nets ff uses clk = {n. \<exists>i. (i, ''Q'', True, n) \<in> set uses \<and> map_of ff i = Some clk}"

definition capture_nets :: "(string \<times> int) list \<Rightarrow> pin_use list \<Rightarrow> int \<Rightarrow> int set" where
  "capture_nets ff uses clk =
     {n. \<exists>i p. (i, p, False, n) \<in> set uses \<and> p \<notin> set SCAN_CONTROL_PINS \<and> map_of ff i = Some clk}"

definition single_driver :: "pin_use list \<Rightarrow> bool" where
  "single_driver uses =
     list_all (\<lambda>(i, p, out, n). list_all (\<lambda>(i', p', out', n'). out \<and> out' \<and> n = n' \<longrightarrow> i = i') uses) uses"

lemma single_driverD:
  "single_driver uses \<Longrightarrow> (i, p, True, n) \<in> set uses \<Longrightarrow> (i', p', True, n) \<in> set uses \<Longrightarrow> i = i'"
  unfolding single_driver_def list_all_iff by fastforce

lemma cell_bits_iff:
  assumes "distinct (map fst cells)"
  shows "b \<in> set (cell_bits cm cells dir i) \<longleftrightarrow> (\<exists>p. (i, p, dir, b) \<in> set (pin_uses cm cells))"
proof -
  have "b \<in> set (cell_bits cm cells dir i) \<longleftrightarrow>
      (\<exists>cell p bits. (i, cell) \<in> set cells \<and> (p, dir, bits) \<in> set (cell_pins cm cell) \<and> b \<in> set bits)"
  proof (cases "map_of cells i")
    case None
    then have "(i, cell) \<notin> set cells" for cell by (force simp: map_of_eq_None_iff)
    with None show ?thesis by (simp add: cell_bits_def)
  next
    case (Some c)
    then have "(i, cell) \<in> set cells \<longleftrightarrow> cell = c" for cell using assms by (metis map_of_eq_Some_iff option.inject)
    with Some show ?thesis by (force simp: cell_bits_def split: if_splits)
  qed
  also have "\<dots> \<longleftrightarrow> (\<exists>p. (i, p, dir, b) \<in> set (pin_uses cm cells))"
    by (auto simp: pin_uses_def) blast
  finally show ?thesis .
qed

lemma forward_edges:
  assumes "distinct (map fst cells)" and g: "g = build_graph ff clks (pin_uses cm cells)"
  shows "edges (map fst (sinks_of g)) (forward_succ cm cells ff g) = net_edges ff (pin_uses cm cells)"
proof -
  let ?u = "pin_uses cm cells"
  have s: "set (get_or (sinks_of g) n []) = {(i, p). (i, p, False, n) \<in> set ?u}" for n
    by (simp add: g build_graph_def sinks_fold empty_graph_def get_or_Nil)
  have k: "fst ` set (sinks_of g) = {n. \<exists>i p. (i, p, False, n) \<in> set ?u}"
    by (simp add: g build_graph_def sinks_fold empty_graph_def)
  have "b \<in> set (forward_succ cm cells ff g a) \<longleftrightarrow> (a, b) \<in> net_edges ff ?u" for a b
  proof -
    have "b \<in> set (forward_succ cm cells ff g a) \<longleftrightarrow>
        (\<exists>i p. (i, p) \<in> set (get_or (sinks_of g) a []) \<and> \<not> has_key ff i \<and> b \<in> set (cell_bits cm cells True i))"
      by (auto simp: forward_succ_def split: if_splits)
    then show ?thesis by (simp add: s cell_bits_iff [OF assms(1)] net_edges_def) blast
  qed
  then show ?thesis by (auto simp: edges_def succs_of_def k net_edges_def)
qed

lemma backward_edges:
  assumes "distinct (map fst cells)" and g: "g = build_graph ff clks (pin_uses cm cells)"
    and single: "single_driver (pin_uses cm cells)"
  shows "edges (map fst (driver_of g)) (backward_succ cm cells ff g) = (net_edges ff (pin_uses cm cells))\<inverse>"
proof -
  let ?u = "pin_uses cm cells"
  have k: "fst ` set (driver_of g) = {n. \<exists>i p. (i, p, True, n) \<in> set ?u}"
    by (simp add: g build_graph_def driver_keys_fold empty_graph_def)
  have drv: "(i, p, True, n) \<in> set ?u" if "map_of (driver_of g) n = Some (i, p)" for n i p
    using driver_fold [of ff ?u "empty_graph clks" n i p] that by (simp add: g build_graph_def empty_graph_def)
  have "b \<in> set (backward_succ cm cells ff g a) \<longleftrightarrow> (b, a) \<in> net_edges ff ?u" for a b
  proof (cases "map_of (driver_of g) a")
    case None
    then have "a \<notin> fst ` set (driver_of g)" by (simp add: map_of_eq_None_iff)
    with None show ?thesis unfolding k by (auto simp: backward_succ_def net_edges_def)
  next
    case (Some ip)
    then obtain i p where ip: "map_of (driver_of g) a = Some (i, p)" by (cases ip) auto
    have "(b, a) \<in> net_edges ff ?u \<longleftrightarrow> \<not> has_key ff i \<and> (\<exists>p'. (i, p', False, b) \<in> set ?u)"
      using drv [OF ip] single_driverD [OF single drv [OF ip]] by (fastforce simp: net_edges_def)
    then show ?thesis using ip by (simp add: backward_succ_def cell_bits_iff [OF assms(1)])
  qed
  then show ?thesis by (auto simp: edges_def succs_of_def k net_edges_def)
qed

section \<open>What is reported\<close>

definition design_uses :: "jobj dict option \<Rightarrow> reach_design \<Rightarrow> pin_use list" where
  "design_uses cell_map d = pin_uses cell_map (mod_cells d)"

text \<open>A net lies on a launch-to-capture path of the domain \<open>clk\<close>.\<close>

definition launch_capture_path :: "jobj dict option \<Rightarrow> reach_design \<Rightarrow> int \<Rightarrow> int \<Rightarrow> bool" where
  "launch_capture_path cell_map d clk n =
     (let uses = design_uses cell_map d; E = net_edges (ff_clock_net d) uses
      in (\<exists>q \<in> launch_nets (ff_clock_net d) uses clk. (q, n) \<in> E\<^sup>*) \<and>
         (\<exists>s \<in> capture_nets (ff_clock_net d) uses clk \<union> set (po_nets d). (n, s) \<in> E\<^sup>*))"

definition design_nets :: "jobj dict option \<Rightarrow> reach_design \<Rightarrow> int set" where
  "design_nets cell_map d =
     set (pi_nets d) \<union> set (po_nets d) \<union> {n. \<exists>i p out. (i, p, out, n) \<in> set (design_uses cell_map d)}"

lemma testable_in_iff:
  assumes "distinct (map fst (mod_cells d))" and "single_driver (design_uses cm d)"
    and g: "g = build_graph (ff_clock_net d) (clock_nets d) (design_uses cm d)"
  shows "n \<in> set (testable_in cm d g clk) \<longleftrightarrow> launch_capture_path cm d clk n"
proof -
  let ?ff = "ff_clock_net d" and ?u = "design_uses cm d"
  have q: "set (get_or (domain_q_nets g) clk []) = launch_nets ?ff ?u clk"
    by (simp add: g build_graph_def domain_q_fold empty_graph_def get_or_empty_domains launch_nets_def)
  have dn: "set (get_or (domain_d_nets g) clk []) = capture_nets ?ff ?u clk"
    by (simp add: g build_graph_def domain_d_fold empty_graph_def get_or_empty_domains capture_nets_def)
  note fe = forward_edges [OF assms(1) g [unfolded design_uses_def]]
  note be = backward_edges [OF assms(1) g [unfolded design_uses_def] assms(2) [unfolded design_uses_def]]
  have "set (forward_reachable cm (mod_cells d) ?ff g (get_or (domain_q_nets g) clk [])) =
      (net_edges ?ff ?u)\<^sup>* `` launch_nets ?ff ?u clk"
    by (simp add: forward_reachable_def push_search_reach fe q design_uses_def)
  moreover have "set (backward_reachable cm (mod_cells d) ?ff g (get_or (domain_d_nets g) clk [] @ po_nets d)) =
      ((net_edges ?ff ?u)\<inverse>)\<^sup>* `` (capture_nets ?ff ?u clk \<union> set (po_nets d))"
    by (simp add: backward_reachable_def push_search_reach be dn design_uses_def)
  ultimately show ?thesis
    by (auto simp: testable_in_def Let_def launch_capture_path_def rtrancl_converse)
qed

lemma cross_domain_nets_iff:
  assumes "distinct (map fst (mod_cells d))" and "single_driver (design_uses cm d)"
  shows "n \<in> set (cross_domain_nets cm d) \<longleftrightarrow>
    n \<in> design_nets cm d \<and> n \<notin> set (pi_nets d) \<and> (\<forall>clk \<in> set (clock_nets d). \<not> launch_capture_path cm d clk n)"
proof -
  let ?g = "build_graph (ff_clock_net d) (clock_nets d) (design_uses cm d)"
  have "fst ` set (driver_of ?g) \<union> fst ` set (sinks_of ?g) = {n. \<exists>i p out. (i, p, out, n) \<in> set (design_uses cm d)}"
    by (simp add: build_graph_def driver_keys_fold sinks_fold empty_graph_def)
      (auto, (metis (full_types))+)
  then show ?thesis using testable_in_iff [OF assms refl]
    by (auto simp: cross_domain_nets_def Let_def design_nets_def design_uses_def)
qed


text \<open>An example: flip-flop \<^verbatim>\<open>a\<close> in domain 1 feeds flip-flop \<^verbatim>\<open>b\<close> in domain 2 through an inverter; net 4
  between the inverter and \<^verbatim>\<open>b\<close> is launched in one domain and captured in the other only.\<close>

definition ex_cell :: "string \<Rightarrow> (string \<times> string \<times> int) list \<Rightarrow> json" where
  "ex_cell t pins = JObj [(''type'', JStr t),
     (''port_directions'', JObj (map (\<lambda>(p, dir, b). (p, JStr dir)) pins)),
     (''connections'', JObj (map (\<lambda>(p, dir, b). (p, JList [JInt b])) pins))]"

definition ex_reach_data :: json where
  "ex_reach_data = JObj [(''modules'', JObj [(''t'', JObj
     [(''ports'', JObj [(''clk1'', JObj [(''direction'', JStr ''input''), (''bits'', JList [JInt 1])]),
                       (''clk2'', JObj [(''direction'', JStr ''input''), (''bits'', JList [JInt 2])])]),
      (''cells'', JObj
        [(''a'', ex_cell ''ff'' [(''CLK'', ''input'', 1), (''D'', ''input'', 5), (''Q'', ''output'', 3)]),
         (''u'', ex_cell ''inv'' [(''A'', ''input'', 3), (''Y'', ''output'', 4)]),
         (''b'', ex_cell ''ff'' [(''CLK'', ''input'', 2), (''D'', ''input'', 4), (''Q'', ''output'', 5)])])])])]"

definition ex_reach_manifest :: jobj where
  "ex_reach_manifest = [(''top'', JStr ''t''), (''clock_nets'', JList [JInt 1, JInt 2]),
     (''cells'', JList [JObj [(''instance'', JStr ''a''), (''clock_net'', JInt 1)],
                       JObj [(''instance'', JStr ''b''), (''clock_net'', JInt 2)]])]"

definition ex_reach_design :: reach_design where
  "ex_reach_design = \<lparr>clock_nets = [1, 2], ff_clock_net = [(''a'', 1), (''b'', 2)],
     mod_cells = [(''a'', ex_cell ''ff'' [(''CLK'', ''input'', 1), (''D'', ''input'', 5), (''Q'', ''output'', 3)]),
         (''u'', ex_cell ''inv'' [(''A'', ''input'', 3), (''Y'', ''output'', 4)]),
         (''b'', ex_cell ''ff'' [(''CLK'', ''input'', 2), (''D'', ''input'', 4), (''Q'', ''output'', 5)])],
     pi_nets = [1, 2], po_nets = []\<rparr>"

lemma ex_read_design: "read_design ex_reach_data ex_reach_manifest = Inr (Some ex_reach_design)"
  by code_simp

lemma ex_single_driver: "single_driver (design_uses None ex_reach_design)"
  by code_simp

lemma ex_cells_distinct: "distinct (map fst (mod_cells ex_reach_design))"
  by code_simp

lemma ex_cross_domain: "compute_cross_domain_net_ids ex_reach_data ex_reach_manifest None = Inr [5, 3, 4]"
  by code_simp


section \<open>Tagging\<close>

lemma tag_row_spec:
  assumes "tag_row ids row r = Inr r'"
  shows "has_key r k \<Longrightarrow> map_of r' k = map_of r k"
    and "\<not> has_key r k \<Longrightarrow> has_key r' k \<Longrightarrow> map_of r' k = Some ''cross_domain'' \<and> k = py_str (get_or row ''site_key'' (JStr [])) \<and>
      (\<exists>y \<in> set ids. py_int (get_or row ''yosys_net_id'' (JInt (-1))) = Inr y)"
    and "py_int (get_or row ''yosys_net_id'' (JInt (-1))) = Inr y \<Longrightarrow> y \<in> set ids \<Longrightarrow>
      has_key r' (py_str (get_or row ''site_key'' (JStr [])))"
    and "has_key r k \<Longrightarrow> has_key r' k"
  using assms by (auto simp: tag_row_def Let_def bind_res_eq_Inr has_key_def update_conv' split: if_splits)

lemma fold_tag_spec:
  assumes "fold_res (tag_row ids) rows r = Inr r'"
  shows "map_of r' k = (case map_of r k of Some v \<Rightarrow> Some v | None \<Rightarrow>
    if \<exists>row \<in> set rows. k = py_str (get_or row ''site_key'' (JStr [])) \<and>
         (\<exists>y \<in> set ids. py_int (get_or row ''yosys_net_id'' (JInt (-1))) = Inr y)
    then Some ''cross_domain'' else None)"
  using assms
proof (induction rows arbitrary: r)
  case (Cons row rows)
  then obtain r1 where r1: "tag_row ids row r = Inr r1" and "fold_res (tag_row ids) rows r1 = Inr r'"
    by (auto simp: bind_res_eq_Inr)
  note IH = Cons.IH [OF this(2)]
  note t = tag_row_spec [OF r1]
  show ?case
  proof (cases "map_of r k")
    case (Some v)
    with t(1) [of k] IH show ?thesis by (simp add: has_key_def)
  next
    case None
    with t(2) [of k] t(3) IH show ?thesis by (cases "map_of r1 k") (auto simp: has_key_def)
  qed
qed (auto split: option.splits)

text \<open>Tagging keeps every exclusion that was there, and adds \<^verbatim>\<open>cross_domain\<close> for exactly the sites of the
  rows whose net is cross-domain.\<close>

theorem tag_cross_domain_spec:
  assumes "tag_cross_domain_exclusions rows ids existing = Inr result"
  shows "map_of result k = (case map_of existing k of Some tag \<Rightarrow> Some tag | None \<Rightarrow>
    if \<exists>row \<in> set rows. k = py_str (get_or row ''site_key'' (JStr [])) \<and>
         (\<exists>y \<in> set ids. py_int (get_or row ''yosys_net_id'' (JInt (-1))) = Inr y)
    then Some ''cross_domain'' else None)"
  using assms fold_tag_spec [of ids rows existing result k]
  by (auto simp: tag_cross_domain_exclusions_def split: if_splits option.splits)

theorem tag_cross_domain_spec_witness:
  "map_of [(''net:7:'', ''clock''), (''net:9:'', ''cross_domain'')] ''net:9:'' = Some ''cross_domain''"
  using tag_cross_domain_spec
    [of "[[(''site_key'', JStr ''net:7:''), (''yosys_net_id'', JInt 7)],
          [(''site_key'', JStr ''net:9:''), (''yosys_net_id'', JInt 9)]]" "[7, 9]" "[(''net:7:'', ''clock'')]"
      "[(''net:7:'', ''clock''), (''net:9:'', ''cross_domain'')]" "''net:9:''"]
  by (simp add: tag_cross_domain_exclusions_def tag_row_def has_key_def get_or_def py_str_def py_int_def)

section \<open>A pin that the cell map cannot name\<close>

text \<open>\<^verbatim>\<open>_is_output_pin\<close> compares the pin with the keys of the entry's \<^verbatim>\<open>outputs\<close>, which are logical names;
  the physical pin is the value. With the full-adder entry of the OSU035 map neither output is found.\<close>

lemma full_adder_outputs_missed:
  assumes "cell_map = Some [(''FAX1'', [(''node_type'', JStr ''GATE''), (''gate_type'', JStr ''ADDF''),
    (''inputs'', JList [JStr ''A'', JStr ''B'', JStr ''C'']), (''outputs'', JObj [(''S'', JStr ''YS''), (''CO'', JStr ''YC'')])])]"
  shows "\<not> is_output_pin ''FAX1'' ''YS'' None cell_map" and "\<not> is_output_pin ''FAX1'' ''YC'' None cell_map"
  unfolding assms by code_simp+

end
