(* ===== verification/Campaign_Db.thy ===== *)
theory Campaign_Db
  imports Py_Prelude
begin

text \<open>
  The campaign database (\<^verbatim>\<open>faultflow/db/sqlite.py\<close>): the tables of \<^verbatim>\<open>SCHEMA_V3\<close> with the columns the modelled statements
  read or write, and the sequences behind the \<^verbatim>\<open>AUTOINCREMENT\<close> keys. Time stamps are left out, and so are
  the tables of the coverage report. A table is the list of its rows in insertion order; \<open>wf_db\<close>
  states what the declared keys guarantee.
\<close>

text \<open>\<open>c_columns\<close> holds the fingerprint columns, by name.\<close>

record campaign_row =
  c_id :: int
  c_type :: string
  c_columns :: jobj

record fault_row =
  f_id :: int
  f_campaign_id :: int
  f_site_key :: string
  f_net_id :: int
  f_compiled_net_index :: int
  f_atpg_compiled_net_index :: "int option"
  f_fault_type :: string
  f_status :: string
  f_exclusion :: string
  f_collapsed_into :: "int option"
  f_protocol_unresolved :: int
  f_detected_by_vector :: "int option"
  f_redundancy_model_id :: "string option"

text \<open>\<open>r_coverage\<close> is a percentage as numerator and denominator, \<open>r_atpg\<close> the columns from \<^verbatim>\<open>atpg_rounds\<close> to
  \<^verbatim>\<open>atpg_accepted_vectors\<close>, and \<open>r_carried\<close> the initial state, the times and the last two counts, which no
  modelled statement interprets.\<close>

record run_row =
  r_id :: int
  r_campaign_id :: int
  r_status :: string
  r_vector_source :: string
  r_vector_count :: int
  r_coverage :: "(int \<times> int) option"
  r_terminal_reason :: "string option"
  r_atpg :: "int list"
  r_carried :: "string list"

record vector_row =
  v_id :: int
  v_campaign_id :: int
  v_run_id :: int
  v_source :: string
  v_vector_index :: int
  v_pattern :: string
  v_launch_pattern :: string

record detection_row =
  dt_fault_id :: int
  dt_campaign_id :: int
  dt_run_id :: int
  dt_vector_index :: int

record candidate_row =
  cd_campaign_id :: int
  cd_run_id :: int
  cd_candidate_id :: int
  cd_pattern :: string
  cd_source :: string
  cd_status :: string
  cd_target :: "int option"
  cd_accepted_vector :: "int option"

record rejection_row =
  rj_campaign_id :: int
  rj_run_id :: int
  rj_candidate_id :: int
  rj_fault_id :: int
  rj_reason :: string

record blocked_row =
  bl_campaign_id :: int
  bl_fault_id :: int
  bl_pattern :: string

record campaign_db =
  user_version :: int
  campaigns :: "campaign_row list"
  campaigns_seq :: int
  faults :: "fault_row list"
  runs :: "run_row list"
  runs_seq :: int
  vectors_table :: "vector_row list"
  vectors_seq :: int
  detections :: "detection_row list"
  candidates :: "candidate_row list"
  rejections :: "rejection_row list"
  blocked :: "blocked_row list"

abbreviation campaign_keys :: "campaign_db \<Rightarrow> int set" where
  "campaign_keys db \<equiv> c_id ` set (campaigns db)"

abbreviation run_keys :: "campaign_db \<Rightarrow> int set" where
  "run_keys db \<equiv> r_id ` set (runs db)"

abbreviation fault_keys :: "campaign_db \<Rightarrow> int set" where
  "fault_keys db \<equiv> f_id ` set (faults db)"

definition candidate_key :: "candidate_row \<Rightarrow> int \<times> int \<times> int" where
  "candidate_key c = (cd_campaign_id c, cd_run_id c, cd_candidate_id c)"

definition rejection_key :: "rejection_row \<Rightarrow> int \<times> int \<times> int" where
  "rejection_key r = (rj_campaign_id r, rj_run_id r, rj_candidate_id r)"

text \<open>The primary, unique and foreign keys of the schema, table by table.\<close>

definition wf_campaigns :: "campaign_db \<Rightarrow> bool" where
  "wf_campaigns db = (distinct (map c_id (campaigns db)) \<and> (\<forall>c \<in> set (campaigns db). c_id c \<le> campaigns_seq db))"

definition wf_faults :: "campaign_db \<Rightarrow> bool" where
  "wf_faults db = (distinct (map f_id (faults db)) \<and>
     distinct (map (\<lambda>f. (f_campaign_id f, f_site_key f, f_fault_type f)) (faults db)) \<and>
     (\<forall>f \<in> set (faults db). f_campaign_id f \<in> campaign_keys db))"

definition wf_runs :: "campaign_db \<Rightarrow> bool" where
  "wf_runs db = (distinct (map r_id (runs db)) \<and>
     (\<forall>r \<in> set (runs db). 0 < r_id r \<and> r_id r \<le> runs_seq db \<and> r_campaign_id r \<in> campaign_keys db))"

definition wf_vectors :: "campaign_db \<Rightarrow> bool" where
  "wf_vectors db = (distinct (map v_id (vectors_table db)) \<and>
     distinct (map (\<lambda>v. (v_campaign_id v, v_run_id v, v_vector_index v)) (vectors_table db)) \<and>
     (\<forall>v \<in> set (vectors_table db). v_id v \<le> vectors_seq db \<and> v_run_id v \<in> run_keys db \<and> v_campaign_id v \<in> campaign_keys db))"

definition wf_detections :: "campaign_db \<Rightarrow> bool" where
  "wf_detections db = (distinct (map (\<lambda>d. (dt_fault_id d, dt_run_id d, dt_vector_index d)) (detections db)) \<and>
     (\<forall>d \<in> set (detections db). dt_fault_id d \<in> fault_keys db \<and> dt_run_id d \<in> run_keys db \<and> dt_campaign_id d \<in> campaign_keys db))"

definition wf_candidates :: "campaign_db \<Rightarrow> bool" where
  "wf_candidates db = (distinct (map candidate_key (candidates db)) \<and>
     (\<forall>c \<in> set (candidates db). cd_run_id c \<in> run_keys db \<and> cd_campaign_id c \<in> campaign_keys db \<and>
        (case cd_accepted_vector c of None \<Rightarrow> True
          | Some v \<Rightarrow> (cd_campaign_id c, v) \<in> (\<lambda>v. (v_campaign_id v, v_id v)) ` set (vectors_table db))))"

definition wf_rejections :: "campaign_db \<Rightarrow> bool" where
  "wf_rejections db = (distinct (map (\<lambda>r. (rejection_key r, rj_fault_id r)) (rejections db)) \<and>
     (\<forall>r \<in> set (rejections db). rejection_key r \<in> candidate_key ` set (candidates db) \<and> rj_fault_id r \<in> fault_keys db))"

definition wf_blocked :: "campaign_db \<Rightarrow> bool" where
  "wf_blocked db = (distinct (map (\<lambda>b. (bl_campaign_id b, bl_fault_id b, bl_pattern b)) (blocked db)) \<and>
     (\<forall>b \<in> set (blocked db). bl_fault_id b \<in> fault_keys db \<and> bl_campaign_id b \<in> campaign_keys db))"

definition wf_db :: "campaign_db \<Rightarrow> bool" where
  "wf_db db = (wf_campaigns db \<and> wf_faults db \<and> wf_runs db \<and> wf_vectors db \<and> wf_detections db \<and> wf_candidates db \<and>
     wf_rejections db \<and> wf_blocked db)"

text \<open>\<^verbatim>\<open>append_vectors\<close> of the core's \<^verbatim>\<open>sqlite_store.cpp\<close>: one row per pattern, numbered from
  \<open>start_index\<close>; a violated key aborts the transaction.\<close>

definition launch_at :: "string list \<Rightarrow> nat \<Rightarrow> string" where
  "launch_at launch_patterns i = (if launch_patterns = [] then [] else launch_patterns ! i)"

definition new_vector_rows :: "int \<Rightarrow> int \<Rightarrow> int \<Rightarrow> string \<Rightarrow> string list \<Rightarrow> int \<Rightarrow> string list \<Rightarrow> vector_row list" where
  "new_vector_rows seq campaign_id run_id source patterns start_index launch_patterns =
     map (\<lambda>i. \<lparr>v_id = seq + 1 + int i, v_campaign_id = campaign_id, v_run_id = run_id, v_source = source,
                v_vector_index = start_index + int i, v_pattern = patterns ! i,
                v_launch_pattern = launch_at launch_patterns i\<rparr>) [0..<length patterns]"

definition append_vectors ::
  "campaign_db \<Rightarrow> int \<Rightarrow> int \<Rightarrow> string \<Rightarrow> string list \<Rightarrow> int \<Rightarrow> string list \<Rightarrow> campaign_db res" where
  "append_vectors db campaign_id run_id source patterns start_index launch_patterns =
     (let rows = new_vector_rows (vectors_seq db) campaign_id run_id source patterns start_index launch_patterns
      in if patterns = [] then Inr db
         else if launch_patterns \<noteq> [] \<and> length launch_patterns \<noteq> length patterns
         then Inl (RuntimeError ''launch_patterns length mismatch'')
         else if run_id \<notin> run_keys db \<or> campaign_id \<notin> campaign_keys db
         then Inl (RuntimeError ''FOREIGN KEY constraint failed'')
         else if list_ex (\<lambda>v. v_campaign_id v = campaign_id \<and> v_run_id v = run_id \<and>
               v_vector_index v \<in> v_vector_index ` set rows) (vectors_table db)
         then Inl (RuntimeError ''UNIQUE constraint failed'')
         else Inr (db\<lparr>vectors_table := vectors_table db @ rows, vectors_seq := vectors_seq db + int (length rows)\<rparr>))"

text \<open>\<^verbatim>\<open>SELECT pattern, launch_pattern FROM vectors WHERE campaign_id = ? AND run_id = ? ORDER BY vector_index\<close>.\<close>

definition run_vectors :: "campaign_db \<Rightarrow> int \<Rightarrow> int \<Rightarrow> (string \<times> string) list" where
  "run_vectors db campaign_id run_id =
     map (\<lambda>v. (v_pattern v, v_launch_pattern v))
       (sort_key v_vector_index (filter (\<lambda>v. v_campaign_id v = campaign_id \<and> v_run_id v = run_id) (vectors_table db)))"

section \<open>Appending to a fresh run\<close>

lemma length_new_vector_rows [simp]: "length (new_vector_rows q c r s ps start ls) = length ps"
  by (simp add: new_vector_rows_def)

lemma wf_dbD:
  assumes "wf_db db"
  shows "r \<in> set (runs db) \<Longrightarrow> r_id r \<le> runs_seq db" and "r \<in> set (runs db) \<Longrightarrow> r_campaign_id r \<in> campaign_keys db"
    and "v \<in> set (vectors_table db) \<Longrightarrow> v_run_id v \<le> runs_seq db" and "distinct (map f_id (faults db))"
    and "r \<in> set (runs db) \<Longrightarrow> 0 < r_id r" and "distinct (map r_id (runs db))"
  using assms by (auto simp: wf_db_def wf_runs_def wf_vectors_def wf_faults_def)

lemma new_vector_rows_sorted:
  "sort_key v_vector_index (new_vector_rows q c r s ps start ls) = new_vector_rows q c r s ps start ls"
  by (rule sort_key_id_if_sorted) (simp add: new_vector_rows_def comp_def sorted_iff_nth_mono)

lemma append_vectors_fresh:
  assumes "run_id \<in> run_keys db" and "campaign_id \<in> campaign_keys db"
    and fresh: "\<And>v. v \<in> set (vectors_table db) \<Longrightarrow> v_run_id v \<noteq> run_id"
    and len: "launch = [] \<or> length launch = length patterns"
  shows "append_vectors db campaign_id run_id source patterns start launch =
      Inr (db\<lparr>vectors_table := vectors_table db @ new_vector_rows (vectors_seq db) campaign_id run_id source patterns start launch,
        vectors_seq := vectors_seq db + int (length patterns)\<rparr>)"
    and "run_vectors (db\<lparr>vectors_table := vectors_table db @ new_vector_rows (vectors_seq db) campaign_id run_id source patterns start launch,
        vectors_seq := vectors_seq db + int (length patterns)\<rparr>)
        campaign_id run_id = map (\<lambda>i. (patterns ! i, launch_at launch i)) [0..<length patterns]"
proof -
  show "append_vectors db campaign_id run_id source patterns start launch =
      Inr (db\<lparr>vectors_table := vectors_table db @ new_vector_rows (vectors_seq db) campaign_id run_id source patterns start launch,
        vectors_seq := vectors_seq db + int (length patterns)\<rparr>)"
  proof (cases "patterns = []")
    case True
    then show ?thesis by (simp add: append_vectors_def new_vector_rows_def)
  next
    case False
    have "\<not> list_ex (\<lambda>v. v_campaign_id v = campaign_id \<and> v_run_id v = run_id \<and> P v) (vectors_table db)" for P
      using fresh by (auto simp: list_ex_iff)
    with False assms(1,2) len show ?thesis by (auto simp: append_vectors_def Let_def)
  qed
  let ?sel = "\<lambda>v. v_campaign_id v = campaign_id \<and> v_run_id v = run_id"
  have "filter ?sel (vectors_table db) = []" using fresh by (auto simp: filter_empty_conv)
  moreover have "filter ?sel (new_vector_rows (vectors_seq db) campaign_id run_id source patterns start launch) =
      new_vector_rows (vectors_seq db) campaign_id run_id source patterns start launch"
    by (rule filter_True) (auto simp: new_vector_rows_def)
  ultimately show "run_vectors (db\<lparr>vectors_table := vectors_table db @ new_vector_rows (vectors_seq db) campaign_id run_id source patterns start launch,
        vectors_seq := vectors_seq db + int (length patterns)\<rparr>)
        campaign_id run_id = map (\<lambda>i. (patterns ! i, launch_at launch i)) [0..<length patterns]"
    by (simp add: run_vectors_def new_vector_rows_sorted) (simp add: new_vector_rows_def)
qed

end
