(* ===== verification/Compaction.thy ===== *)
theory Compaction
  imports Campaign_Db "HOL-Library.Sublist" "HOL-Library.Multiset"
begin

text \<open>
  \<^verbatim>\<open>faultflow/runner/compaction.py\<close>: static test compaction. \<open>compact_run\<close> and \<open>compact_run_transition\<close>
  walk the tests backwards and keep those that detect a fault no later test detected;
  \<open>compact_run_dynamic\<close> merges the kept tests further by relaxing and overlaying them, re-simulating
  every merge, and falls back to the first method.

  The fault simulator is the C++ core. Its grading calls (\<^verbatim>\<open>detect_with_vector\<close> and
  \<^verbatim>\<open>detect_with_pair\<close> of \<^verbatim>\<open>core/atpg/compaction.cpp\<close>) give the simulator an input value for every name of
  \<open>input_order\<close>, grade each target in a lane of its own and return the ids of the detected ones; the
  outcome of one lane is the parameter \<open>sim_core\<close>. The exceptions the core may throw are not modelled;
  the code passes them on before it writes anything. Python's seeded shuffle is a parameter too: it
  maps a seed and a length to a list of positions.

  Sets of fault ids are lists without order. The locale \<open>fault_sim\<close> states what the algorithms need
  of the grading call; its facts are used at the two interpretations for the core's calls.
\<close>

section \<open>Vectors and patterns\<close>

type_synonym vec = "(string \<times> bool) list"

record VectorSet =
  vs_source :: string
  input_order :: "string list"
  vectors :: "vec list"

definition pattern :: "vec \<Rightarrow> string list \<Rightarrow> string" where
  "pattern vector order = map (\<lambda>name. if get_or vector name False then CHR ''1'' else CHR ''0'') order"

definition decode :: "string \<Rightarrow> string list \<Rightarrow> vec res" where
  "decode pat order =
     (if length pat \<noteq> length order
      then Inl (RunnerError (''vector pattern length '' @ show_int (int (length pat)) @ '' != '' @
                  show_int (int (length order)) @ '' PIs''))
      else Inr (dict_of (map (\<lambda>i. (order ! i, pat ! i = CHR ''1'')) [0..<length order])))"

section \<open>Targets\<close>

record FaultTarget =
  ft_fault_id :: int
  ft_net_index :: int
  ft_type_code :: int

definition fault_type_to_sa_code :: "string \<Rightarrow> int res" where
  "fault_type_to_sa_code fault_type =
     (if fault_type = ''sa0'' then Inr 0
      else if fault_type = ''sa1'' then Inr 1
      else Inl (ValueError (''unexpected fault_type '' @ repr_str fault_type @ ''; expected '' @
                  repr_str ''sa0'' @ '' or '' @ repr_str ''sa1'')))"

text \<open>The \<^verbatim>\<open>WHERE\<close> clause shared by the two queries.\<close>

definition is_target :: "int \<Rightarrow> fault_row \<Rightarrow> bool" where
  "is_target campaign_id f =
     (f_campaign_id f = campaign_id \<and> f_status f = ''detected'' \<and> f_exclusion f = ''none'' \<and> f_collapsed_into f = None)"

definition detected_fault_ids :: "campaign_db \<Rightarrow> int \<Rightarrow> int list" where
  "detected_fault_ids db campaign_id = map f_id (sort_key f_id (filter (is_target campaign_id) (faults db)))"

definition fault_target :: "fault_row \<Rightarrow> FaultTarget res" where
  "fault_target f =
     bind_res (fault_type_to_sa_code (f_fault_type f)) (\<lambda>code.
       Inr \<lparr>ft_fault_id = f_id f,
         ft_net_index = (case f_atpg_compiled_net_index f of Some n \<Rightarrow> n | None \<Rightarrow> f_compiled_net_index f),
         ft_type_code = code\<rparr>)"

text \<open>The dictionary from the id of a target to the target.\<close>

definition by_id :: "FaultTarget list \<Rightarrow> (int \<times> FaultTarget) list" where
  "by_id ts = dict_of (map (\<lambda>t. (ft_fault_id t, t)) ts)"

definition detected_fault_targets :: "campaign_db \<Rightarrow> int \<Rightarrow> (int \<times> FaultTarget) list res" where
  "detected_fault_targets db campaign_id =
     bind_res (map_res fault_target (sort_key f_id (filter (is_target campaign_id) (faults db)))) (\<lambda>ts.
       Inr (by_id ts))"

definition triples :: "int list \<Rightarrow> (int \<times> FaultTarget) list \<Rightarrow> (int \<times> int \<times> int) list res" where
  "triples fault_ids targets_by_id =
     map_res (\<lambda>fid. case map_of targets_by_id fid of
         None \<Rightarrow> Inl (KeyError (show_int fid))
       | Some t \<Rightarrow> Inr (ft_fault_id t, ft_net_index t, ft_type_code t)) (sort fault_ids)"

section \<open>Grading calls of the core\<close>

text \<open>One lane: the assigned inputs, the net and the stuck-at code. Two frames for a transition fault.\<close>

record sim_core =
  lane_detects :: "vec \<Rightarrow> int \<Rightarrow> int \<Rightarrow> bool"
  pair_lane_detects :: "vec \<Rightarrow> vec \<Rightarrow> int \<Rightarrow> int \<Rightarrow> bool"

definition build_vector :: "vec \<Rightarrow> string list \<Rightarrow> vec" where
  "build_vector vector order = map (\<lambda>name. (name, get_or vector name False)) order"

definition detect_with_vector :: "sim_core \<Rightarrow> vec \<Rightarrow> string list \<Rightarrow> (int \<times> int \<times> int) list \<Rightarrow> int list" where
  "detect_with_vector core vector order targets =
     map fst (filter (\<lambda>(fid, net, code). lane_detects core (build_vector vector order) net code) targets)"

definition detect_with_pair :: "sim_core \<Rightarrow> vec \<times> vec \<Rightarrow> string list \<Rightarrow> (int \<times> int \<times> int) list \<Rightarrow> int list" where
  "detect_with_pair core lc order targets =
     map fst (filter (\<lambda>(fid, net, code).
       pair_lane_detects core (build_vector (fst lc) order) (build_vector (snd lc) order) net code) targets)"

text \<open>The argument of the loops: grade the given targets with one test.\<close>

definition detect :: "sim_core \<Rightarrow> string list \<Rightarrow> (int \<times> FaultTarget) list \<Rightarrow> vec \<Rightarrow> int list \<Rightarrow> int list res" where
  "detect core order targets_by_id vector targets =
     bind_res (triples targets targets_by_id) (\<lambda>ts. Inr (detect_with_vector core vector order ts))"

definition detect_pair ::
  "sim_core \<Rightarrow> string list \<Rightarrow> (int \<times> FaultTarget) list \<Rightarrow> vec \<times> vec \<Rightarrow> int list \<Rightarrow> int list res" where
  "detect_pair core order targets_by_id lc targets =
     bind_res (triples targets targets_by_id) (\<lambda>ts. Inr (detect_with_pair core lc order ts))"

section \<open>Writing the compacted run\<close>

definition insert_compacted_run :: "campaign_db \<Rightarrow> int \<Rightarrow> string \<Rightarrow> int \<Rightarrow> int \<times> campaign_db" where
  "insert_compacted_run db raw_run_id source vector_count =
     (case find (\<lambda>r. r_id r = raw_run_id) (runs db) of
        None \<Rightarrow> (0, db)
      | Some r \<Rightarrow>
          (runs_seq db + 1,
           db\<lparr>runs := runs db @ [r\<lparr>r_id := runs_seq db + 1, r_status := ''complete'',
                                   r_vector_source := source, r_vector_count := vector_count\<rparr>],
              runs_seq := runs_seq db + 1\<rparr>))"

definition write_compacted ::
  "campaign_db \<Rightarrow> int \<Rightarrow> int \<Rightarrow> string \<Rightarrow> string list \<Rightarrow> string list \<Rightarrow> (int \<times> campaign_db) res" where
  "write_compacted db campaign_id run_id source patterns launch_patterns =
     (let ins = insert_compacted_run db run_id source (int (length patterns))
      in if patterns = [] then Inr ins
         else bind_res (append_vectors (snd ins) campaign_id (fst ins) source patterns 1 launch_patterns)
                (\<lambda>db'. Inr (fst ins, db')))"

definition no_core :: py_exc where
  "no_core = RunnerError (''C++ extension _faultflow_core is required for compaction. '' @
     ''Run: cmake --build build -- -j2'')"

section \<open>Reverse-order selection\<close>

fun reverse_select :: "('v \<Rightarrow> int list \<Rightarrow> int list res) \<Rightarrow> 'v list \<Rightarrow> nat list \<Rightarrow> int list \<Rightarrow> nat list \<Rightarrow> nat list res" where
  "reverse_select det tests [] remaining kept = Inr kept"
| "reverse_select det tests (idx # idxs) remaining kept =
     (if remaining = [] then Inr kept
      else bind_res (det (tests ! idx) remaining) (\<lambda>detected.
        let newly = filter (\<lambda>fid. fid \<in> set remaining) detected
        in if newly \<noteq> [] then reverse_select det tests idxs (filter (\<lambda>fid. fid \<notin> set newly) remaining) (kept @ [idx])
           else reverse_select det tests idxs remaining kept))"

definition kept_tests :: "('v \<Rightarrow> int list \<Rightarrow> int list res) \<Rightarrow> 'v list \<Rightarrow> int list \<Rightarrow> 'v list res" where
  "kept_tests det tests remaining =
     bind_res (reverse_select det tests (rev [0..<length tests]) remaining []) (\<lambda>kept.
       Inr (map (\<lambda>i. tests ! i) (sort kept)))"

type_synonym compact_result = "(VectorSet \<times> int \<times> int) \<times> campaign_db"

definition compact_run ::
  "sim_core option \<Rightarrow> campaign_db \<Rightarrow> int \<Rightarrow> int \<Rightarrow> VectorSet \<Rightarrow> compact_result res" where
  "compact_run core_opt db campaign_id run_id vset =
     (let raw_count = int (length (vectors vset)); order = input_order vset
      in if vectors vset = [] then Inr ((vset, run_id, raw_count), db)
         else case core_opt of
           None \<Rightarrow> Inl no_core
         | Some core \<Rightarrow>
             bind_res (detected_fault_targets db campaign_id) (\<lambda>targets.
             bind_res (kept_tests (detect core order targets) (vectors vset) (map fst targets)) (\<lambda>kept.
             let source = ''compacted_'' @ vs_source vset
             in bind_res (write_compacted db campaign_id run_id source (map (\<lambda>v. pattern v order) kept) [])
                  (\<lambda>(new_run_id, db').
                    Inr ((\<lparr>vs_source = source, input_order = order, vectors = kept\<rparr>, new_run_id, raw_count), db')))))"

definition compact_run_transition ::
  "sim_core option \<Rightarrow> campaign_db \<Rightarrow> int \<Rightarrow> int \<Rightarrow> VectorSet \<Rightarrow> compact_result res" where
  "compact_run_transition core_opt db campaign_id run_id vset =
     (let order = input_order vset
      in bind_res (detected_fault_targets db campaign_id) (\<lambda>targets.
         bind_res (map_res (\<lambda>(pat, launch). bind_res (decode launch order) (\<lambda>l.
             bind_res (decode pat order) (\<lambda>c. Inr (l, c)))) (run_vectors db campaign_id run_id)) (\<lambda>pairs.
         if pairs = [] then Inr ((vset, run_id, 0), db)
         else case core_opt of
           None \<Rightarrow> Inl no_core
         | Some core \<Rightarrow>
             bind_res (kept_tests (detect_pair core order targets) pairs (map fst targets)) (\<lambda>kept.
             let source = ''compacted_'' @ vs_source vset
             in bind_res (write_compacted db campaign_id run_id source (map (\<lambda>(l, c). pattern c order) kept)
                    (map (\<lambda>(l, c). pattern l order) kept))
                  (\<lambda>(new_run_id, db').
                    Inr ((\<lparr>vs_source = source, input_order = order, vectors = map snd kept\<rparr>,
                          new_run_id, int (length pairs)), db'))))))"

section \<open>Cube packing\<close>

definition DYNAMIC_DENSE_FAULTS :: nat where
  "DYNAMIC_DENSE_FAULTS = 8"

record cube =
  c_spec :: vec
  c_vector :: vec
  c_newly :: "int list"

record open_cube =
  oc_spec :: vec
  oc_members :: "int list"
  oc_vector :: vec

type_synonym grader = "vec \<Rightarrow> int list \<Rightarrow> int list res"

text \<open>\<^verbatim>\<open>targets.issubset(detect(v, targets))\<close>.\<close>

definition all_detected_by :: "grader \<Rightarrow> vec \<Rightarrow> int list \<Rightarrow> bool res" where
  "all_detected_by det v targets = bind_res (det v targets) (\<lambda>ds. Inr (set targets \<subseteq> set ds))"

definition extract_bit :: "grader \<Rightarrow> vec \<Rightarrow> int list \<Rightarrow> string \<Rightarrow> vec \<Rightarrow> vec res" where
  "extract_bit det vector targets name spec =
     bind_res (all_detected_by det (dict_set vector name False) targets) (\<lambda>lo.
     bind_res (if lo then all_detected_by det (dict_set vector name True) targets else Inr False) (\<lambda>dont_care.
       Inr (if dont_care then spec else dict_set spec name (get_or vector name False))))"

definition extract_cube :: "grader \<Rightarrow> vec \<Rightarrow> string list \<Rightarrow> int list \<Rightarrow> vec res" where
  "extract_cube det vector order targets = fold_res (extract_bit det vector targets) order []"

definition cubes_compatible :: "vec \<Rightarrow> vec \<Rightarrow> bool" where
  "cubes_compatible a b = list_all (\<lambda>(name, v). has_key a name \<longrightarrow> map_of a name = Some v) b"

definition union_ids :: "int list \<Rightarrow> int list \<Rightarrow> int list" where
  "union_ids xs ys = xs @ filter (\<lambda>y. y \<notin> set xs) ys"

text \<open>The inner loop of \<^verbatim>\<open>_pack_cubes\<close>: the first open cube that takes the new one, else a new open cube.\<close>

fun place_cube :: "grader \<Rightarrow> cube \<Rightarrow> open_cube list \<Rightarrow> open_cube list res" where
  "place_cube det c [] = Inr [\<lparr>oc_spec = c_spec c, oc_members = c_newly c, oc_vector = c_vector c\<rparr>]"
| "place_cube det c (oc # ocs) =
     (if \<not> cubes_compatible (oc_spec oc) (c_spec c)
      then bind_res (place_cube det c ocs) (\<lambda>r. Inr (oc # r))
      else let trial = dict_update (oc_vector oc) (c_spec c);
               members = union_ids (oc_members oc) (c_newly c)
           in bind_res (all_detected_by det trial members) (\<lambda>ok.
                if ok then Inr (\<lparr>oc_spec = dict_update (oc_spec oc) (c_spec c), oc_members = members,
                                 oc_vector = trial\<rparr> # ocs)
                else bind_res (place_cube det c ocs) (\<lambda>r. Inr (oc # r))))"

definition pack_cubes :: "grader \<Rightarrow> cube list \<Rightarrow> vec list res" where
  "pack_cubes det cubes = bind_res (fold_res (place_cube det) cubes []) (\<lambda>ocs. Inr (map oc_vector ocs))"

definition order_cubes :: "(nat \<Rightarrow> nat \<Rightarrow> nat list) \<Rightarrow> cube list \<Rightarrow> nat \<Rightarrow> cube list" where
  "order_cubes shuffle cubes order_idx =
     (if order_idx = 0 then cubes
      else if order_idx = 1 then sort_key (\<lambda>c. int (length (c_spec c))) cubes
      else if order_idx = 2 then sort_key (\<lambda>c. - int (length (c_spec c))) cubes
      else map (\<lambda>i. cubes ! i) (shuffle order_idx (length cubes)))"

fun contributions ::
  "grader \<Rightarrow> vec list \<Rightarrow> nat list \<Rightarrow> int list \<Rightarrow> (vec \<times> int list) list \<Rightarrow> (vec \<times> int list) list res" where
  "contributions det tests [] remaining acc = Inr acc"
| "contributions det tests (idx # idxs) remaining acc =
     (if remaining = [] then Inr acc
      else bind_res (det (tests ! idx) remaining) (\<lambda>ds.
        let newly = filter (\<lambda>fid. fid \<in> set ds) remaining
        in if newly \<noteq> [] then contributions det tests idxs (filter (\<lambda>fid. fid \<notin> set newly) remaining)
                              (acc @ [(tests ! idx, newly)])
           else contributions det tests idxs remaining acc))"

definition make_cube :: "grader \<Rightarrow> string list \<Rightarrow> vec \<times> int list \<Rightarrow> cube res" where
  "make_cube det order vn =
     (case vn of (vector, newly) \<Rightarrow>
        bind_res (if DYNAMIC_DENSE_FAULTS < length newly
                  then Inr (dict_of (map (\<lambda>name. (name, get_or vector name False)) order))
                  else extract_cube det vector order newly)
          (\<lambda>spec. Inr \<lparr>c_spec = spec, c_vector = vector, c_newly = newly\<rparr>))"

definition try_order ::
  "grader \<Rightarrow> (nat \<Rightarrow> nat \<Rightarrow> nat list) \<Rightarrow> cube list \<Rightarrow> nat \<Rightarrow> vec list option \<Rightarrow> vec list option res" where
  "try_order det shuffle cubes order_idx best =
     bind_res (pack_cubes det (order_cubes shuffle cubes order_idx)) (\<lambda>candidate.
       Inr (case best of
              None \<Rightarrow> Some candidate
            | Some b \<Rightarrow> if length candidate < length b then Some candidate else best))"

definition detected_by_any :: "grader \<Rightarrow> vec list \<Rightarrow> int list \<Rightarrow> int list res" where
  "detected_by_any det tests targets =
     fold_res (\<lambda>v acc. bind_res (det v targets) (\<lambda>ds. Inr (union_ids acc ds))) tests []"

definition pack_all ::
  "grader \<Rightarrow> (nat \<Rightarrow> nat \<Rightarrow> nat list) \<Rightarrow> string list \<Rightarrow> (vec \<times> int list) list \<Rightarrow> int \<Rightarrow> vec list res" where
  "pack_all det shuffle order contribs pack_orders =
     bind_res (map_res (make_cube det order) contribs) (\<lambda>cubes.
     bind_res (fold_res (try_order det shuffle cubes) [0..<nat (max 1 pack_orders)] None) (\<lambda>best.
       Inr (case best of Some b \<Rightarrow> b | None \<Rightarrow> [])))"

definition compact_run_dynamic ::
  "(nat \<Rightarrow> nat \<Rightarrow> nat list) \<Rightarrow> sim_core option \<Rightarrow> campaign_db \<Rightarrow> int \<Rightarrow> int \<Rightarrow> VectorSet \<Rightarrow> int \<Rightarrow> compact_result res" where
  "compact_run_dynamic shuffle core_opt db campaign_id run_id vset pack_orders =
     (let raw_count = int (length (vectors vset)); order = input_order vset
      in if vectors vset = [] then Inr ((vset, run_id, raw_count), db)
         else case core_opt of
           None \<Rightarrow> Inl no_core
         | Some core \<Rightarrow>
             bind_res (detected_fault_targets db campaign_id) (\<lambda>targets.
             let det = detect core order targets; all_detected = map fst targets
             in bind_res (contributions det (vectors vset) (rev [0..<length (vectors vset)]) all_detected []) (\<lambda>contribs.
                bind_res (pack_all det shuffle order contribs pack_orders) (\<lambda>packed.
                bind_res (detected_by_any det packed all_detected) (\<lambda>packed_detected.
                if \<not> set all_detected \<subseteq> set packed_detected \<or> length contribs < length packed
                then compact_run core_opt db campaign_id run_id vset
                else let source = ''compacted_'' @ vs_source vset
                     in bind_res (write_compacted db campaign_id run_id source (map (\<lambda>v. pattern v order) packed) [])
                          (\<lambda>(new_run_id, db').
                            Inr ((\<lparr>vs_source = source, input_order = order, vectors = packed\<rparr>,
                                  new_run_id, raw_count), db')))))))"

section \<open>Subsequences\<close>

lemma subseq_rev: "subseq xs ys \<Longrightarrow> subseq (rev xs) (rev ys)"
  by (induction rule: list_emb.induct) (auto intro: list_emb_append2 list_emb_append_mono)

lemma subseq_set: "subseq xs ys \<Longrightarrow> set xs \<subseteq> set ys"
  by (induction rule: list_emb.induct) auto

lemma sorted_subseq: "subseq xs ys \<Longrightarrow> sorted ys \<Longrightarrow> sorted xs"
  by (induction rule: list_emb.induct) (auto dest: subseq_set)

lemma sort_subseq_rev:
  assumes "subseq ks (rev [0..<n])"
  shows "sort ks = rev ks"
proof -
  from assms have "subseq (rev ks) [0..<n]" by (metis rev_rev_ident subseq_rev)
  then have "sorted (rev ks)" by (rule sorted_subseq) simp
  then show ?thesis by (intro properties_for_sort) simp_all
qed

section \<open>The interface of the fault simulator\<close>

text \<open>What selection and packing rely on: grading a set of known targets returns, and returns exactly
  those that the test detects, each judged on its own.\<close>

locale fault_sim =
  fixes det :: "'v \<Rightarrow> int list \<Rightarrow> int list res"
    and detects :: "'v \<Rightarrow> int \<Rightarrow> bool"
    and known :: "int set"
  assumes det_spec: "set T \<subseteq> known \<Longrightarrow> \<exists>ds. det v T = Inr ds \<and> set ds = {f \<in> set T. detects v f}"
begin

definition irredundant :: "'v list \<Rightarrow> nat list \<Rightarrow> int set \<Rightarrow> bool" where
  "irredundant tests ks F = (\<forall>as i bs. ks = as @ i # bs \<longrightarrow>
     (\<exists>f \<in> F. detects (tests ! i) f \<and> (\<forall>j \<in> set as. \<not> detects (tests ! j) f)))"

lemma irredundant_Cons:
  assumes "irredundant tests ks G" and "G \<subseteq> {f \<in> F. \<not> detects (tests ! i) f}"
    and "f \<in> F" "detects (tests ! i) f"
  shows "irredundant tests (i # ks) F"
  unfolding irredundant_def
proof (intro allI impI)
  fix as k bs assume split: "i # ks = as @ k # bs"
  show "\<exists>f\<in>F. detects (tests ! k) f \<and> (\<forall>j\<in>set as. \<not> detects (tests ! j) f)"
  proof (cases as)
    case Nil
    with split assms(3,4) show ?thesis by auto
  next
    case (Cons a as')
    with split have a: "a = i" and "ks = as' @ k # bs" by auto
    with assms(1) obtain g where "g \<in> G" "detects (tests ! k) g" "\<forall>j\<in>set as'. \<not> detects (tests ! j) g"
      unfolding irredundant_def by blast
    with assms(2) Cons a show ?thesis by auto
  qed
qed

lemma reverse_select_spec:
  "set rem \<subseteq> known \<Longrightarrow> \<exists>ks. reverse_select det tests idxs rem kept = Inr (kept @ ks) \<and> subseq ks idxs \<and>
    length ks \<le> card (set rem) \<and> irredundant tests ks (set rem) \<and>
    (\<forall>f \<in> set rem. (\<exists>i \<in> set idxs. detects (tests ! i) f) \<longrightarrow> (\<exists>i \<in> set ks. detects (tests ! i) f))"
proof (induction idxs arbitrary: rem kept)
  case Nil
  show ?case by (rule exI [of _ "[]"]) (simp add: irredundant_def)
next
  case (Cons idx idxs)
  obtain ds where ds: "det (tests ! idx) rem = Inr ds" "set ds = {f \<in> set rem. detects (tests ! idx) f}"
    using det_spec [OF Cons.prems] by blast
  have keep: "filter (\<lambda>f. f \<in> set rem) ds = ds" using ds(2) by (simp add: filter_id_conv)
  consider "rem = []" | "rem \<noteq> []" "ds = []" | "rem \<noteq> []" "ds \<noteq> []" by blast
  then show ?case
  proof cases
    case 1
    then show ?thesis by (intro exI [of _ "[]"]) (simp add: irredundant_def)
  next
    case 2
    with Cons.IH [OF Cons.prems, of kept] obtain ks where ks:
      "reverse_select det tests idxs rem kept = Inr (kept @ ks)" "subseq ks idxs" "length ks \<le> card (set rem)"
      "irredundant tests ks (set rem)"
      "\<forall>f \<in> set rem. (\<exists>i \<in> set idxs. detects (tests ! i) f) \<longrightarrow> (\<exists>i \<in> set ks. detects (tests ! i) f)" by blast
    from 2 ds(2) have "\<forall>f \<in> set rem. \<not> detects (tests ! idx) f" by auto
    with ks 2 ds(1) show ?thesis by (intro exI [of _ ks]) (auto intro: list_emb_Cons)
  next
    case 3
    let ?rem = "filter (\<lambda>f. f \<notin> set ds) rem"
    from Cons.prems have "set ?rem \<subseteq> known" by auto
    from Cons.IH [OF this, of "kept @ [idx]"] obtain ks where ks:
      "reverse_select det tests idxs ?rem (kept @ [idx]) = Inr (kept @ idx # ks)" "subseq ks idxs"
      "length ks \<le> card (set ?rem)" "irredundant tests ks (set ?rem)"
      "\<forall>f \<in> set ?rem. (\<exists>i \<in> set idxs. detects (tests ! i) f) \<longrightarrow> (\<exists>i \<in> set ks. detects (tests ! i) f)" by auto
    obtain f where f: "f \<in> set ds" using 3 by (cases ds) auto
    then have "set ?rem \<subset> set rem" using ds(2) by auto
    then have "card (set ?rem) < card (set rem)" by (intro psubset_card_mono) auto
    moreover have "irredundant tests (idx # ks) (set rem)"
      by (rule irredundant_Cons [OF ks(4)]) (use f ds(2) in auto)
    ultimately show ?thesis using 3 ds ks keep by (intro exI [of _ "idx # ks"]) (auto simp: Let_def)
  qed
qed

lemma kept_tests_spec:
  assumes "set rem \<subseteq> known"
  shows "\<exists>kept. kept_tests det tests rem = Inr kept \<and> subseq kept tests \<and> length kept \<le> card (set rem) \<and>
    (\<forall>f \<in> set rem. (\<exists>v \<in> set tests. detects v f) \<longrightarrow> (\<exists>v \<in> set kept. detects v f)) \<and>
    (\<forall>as v bs. kept = as @ v # bs \<longrightarrow> (\<exists>f \<in> set rem. detects v f \<and> (\<forall>w \<in> set bs. \<not> detects w f)))"
proof -
  let ?idxs = "rev [0..<length tests]"
  from reverse_select_spec [OF assms, of tests ?idxs "[]"] obtain ks where ks:
    "reverse_select det tests ?idxs rem [] = Inr ks" "subseq ks ?idxs" "length ks \<le> card (set rem)"
    "irredundant tests ks (set rem)"
    "\<forall>f \<in> set rem. (\<exists>i \<in> set ?idxs. detects (tests ! i) f) \<longrightarrow> (\<exists>i \<in> set ks. detects (tests ! i) f)" by auto
  let ?kept = "map (\<lambda>i. tests ! i) (rev ks)"
  have "subseq (rev ks) [0..<length tests]" using ks(2) by (metis rev_rev_ident subseq_rev)
  then have "subseq ?kept tests" using subseq_map [of "rev ks" "[0..<length tests]" "\<lambda>i. tests ! i"] by (simp add: map_nth)
  moreover have "\<exists>v \<in> set ?kept. detects v f" if "f \<in> set rem" "\<exists>v \<in> set tests. detects v f" for f
    using ks(5) that by (fastforce simp: in_set_conv_nth)
  moreover have "\<exists>f \<in> set rem. detects v f \<and> (\<forall>w \<in> set bs. \<not> detects w f)" if "?kept = as @ v # bs" for as v bs
  proof -
    from that obtain xs i ys where *: "rev ks = xs @ i # ys" "v = tests ! i" "bs = map (\<lambda>i. tests ! i) ys"
      by (auto simp: map_eq_append_conv map_eq_Cons_conv)
    then have "ks = rev ys @ i # rev xs" by (metis rev_rev_ident rev_append rev.simps(2) append.assoc append_Cons append_Nil)
    with ks(4) * show ?thesis unfolding irredundant_def by fastforce
  qed
  ultimately show ?thesis using ks(1,3) sort_subseq_rev [OF ks(2)]
    by (intro exI [of _ ?kept]) (auto simp: kept_tests_def)
qed

end

section \<open>Packing under the simulator interface\<close>

locale cube_sim = fault_sim det detects known
  for det :: grader and detects :: "vec \<Rightarrow> int \<Rightarrow> bool" and known :: "int set"
begin

lemma all_detected_by_spec:
  "set T \<subseteq> known \<Longrightarrow> all_detected_by det v T = Inr (\<forall>f \<in> set T. detects v f)"
  using det_spec [of T v] by (auto simp: all_detected_by_def)

lemma extract_cube_returns:
  assumes "set T \<subseteq> known"
  shows "\<exists>spec. extract_cube det v order T = Inr spec"
proof -
  have "\<exists>spec. fold_res (extract_bit det v T) order acc = Inr spec" for acc
    by (induction order arbitrary: acc) (auto simp: extract_bit_def all_detected_by_spec [OF assms])
  then show ?thesis by (simp add: extract_cube_def)
qed

text \<open>A contribution is a test with faults it detects; the loop finds the same tests as the reverse
  selection, and their faults are all the detectable ones.\<close>

lemma contributions_spec:
  "set rem \<subseteq> known \<Longrightarrow> \<exists>cs ks. contributions det tests idxs rem acc = Inr (acc @ cs) \<and>
    reverse_select det tests idxs rem kept = Inr (kept @ ks) \<and> length cs = length ks \<and>
    (\<forall>(v, n) \<in> set cs. set n \<subseteq> set rem \<and> (\<forall>f \<in> set n. detects v f)) \<and>
    (\<forall>f \<in> set rem. (\<exists>i \<in> set idxs. detects (tests ! i) f) \<longrightarrow> (\<exists>(v, n) \<in> set cs. f \<in> set n))"
proof (induction idxs arbitrary: rem acc kept)
  case (Cons idx idxs)
  obtain ds where ds: "det (tests ! idx) rem = Inr ds" "set ds = {f \<in> set rem. detects (tests ! idx) f}"
    using det_spec [OF Cons.prems] by blast
  have keep: "filter (\<lambda>f. f \<in> set rem) ds = ds" using ds(2) by (simp add: filter_id_conv)
  let ?newly = "filter (\<lambda>f. f \<in> set ds) rem" and ?rem = "filter (\<lambda>f. f \<notin> set ds) rem"
  have newly: "set ?newly = set ds" using ds(2) by auto
  have same: "filter (\<lambda>f. f \<notin> set ?newly) rem = ?rem" unfolding newly by simp
  consider "rem = []" | "rem \<noteq> []" "ds = []" | "rem \<noteq> []" "ds \<noteq> []" by blast
  then show ?case
  proof cases
    case 1
    then show ?thesis by simp
  next
    case 2
    with Cons.IH [OF Cons.prems, of acc kept] obtain cs ks where *:
      "contributions det tests idxs rem acc = Inr (acc @ cs)" "reverse_select det tests idxs rem kept = Inr (kept @ ks)"
      "length cs = length ks" "\<forall>(v, n) \<in> set cs. set n \<subseteq> set rem \<and> (\<forall>f \<in> set n. detects v f)"
      "\<forall>f \<in> set rem. (\<exists>i \<in> set idxs. detects (tests ! i) f) \<longrightarrow> (\<exists>(v, n) \<in> set cs. f \<in> set n)" by blast
    from 2 ds(2) have "\<forall>f \<in> set rem. \<not> detects (tests ! idx) f" by auto
    with * 2 ds(1) show ?thesis by (intro exI [of _ cs] exI [of _ ks]) auto
  next
    case 3
    then have ne: "?newly \<noteq> []" using newly by (metis set_empty)
    from Cons.prems have "set ?rem \<subseteq> known" by auto
    from Cons.IH [OF this, of "acc @ [(tests ! idx, ?newly)]" "kept @ [idx]"] obtain cs ks where *:
      "contributions det tests idxs ?rem (acc @ [(tests ! idx, ?newly)]) = Inr (acc @ (tests ! idx, ?newly) # cs)"
      "reverse_select det tests idxs ?rem (kept @ [idx]) = Inr (kept @ idx # ks)"
      "length cs = length ks" "\<forall>(v, n) \<in> set cs. set n \<subseteq> set ?rem \<and> (\<forall>f \<in> set n. detects v f)"
      "\<forall>f \<in> set ?rem. (\<exists>i \<in> set idxs. detects (tests ! i) f) \<longrightarrow> (\<exists>(v, n) \<in> set cs. f \<in> set n)" by auto
    have "contributions det tests (idx # idxs) rem acc = Inr (acc @ (tests ! idx, ?newly) # cs)"
      using 3 ne ds(1) * same by (simp add: Let_def)
    moreover have "reverse_select det tests (idx # idxs) rem kept = Inr (kept @ idx # ks)"
      using 3 ds(1) keep * by (simp add: Let_def)
    moreover have "\<forall>(v, n) \<in> set ((tests ! idx, ?newly) # cs). set n \<subseteq> set rem \<and> (\<forall>f \<in> set n. detects v f)"
      using *(4) ds(2) by fastforce
    moreover have "\<exists>(v, n) \<in> set ((tests ! idx, ?newly) # cs). f \<in> set n"
      if "f \<in> set rem" "\<exists>i \<in> set (idx # idxs). detects (tests ! i) f" for f
      using that *(5) ds(2) by (cases "f \<in> set ds") auto
    ultimately show ?thesis using *(3) by (intro exI [of _ "(tests ! idx, ?newly) # cs"] exI [of _ "idx # ks"]) auto
  qed
qed simp

definition good_open :: "open_cube \<Rightarrow> bool" where
  "good_open oc = (set (oc_members oc) \<subseteq> known \<and> (\<forall>f \<in> set (oc_members oc). detects (oc_vector oc) f))"

definition good_cube :: "cube \<Rightarrow> bool" where
  "good_cube c = (set (c_newly c) \<subseteq> known \<and> (\<forall>f \<in> set (c_newly c). detects (c_vector c) f))"

lemma place_cube_spec:
  assumes "good_cube c" and "\<forall>oc \<in> set ocs. good_open oc"
  shows "\<exists>ocs'. place_cube det c ocs = Inr ocs' \<and> (\<forall>oc \<in> set ocs'. good_open oc) \<and>
    (\<Union>oc \<in> set ocs'. set (oc_members oc)) = set (c_newly c) \<union> (\<Union>oc \<in> set ocs. set (oc_members oc)) \<and>
    length ocs' \<le> Suc (length ocs)"
  using assms(2)
proof (induction ocs)
  case Nil
  show ?case using assms(1) by (simp add: good_cube_def good_open_def)
next
  case (Cons oc ocs)
  then obtain r where r: "place_cube det c ocs = Inr r" "\<forall>oc \<in> set r. good_open oc"
    "(\<Union>oc \<in> set r. set (oc_members oc)) = set (c_newly c) \<union> (\<Union>oc \<in> set ocs. set (oc_members oc))"
    "length r \<le> Suc (length ocs)" by auto
  let ?trial = "dict_update (oc_vector oc) (c_spec c)" and ?members = "union_ids (oc_members oc) (c_newly c)"
  have m: "set ?members = set (oc_members oc) \<union> set (c_newly c)" by (auto simp: union_ids_def)
  with Cons.prems assms(1) have k: "set ?members \<subseteq> known" by (auto simp: good_open_def good_cube_def)
  show ?case
  proof (cases "cubes_compatible (oc_spec oc) (c_spec c) \<and> (\<forall>f \<in> set ?members. detects ?trial f)")
    case True
    then have "place_cube det c (oc # ocs) = Inr (\<lparr>oc_spec = dict_update (oc_spec oc) (c_spec c), oc_members = ?members,
        oc_vector = ?trial\<rparr> # ocs)" by (simp add: Let_def all_detected_by_spec [OF k])
    then show ?thesis using True Cons.prems k m by (auto simp: good_open_def)
  next
    case False
    then have "place_cube det c (oc # ocs) = Inr (oc # r)"
      using r(1) by (auto simp: Let_def all_detected_by_spec [OF k])
    then show ?thesis using r Cons.prems by auto
  qed
qed

lemma pack_cubes_spec:
  assumes "\<forall>c \<in> set cubes. good_cube c"
  shows "\<exists>packed. pack_cubes det cubes = Inr packed \<and> length packed \<le> length cubes \<and>
    (\<forall>c \<in> set cubes. \<forall>f \<in> set (c_newly c). \<exists>v \<in> set packed. detects v f)"
proof -
  have "\<exists>ocs'. fold_res (place_cube det) cubes ocs = Inr ocs' \<and> (\<forall>oc \<in> set ocs'. good_open oc) \<and>
      (\<Union>c \<in> set cubes. set (c_newly c)) \<union> (\<Union>oc \<in> set ocs. set (oc_members oc)) \<subseteq> (\<Union>oc \<in> set ocs'. set (oc_members oc)) \<and>
      length ocs' \<le> length cubes + length ocs" if "\<forall>oc \<in> set ocs. good_open oc" for ocs
    using assms that
  proof (induction cubes arbitrary: ocs)
    case (Cons c cubes)
    then obtain ocs1 where 1: "place_cube det c ocs = Inr ocs1" "\<forall>oc \<in> set ocs1. good_open oc"
      "(\<Union>oc \<in> set ocs1. set (oc_members oc)) = set (c_newly c) \<union> (\<Union>oc \<in> set ocs. set (oc_members oc))"
      "length ocs1 \<le> Suc (length ocs)" using place_cube_spec by (meson list.set_intros(1))
    from Cons.IH [OF _ 1(2)] Cons.prems(1) obtain ocs' where "fold_res (place_cube det) cubes ocs1 = Inr ocs'"
      "\<forall>oc \<in> set ocs'. good_open oc"
      "(\<Union>c \<in> set cubes. set (c_newly c)) \<union> (\<Union>oc \<in> set ocs1. set (oc_members oc)) \<subseteq> (\<Union>oc \<in> set ocs'. set (oc_members oc))"
      "length ocs' \<le> length cubes + length ocs1" by auto
    with 1 show ?case by (intro exI [of _ ocs']) auto
  qed simp
  from this [of "[]"] obtain ocs' where o: "fold_res (place_cube det) cubes [] = Inr ocs'"
    "\<forall>oc \<in> set ocs'. good_open oc" "(\<Union>c \<in> set cubes. set (c_newly c)) \<subseteq> (\<Union>oc \<in> set ocs'. set (oc_members oc))"
    "length ocs' \<le> length cubes" by auto
  then show ?thesis by (intro exI [of _ "map oc_vector ocs'"]) (fastforce simp: pack_cubes_def good_open_def)
qed

lemma pack_order:
  assumes "\<And>s n. mset (shuffle s n) = mset [0..<n]"
  shows "mset (order_cubes shuffle cubes k) = mset cubes"
proof -
  have "mset (map (\<lambda>i. cubes ! i) (shuffle k (length cubes))) = mset (map (\<lambda>i. cubes ! i) [0..<length cubes])"
    by (simp only: mset_map assms)
  then show ?thesis by (simp add: order_cubes_def map_nth)
qed

definition packs :: "cube list \<Rightarrow> vec list \<Rightarrow> bool" where
  "packs cubes packed = (length packed \<le> length cubes \<and>
     (\<forall>c \<in> set cubes. \<forall>f \<in> set (c_newly c). \<exists>v \<in> set packed. detects v f))"

lemma try_orders_spec:
  assumes "\<And>s n. mset (shuffle s n) = mset [0..<n]" and "\<forall>c \<in> set cubes. good_cube c"
    and "\<And>b. best = Some b \<Longrightarrow> packs cubes b"
  shows "\<exists>best'. fold_res (try_order det shuffle cubes) ks best = Inr best' \<and>
    (\<forall>b. best' = Some b \<longrightarrow> packs cubes b) \<and> (ks \<noteq> [] \<or> best \<noteq> None \<longrightarrow> best' \<noteq> None)"
  using assms(3)
proof (induction ks arbitrary: best)
  case (Cons k ks)
  have ms: "mset (order_cubes shuffle cubes k) = mset cubes" by (rule pack_order [OF assms(1)])
  then have st: "set (order_cubes shuffle cubes k) = set cubes" "length (order_cubes shuffle cubes k) = length cubes"
    using mset_eq_setD mset_eq_length by blast+
  with pack_cubes_spec [of "order_cubes shuffle cubes k"] assms(2) obtain cand where
    c: "pack_cubes det (order_cubes shuffle cubes k) = Inr cand" "packs cubes cand"
    by (auto simp: packs_def)
  let ?best = "case best of None \<Rightarrow> Some cand | Some b \<Rightarrow> if length cand < length b then Some cand else best"
  have step: "try_order det shuffle cubes k best = Inr ?best" by (simp add: try_order_def c(1))
  have "packs cubes b" if "?best = Some b" for b
    using that Cons.prems c(2) by (auto split: option.splits if_splits)
  from Cons.IH [OF this] obtain best' where "fold_res (try_order det shuffle cubes) ks ?best = Inr best'"
    "\<forall>b. best' = Some b \<longrightarrow> packs cubes b" "ks \<noteq> [] \<or> ?best \<noteq> None \<longrightarrow> best' \<noteq> None" by blast
  moreover have "?best \<noteq> None" by (auto split: option.splits)
  ultimately show ?case using step by simp
qed auto

lemma pack_all_spec:
  assumes "\<And>s n. mset (shuffle s n) = mset [0..<n]"
    and good: "\<forall>(v, n) \<in> set contribs. set n \<subseteq> known \<and> (\<forall>f \<in> set n. detects v f)"
  shows "\<exists>packed. pack_all det shuffle order contribs pack_orders = Inr packed \<and> length packed \<le> length contribs \<and>
    (\<forall>(v, n) \<in> set contribs. \<forall>f \<in> set n. \<exists>w \<in> set packed. detects w f)"
proof -
  have "\<exists>c. make_cube det order (v, n) = Inr c \<and> c_newly c = n \<and> c_vector c = v" if "(v, n) \<in> set contribs" for v n
  proof -
    from good that have "set n \<subseteq> known" by blast
    from extract_cube_returns [OF this, of v order] obtain spec where "extract_cube det v order n = Inr spec" by blast
    then show ?thesis by (simp add: make_cube_def)
  qed
  then have "\<exists>c. make_cube det order vn = Inr c \<and> c_newly c = snd vn \<and> c_vector c = fst vn" if "vn \<in> set contribs" for vn
    using that by (cases vn) auto
  then obtain g where g: "make_cube det order vn = Inr (g vn)" "c_newly (g vn) = snd vn" "c_vector (g vn) = fst vn"
    if "vn \<in> set contribs" for vn by metis
  then have cubes: "map_res (make_cube det order) contribs = Inr (map g contribs)" by (intro map_res_total) auto
  have "\<forall>c \<in> set (map g contribs). good_cube c" using good g by (fastforce simp: good_cube_def)
  from try_orders_spec [where shuffle = shuffle and best = None and ks = "[0..<nat (max 1 pack_orders)]", OF assms(1) this] obtain b where
    "fold_res (try_order det shuffle (map g contribs)) [0..<nat (max 1 pack_orders)] None = Inr (Some b)"
    and b: "packs (map g contribs) b" by auto
  with cubes have "pack_all det shuffle order contribs pack_orders = Inr b" by (simp add: pack_all_def)
  moreover have "\<exists>w \<in> set b. detects w f" if "(v, n) \<in> set contribs" "f \<in> set n" for v n f
    using b that g(2) [OF that(1)] by (force simp: packs_def)
  ultimately show ?thesis using b by (auto simp: packs_def)
qed

lemma detected_by_any_spec:
  assumes "set T \<subseteq> known"
  shows "\<exists>ds. detected_by_any det tests T = Inr ds \<and> set ds = {f \<in> set T. \<exists>v \<in> set tests. detects v f}"
proof -
  have "\<exists>ds. fold_res (\<lambda>v acc. bind_res (det v T) (\<lambda>ds. Inr (union_ids acc ds))) tests acc = Inr ds \<and>
      set ds = set acc \<union> {f \<in> set T. \<exists>v \<in> set tests. detects v f}" for acc
  proof (induction tests arbitrary: acc)
    case (Cons v tests)
    obtain ds where ds: "det v T = Inr ds" "set ds = {f \<in> set T. detects v f}" using det_spec [OF assms] by blast
    have "set (union_ids acc ds) = set acc \<union> set ds" by (auto simp: union_ids_def)
    with Cons.IH [of "union_ids acc ds"] ds show ?case by auto
  qed simp
  from this [of "[]"] show ?thesis by (simp add: detected_by_any_def)
qed

end

section \<open>The core provides the interface\<close>

definition detects_fault :: "sim_core \<Rightarrow> string list \<Rightarrow> (int \<times> FaultTarget) list \<Rightarrow> vec \<Rightarrow> int \<Rightarrow> bool" where
  "detects_fault core order targets v f =
     (case map_of targets f of
        None \<Rightarrow> False
      | Some t \<Rightarrow> lane_detects core (build_vector v order) (ft_net_index t) (ft_type_code t))"

definition pair_detects_fault ::
  "sim_core \<Rightarrow> string list \<Rightarrow> (int \<times> FaultTarget) list \<Rightarrow> vec \<times> vec \<Rightarrow> int \<Rightarrow> bool" where
  "pair_detects_fault core order targets lc f =
     (case map_of targets f of
        None \<Rightarrow> False
      | Some t \<Rightarrow> pair_lane_detects core (build_vector (fst lc) order) (build_vector (snd lc) order)
                   (ft_net_index t) (ft_type_code t))"

lemma by_id_keyed: "map_of (by_id ts) f = Some t \<Longrightarrow> ft_fault_id t = f"
  using set_dict_of [of "map (\<lambda>t. (ft_fault_id t, t)) ts"] by (auto simp: by_id_def dest!: map_of_SomeD)

lemma triples_by_id:
  assumes "set T \<subseteq> fst ` set (by_id ts)"
  shows "triples T (by_id ts) =
    Inr (map (\<lambda>f. let t = the (map_of (by_id ts) f) in (f, ft_net_index t, ft_type_code t)) (sort T))"
  unfolding triples_def
proof (rule map_res_total)
  fix f assume "f \<in> set (sort T)"
  with assms obtain t where "map_of (by_id ts) f = Some t" by (metis domIff dom_map_of_conv_image_fst not_None_eq set_sort subsetD)
  then show "(case map_of (by_id ts) f of None \<Rightarrow> Inl (KeyError (show_int f))
      | Some t \<Rightarrow> Inr (ft_fault_id t, ft_net_index t, ft_type_code t)) =
    Inr (let t = the (map_of (by_id ts) f) in (f, ft_net_index t, ft_type_code t))"
    using by_id_keyed by auto
qed

lemma known_target: "f \<in> fst ` set (by_id ts) \<Longrightarrow> \<exists>t. map_of (by_id ts) f = Some t"
  by (metis domD dom_map_of_conv_image_fst)

interpretation lanes: cube_sim "detect core order (by_id ts)" "detects_fault core order (by_id ts)" "fst ` set (by_id ts)"
  for core order ts
proof (unfold_locales, goal_cases)
  case (1 T v)
  then show ?case using known_target [of _ ts]
    by (fastforce simp: detect_def triples_by_id detect_with_vector_def detects_fault_def Let_def image_iff)
qed

interpretation pairs: fault_sim "detect_pair core order (by_id ts)" "pair_detects_fault core order (by_id ts)"
    "fst ` set (by_id ts)"
  for core order ts
proof (unfold_locales, goal_cases)
  case (1 T v)
  then show ?case using known_target [of _ ts]
    by (fastforce simp: detect_pair_def triples_by_id detect_with_pair_def pair_detects_fault_def Let_def image_iff)
qed

section \<open>Patterns in the database\<close>

lemma length_pattern [simp]: "length (pattern v order) = length order"
  by (simp add: pattern_def)

lemma pattern_nth: "i < length order \<Longrightarrow> pattern v order ! i = CHR ''1'' \<longleftrightarrow> get_or v (order ! i) False"
  by (simp add: pattern_def)

lemma map_of_dict_of_consistent:
  assumes "\<And>kv. kv \<in> set kvs \<Longrightarrow> snd kv = g (fst kv)" and "k \<in> fst ` set kvs"
  shows "map_of (dict_of kvs) k = Some (g k)"
proof -
  from assms(2) have "k \<in> fst ` set (dict_of kvs)" by (simp add: fst_dict_of)
  then obtain v where v: "map_of (dict_of kvs) k = Some v" by (metis domD dom_map_of_conv_image_fst)
  then have "(k, v) \<in> set kvs" using set_dict_of map_of_SomeD by fastforce
  with assms(1) [of "(k, v)"] v show ?thesis by simp
qed

text \<open>Reading a stored pattern gives the simulator the inputs it was written from.\<close>

lemma decode_pattern:
  "\<exists>w. decode (pattern v order) order = Inr w \<and> build_vector w order = build_vector v order"
proof -
  let ?kvs = "map (\<lambda>i. (order ! i, pattern v order ! i = CHR ''1'')) [0..<length order]"
  have "get_or (dict_of ?kvs) name False = get_or v name False" if "name \<in> set order" for name
  proof -
    have "map_of (dict_of ?kvs) name = Some (get_or v name False)"
      by (rule map_of_dict_of_consistent) (use that in \<open>auto simp: pattern_nth in_set_conv_nth image_iff\<close>)
    then show ?thesis by (subst get_or_def) simp
  qed
  then have "build_vector (dict_of ?kvs) order = build_vector v order"
    by (simp add: build_vector_def)
  then show ?thesis by (simp add: decode_def)
qed

text \<open>The database after a write: every table only grew, so the raw run is still there.\<close>

definition db_extends :: "campaign_db \<Rightarrow> campaign_db \<Rightarrow> bool" where
  "db_extends db db' = (campaigns db' = campaigns db \<and> faults db' = faults db \<and>
     prefix (runs db) (runs db') \<and> prefix (vectors_table db) (vectors_table db'))"

lemma write_compacted_spec:
  assumes wf: "wf_db db" and run: "run_id \<in> r_id ` set (runs db)" and camp: "c \<in> campaign_keys db"
    and len: "ls = [] \<or> length ls = length ps"
  shows "\<exists>db'. write_compacted db c run_id source ps ls = Inr (runs_seq db + 1, db') \<and> db_extends db db' \<and>
    run_vectors db' c (runs_seq db + 1) = map (\<lambda>i. (ps ! i, launch_at ls i)) [0..<length ps]"
proof -
  let ?new = "runs_seq db + 1"
  from run obtain r where r: "find (\<lambda>r. r_id r = run_id) (runs db) = Some r"
    by (metis (mono_tags, lifting) find_None_iff2 imageE not_None_eq)
  let ?row = "r\<lparr>r_id := ?new, r_status := ''complete'', r_vector_source := source, r_vector_count := int (length ps)\<rparr>"
  let ?db1 = "db\<lparr>runs := runs db @ [?row], runs_seq := ?new\<rparr>"
  have ins: "insert_compacted_run db run_id source (int (length ps)) = (?new, ?db1)"
    by (simp add: insert_compacted_run_def r)
  have fresh: "v_run_id v \<noteq> ?new" if "v \<in> set (vectors_table ?db1)" for v
    using wf_dbD(3) [OF wf, of v] that by auto
  have new: "?new \<in> r_id ` set (runs ?db1)" and camp1: "c \<in> campaign_keys ?db1" using camp by auto
  note app = append_vectors_fresh [OF new camp1 fresh len, of source 1]
  let ?db2 = "?db1\<lparr>vectors_table := vectors_table ?db1 @ new_vector_rows (vectors_seq ?db1) c ?new source ps 1 ls,
    vectors_seq := vectors_seq ?db1 + int (length ps)\<rparr>"
  have "write_compacted db c run_id source ps ls = Inr (?new, ?db2)"
    using app(1) ins by (cases "ps = []") (simp_all add: write_compacted_def Let_def new_vector_rows_def)
  then show ?thesis using app(2) by (intro exI [of _ ?db2]) (simp add: db_extends_def)
qed

text \<open>A fault is detected by a run as it is stored: one of its patterns, read back, detects it.\<close>

definition stored_detects ::
  "sim_core \<Rightarrow> string list \<Rightarrow> (int \<times> FaultTarget) list \<Rightarrow> campaign_db \<Rightarrow> int \<Rightarrow> int \<Rightarrow> int \<Rightarrow> bool" where
  "stored_detects core order targets db c run_id f =
     (\<exists>(pat, launch) \<in> set (run_vectors db c run_id). \<exists>v. decode pat order = Inr v \<and> detects_fault core order targets v f)"

definition stored_pair_detects ::
  "sim_core \<Rightarrow> string list \<Rightarrow> (int \<times> FaultTarget) list \<Rightarrow> campaign_db \<Rightarrow> int \<Rightarrow> int \<Rightarrow> int \<Rightarrow> bool" where
  "stored_pair_detects core order targets db c run_id f =
     (\<exists>(pat, launch) \<in> set (run_vectors db c run_id). \<exists>l v. decode launch order = Inr l \<and> decode pat order = Inr v \<and>
        pair_detects_fault core order targets (l, v) f)"

lemma stored_detects_patterns:
  assumes "run_vectors db c run_id = map (\<lambda>i. (map (\<lambda>v. pattern v order) kept ! i, launch_at [] i)) [0..<length kept]"
    and "v \<in> set kept" and "detects_fault core order targets v f"
  shows "stored_detects core order targets db c run_id f"
proof -
  obtain w where w: "decode (pattern v order) order = Inr w" "build_vector w order = build_vector v order"
    using decode_pattern by blast
  from assms(2) obtain i where "i < length kept" "kept ! i = v" by (auto simp: in_set_conv_nth)
  then have "(pattern v order, launch_at [] i) \<in> set (run_vectors db c run_id)" by (force simp: assms(1))
  moreover have "detects_fault core order targets w f" using assms(3) w(2) by (simp add: detects_fault_def split: option.splits)
  ultimately show ?thesis using w(1) by (force simp: stored_detects_def)
qed

lemma detected_fault_targets_by_id:
  "detected_fault_targets db c = Inr targets \<Longrightarrow> \<exists>ts. targets = by_id ts"
  by (auto simp: detected_fault_targets_def bind_res_eq_Inr)

section \<open>Compaction preserves coverage\<close>

lemma compact_run_reverse:
  assumes "wf_db db" and "run_id \<in> r_id ` set (runs db)" and "c \<in> campaign_keys db"
    and targets: "detected_fault_targets db c = Inr targets" and "vectors vset \<noteq> []"
  shows "\<exists>kept db'. compact_run (Some core) db c run_id vset =
      Inr ((\<lparr>vs_source = ''compacted_'' @ vs_source vset, input_order = input_order vset, vectors = kept\<rparr>,
            runs_seq db + 1, int (length (vectors vset))), db') \<and>
    subseq kept (vectors vset) \<and> length kept \<le> length targets \<and> db_extends db db' \<and>
    (\<forall>f \<in> fst ` set targets. (\<exists>v \<in> set (vectors vset). detects_fault core (input_order vset) targets v f) \<longrightarrow>
       stored_detects core (input_order vset) targets db' c (runs_seq db + 1) f) \<and>
    (\<forall>as v bs. kept = as @ v # bs \<longrightarrow> (\<exists>f \<in> fst ` set targets. detects_fault core (input_order vset) targets v f \<and>
       (\<forall>w \<in> set bs. \<not> detects_fault core (input_order vset) targets w f)))"
proof -
  obtain ts where ts: "targets = by_id ts" using detected_fault_targets_by_id [OF targets] by blast
  let ?order = "input_order vset"
  from lanes.kept_tests_spec [of "map fst targets" ts core ?order "vectors vset"] obtain kept where
    kept: "kept_tests (detect core ?order targets) (vectors vset) (map fst targets) = Inr kept"
      "subseq kept (vectors vset)" "length kept \<le> card (set (map fst targets))"
    and cov: "\<forall>f \<in> fst ` set targets. (\<exists>v \<in> set (vectors vset). detects_fault core ?order targets v f) \<longrightarrow>
        (\<exists>v \<in> set kept. detects_fault core ?order targets v f)"
    and irr: "\<forall>as v bs. kept = as @ v # bs \<longrightarrow> (\<exists>f \<in> fst ` set targets. detects_fault core ?order targets v f \<and>
        (\<forall>w \<in> set bs. \<not> detects_fault core ?order targets w f))"
    unfolding ts by auto
  have "length kept \<le> length targets" using kept(3) card_length [of "map fst targets"] by simp
  moreover from write_compacted_spec [OF assms(1-3), of "[]" "map (\<lambda>v. pattern v ?order) kept"] obtain db' where
    db': "write_compacted db c run_id (''compacted_'' @ vs_source vset) (map (\<lambda>v. pattern v ?order) kept) [] =
      Inr (runs_seq db + 1, db')" "db_extends db db'"
      "run_vectors db' c (runs_seq db + 1) =
        map (\<lambda>i. (map (\<lambda>v. pattern v ?order) kept ! i, launch_at [] i)) [0..<length kept]" by auto
  ultimately show ?thesis using kept cov irr stored_detects_patterns [OF db'(3)] targets assms(5) db'
    by (intro exI [of _ kept] exI [of _ db']) (auto simp: compact_run_def Let_def)
qed

text \<open>C25: reverse-order compaction of a run returns a subsequence of its vectors with at most one vector per
  target, stores it as a new run beside the old data, and every target that some vector of the input
  detects is detected by a pattern of the new run as it is read back from the database; each kept
  vector detects a target that no later kept vector detects.\<close>

theorem compact_run_preserves_coverage:
  assumes "wf_db db" and "run_id \<in> r_id ` set (runs db)" and "c \<in> campaign_keys db"
    and targets: "detected_fault_targets db c = Inr targets" and "vectors vset \<noteq> []"
  shows "\<exists>kept db'. compact_run (Some core) db c run_id vset =
      Inr ((\<lparr>vs_source = ''compacted_'' @ vs_source vset, input_order = input_order vset, vectors = kept\<rparr>,
            runs_seq db + 1, int (length (vectors vset))), db') \<and>
    subseq kept (vectors vset) \<and> length kept \<le> length targets \<and> db_extends db db' \<and>
    (\<forall>f \<in> fst ` set targets. (\<exists>v \<in> set (vectors vset). detects_fault core (input_order vset) targets v f) \<longrightarrow>
       stored_detects core (input_order vset) targets db' c (runs_seq db + 1) f) \<and>
    (\<forall>as v bs. kept = as @ v # bs \<longrightarrow> (\<exists>f \<in> fst ` set targets. detects_fault core (input_order vset) targets v f \<and>
       (\<forall>w \<in> set bs. \<not> detects_fault core (input_order vset) targets w f)))"
  by (rule compact_run_reverse [OF assms])

text \<open>Two-frame tests: what \<open>stored_detects_patterns\<close> is for single vectors.\<close>

lemma stored_pair_detects_patterns:
  assumes "run_vectors db c run_id = map (\<lambda>i. (map (\<lambda>(l, v). pattern v order) kept ! i,
      launch_at (map (\<lambda>(l, v). pattern l order) kept) i)) [0..<length kept]"
    and "lc \<in> set kept" and "pair_detects_fault core order targets lc f"
  shows "stored_pair_detects core order targets db c run_id f"
proof -
  obtain l v where lc: "lc = (l, v)" by (cases lc)
  obtain l' where l': "decode (pattern l order) order = Inr l'" "build_vector l' order = build_vector l order"
    using decode_pattern by blast
  obtain v' where v': "decode (pattern v order) order = Inr v'" "build_vector v' order = build_vector v order"
    using decode_pattern by blast
  from assms(2) obtain i where "i < length kept" "kept ! i = (l, v)" by (auto simp: in_set_conv_nth lc)
  then have "(pattern v order, pattern l order) \<in> set (run_vectors db c run_id)"
    by (force simp: assms(1) launch_at_def)
  moreover have "pair_detects_fault core order targets (l', v') f"
    using assms(3) l'(2) v'(2) by (simp add: pair_detects_fault_def lc split: option.splits)
  ultimately show ?thesis using l'(1) v'(1) by (force simp: stored_pair_detects_def)
qed

text \<open>C26: compaction of a transition run reads its launch and capture patterns from the database, and stores a
  new run whose pattern pairs detect every target that a pair of the old run detects, as both are read
  back from the database.\<close>

theorem compact_run_transition_preserves_coverage:
  assumes "wf_db db" and "run_id \<in> r_id ` set (runs db)" and "c \<in> campaign_keys db"
    and targets: "detected_fault_targets db c = Inr targets"
    and rows: "run_vectors db c run_id \<noteq> []"
      "\<forall>(pat, launch) \<in> set (run_vectors db c run_id). length pat = length (input_order vset) \<and> length launch = length (input_order vset)"
  shows "\<exists>vs db'. compact_run_transition (Some core) db c run_id vset =
      Inr ((vs, runs_seq db + 1, int (length (run_vectors db c run_id))), db') \<and>
    db_extends db db' \<and> length (vectors vs) \<le> length (run_vectors db c run_id) \<and>
    (\<forall>f \<in> fst ` set targets. stored_pair_detects core (input_order vset) targets db c run_id f \<longrightarrow>
       stored_pair_detects core (input_order vset) targets db' c (runs_seq db + 1) f)"
proof -
  obtain ts where ts: "targets = by_id ts" using detected_fault_targets_by_id [OF targets] by blast
  let ?order = "input_order vset" and ?rows = "run_vectors db c run_id"
  define read where "read = (\<lambda>(pat, launch). bind_res (decode launch ?order) (\<lambda>l. bind_res (decode pat ?order) (\<lambda>v. Inr (l, v))))"
  have "\<exists>lc. read row = Inr lc" if "row \<in> set ?rows" for row
    using rows(2) that by (cases row) (auto simp: read_def decode_def)
  then obtain g where g: "read row = Inr (g row)" if "row \<in> set ?rows" for row by metis
  then have pairs: "map_res read ?rows = Inr (map g ?rows)" by (intro map_res_total) auto
  from pairs.kept_tests_spec [of "map fst targets" ts core ?order "map g ?rows"] obtain kept where
    kept: "kept_tests (detect_pair core ?order targets) (map g ?rows) (map fst targets) = Inr kept"
      "subseq kept (map g ?rows)"
    and cov: "\<forall>f \<in> fst ` set targets. (\<exists>lc \<in> set (map g ?rows). pair_detects_fault core ?order targets lc f) \<longrightarrow>
        (\<exists>lc \<in> set kept. pair_detects_fault core ?order targets lc f)"
    unfolding ts by auto
  from write_compacted_spec [OF assms(1-3), of "map (\<lambda>(l, v). pattern l ?order) kept" "map (\<lambda>(l, v). pattern v ?order) kept"]
  obtain db' where db': "write_compacted db c run_id (''compacted_'' @ vs_source vset)
        (map (\<lambda>(l, v). pattern v ?order) kept) (map (\<lambda>(l, v). pattern l ?order) kept) = Inr (runs_seq db + 1, db')"
      "db_extends db db'" "run_vectors db' c (runs_seq db + 1) = map (\<lambda>i. (map (\<lambda>(l, v). pattern v ?order) kept ! i,
        launch_at (map (\<lambda>(l, v). pattern l ?order) kept) i)) [0..<length kept]" by auto
  have "\<exists>lc \<in> set (map g ?rows). pair_detects_fault core ?order targets lc f"
    if stored: "stored_pair_detects core ?order targets db c run_id f" for f
  proof -
    from stored obtain pat launch l v where "(pat, launch) \<in> set ?rows" "decode launch ?order = Inr l"
      "decode pat ?order = Inr v" and d: "pair_detects_fault core ?order targets (l, v) f"
      by (auto simp: stored_pair_detects_def)
    then have "(l, v) \<in> g ` set ?rows" using g [of "(pat, launch)"] by (force simp: read_def)
    with d show ?thesis by auto
  qed
  with cov have "stored_pair_detects core ?order targets db' c (runs_seq db + 1) f"
    if "f \<in> fst ` set targets" "stored_pair_detects core ?order targets db c run_id f" for f
    using that stored_pair_detects_patterns [OF db'(3)] by blast
  moreover have "length kept \<le> length ?rows" using list_emb_length [OF kept(2)] by simp
  moreover have "compact_run_transition (Some core) db c run_id vset =
      Inr ((\<lparr>vs_source = ''compacted_'' @ vs_source vset, input_order = ?order, vectors = map snd kept\<rparr>,
        runs_seq db + 1, int (length ?rows)), db')"
    using pairs kept(1) db'(1) rows(1) targets by (simp add: compact_run_transition_def Let_def read_def)
  ultimately show ?thesis using db'(2) by auto
qed

text \<open>The packing stage of dynamic compaction on the core: it returns, its result is no larger than what
  reverse-order selection keeps and detects every target some vector of the input detects.\<close>

lemma packing_stage:
  fixes core :: sim_core and order :: "string list" and ts :: "FaultTarget list"
  assumes "\<And>s n. mset (shuffle s n) = mset [0..<n]"
  defines "det \<equiv> detect core order (by_id ts)" and "F \<equiv> map fst (by_id ts)"
  shows "\<exists>contribs packed kept. contributions det tests (rev [0..<length tests]) F [] = Inr contribs \<and>
    pack_all det shuffle order contribs pack_orders = Inr packed \<and> kept_tests det tests F = Inr kept \<and>
    length contribs = length kept \<and> length packed \<le> length kept \<and>
    (\<forall>f \<in> set F. (\<exists>v \<in> set tests. detects_fault core order (by_id ts) v f) \<longrightarrow>
       (\<exists>v \<in> set packed. detects_fault core order (by_id ts) v f))"
proof -
  let ?idxs = "rev [0..<length tests]" and ?d = "detects_fault core order (by_id ts)"
  have F: "set F \<subseteq> fst ` set (by_id ts)" by (simp add: F_def)
  from lanes.contributions_spec [OF F, of core order tests ?idxs "[]" "[]"] obtain cs ks where c:
    "contributions det tests ?idxs F [] = Inr cs" "reverse_select det tests ?idxs F [] = Inr ks" "length cs = length ks"
    "\<forall>(v, n) \<in> set cs. set n \<subseteq> set F \<and> (\<forall>f \<in> set n. ?d v f)"
    "\<forall>f \<in> set F. (\<exists>i \<in> set ?idxs. ?d (tests ! i) f) \<longrightarrow> (\<exists>(v, n) \<in> set cs. f \<in> set n)"
    unfolding det_def by auto
  have "\<forall>(v, n) \<in> set cs. set n \<subseteq> fst ` set (by_id ts) \<and> (\<forall>f \<in> set n. ?d v f)" using c(4) F by blast
  from lanes.pack_all_spec [where shuffle = shuffle and pack_orders = pack_orders, OF assms(1) this]
  have "\<exists>packed. pack_all det shuffle order cs pack_orders = Inr packed \<and> length packed \<le> length cs \<and>
    (\<forall>(v, n) \<in> set cs. \<forall>f \<in> set n. \<exists>w \<in> set packed. ?d w f)" unfolding det_def .
  then obtain packed where p:
    "pack_all det shuffle order cs pack_orders = Inr packed" "length packed \<le> length cs"
    "\<forall>(v, n) \<in> set cs. \<forall>f \<in> set n. \<exists>w \<in> set packed. ?d w f" by blast
  have "\<exists>w \<in> set packed. ?d w f" if "f \<in> set F" "v \<in> set tests" "?d v f" for f v
  proof -
    from that(2) have "\<exists>i \<in> set ?idxs. tests ! i = v" by (auto simp: in_set_conv_nth)
    with that c(5) obtain v' n where "(v', n) \<in> set cs" "f \<in> set n" by blast
    with p(3) show ?thesis by blast
  qed
  then show ?thesis using c p by (auto simp: kept_tests_def)
qed

text \<open>C27: dynamic compaction never returns more vectors than reverse-order compaction of the same run, keeps
  the old data, and every target that some vector of the input detects is detected by a stored pattern
  of the new run. Python's shuffle is assumed to permute.\<close>

theorem compact_run_dynamic_preserves_coverage:
  assumes "wf_db db" and "run_id \<in> r_id ` set (runs db)" and "c \<in> campaign_keys db"
    and targets: "detected_fault_targets db c = Inr targets" and ne: "vectors vset \<noteq> []"
    and shuffle: "\<And>s n. mset (shuffle s n) = mset [0..<n]"
  shows "\<exists>vs db' reverse reverse_db. compact_run_dynamic shuffle (Some core) db c run_id vset pack_orders =
      Inr ((vs, runs_seq db + 1, int (length (vectors vset))), db') \<and>
    compact_run (Some core) db c run_id vset = Inr ((reverse, runs_seq db + 1, int (length (vectors vset))), reverse_db) \<and>
    length (vectors vs) \<le> length (vectors reverse) \<and> db_extends db db' \<and>
    (\<forall>f \<in> fst ` set targets. (\<exists>v \<in> set (vectors vset). detects_fault core (input_order vset) targets v f) \<longrightarrow>
       stored_detects core (input_order vset) targets db' c (runs_seq db + 1) f)"
proof -
  obtain ts where ts: "targets = by_id ts" using detected_fault_targets_by_id [OF targets] by blast
  let ?order = "input_order vset" and ?F = "map fst targets" and ?tests = "vectors vset"
  let ?det = "detect core ?order targets" and ?src = "''compacted_'' @ vs_source vset"
  from packing_stage [where shuffle = shuffle and core = core and order = ?order and ts = ts and tests = ?tests
      and pack_orders = pack_orders, OF shuffle]
  obtain contribs packed kept where s:
    "contributions ?det ?tests (rev [0..<length ?tests]) ?F [] = Inr contribs"
    "pack_all ?det shuffle ?order contribs pack_orders = Inr packed" "kept_tests ?det ?tests ?F = Inr kept"
    "length contribs = length kept" "length packed \<le> length kept"
    and cov: "\<forall>f \<in> set ?F. (\<exists>v \<in> set ?tests. detects_fault core ?order targets v f) \<longrightarrow>
       (\<exists>v \<in> set packed. detects_fault core ?order targets v f)" unfolding ts by blast
  obtain ds where ds: "detected_by_any ?det packed ?F = Inr ds"
    using lanes.detected_by_any_spec [of ?F ts] unfolding ts by fastforce
  from compact_run_reverse [OF assms(1-5), of core] obtain reverse rdb where
    rev: "compact_run (Some core) db c run_id vset =
      Inr ((\<lparr>vs_source = ?src, input_order = ?order, vectors = reverse\<rparr>, runs_seq db + 1, int (length ?tests)), rdb)"
      "db_extends db rdb" "\<forall>f \<in> fst ` set targets. (\<exists>v \<in> set ?tests. detects_fault core ?order targets v f) \<longrightarrow>
        stored_detects core ?order targets rdb c (runs_seq db + 1) f" by blast
  have "reverse = kept" using rev(1) s(3) ne targets by (auto simp: compact_run_def Let_def bind_res_eq_Inr split: prod.splits)
  from write_compacted_spec [OF assms(1-3), of "[]" "map (\<lambda>v. pattern v ?order) packed" ?src] obtain db' where
    db': "write_compacted db c run_id ?src (map (\<lambda>v. pattern v ?order) packed) [] = Inr (runs_seq db + 1, db')"
      "db_extends db db'" "run_vectors db' c (runs_seq db + 1) =
        map (\<lambda>i. (map (\<lambda>v. pattern v ?order) packed ! i, launch_at [] i)) [0..<length packed]" by auto
  note run = compact_run_dynamic_def Let_def s(1,2) ds targets ne
  show ?thesis
  proof (cases "set ?F \<subseteq> set ds \<and> length packed \<le> length contribs")
    case True
    then have "compact_run_dynamic shuffle (Some core) db c run_id vset pack_orders =
        Inr ((\<lparr>vs_source = ?src, input_order = ?order, vectors = packed\<rparr>, runs_seq db + 1, int (length ?tests)), db')"
      using db'(1) by (auto simp: run)
    then show ?thesis using rev(1) s(5) \<open>reverse = kept\<close> db'(2) cov stored_detects_patterns [OF db'(3)] by auto
  next
    case False
    then have "compact_run_dynamic shuffle (Some core) db c run_id vset pack_orders = compact_run (Some core) db c run_id vset"
      by (auto simp: run)
    then show ?thesis using rev by auto
  qed
qed

section \<open>An example campaign\<close>

text \<open>Two inputs, three stuck-at faults; the core detects a fault on net \<open>n\<close> stuck at \<open>s\<close> if input \<open>n\<close> is driven to
  the other value.\<close>

definition ex_core :: sim_core where
  "ex_core = \<lparr>lane_detects = (\<lambda>v net code. get_or v (show_int net) False = (code = 0)),
     pair_lane_detects = (\<lambda>l v net code. get_or v (show_int net) False = (code = 0) \<and> get_or l (show_int net) False \<noteq> (code = 0))\<rparr>"

definition ex_fault :: "int \<Rightarrow> int \<Rightarrow> string \<Rightarrow> fault_row" where
  "ex_fault i n t = \<lparr>f_id = i, f_campaign_id = 1, f_site_key = show_int i, f_net_id = n, f_compiled_net_index = n, f_atpg_compiled_net_index = None,
     f_fault_type = t, f_status = ''detected'', f_exclusion = ''none'', f_collapsed_into = None, f_protocol_unresolved = 0,
     f_detected_by_vector = Some 1, f_redundancy_model_id = None\<rparr>"

definition ex_db :: campaign_db where
  "ex_db = \<lparr>user_version = 6, campaigns = [\<lparr>c_id = 1, c_type = ''comb'', c_columns = []\<rparr>], campaigns_seq = 1,
     faults = [ex_fault 1 1 ''sa0'', ex_fault 2 2 ''sa0'', ex_fault 3 2 ''sa1''],
     runs = [\<lparr>r_id = 1, r_campaign_id = 1, r_status = ''complete'', r_vector_source = ''atpg'', r_vector_count = 3,
       r_coverage = None, r_terminal_reason = None, r_atpg = replicate 8 0, r_carried = []\<rparr>],
     runs_seq = 1,
     vectors_table = new_vector_rows 0 1 1 ''atpg'' [''10'', ''01'', ''10''] 1 [''01'', ''10'', ''01''], vectors_seq = 3,
     detections = [], candidates = [], rejections = [], blocked = []\<rparr>"

definition ex_vset :: VectorSet where
  "ex_vset = \<lparr>vs_source = ''atpg'', input_order = [''1'', ''2''],
     vectors = [[(''1'', True), (''2'', False)], [(''1'', False), (''2'', True)], [(''1'', True), (''2'', False)]]\<rparr>"

definition ex_targets :: "(int \<times> FaultTarget) list" where
  "ex_targets = [(1, \<lparr>ft_fault_id = 1, ft_net_index = 1, ft_type_code = 0\<rparr>), (2, \<lparr>ft_fault_id = 2, ft_net_index = 2, ft_type_code = 0\<rparr>),
     (3, \<lparr>ft_fault_id = 3, ft_net_index = 2, ft_type_code = 1\<rparr>)]"

lemma ex_compaction:
  "wf_db ex_db" "1 \<in> r_id ` set (runs ex_db)" "1 \<in> campaign_keys ex_db"
  "detected_fault_targets ex_db 1 = Inr ex_targets" "vectors ex_vset \<noteq> []"
  by code_simp+

lemma ex_detected:
  "2 \<in> fst ` set ex_targets" "input_order ex_vset = [''1'', ''2'']" "runs_seq ex_db = 1"
  "detects_fault ex_core [''1'', ''2''] ex_targets [(''1'', False), (''2'', True)] 2"
  "run_vectors ex_db 1 1 = [(''10'', ''01''), (''01'', ''10''), (''10'', ''01'')]"
  "decode ''01'' [''1'', ''2''] = Inr [(''1'', False), (''2'', True)]"
  "decode ''10'' [''1'', ''2''] = Inr [(''1'', True), (''2'', False)]"
  "pair_detects_fault ex_core [''1'', ''2''] ex_targets ([(''1'', True), (''2'', False)], [(''1'', False), (''2'', True)]) 2"
  by code_simp+

theorem compact_run_preserves_coverage_witness:
  "\<exists>vs db'. compact_run (Some ex_core) ex_db 1 1 ex_vset = Inr ((vs, 2, 3), db') \<and> length (vectors vs) \<le> 3 \<and>
    stored_detects ex_core [''1'', ''2''] ex_targets db' 1 2 2"
proof -
  have "\<exists>v \<in> set (vectors ex_vset). detects_fault ex_core (input_order ex_vset) ex_targets v 2"
    using ex_detected(4) by (force simp: ex_vset_def)
  moreover have "length (vectors ex_vset) = 3" "length ex_targets = 3" by (simp_all add: ex_vset_def ex_targets_def)
  moreover note compact_run_preserves_coverage [OF ex_compaction, of ex_core]
  ultimately obtain kept db' where "compact_run (Some ex_core) ex_db 1 1 ex_vset =
      Inr ((\<lparr>vs_source = ''compacted_'' @ vs_source ex_vset, input_order = [''1'', ''2''], vectors = kept\<rparr>, 2, 3), db')"
    "length kept \<le> 3" "stored_detects ex_core [''1'', ''2''] ex_targets db' 1 2 2"
    using ex_detected(1) by (auto simp: ex_detected(2,3))
  then show ?thesis by auto
qed

theorem compact_run_transition_preserves_coverage_witness:
  "\<exists>vs db'. compact_run_transition (Some ex_core) ex_db 1 1 ex_vset = Inr ((vs, 2, 3), db') \<and>
    stored_pair_detects ex_core [''1'', ''2''] ex_targets db' 1 2 2"
proof -
  have "stored_pair_detects ex_core (input_order ex_vset) ex_targets ex_db 1 1 2"
    using ex_detected(8) by (auto simp: stored_pair_detects_def ex_detected(2,5,6,7))
  then show ?thesis
    using compact_run_transition_preserves_coverage [OF ex_compaction(1-4), of ex_vset ex_core] ex_detected(1)
    by (auto simp: ex_detected(2,3,5))
qed

theorem compact_run_dynamic_preserves_coverage_witness:
  "\<exists>vs db'. compact_run_dynamic (\<lambda>s n. [0..<n]) (Some ex_core) ex_db 1 1 ex_vset 4 = Inr ((vs, 2, 3), db') \<and>
    stored_detects ex_core [''1'', ''2''] ex_targets db' 1 2 2"
proof -
  have "\<exists>v \<in> set (vectors ex_vset). detects_fault ex_core (input_order ex_vset) ex_targets v 2"
    using ex_detected(4) by (force simp: ex_vset_def)
  moreover have "length (vectors ex_vset) = 3" by (simp add: ex_vset_def)
  ultimately show ?thesis
    using compact_run_dynamic_preserves_coverage [OF ex_compaction, of "\<lambda>s n. [0..<n]" ex_core 4] ex_detected(1)
    by (auto simp: ex_detected(2,3))
qed

end
