(* ===== verification/Bit_Index.thy ===== *)
theory Bit_Index
  imports Scan_Stitch
begin

text \<open>
  \<^verbatim>\<open>_BitIndex\<close> of \<^verbatim>\<open>faultflow/scan/atpg_view.py\<close>: an index from a net to the cell pins, ports and net
  names that hold it, kept in step while the ATPG view is built, so that replacing a net touches only
  its own sites. The index shares the tables of the module; here they are arguments, gathered in the
  record \<open>tables\<close>. A Python set is a list without order. \<open>rewire_all\<close> is the reference: the scan of
  the whole module that the index replaces. The theory shows that on an index that agrees with the
  tables the two compute the same module, and that the index still agrees afterwards.
\<close>

section \<open>Tables and index\<close>

record tables =
  t_cells :: jobj
  t_ports :: jobj
  t_nets :: jobj

record bit_index =
  cell_locs :: "(int \<times> (string \<times> string) list) list"
  port_locs :: "(int \<times> string list) list"
  net_locs :: "(int \<times> string list) list"

text \<open>\<^verbatim>\<open>d.setdefault(k, set()).add(x)\<close> and \<^verbatim>\<open>locs.discard(x)\<close>.\<close>

definition loc_add :: "('k \<times> 'x list) list \<Rightarrow> 'k \<Rightarrow> 'x \<Rightarrow> ('k \<times> 'x list) list" where
  "loc_add d k x = dict_set d k (List.insert x (get_or d k []))"

definition loc_discard :: "('k \<times> 'x list) list \<Rightarrow> 'k \<Rightarrow> 'x \<Rightarrow> ('k \<times> 'x list) list" where
  "loc_discard d k x = (if has_key d k then dict_set d k (removeAll x (get_or d k [])) else d)"

text \<open>The pins of a cell with the nets on them; nothing for a cell that is not an object or whose
  connections are not one.\<close>

definition conns_of :: "json \<Rightarrow> jobj" where
  "conns_of cell =
     (case Option.bind (as_obj cell) (\<lambda>c. as_obj (get_or c ''connections'' (JObj []))) of
        None \<Rightarrow> []
      | Some conns \<Rightarrow> conns)"

definition cell_sites :: "json \<Rightarrow> (string \<times> int) list" where
  "cell_sites cell = concat (map (\<lambda>(pin, bits). map (\<lambda>b. (pin, b)) (int_bits bits)) (conns_of cell))"

definition add_cell :: "string \<Rightarrow> json \<Rightarrow> bit_index \<Rightarrow> bit_index" where
  "add_cell instance cell idx =
     idx\<lparr>cell_locs := fold (\<lambda>(pin, b) d. loc_add d b (instance, pin)) (cell_sites cell) (cell_locs idx)\<rparr>"

definition remove_cell :: "string \<Rightarrow> json \<Rightarrow> bit_index \<Rightarrow> bit_index" where
  "remove_cell instance cell idx =
     idx\<lparr>cell_locs := fold (\<lambda>(pin, b) d. loc_discard d b (instance, pin)) (cell_sites cell) (cell_locs idx)\<rparr>"

definition entry_bits :: "json \<Rightarrow> int list" where
  "entry_bits entry = (case as_obj entry of None \<Rightarrow> [] | Some e \<Rightarrow> int_bits (get_or e ''bits'' JNull))"

definition index_entry :: "string \<times> json \<Rightarrow> (int \<times> string list) list \<Rightarrow> (int \<times> string list) list" where
  "index_entry ne locs = fold (\<lambda>b d. loc_add d b (fst ne)) (entry_bits (snd ne)) locs"

definition bit_index_init :: "tables \<Rightarrow> bit_index" where
  "bit_index_init t =
     fold (\<lambda>(instance, cell). add_cell instance cell) (t_cells t)
       \<lparr>cell_locs = [], port_locs = fold index_entry (t_ports t) [], net_locs = fold index_entry (t_nets t) []\<rparr>"

definition consumer_count :: "bit_index \<Rightarrow> int \<Rightarrow> nat" where
  "consumer_count idx b = length (get_or (cell_locs idx) b [])"

section \<open>Rewiring\<close>

text \<open>The comprehension \<^verbatim>\<open>[new if bit == old else bit for bit in bits]\<close>, and the same over the integer
  bits only, which is what a cell pin keeps.\<close>

definition subst_bits :: "int \<Rightarrow> int \<Rightarrow> json list \<Rightarrow> json list" where
  "subst_bits old new bits = map (\<lambda>b. if as_int b = Some old then JInt new else b) bits"

definition subst_pin :: "int \<Rightarrow> int \<Rightarrow> json \<Rightarrow> json" where
  "subst_pin old new bits =
     JList (subst_bits old new (filter (\<lambda>b. as_int b \<noteq> None) (case as_list bits of None \<Rightarrow> [] | Some bs \<Rightarrow> bs)))"

definition rewire_pin :: "int \<Rightarrow> int \<Rightarrow> string \<Rightarrow> json \<Rightarrow> json" where
  "rewire_pin old new pin cell =
     (case as_obj cell of
        None \<Rightarrow> cell
      | Some c \<Rightarrow> (case as_obj (get_or c ''connections'' (JObj [])) of
          None \<Rightarrow> cell
        | Some conns \<Rightarrow> (case map_of conns pin of
            None \<Rightarrow> cell
          | Some bits \<Rightarrow> JObj (dict_set c ''connections'' (JObj (dict_set conns pin (subst_pin old new bits)))))))"

text \<open>One turn of the loop over the sites of the old net. The new location is recorded only when the pin
  exists.\<close>

definition rewire_site :: "int \<Rightarrow> int \<Rightarrow> string \<times> string \<Rightarrow> jobj \<times> (int \<times> (string \<times> string) list) list
    \<Rightarrow> jobj \<times> (int \<times> (string \<times> string) list) list" where
  "rewire_site old new site st =
     (case st of (cells, locs) \<Rightarrow>
        (case map_of cells (fst site) of
           None \<Rightarrow> st
         | Some cell \<Rightarrow>
             if has_key (conns_of cell) (snd site)
             then (dict_set cells (fst site) (rewire_pin old new (snd site) cell), loc_add locs new site)
             else st))"

definition rewire_entry :: "int \<Rightarrow> int \<Rightarrow> json \<Rightarrow> json option" where
  "rewire_entry old new entry =
     (case as_obj entry of
        None \<Rightarrow> None
      | Some e \<Rightarrow> (case as_list (get_or e ''bits'' JNull) of
          None \<Rightarrow> None
        | Some bits \<Rightarrow> Some (JObj (dict_set e ''bits'' (JList (subst_bits old new bits))))))"

text \<open>The loops over ports and net names are the same: an excluded name goes back under the old net, any
  other is rewritten and collected.\<close>

definition rewire_name :: "int \<Rightarrow> int \<Rightarrow> string list \<Rightarrow> string \<Rightarrow> jobj \<times> (int \<times> string list) list \<times> string list
    \<Rightarrow> jobj \<times> (int \<times> string list) list \<times> string list" where
  "rewire_name old new excluded name st =
     (case st of (table, locs, moved) \<Rightarrow>
        if name \<in> set excluded then (table, loc_add locs old name, moved)
        else (case Option.bind (map_of table name) (rewire_entry old new) of
                None \<Rightarrow> st
              | Some entry \<Rightarrow> (dict_set table name entry, locs, List.insert name moved)))"

definition rewire_names :: "int \<Rightarrow> int \<Rightarrow> string list \<Rightarrow> jobj \<Rightarrow> (int \<times> string list) list
    \<Rightarrow> jobj \<times> (int \<times> string list) list" where
  "rewire_names old new excluded table locs =
     (let names = get_or locs old [];
          st = fold (rewire_name old new excluded) names (table, dict_pop locs old, [])
      in (fst st, (if snd (snd st) = [] then fst (snd st)
                   else fold (\<lambda>name d. loc_add d new name) (snd (snd st)) (fst (snd st)))))"

definition rewire :: "int \<Rightarrow> int \<Rightarrow> string list \<Rightarrow> tables \<times> bit_index \<Rightarrow> tables \<times> bit_index" where
  "rewire old new excluded ti =
     (case ti of (t, idx) \<Rightarrow>
        if old = new then (t, idx)
        else
          (let c = fold (rewire_site old new) (get_or (cell_locs idx) old []) (t_cells t, dict_pop (cell_locs idx) old);
               p = rewire_names old new excluded (t_ports t) (port_locs idx);
               n = rewire_names old new excluded (t_nets t) (net_locs idx)
           in (\<lparr>t_cells = fst c, t_ports = fst p, t_nets = fst n\<rparr>,
               \<lparr>cell_locs = snd c, port_locs = snd p, net_locs = snd n\<rparr>)))"

section \<open>The reference\<close>

definition rewire_cell :: "int \<Rightarrow> int \<Rightarrow> json \<Rightarrow> json" where
  "rewire_cell old new cell =
     (case as_obj cell of
        None \<Rightarrow> cell
      | Some c \<Rightarrow> (case as_obj (get_or c ''connections'' (JObj [])) of
          None \<Rightarrow> cell
        | Some conns \<Rightarrow>
            if list_ex (\<lambda>(pin, bits). old \<in> set (int_bits bits)) conns
            then JObj (dict_set c ''connections'' (JObj (map (\<lambda>(pin, bits).
                   (pin, if old \<in> set (int_bits bits) then subst_pin old new bits else bits)) conns)))
            else cell))"

definition rewire_table :: "int \<Rightarrow> int \<Rightarrow> string list \<Rightarrow> jobj \<Rightarrow> jobj" where
  "rewire_table old new excluded table =
     map (\<lambda>(name, entry). (name, if name \<in> set excluded \<or> old \<notin> set (entry_bits entry) then entry
        else (case rewire_entry old new entry of None \<Rightarrow> entry | Some e \<Rightarrow> e))) table"

definition rewire_all :: "int \<Rightarrow> int \<Rightarrow> string list \<Rightarrow> tables \<Rightarrow> tables" where
  "rewire_all old new excluded t =
     (if old = new then t
      else \<lparr>t_cells = map (\<lambda>(i, cell). (i, rewire_cell old new cell)) (t_cells t),
            t_ports = rewire_table old new excluded (t_ports t),
            t_nets = rewire_table old new excluded (t_nets t)\<rparr>)"

section \<open>Agreement of index and tables\<close>

text \<open>The view builder does not enter the ports it adds into the index. Their nets are new, so the index is
  complete for the nets below the bound \<open>n\<close> of the module it started from.\<close>

definition cell_at :: "jobj \<Rightarrow> int \<Rightarrow> string \<times> string \<Rightarrow> bool" where
  "cell_at cells b site = (\<exists>cell. map_of cells (fst site) = Some cell \<and> (snd site, b) \<in> set (cell_sites cell))"

definition name_at :: "jobj \<Rightarrow> int \<Rightarrow> string \<Rightarrow> bool" where
  "name_at table b name = (\<exists>entry. map_of table name = Some entry \<and> b \<in> set (entry_bits entry))"

definition agrees :: "int \<Rightarrow> bit_index \<Rightarrow> tables \<Rightarrow> bool" where
  "agrees n idx t =
     ((\<forall>b. set (get_or (cell_locs idx) b []) = {s. cell_at (t_cells t) b s} \<and> distinct (get_or (cell_locs idx) b [])) \<and>
      (\<forall>b < n. set (get_or (port_locs idx) b []) = {s. name_at (t_ports t) b s}) \<and>
      (\<forall>b < n. set (get_or (net_locs idx) b []) = {s. name_at (t_nets t) b s}) \<and>
      (\<forall>b. distinct (get_or (port_locs idx) b []) \<and> distinct (get_or (net_locs idx) b [])))"

text \<open>Objects read from JSON have distinct keys.\<close>

definition keys_ok :: "jobj \<Rightarrow> bool" where
  "keys_ok cells = (distinct (map fst cells) \<and> list_all (\<lambda>(i, cell). distinct (map fst (conns_of cell))) cells)"

definition wf_tables :: "tables \<Rightarrow> bool" where
  "wf_tables t = (keys_ok (t_cells t) \<and> distinct (map fst (t_ports t)) \<and> distinct (map fst (t_nets t)))"

section \<open>Dictionary lemmas\<close>

lemma update_update: "AList.update k v (AList.update k w d) = AList.update k v d"
  by (induction d) auto

lemma map_fst_update: "k \<in> fst ` set d \<Longrightarrow> map fst (AList.update k v d) = map fst d"
  by (induction d) auto

lemma update_map: "distinct (map fst d) \<Longrightarrow> k \<in> fst ` set d \<Longrightarrow>
    AList.update k v d = map (\<lambda>(k', w). (k', if k' = k then v else w)) d"
proof (induction d)
  case (Cons a d)
  then show ?case
  proof (cases "fst a = k")
    case True
    with Cons.prems have "map (\<lambda>(k', w). (k', if k' = k then v else w)) d = d"
      by (intro map_idI) (auto simp: image_iff split: prod.splits)
    with True show ?thesis by (cases a) auto
  next
    case False
    with Cons show ?thesis by (cases a) auto
  qed
qed simp

lemma assoc_eqI:
  assumes "map fst d = map fst e" and "distinct (map fst d)" and "\<And>k. map_of d k = map_of e k"
  shows "d = e"
proof (rule nth_equalityI)
  show len: "length d = length e" using assms(1) map_eq_imp_length_eq by blast
  fix i assume i: "i < length d"
  then have "fst (d ! i) = fst (e ! i)" using assms(1) len by (metis nth_map)
  moreover have "map_of d (fst (d ! i)) = Some (snd (d ! i))" using assms(2) i by simp
  moreover have "map_of e (fst (e ! i)) = Some (snd (e ! i))"
    using assms(1,2) i len by simp
  ultimately show "d ! i = e ! i" using assms(3) by (metis option.inject prod.expand)
qed

lemma get_or_loc_add: "get_or (loc_add d k x) k' [] = (if k' = k then List.insert x (get_or d k []) else get_or d k' [])"
  by (simp add: loc_add_def get_or_def update_conv')

lemma get_or_loc_discard: "get_or (loc_discard d k x) k' [] = (if k' = k then removeAll x (get_or d k []) else get_or d k' [])"
  by (auto simp: loc_discard_def get_or_def update_conv' has_key_def)

lemma get_or_dict_pop: "get_or (dict_pop d k) k' dflt = (if k' = k then dflt else get_or d k' dflt)"
  by (simp add: get_or_def delete_conv')

lemma fold_loc_add:
  "set (get_or (fold (\<lambda>y d. loc_add d (f y) (g y)) ys d) k []) = set (get_or d k []) \<union> {g y |y. y \<in> set ys \<and> f y = k}"
  "distinct (get_or d k []) \<Longrightarrow> distinct (get_or (fold (\<lambda>y d. loc_add d (f y) (g y)) ys d) k [])"
proof -
  show "set (get_or (fold (\<lambda>y d. loc_add d (f y) (g y)) ys d) k []) = set (get_or d k []) \<union> {g y |y. y \<in> set ys \<and> f y = k}"
    by (induction ys arbitrary: d) (auto simp: get_or_loc_add)
  show "distinct (get_or d k []) \<Longrightarrow> distinct (get_or (fold (\<lambda>y d. loc_add d (f y) (g y)) ys d) k [])"
  proof (induction ys arbitrary: d)
    case (Cons y ys)
    from Cons.prems have "distinct (get_or (loc_add d (f y) (g y)) k [])" by (cases "k = f y") (auto simp: get_or_loc_add)
    from Cons.IH [OF this] show ?case by simp
  qed simp
qed

lemma fold_loc_discard:
  "set (get_or (fold (\<lambda>y d. loc_discard d (f y) (g y)) ys d) k []) = set (get_or d k []) - {g y |y. y \<in> set ys \<and> f y = k}"
  "distinct (get_or d k []) \<Longrightarrow> distinct (get_or (fold (\<lambda>y d. loc_discard d (f y) (g y)) ys d) k [])"
proof -
  show "set (get_or (fold (\<lambda>y d. loc_discard d (f y) (g y)) ys d) k []) = set (get_or d k []) - {g y |y. y \<in> set ys \<and> f y = k}"
    by (induction ys arbitrary: d) (auto simp: get_or_loc_discard)
  show "distinct (get_or d k []) \<Longrightarrow> distinct (get_or (fold (\<lambda>y d. loc_discard d (f y) (g y)) ys d) k [])"
  proof (induction ys arbitrary: d)
    case (Cons y ys)
    from Cons.prems have "distinct (get_or (loc_discard d (f y) (g y)) k [])" by (cases "k = f y") (auto simp: get_or_loc_discard distinct_removeAll)
    from Cons.IH [OF this] show ?case by simp
  qed simp
qed

section \<open>Substituting a net\<close>

lemma int_bits_subst_pin: "int_bits (subst_pin old new bits) = map (\<lambda>b. if b = old then new else b) (int_bits bits)"
proof -
  have "List.map_filter as_int (subst_bits old new (filter (\<lambda>b. as_int b \<noteq> None) bs)) =
      map (\<lambda>b. if b = old then new else b) (List.map_filter as_int bs)" for bs
    by (induction bs) (auto simp: subst_bits_def List.map_filter_simps split: option.splits)
  then show ?thesis by (cases bits) (auto simp: int_bits_def subst_pin_def subst_bits_def List.map_filter_simps)
qed

lemma int_bits_subst_bits: "int_bits (JList (subst_bits old new bs)) = map (\<lambda>b. if b = old then new else b) (int_bits (JList bs))"
  by (induction bs) (auto simp: int_bits_def subst_bits_def List.map_filter_simps split: option.splits)

lemma conns_of_JObj: "conns_of (JObj c) = (case as_obj (get_or c ''connections'' (JObj [])) of None \<Rightarrow> [] | Some conns \<Rightarrow> conns)"
  by (simp add: conns_of_def)

lemma get_or_dict_set: "get_or (dict_set d k v) k' dflt = (if k' = k then v else get_or d k' dflt)"
  by (simp add: get_or_def update_conv')

lemma conns_of_set [simp]: "conns_of (JObj (dict_set c ''connections'' (JObj conns))) = conns"
  by (simp add: conns_of_JObj get_or_dict_set)

text \<open>Rewiring some pins of a cell one after the other.\<close>

definition subst_pins :: "int \<Rightarrow> int \<Rightarrow> string set \<Rightarrow> jobj \<Rightarrow> jobj" where
  "subst_pins old new P conns = map (\<lambda>(p, bits). (p, if p \<in> P then subst_pin old new bits else bits)) conns"

lemma map_fst_subst_pins [simp]: "map fst (subst_pins old new P conns) = map fst conns"
  by (simp add: subst_pins_def case_prod_beta comp_def)

lemma map_of_subst_pins:
  "map_of (subst_pins old new P conns) p = map_option (\<lambda>bits. if p \<in> P then subst_pin old new bits else bits) (map_of conns p)"
  by (induction conns) (auto simp: subst_pins_def)

lemma rewire_pin_step:
  assumes "as_obj (get_or c ''connections'' (JObj [])) = Some conns" and "p \<in> fst ` set conns" and "distinct (map fst conns)"
  shows "rewire_pin old new p (JObj c) = JObj (dict_set c ''connections'' (JObj (subst_pins old new {p} conns)))"
proof -
  obtain bits where b: "map_of conns p = Some bits" using assms(2) by (metis domD dom_map_of_conv_image_fst)
  have "dict_set conns p (subst_pin old new bits) = subst_pins old new {p} conns"
    unfolding update_map [OF assms(3,2)] subst_pins_def
    using map_of_is_SomeI [OF assms(3)] b by (intro map_cong) auto
  with b assms(1) show ?thesis by (simp add: rewire_pin_def)
qed

lemma fold_rewire_pins:
  assumes "as_obj (get_or c ''connections'' (JObj [])) = Some conns" and "distinct (map fst conns)"
    and "set pins \<subseteq> fst ` set conns" and "distinct pins" and "pins \<noteq> []"
  shows "fold (rewire_pin old new) pins (JObj c) = JObj (dict_set c ''connections'' (JObj (subst_pins old new (set pins) conns)))"
  using assms
proof (induction pins arbitrary: c conns)
  case (Cons p pins)
  let ?conns = "subst_pins old new {p} conns" and ?c = "dict_set c ''connections'' (JObj (subst_pins old new {p} conns))"
  have step: "rewire_pin old new p (JObj c) = JObj ?c" using Cons.prems by (intro rewire_pin_step) auto
  show ?case
  proof (cases "pins = []")
    case True
    with step show ?thesis by simp
  next
    case False
    have keys: "fst ` set ?conns = fst ` set conns" by (metis list.set_map map_fst_subst_pins)
    have "subst_pins old new (set pins) ?conns = subst_pins old new (set (p # pins)) conns"
    proof (rule assoc_eqI)
      show "distinct (map fst (subst_pins old new (set pins) ?conns))" using Cons.prems(2) by simp
      show "map_of (subst_pins old new (set pins) ?conns) k = map_of (subst_pins old new (set (p # pins)) conns) k" for k
        using Cons.prems(4) by (cases "map_of conns k") (auto simp: map_of_subst_pins)
    qed simp
    moreover have "fold (rewire_pin old new) pins (JObj ?c) =
        JObj (dict_set ?c ''connections'' (JObj (subst_pins old new (set pins) ?conns)))"
      using Cons.prems False keys by (intro Cons.IH) (auto simp: get_or_dict_set)
    ultimately show ?thesis using step by (simp add: update_update)
  qed
qed simp

lemma rewire_cell_fold:
  assumes "distinct (map fst (conns_of cell))" and "distinct pins"
    and "set pins = {p. (p, old) \<in> set (cell_sites cell)}"
  shows "fold (rewire_pin old new) pins cell = rewire_cell old new cell"
proof (cases "pins = []")
  case True
  with assms(3) have none: "\<And>p. (p, old) \<notin> set (cell_sites cell)" by auto
  show ?thesis
  proof (cases "as_obj cell")
    case (Some c)
    then have "cell = JObj c" by (cases cell) auto
    with none True show ?thesis
      by (fastforce simp: rewire_cell_def cell_sites_def conns_of_def list_ex_iff split: option.splits)
  qed (simp add: rewire_cell_def True)
next
  case False
  then obtain c conns where c: "cell = JObj c" "as_obj (get_or c ''connections'' (JObj [])) = Some conns"
    using assms(3) by (cases cell) (fastforce simp: cell_sites_def conns_of_def split: option.splits)+
  have conns: "conns_of cell = conns" by (simp add: c conns_of_def)
  have "set pins = {p. \<exists>bits. (p, bits) \<in> set conns \<and> old \<in> set (int_bits bits)}"
    unfolding assms(3) by (force simp: cell_sites_def conns)
  moreover from this have "subst_pins old new (set pins) conns =
      map (\<lambda>(pin, bits). (pin, if old \<in> set (int_bits bits) then subst_pin old new bits else bits)) conns"
    using assms(1) unfolding conns subst_pins_def by (intro map_cong) (auto dest: eq_key_imp_eq_value)
  moreover have "list_ex (\<lambda>(pin, bits). old \<in> set (int_bits bits)) conns"
    using False calculation(1) by (cases pins) (auto simp: list_ex_iff)
  ultimately show ?thesis
    using fold_rewire_pins [OF c(2), of pins old new] False assms(1,2) conns c
    by (force simp: rewire_cell_def)
qed

section \<open>The loop over the cell pins\<close>

lemma rewire_site_fst:
  "fst (rewire_site old new site (cells, locs)) = (case map_of cells (fst site) of
     None \<Rightarrow> cells | Some cell \<Rightarrow> if has_key (conns_of cell) (snd site)
       then dict_set cells (fst site) (rewire_pin old new (snd site) cell) else cells)"
  by (auto simp: rewire_site_def split: option.splits)

lemma rewire_pin_missing: "\<not> has_key (conns_of cell) pin \<Longrightarrow> rewire_pin old new pin cell = cell"
  by (auto simp: rewire_pin_def has_key_def conns_of_def split: option.splits)

lemma conns_rewire_pin: "fst ` set (conns_of (rewire_pin old new pin cell)) = fst ` set (conns_of cell)"
proof (cases "as_obj cell")
  case (Some c)
  then have "cell = JObj c" by (cases cell) auto
  then show ?thesis
    by (auto simp: rewire_pin_def conns_of_JObj get_or_dict_set dom_update split: option.splits dest: map_of_SomeD)
      (force dest: map_of_SomeD)
qed (simp add: rewire_pin_def)

lemma fold_rewire_cells:
  shows "map_of (fst (fold (rewire_site old new) sites (cells, locs))) i =
      map_option (fold (rewire_pin old new) (map snd (filter (\<lambda>s. fst s = i) sites))) (map_of cells i)"
    and "map fst (fst (fold (rewire_site old new) sites (cells, locs))) = map fst cells"
proof -
  have step: "map_of (fst (rewire_site old new s (cells, locs))) i =
      map_option (if fst s = i then rewire_pin old new (snd s) else id) (map_of cells i)" for s cells locs i
    by (auto simp: rewire_site_fst update_conv' rewire_pin_missing split: option.splits)
  have keys: "map fst (fst (rewire_site old new s (cells, locs))) = map fst cells" for s cells locs
    by (auto simp: rewire_site_fst map_fst_update split: option.splits dest: map_of_SomeD)
      (metis map_fst_update map_of_SomeD fst_conv imageI)
  show "map_of (fst (fold (rewire_site old new) sites (cells, locs))) i =
      map_option (fold (rewire_pin old new) (map snd (filter (\<lambda>s. fst s = i) sites))) (map_of cells i)"
  proof (induction sites arbitrary: cells locs)
    case (Cons s sites)
    obtain cells' locs' where c: "rewire_site old new s (cells, locs) = (cells', locs')" by fastforce
    from step [of s cells locs] Cons.IH [of cells' locs'] c show ?case
      by (cases "map_of cells i") auto
  qed (simp add: option.map_ident id_def)
  show "map fst (fst (fold (rewire_site old new) sites (cells, locs))) = map fst cells"
  proof (induction sites arbitrary: cells locs)
    case (Cons s sites)
    obtain cells' locs' where c: "rewire_site old new s (cells, locs) = (cells', locs')" by fastforce
    from keys [of s cells locs] Cons.IH [of cells' locs'] c show ?case by simp
  qed simp
qed

lemma fold_rewire_locs:
  assumes "\<And>s. s \<in> set sites \<Longrightarrow> \<exists>cell. map_of cells (fst s) = Some cell \<and> has_key (conns_of cell) (snd s)"
  shows "snd (fold (rewire_site old new) sites (cells, locs)) = fold (\<lambda>s d. loc_add d new s) sites locs"
  using assms
proof (induction sites arbitrary: cells locs)
  case (Cons s sites)
  from Cons.prems [of s] obtain cell where cell: "map_of cells (fst s) = Some cell" "has_key (conns_of cell) (snd s)" by auto
  let ?cells = "dict_set cells (fst s) (rewire_pin old new (snd s) cell)"
  have one: "rewire_site old new s (cells, locs) = (?cells, loc_add locs new s)" using cell by (simp add: rewire_site_def)
  have "\<exists>cell. map_of ?cells (fst s') = Some cell \<and> has_key (conns_of cell) (snd s')" if "s' \<in> set sites" for s'
  proof -
    from Cons.prems [of s'] that obtain c' where c': "map_of cells (fst s') = Some c'" "has_key (conns_of c') (snd s')" by auto
    then have "has_key (conns_of (rewire_pin old new p c')) (snd s')" for p
      using conns_rewire_pin [of old new p c'] by (simp add: has_key_def map_of_eq_None_iff)
    with c' cell show ?thesis by (auto simp: update_conv')
  qed
  from Cons.IH [OF this, of "loc_add locs new s"] one show ?case by simp
qed simp

lemma rewire_cells_eq:
  assumes "keys_ok cells" and "distinct sites" and "set sites = {s. cell_at cells old s}"
  shows "fst (fold (rewire_site old new) sites (cells, locs)) = map (\<lambda>(i, cell). (i, rewire_cell old new cell)) cells"
proof (rule assoc_eqI)
  let ?c = "fst (fold (rewire_site old new) sites (cells, locs))" and ?m = "map (\<lambda>(i, cell). (i, rewire_cell old new cell)) cells"
  show "map fst ?c = map fst ?m" by (simp add: fold_rewire_cells(2) comp_def case_prod_beta)
  show "distinct (map fst ?c)" using assms(1) by (simp add: fold_rewire_cells(2) keys_ok_def)
  fix i
  show "map_of ?c i = map_of ?m i"
  proof (cases "map_of cells i")
    case None
    then show ?thesis by (simp add: fold_rewire_cells(1) map_of_map)
  next
    case (Some cell)
    let ?pins = "map snd (filter (\<lambda>s. fst s = i) sites)"
    have "distinct ?pins" using assms(2) by (auto simp: distinct_map inj_on_def intro: prod_eqI)
    moreover have "set ?pins = {p. (p, old) \<in> set (cell_sites cell)}"
    proof -
      have "p \<in> set ?pins \<longleftrightarrow> (i, p) \<in> set sites" for p by force
      then show ?thesis using Some unfolding assms(3) by (auto simp: cell_at_def)
    qed
    moreover have "distinct (map fst (conns_of cell))"
      using assms(1) Some by (auto simp: keys_ok_def list_all_iff dest: map_of_SomeD)
    ultimately show ?thesis using rewire_cell_fold [of cell ?pins old new] Some
      by (simp add: fold_rewire_cells(1) map_of_map)
  qed
qed

section \<open>The loop over ports and net names\<close>

lemma as_list_Some: "as_list j = Some xs \<longleftrightarrow> j = JList xs"
  by (cases j) auto

lemma rewire_entry_old:
  assumes "old \<in> set (entry_bits entry)"
  shows "\<exists>e. rewire_entry old new entry = Some e"
proof -
  from assms obtain d bs where "entry = JObj d" "get_or d ''bits'' JNull = JList bs"
    by (cases entry) (auto simp: entry_bits_def int_bits_def split: option.splits dest!: sym [of "Some _" "as_list _"] simp: as_list_Some)
  then show ?thesis by (simp add: rewire_entry_def)
qed

lemma entry_bits_rewire:
  assumes "rewire_entry old new entry = Some e"
  shows "entry_bits e = map (\<lambda>b. if b = old then new else b) (entry_bits entry)"
proof -
  from assms obtain d bs where "entry = JObj d" "get_or d ''bits'' JNull = JList bs"
      "e = JObj (dict_set d ''bits'' (JList (subst_bits old new bs)))"
    by (cases entry) (auto simp: rewire_entry_def as_list_Some split: option.splits)
  then show ?thesis by (simp add: entry_bits_def get_or_dict_set int_bits_subst_bits)
qed

definition rewire_one :: "int \<Rightarrow> int \<Rightarrow> string list \<Rightarrow> string \<Rightarrow> json \<Rightarrow> json" where
  "rewire_one old new excluded name entry =
     (if name \<in> set excluded \<or> old \<notin> set (entry_bits entry) then entry
      else (case rewire_entry old new entry of None \<Rightarrow> entry | Some e \<Rightarrow> e))"

lemma rewire_table_map: "rewire_table old new excluded table = map (\<lambda>(name, entry). (name, rewire_one old new excluded name entry)) table"
  by (simp add: rewire_table_def rewire_one_def)

lemma map_of_map_key: "map_of (map (\<lambda>(k, v). (k, f k v)) d) k = map_option (f k) (map_of d k)"
  by (induction d) auto

lemma fold_rewire_name:
  assumes "distinct (map fst table)" and "distinct names"
    and "\<And>n. n \<in> set names \<Longrightarrow> \<exists>e. map_of table n = Some e \<and> old \<in> set (entry_bits e)"
  shows "fold (rewire_name old new excluded) names (table, locs, moved) =
    (map (\<lambda>(n, e). (n, if n \<in> set names then rewire_one old new excluded n e else e)) table,
     fold (\<lambda>n d. loc_add d old n) (filter (\<lambda>n. n \<in> set excluded) names) locs,
     fold List.insert (filter (\<lambda>n. n \<notin> set excluded) names) moved)"
  using assms
proof (induction names arbitrary: table locs moved)
  case Nil
  then show ?case by (simp add: case_prod_beta)
next
  case (Cons n names)
  obtain e where e: "map_of table n = Some e" "old \<in> set (entry_bits e)" using Cons.prems(3) by auto
  obtain e' where e': "rewire_entry old new e = Some e'" using rewire_entry_old [OF e(2)] by blast
  show ?case
  proof (cases "n \<in> set excluded")
    case True
    have "map (\<lambda>(m, e). (m, if m \<in> set names then rewire_one old new excluded m e else e)) table =
        map (\<lambda>(m, e). (m, if m \<in> set (n # names) then rewire_one old new excluded m e else e)) table"
      using True by (auto simp: rewire_one_def)
    with True Cons.IH [of table "loc_add locs old n" moved] Cons.prems show ?thesis by (simp add: rewire_name_def)
  next
    case False
    let ?t = "dict_set table n e'"
    have nk: "n \<in> fst ` set table" using e(1) by (metis domI dom_map_of_conv_image_fst)
    have t: "?t = map (\<lambda>(m, w). (m, if m = n then e' else w)) table" by (rule update_map [OF Cons.prems(1) nk])
    have "map (\<lambda>(m, e). (m, if m \<in> set names then rewire_one old new excluded m e else e)) ?t =
        map (\<lambda>(m, e). (m, if m \<in> set (n # names) then rewire_one old new excluded m e else e)) table"
    proof -
      have "w = e" if "(n, w) \<in> set table" for w using map_of_is_SomeI [OF Cons.prems(1) that] e(1) by simp
      then show ?thesis unfolding t map_map comp_def using Cons.prems(2) e(2) e' False
        by (intro map_cong) (auto simp: rewire_one_def)
    qed
    moreover have "fold (rewire_name old new excluded) names (?t, locs, List.insert n moved) =
      (map (\<lambda>(m, e). (m, if m \<in> set names then rewire_one old new excluded m e else e)) ?t,
       fold (\<lambda>n d. loc_add d old n) (filter (\<lambda>n. n \<in> set excluded) names) locs,
       fold List.insert (filter (\<lambda>n. n \<notin> set excluded) names) (List.insert n moved))"
    proof (rule Cons.IH)
      show "distinct (map fst ?t)" using Cons.prems(1) by (simp add: distinct_update)
      show "\<exists>e. map_of ?t m = Some e \<and> old \<in> set (entry_bits e)" if "m \<in> set names" for m
        using Cons.prems(2,3) that by (auto simp: update_conv')
    qed (use Cons.prems in simp)
    moreover have "rewire_name old new excluded n (table, locs, moved) = (?t, locs, List.insert n moved)"
      using False e e' by (simp add: rewire_name_def)
    ultimately show ?thesis using False by simp
  qed
qed

lemma set_fold_insert: "set (fold List.insert xs ys) = set xs \<union> set ys"
  by (induction xs arbitrary: ys) auto

lemma rewire_names_spec:
  assumes "distinct (map fst table)" and dl: "\<And>b. distinct (get_or locs b [])"
    and "set (get_or locs old []) = {s. name_at table old s}"
  shows "fst (rewire_names old new excluded table locs) = rewire_table old new excluded table"
    and "set (get_or (snd (rewire_names old new excluded table locs)) b []) =
      (if b = old then {s. name_at table old s \<and> s \<in> set excluded} else set (get_or locs b [])) \<union>
      (if b = new then {s. name_at table old s \<and> s \<notin> set excluded} else {})"
    and "distinct (get_or (snd (rewire_names old new excluded table locs)) b [])"
proof -
  let ?names = "get_or locs old []" and ?pop = "dict_pop locs old"
  let ?in = "filter (\<lambda>n. n \<in> set excluded) ?names" and ?out = "filter (\<lambda>n. n \<notin> set excluded) ?names"
  let ?l1 = "fold (\<lambda>n d. loc_add d old n) ?in ?pop" and ?moved = "fold List.insert ?out []"
  have at: "\<exists>e. map_of table n = Some e \<and> old \<in> set (entry_bits e)" if "n \<in> set ?names" for n
    using that unfolding assms(3) by (simp add: name_at_def)
  note f = fold_rewire_name [where excluded = excluded and new = new and locs = ?pop and moved = "[]", OF assms(1) dl at]
  have "map (\<lambda>(n, e). (n, if n \<in> set ?names then rewire_one old new excluded n e else e)) table =
      rewire_table old new excluded table"
    unfolding rewire_table_map using assms(1)
    by (intro map_cong) (auto simp: assms(3) name_at_def rewire_one_def)
  then show "fst (rewire_names old new excluded table locs) = rewire_table old new excluded table"
    by (simp add: rewire_names_def Let_def f)
  have snd: "snd (rewire_names old new excluded table locs) = fold (\<lambda>n d. loc_add d new n) ?moved ?l1"
    by (cases "?moved") (simp_all add: rewire_names_def Let_def f)
  show "set (get_or (snd (rewire_names old new excluded table locs)) b []) =
      (if b = old then {s. name_at table old s \<and> s \<in> set excluded} else set (get_or locs b [])) \<union>
      (if b = new then {s. name_at table old s \<and> s \<notin> set excluded} else {})"
    unfolding snd fold_loc_add(1) set_fold_insert get_or_dict_pop using assms(3) by auto
  have "distinct (get_or ?pop b [])" using dl by (simp add: get_or_dict_pop)
  then show "distinct (get_or (snd (rewire_names old new excluded table locs)) b [])"
    unfolding snd by (intro fold_loc_add(2))
qed

section \<open>Rewiring through the index\<close>

lemma cell_sites_rewire:
  "cell_sites (rewire_cell old new cell) = map (\<lambda>(p, b). (p, if b = old then new else b)) (cell_sites cell)"
proof (cases "Option.bind (as_obj cell) (\<lambda>c. as_obj (get_or c ''connections'' (JObj [])))")
  case None
  then have "rewire_cell old new cell = cell" by (auto simp: rewire_cell_def split: option.splits)
  with None show ?thesis by (simp add: cell_sites_def conns_of_def)
next
  case (Some conns)
  then obtain c where c: "cell = JObj c" "as_obj (get_or c ''connections'' (JObj [])) = Some conns" by (cases cell) auto
  have pin: "map (\<lambda>b. (p, b)) (int_bits (if old \<in> set (int_bits bits) then subst_pin old new bits else bits)) =
      map (\<lambda>(p, b). (p, if b = old then new else b)) (map (\<lambda>b. (p, b)) (int_bits bits))" for p bits
    by (auto simp: int_bits_subst_pin)
  have "cell_sites (rewire_cell old new cell) = concat (map (\<lambda>(p, bits). map (\<lambda>b. (p, b))
      (int_bits (if old \<in> set (int_bits bits) then subst_pin old new bits else bits))) conns)"
  proof (cases "list_ex (\<lambda>(pin, bits). old \<in> set (int_bits bits)) conns")
    case True
    with c show ?thesis by (simp add: rewire_cell_def cell_sites_def comp_def case_prod_unfold)
  next
    case False
    then have "\<forall>(p, bits) \<in> set conns. old \<notin> set (int_bits bits)" by (auto simp: list_ex_iff)
    then have eq: "map (\<lambda>(p, bits). map (\<lambda>b. (p, b)) (int_bits (if old \<in> set (int_bits bits) then subst_pin old new bits else bits))) conns =
        map (\<lambda>(p, bits). map (\<lambda>b. (p, b)) (int_bits bits)) conns" by (intro map_cong) auto
    show ?thesis unfolding eq using False c by (simp add: rewire_cell_def cell_sites_def conns_of_def)
  qed
  then show ?thesis using c by (simp add: pin cell_sites_def conns_of_def map_concat comp_def case_prod_unfold)
qed

lemma cell_at_rewire:
  assumes "old \<noteq> new"
  shows "cell_at (map (\<lambda>(i, cell). (i, rewire_cell old new cell)) cells) b s \<longleftrightarrow>
    b \<noteq> old \<and> cell_at cells b s \<or> b = new \<and> cell_at cells old s"
proof -
  have "(p, b) \<in> (\<lambda>(p, b). (p, if b = old then new else b)) ` S \<longleftrightarrow> b \<noteq> old \<and> (p, b) \<in> S \<or> b = new \<and> (p, old) \<in> S"
    for p :: string and S
    using assms by (force simp: image_iff split: if_splits)
  then show ?thesis by (cases "map_of cells (fst s)") (auto simp: cell_at_def map_of_map cell_sites_rewire)
qed

lemma name_at_rewire:
  assumes "old \<noteq> new"
  shows "name_at (rewire_table old new excluded table) b s \<longleftrightarrow>
    (if s \<in> set excluded then name_at table b s else b \<noteq> old \<and> name_at table b s \<or> b = new \<and> name_at table old s)"
proof (cases "map_of table s")
  case None
  then show ?thesis by (auto simp: name_at_def rewire_table_map map_of_map_key)
next
  case (Some e)
  have "map_of (rewire_table old new excluded table) s = Some (rewire_one old new excluded s e)"
    using Some by (simp add: rewire_table_map map_of_map_key)
  then show ?thesis using Some assms rewire_entry_old [of old e new] entry_bits_rewire [of old new e]
    by (auto simp: name_at_def rewire_one_def split: option.splits)
qed

lemma conns_rewire_keys: "map fst (conns_of (rewire_cell old new cell)) = map fst (conns_of cell)"
proof (cases "as_obj cell")
  case (Some c)
  then have "cell = JObj c" by (cases cell) auto
  then show ?thesis by (auto simp: rewire_cell_def conns_of_JObj get_or_dict_set comp_def case_prod_beta split: option.splits)
qed (simp add: rewire_cell_def)

lemma wf_rewire_all: "wf_tables t \<Longrightarrow> wf_tables (rewire_all old new excluded t)"
  by (auto simp: wf_tables_def rewire_all_def keys_ok_def rewire_table_map comp_def case_prod_beta list_all_iff conns_rewire_keys)

lemma rewire_agrees:
  assumes "wf_tables t" and "agrees n idx t" and "old < n"
  shows "fst (rewire old new excluded (t, idx)) = rewire_all old new excluded t"
    and "agrees n (snd (rewire old new excluded (t, idx))) (rewire_all old new excluded t)"
proof -
  let ?sites = "get_or (cell_locs idx) old []"
  have ag: "set (get_or (cell_locs idx) b []) = {s. cell_at (t_cells t) b s}" "distinct (get_or (cell_locs idx) b [])"
    "distinct (get_or (port_locs idx) b [])" "distinct (get_or (net_locs idx) b [])" for b
    using assms(2) by (auto simp: agrees_def)
  have na: "b < n \<Longrightarrow> set (get_or (port_locs idx) b []) = {s. name_at (t_ports t) b s}"
    "b < n \<Longrightarrow> set (get_or (net_locs idx) b []) = {s. name_at (t_nets t) b s}" for b
    using assms(2) by (auto simp: agrees_def)
  have wf: "keys_ok (t_cells t)" "distinct (map fst (t_ports t))" "distinct (map fst (t_nets t))"
    using assms(1) by (auto simp: wf_tables_def)
  note cells = rewire_cells_eq [OF wf(1) ag(2) ag(1)]
  note ports = rewire_names_spec [where excluded = excluded and old = old and new = new, OF wf(2) ag(3) na(1) [OF assms(3)]]
  note nets = rewire_names_spec [where excluded = excluded and old = old and new = new, OF wf(3) ag(4) na(2) [OF assms(3)]]
  show "fst (rewire old new excluded (t, idx)) = rewire_all old new excluded t"
    by (simp add: rewire_def rewire_all_def Let_def cells ports(1) nets(1))
  show "agrees n (snd (rewire old new excluded (t, idx))) (rewire_all old new excluded t)"
  proof (cases "old = new")
    case True
    then show ?thesis using assms(2) by (simp add: rewire_def rewire_all_def)
  next
    case False
    have "\<exists>cell. map_of (t_cells t) (fst s) = Some cell \<and> has_key (conns_of cell) (snd s)" if "s \<in> set ?sites" for s
      using that unfolding ag(1)
      by (auto simp: cell_at_def cell_sites_def has_key_def map_of_eq_None_iff split: prod.splits) (force simp: image_iff)
    then have locs: "snd (fold (rewire_site old new) ?sites (t_cells t, dict_pop (cell_locs idx) old)) =
        fold (\<lambda>s d. loc_add d new s) ?sites (dict_pop (cell_locs idx) old)" by (rule fold_rewire_locs)
    have "distinct (get_or (dict_pop (cell_locs idx) old) b [])" for b using ag(2) by (simp add: get_or_dict_pop)
    then have "distinct (get_or (fold (\<lambda>s d. loc_add d new s) ?sites (dict_pop (cell_locs idx) old)) b [])" for b
      by (intro fold_loc_add(2))
    moreover have "set (get_or (fold (\<lambda>s d. loc_add d new s) ?sites (dict_pop (cell_locs idx) old)) b []) =
        {s. b \<noteq> old \<and> cell_at (t_cells t) b s \<or> b = new \<and> cell_at (t_cells t) old s}" for b
      unfolding fold_loc_add(1) get_or_dict_pop using ag(1) False by auto
    ultimately show ?thesis using False ports(3) nets(3)
      by (simp add: agrees_def rewire_def rewire_all_def Let_def locs ports(2) nets(2) cell_at_rewire [OF False]
          name_at_rewire [OF False] na) auto
  qed
qed

section \<open>Building the index\<close>

lemma cell_locs_add_cell:
  "set (get_or (cell_locs (add_cell i cell idx)) b []) = set (get_or (cell_locs idx) b []) \<union> {(i, p) |p. (p, b) \<in> set (cell_sites cell)}"
  "distinct (get_or (cell_locs idx) b []) \<Longrightarrow> distinct (get_or (cell_locs (add_cell i cell idx)) b [])"
  using fold_loc_add [where f = snd and g = "\<lambda>s. (i, fst s)" and ys = "cell_sites cell" and d = "cell_locs idx" and k = b]
  by (auto simp: add_cell_def case_prod_unfold)

lemma cell_locs_remove_cell:
  "set (get_or (cell_locs (remove_cell i cell idx)) b []) = set (get_or (cell_locs idx) b []) - {(i, p) |p. (p, b) \<in> set (cell_sites cell)}"
  "distinct (get_or (cell_locs idx) b []) \<Longrightarrow> distinct (get_or (cell_locs (remove_cell i cell idx)) b [])"
  using fold_loc_discard [where f = snd and g = "\<lambda>s. (i, fst s)" and ys = "cell_sites cell" and d = "cell_locs idx" and k = b]
  by (auto simp: remove_cell_def case_prod_unfold)

lemma add_cell_fields [simp]: "port_locs (add_cell i cell idx) = port_locs idx" "net_locs (add_cell i cell idx) = net_locs idx"
  "port_locs (remove_cell i cell idx) = port_locs idx" "net_locs (remove_cell i cell idx) = net_locs idx"
  by (simp_all add: add_cell_def remove_cell_def)

lemma agrees_add_cell:
  assumes "agrees n idx t" and "i \<notin> fst ` set (t_cells t)"
  shows "agrees n (add_cell i cell idx) (t\<lparr>t_cells := dict_set (t_cells t) i cell\<rparr>)"
proof -
  have "map_of (t_cells t) i = None" using assms(2) by (simp add: map_of_eq_None_iff)
  then have "cell_at (dict_set (t_cells t) i cell) b s \<longleftrightarrow> cell_at (t_cells t) b s \<or> fst s = i \<and> (snd s, b) \<in> set (cell_sites cell)" for b s
    by (auto simp: cell_at_def update_conv')
  with assms(1) show ?thesis by (auto simp: agrees_def cell_locs_add_cell)
qed

lemma agrees_remove_cell:
  assumes "agrees n idx t" and "map_of (t_cells t) i = Some cell"
  shows "agrees n (remove_cell i cell idx) (t\<lparr>t_cells := dict_pop (t_cells t) i\<rparr>)"
proof -
  have "cell_at (dict_pop (t_cells t) i) b s \<longleftrightarrow> cell_at (t_cells t) b s \<and> fst s \<noteq> i" for b s
    by (auto simp: cell_at_def delete_conv')
  with assms show ?thesis by (auto simp: agrees_def cell_locs_remove_cell) (auto simp: cell_at_def)
qed

lemma fold_index_entry:
  assumes "distinct (map fst table)"
  shows "set (get_or (fold index_entry table []) b []) = {s. name_at table b s}"
    and "distinct (get_or (fold index_entry table []) b [])"
proof -
  have one: "set (get_or (index_entry ne d) b []) = set (get_or d b []) \<union> (if b \<in> set (entry_bits (snd ne)) then {fst ne} else {})"
    "distinct (get_or d b []) \<Longrightarrow> distinct (get_or (index_entry ne d) b [])" for ne d
    using fold_loc_add [where f = "\<lambda>b. b" and g = "\<lambda>b. fst ne" and ys = "entry_bits (snd ne)" and d = d and k = b] by (auto simp: index_entry_def)
  have "set (get_or (fold index_entry table d) b []) = set (get_or d b []) \<union> {n. \<exists>e. (n, e) \<in> set table \<and> b \<in> set (entry_bits e)}" for d
    by (induction table arbitrary: d) (auto simp: one(1))
  from this [of "[]"] assms show "set (get_or (fold index_entry table []) b []) = {s. name_at table b s}"
    by (auto simp: name_at_def get_or_def)
  have "distinct (get_or d b []) \<Longrightarrow> distinct (get_or (fold index_entry table d) b [])" for d
  proof (induction table arbitrary: d)
    case (Cons ne table)
    from Cons.IH [OF one(2) [OF Cons.prems]] show ?case by simp
  qed simp
  from this [of "[]"] show "distinct (get_or (fold index_entry table []) b [])" by (simp add: get_or_def)
qed

lemma fold_add_cell_fields:
  "port_locs (fold (\<lambda>(i, cell). add_cell i cell) cells idx) = port_locs idx"
  "net_locs (fold (\<lambda>(i, cell). add_cell i cell) cells idx) = net_locs idx"
  by (induction cells arbitrary: idx) (auto simp: case_prod_unfold)

lemma fold_add_cell_locs:
  "set (get_or (cell_locs (fold (\<lambda>(i, cell). add_cell i cell) cells idx)) b []) =
     set (get_or (cell_locs idx) b []) \<union> {(i, p). \<exists>cell. (i, cell) \<in> set cells \<and> (p, b) \<in> set (cell_sites cell)}"
  "distinct (get_or (cell_locs idx) b []) \<Longrightarrow> distinct (get_or (cell_locs (fold (\<lambda>(i, cell). add_cell i cell) cells idx)) b [])"
proof -
  show "set (get_or (cell_locs (fold (\<lambda>(i, cell). add_cell i cell) cells idx)) b []) =
     set (get_or (cell_locs idx) b []) \<union> {(i, p). \<exists>cell. (i, cell) \<in> set cells \<and> (p, b) \<in> set (cell_sites cell)}"
    by (induction cells arbitrary: idx) (auto simp: cell_locs_add_cell case_prod_unfold)
  show "distinct (get_or (cell_locs idx) b []) \<Longrightarrow> distinct (get_or (cell_locs (fold (\<lambda>(i, cell). add_cell i cell) cells idx)) b [])"
  proof (induction cells arbitrary: idx)
    case (Cons c cells)
    have "distinct (get_or (cell_locs (add_cell (fst c) (snd c) idx)) b [])" by (rule cell_locs_add_cell(2) [OF Cons.prems])
    from Cons.IH [OF this] show ?case by (simp add: case_prod_unfold)
  qed simp
qed

lemma agrees_init:
  assumes "wf_tables t"
  shows "agrees n (bit_index_init t) t"
proof -
  have d: "distinct (map fst (t_cells t))" "distinct (map fst (t_ports t))" "distinct (map fst (t_nets t))"
    using assms by (auto simp: wf_tables_def keys_ok_def)
  show ?thesis unfolding agrees_def bit_index_init_def fold_add_cell_fields
    using fold_index_entry [OF d(2)] fold_index_entry [OF d(3)] d(1)
      fold_add_cell_locs [where cells = "t_cells t"]
    by (auto simp: cell_at_def get_or_def)
qed

section \<open>Any sequence of rewirings\<close>

definition rewire_seq :: "(int \<times> int \<times> string list) list \<Rightarrow> tables \<times> bit_index \<Rightarrow> tables \<times> bit_index" where
  "rewire_seq moves = fold (\<lambda>(old, new, excluded). rewire old new excluded) moves"

lemma rewire_seq_agrees:
  assumes "wf_tables t" and "agrees n idx t" and "\<forall>m \<in> set moves. fst m < n"
  shows "fst (rewire_seq moves (t, idx)) = fold (\<lambda>(old, new, ex). rewire_all old new ex) moves t \<and>
    agrees n (snd (rewire_seq moves (t, idx))) (fst (rewire_seq moves (t, idx)))"
  using assms
proof (induction moves arbitrary: t idx)
  case (Cons move moves)
  obtain old new ex where m: "move = (old, new, ex)" by (cases move)
  have "old < n" using Cons.prems(3) m by simp
  note r = rewire_agrees [OF Cons.prems(1,2) this, of new ex]
  obtain t1 idx1 where t1: "rewire old new ex (t, idx) = (t1, idx1)" by fastforce
  have "wf_tables t1" "agrees n idx1 t1" using r t1 wf_rewire_all [OF Cons.prems(1)] by simp_all
  note ih = Cons.IH [OF this]
  have "\<forall>m \<in> set moves. fst m < n" using Cons.prems(3) by simp
  note ih = ih [OF this]
  have "rewire_seq (move # moves) (t, idx) = rewire_seq moves (t1, idx1)" by (simp add: m rewire_seq_def t1)
  moreover have "t1 = rewire_all old new ex t" using r(1) t1 by simp
  moreover from this have "fold (\<lambda>(old, new, ex). rewire_all old new ex) (move # moves) t = fold (\<lambda>(old, new, ex). rewire_all old new ex) moves t1"
    by (simp add: m)
  ultimately show ?case using ih by metis
qed (simp add: rewire_seq_def)

lemma moves_below: "\<exists>n. \<forall>m \<in> set moves. fst m < (n::int)"
proof (induction moves)
  case (Cons move moves)
  then obtain n where n: "\<forall>m \<in> set moves. fst m < n" by blast
  show ?case using n by (intro exI [of _ "max n (fst move + 1)"]) fastforce
qed simp

text \<open>C22: replacing nets one after the other through the index gives the same module as scanning the whole module
  for each replacement, whatever the order in which the index lists the sites; afterwards the index still
  lists exactly the cell pins on each net, so the count of the consumers is right.\<close>

theorem rewire_seq_reference:
  assumes "wf_tables t"
  shows "fst (rewire_seq moves (t, bit_index_init t)) = fold (\<lambda>(old, new, ex). rewire_all old new ex) moves t \<and>
    consumer_count (snd (rewire_seq moves (t, bit_index_init t))) b =
      card {site. cell_at (t_cells (fst (rewire_seq moves (t, bit_index_init t)))) b site}"
proof -
  obtain n where n: "\<forall>m \<in> set moves. fst m < (n::int)" using moves_below by blast
  note r = rewire_seq_agrees [OF assms agrees_init [OF assms] n]
  let ?w = "rewire_seq moves (t, bit_index_init t)"
  have "set (get_or (cell_locs (snd ?w)) b []) = {site. cell_at (t_cells (fst ?w)) b site}" "distinct (get_or (cell_locs (snd ?w)) b [])"
    using r [THEN conjunct2] by (simp_all add: agrees_def)
  then have "consumer_count (snd ?w) b = card {site. cell_at (t_cells (fst ?w)) b site}"
    unfolding consumer_count_def by (metis distinct_card)
  with r [THEN conjunct1] show ?thesis by (rule conjI)
qed

text \<open>A gate whose two inputs share a net, and a port on it that is excluded.\<close>

definition index_demo :: tables where
  "index_demo = \<lparr>t_cells = [(''g'', JObj [(''connections'', JObj [(''A'', JList [JInt 2]), (''B'', JList [JInt 2]), (''Y'', JList [JInt 3])])])],
     t_ports = [(''so'', JObj [(''bits'', JList [JInt 2])])], t_nets = []\<rparr>"

theorem rewire_seq_reference_witness:
  "t_cells (fst (rewire_seq [(2, 7, [''so'']), (7, 9, [])] (index_demo, bit_index_init index_demo))) =
     [(''g'', JObj [(''connections'', JObj [(''A'', JList [JInt 9]), (''B'', JList [JInt 9]), (''Y'', JList [JInt 3])])])] \<and>
   consumer_count (snd (rewire_seq [(2, 7, [''so'']), (7, 9, [])] (index_demo, bit_index_init index_demo))) 9 =
     card {site. cell_at (t_cells (fst (rewire_seq [(2, 7, [''so'']), (7, 9, [])] (index_demo, bit_index_init index_demo)))) 9 site}"
proof -
  have wf: "wf_tables index_demo" by code_simp
  have "t_cells (fold (\<lambda>(old, new, ex). rewire_all old new ex) [(2, 7, [''so'']), (7, 9, [])] index_demo) =
     [(''g'', JObj [(''connections'', JObj [(''A'', JList [JInt 9]), (''B'', JList [JInt 9]), (''Y'', JList [JInt 3])])])]"
    by code_simp
  with rewire_seq_reference [OF wf, of "[(2, 7, [''so'']), (7, 9, [])]" 9] show ?thesis by simp
qed

end
