(* ===== verification/Atpg_View.thy ===== *)
theory Atpg_View
  imports Bit_Index Scan_Reports Site_Key
begin

text \<open>
  \<^verbatim>\<open>faultflow/scan/atpg_view.py\<close>: the combinational view of a scan design for test generation. Every scan
  flip-flop of the manifest becomes a pseudo primary input (its state) and a pseudo primary output (what
  it captures); asynchronous set and reset are modelled on both paths. The builder works on one copy of
  the top module; its three tables are the record \<open>tables\<close>, and the state of its loop is the record
  \<open>view_state\<close>. Reading the netlist from a file is left to the caller.
\<close>

section \<open>Names and constants\<close>

definition OBSERVE_BUF_CELL :: string where "OBSERVE_BUF_CELL = ''$faultflow_observe_buf''"
definition D_BRANCH_BUF_CELL :: string where "D_BRANCH_BUF_CELL = ''$faultflow_d_branch_buf''"
definition CAPTURE_AND_CELL :: string where "CAPTURE_AND_CELL = ''$faultflow_capture_and''"
definition CAPTURE_OR_CELL :: string where "CAPTURE_OR_CELL = ''$faultflow_capture_or''"
definition CAPTURE_INV_CELL :: string where "CAPTURE_INV_CELL = ''$faultflow_capture_inv''"
definition DATA_PIN :: string where "DATA_PIN = ''D''"
definition SCAN_RESET_TYPES :: "string list" where
  "SCAN_RESET_TYPES = [''$scanff_r_faultflow'', CHR 0x5C # ''$scanff_r_faultflow'']"
definition SCAN_SET_TYPES :: "string list" where
  "SCAN_SET_TYPES = [''$scanff_s_faultflow'', CHR 0x5C # ''$scanff_s_faultflow'']"
definition ATPG_VIEW_SCHEMA_VER :: string where "ATPG_VIEW_SCHEMA_VER = ''scan-atpg-view-observe-buf-2''"

definition ppi_name :: "string \<Rightarrow> string" where "ppi_name instance = ''__ppi_'' @ instance"
definition ppo_name :: "string \<Rightarrow> string" where "ppo_name instance = ''__ppo_'' @ instance"

definition type_is :: "jobj \<Rightarrow> string list \<Rightarrow> bool" where
  "type_is cell types = (get_or cell ''type'' JNull \<in> JStr ` set types)"

definition check_pseudo_names_free :: "jobj \<Rightarrow> string list \<Rightarrow> unit res" where
  "check_pseudo_names_free module instances =
     (let names = map ppi_name instances @ map ppo_name instances
      in case find (\<lambda>name. name \<in> set (name_set module)) names of
           Some name \<Rightarrow> Inl (ScanError (''scan ATPG pseudo-port name already exists: '' @ name))
         | None \<Rightarrow> if \<not> distinct names
                   then Inl (ScanError ''generated scan ATPG pseudo-port names are not unique'') else Inr ())"

section \<open>Reading the manifest and the module\<close>

definition scan_cell_records :: "jobj \<Rightarrow> jobj list res" where
  "scan_cell_records manifest =
     (case as_list (get_or manifest ''cells'' (JList [])) of
        None \<Rightarrow> Inl (ScanError ''manifest cells must be a list'')
      | Some cells \<Rightarrow>
          Inr (sort_key (\<lambda>row. py_str (get_or row ''instance'' (JStr []))) (List.map_filter as_obj cells)))"

definition manifest_scan_port_names :: "jobj \<Rightarrow> string list" where
  "manifest_scan_port_names manifest =
     (case get_or manifest ''scan_enable'' JNull of JStr s \<Rightarrow> if s = [] then [] else [s] | _ \<Rightarrow> []) @
     concat (map (\<lambda>key. case as_list (get_or manifest key (JList [])) of None \<Rightarrow> [] | Some names \<Rightarrow> map py_str names)
       [''scan_inputs'', ''scan_outputs''])"

definition clock_port_name :: "jobj \<Rightarrow> int \<Rightarrow> string option" where
  "clock_port_name ports clock_net =
     map_option fst (find (\<lambda>(name, port). is_obj port \<and> entry_bits port = [clock_net]) ports)"

definition current_data_net :: "jobj \<Rightarrow> int \<Rightarrow> int" where
  "current_data_net cell fallback =
     (case as_obj (get_or cell ''connections'' (JObj [])) of
        None \<Rightarrow> fallback
      | Some conns \<Rightarrow> (case int_bits (get_or conns DATA_PIN (JList [])) of [b] \<Rightarrow> b | _ \<Rightarrow> fallback))"

definition bit_to_single_net_name :: "jobj \<Rightarrow> (int \<times> string) list" where
  "bit_to_single_net_name module =
     (case as_obj (get_or module ''netnames'' (JObj [])) of
        None \<Rightarrow> []
      | Some netnames \<Rightarrow>
          fold (\<lambda>(name, net) result. case entry_bits net of
              [b] \<Rightarrow> if has_key result b then result else dict_set result b name
            | _ \<Rightarrow> result) netnames [])"

definition async_capture_control :: "jobj \<Rightarrow> (string \<times> string \<times> int) option" where
  "async_capture_control cell =
     (case as_obj (get_or cell ''connections'' (JObj [])) of
        None \<Rightarrow> None
      | Some conns \<Rightarrow>
          if type_is cell SCAN_RESET_TYPES then
            (case int_bits (get_or conns ''RESET_B'' JNull) of b # _ \<Rightarrow> Some (''reset'', ''RESET_B'', b) | [] \<Rightarrow> None)
          else if type_is cell SCAN_SET_TYPES then
            (case int_bits (get_or conns ''SET_B'' JNull) of b # _ \<Rightarrow> Some (''set'', ''SET_B'', b) | [] \<Rightarrow> None)
          else None)"

definition parsed_net :: "json \<Rightarrow> json" where
  "parsed_net b = (if b = JStr ''x'' \<or> b = JStr ''z'' then JStr ''0'' else b)"

definition as_const :: "json \<Rightarrow> string option" where
  "as_const b = (case as_str (parsed_net b) of Some s \<Rightarrow> if has_key CONST_NETS s then Some s else None | None \<Rightarrow> None)"

text \<open>\<^verbatim>\<open>x or {}\<close>, used where a dict is expected next: anything else has no \<^verbatim>\<open>get\<close> and no \<^verbatim>\<open>items\<close>.\<close>

definition obj_or_empty :: "json \<Rightarrow> jobj res" where
  "obj_or_empty j = (if truthy j then lift_option AttributeError (as_obj j) else Inr [])"

definition constant_data :: "jobj \<Rightarrow> string option res" where
  "constant_data cell =
     bind_res (obj_or_empty (get_or cell ''connections'' JNull)) (\<lambda>conns.
       Inr (case get_or conns DATA_PIN JNull of JList [b] \<Rightarrow> as_const b | _ \<Rightarrow> None))"

definition count_constants :: "jobj \<Rightarrow> string \<times> json \<Rightarrow> int dict \<Rightarrow> int dict" where
  "count_constants directions pin_bits readers =
     (case as_list (snd pin_bits) of
        None \<Rightarrow> readers
      | Some bits \<Rightarrow>
          if get_or directions (fst pin_bits) JNull = JStr ''output'' then readers
          else fold (\<lambda>b m. dict_set m b (get_or m b 0 + 1))
                 (remdups (List.map_filter (\<lambda>b. if as_str b = None then None else as_const b) bits)) readers)"

definition constant_readers :: "jobj \<Rightarrow> int dict res" where
  "constant_readers module =
     bind_res (obj_or_empty (get_or module ''cells'' JNull)) (\<lambda>cells.
       fold_res (\<lambda>raw readers. case as_obj raw of
           None \<Rightarrow> Inr readers
         | Some cell \<Rightarrow>
             bind_res (obj_or_empty (get_or cell ''port_directions'' JNull)) (\<lambda>directions.
             bind_res (obj_or_empty (get_or cell ''connections'' JNull)) (\<lambda>conns.
             Inr (fold (count_constants directions) conns readers))))
         (map snd cells) (map (\<lambda>(b, net). (b, 0)) CONST_NETS))"

section \<open>Building blocks\<close>

record view_state =
  vw_tables :: tables
  vw_index :: bit_index
  vw_next :: int
  vw_map :: jobj

definition view_add_port :: "string \<Rightarrow> string \<Rightarrow> int \<Rightarrow> view_state \<Rightarrow> view_state" where
  "view_add_port name direction b s =
     s\<lparr>vw_tables := (vw_tables s)\<lparr>
         t_ports := dict_set (t_ports (vw_tables s)) name (JObj [(''direction'', JStr direction), (''bits'', JList [JInt b])]),
         t_nets := dict_set (t_nets (vw_tables s)) name (net_entry b)\<rparr>\<rparr>"

definition put_cell :: "string \<Rightarrow> json \<Rightarrow> view_state \<Rightarrow> view_state" where
  "put_cell name cell s =
     s\<lparr>vw_tables := (vw_tables s)\<lparr>t_cells := dict_set (t_cells (vw_tables s)) name cell\<rparr>,
       vw_index := add_cell name cell (vw_index s)\<rparr>"

definition buf_cell :: "string \<Rightarrow> json \<Rightarrow> int \<Rightarrow> json" where
  "buf_cell cell_type in_bit out_bit =
     internal_cell cell_type (JObj [(''A'', JStr ''input''), (''Y'', JStr ''output'')])
       (JObj [(''A'', JList [in_bit]), (''Y'', JList [JInt out_bit])])"

definition gate2_cell :: "string \<Rightarrow> int \<Rightarrow> int \<Rightarrow> int \<Rightarrow> json" where
  "gate2_cell cell_type a_bit b_bit out_bit =
     internal_cell cell_type (JObj [(''A'', JStr ''input''), (''B'', JStr ''input''), (''Y'', JStr ''output'')])
       (JObj [(''A'', JList [JInt a_bit]), (''B'', JList [JInt b_bit]), (''Y'', JList [JInt out_bit])])"

text \<open>Each block takes its new nets from the counter \<open>vw_next\<close>.\<close>

definition bump :: "int \<Rightarrow> view_state \<Rightarrow> view_state" where
  "bump k s = s\<lparr>vw_next := vw_next s + k\<rparr>"

definition branch_key :: "int \<Rightarrow> string \<Rightarrow> string \<Rightarrow> string res" where
  "branch_key net instance pin = canonical_site_key
     \<lparr>yosys_net_id = net, kind = ''branch'', consumer_instance = instance, input_pin = pin, pseudo_role = []\<rparr>"

definition add_ctrl_branch ::
  "string \<Rightarrow> string \<times> string \<times> int \<Rightarrow> int \<Rightarrow> view_state \<Rightarrow> (int \<times> string \<times> view_state) res" where
  "add_ctrl_branch instance control generic_net s =
     (case control of (knd, pin, control_net) \<Rightarrow>
        bind_res (branch_key generic_net instance pin) (\<lambda>key.
          Inr (vw_next s, key,
               bump 1 (put_cell (''$ffctrlbranch_'' @ instance) (buf_cell D_BRANCH_BUF_CELL (JInt control_net) (vw_next s)) s))))"

definition ctrl_mux :: "string \<Rightarrow> string \<Rightarrow> int \<Rightarrow> string \<Rightarrow> int \<Rightarrow> view_state \<Rightarrow> int \<times> view_state" where
  "ctrl_mux instance suffix data_in knd control_branch_net s =
     (let k = vw_next s
      in if knd = ''reset'' then
           (k, bump 1 (put_cell (''$ff'' @ suffix @ ''rstmux_'' @ instance)
                 (gate2_cell CAPTURE_AND_CELL data_in control_branch_net k) s))
         else
           (k + 1, bump 2 (put_cell (''$ff'' @ suffix @ ''setmux_'' @ instance) (gate2_cell CAPTURE_OR_CELL data_in k (k + 1))
              (put_cell (''$ff'' @ suffix @ ''setinv_'' @ instance) (buf_cell CAPTURE_INV_CELL (JInt control_branch_net) k) s))))"

text \<open>A net bit is an integer, or the literal of a constant.\<close>

definition resolve_d_observe_boundary ::
  "string \<Rightarrow> json \<Rightarrow> int \<Rightarrow> bool \<Rightarrow> view_state \<Rightarrow> (int \<times> string \<times> view_state) res" where
  "resolve_d_observe_boundary instance d_net generic_d_net shared s =
     bind_res (stem_site_key generic_d_net) (\<lambda>stem.
       case (shared, as_int d_net) of
         (False, Some n) \<Rightarrow> Inr (n, stem, s)
       | _ \<Rightarrow>
           (let s' = bump 1 (put_cell (''$ffbranch_'' @ instance) (buf_cell D_BRANCH_BUF_CELL d_net (vw_next s)) s)
            in if shared then bind_res (branch_key generic_d_net instance DATA_PIN) (\<lambda>key. Inr (vw_next s, key, s'))
               else Inr (vw_next s, stem, s')))"

section \<open>One flip-flop\<close>

text \<open>What the loop reads from the untouched netlist.\<close>

record view_source =
  src_cells :: jobj
  src_index :: bit_index
  src_readers :: "int dict"
  src_names :: "(int \<times> string) list"
  src_scan_ports :: "string list"
  src_active :: "int option"

definition int_field :: "jobj \<Rightarrow> string \<Rightarrow> int res" where
  "int_field record key = bind_res (getitem record key) py_int"

text \<open>The output of the flip-flop as the logic sees it: the pseudo input behind the control multiplexer.
  The control is its kind and branch net.\<close>

definition drive_q :: "view_source \<Rightarrow> string \<Rightarrow> int \<Rightarrow> (string \<times> int) option \<Rightarrow> view_state \<Rightarrow> int \<times> view_state" where
  "drive_q src instance q_net control s =
     (let ppi_bit = vw_next s;
          s1 = view_add_port (ppi_name instance) ''input'' ppi_bit (bump 1 s);
          m = (case control of None \<Rightarrow> (ppi_bit, s1) | Some (knd, br) \<Rightarrow> ctrl_mux instance ''q'' ppi_bit knd br s1);
          w = rewire q_net (fst m) (src_scan_ports src) (vw_tables (snd m), vw_index (snd m))
      in (fst m, (snd m)\<lparr>vw_tables := fst w, vw_index := snd w\<rparr>))"

text \<open>The D input: the net the observe buffer reads, the net the generic netlist has there, and whether the
  generic net has other sites.\<close>

definition data_input :: "view_source \<Rightarrow> string \<Rightarrow> jobj \<Rightarrow> int \<Rightarrow> (json \<times> int \<times> bool) res" where
  "data_input src instance cell dnet =
     (let source_cell = (case as_obj (get_or (src_cells src) instance (JObj [])) of None \<Rightarrow> [] | Some c \<Rightarrow> c);
          generic = current_data_net source_cell dnet
      in bind_res (constant_data source_cell) (\<lambda>const.
           Inr (case const of
                  Some c \<Rightarrow> (JStr c, get_or CONST_NETS c 0, 1 < get_or (src_readers src) c 0)
                | None \<Rightarrow> (JInt (current_data_net cell dnet), generic, 1 < consumer_count (src_index src) generic))))"

definition observe_d ::
  "string \<Rightarrow> json \<times> int \<times> bool \<Rightarrow> (string \<times> int) option \<Rightarrow> int \<Rightarrow> view_state \<Rightarrow> (int \<times> jobj \<times> view_state) res" where
  "observe_d instance d control q_net s =
     (case d of (d_net, generic_d_net, shared) \<Rightarrow>
        (let ppo_bit = vw_next s;
             s1 = view_add_port (ppo_name instance) ''output'' ppo_bit (bump 1 s)
         in bind_res (resolve_d_observe_boundary instance d_net generic_d_net shared s1) (\<lambda>(observe, key, s2).
            let m = (case control of None \<Rightarrow> (observe, s2) | Some (knd, br) \<Rightarrow> ctrl_mux instance ''d'' observe knd br s2);
                s3 = put_cell (''$ffobserve_'' @ instance) (buf_cell OBSERVE_BUF_CELL (JInt (fst m)) ppo_bit) (snd m)
            in bind_res (stem_site_key q_net) (\<lambda>q_key.
               Inr (ppo_bit, [(''atpg_view_schema_ver'', JStr ATPG_VIEW_SCHEMA_VER), (''d_boundary_site_key'', JStr key),
                 (''d_observe_net_id'', JInt observe), (''q_stem_site_key'', JStr q_key), (''unload_capable'', JBool True)], s3)))))"

definition control_of :: "view_source \<Rightarrow> string \<Rightarrow> jobj \<Rightarrow> view_state \<Rightarrow> ((string \<times> int \<times> string) option \<times> view_state) res" where
  "control_of src instance cell s =
     (case async_capture_control cell of
        None \<Rightarrow> Inr (None, s)
      | Some (knd, pin, net) \<Rightarrow>
          (let source_cell = (case as_obj (get_or (src_cells src) instance (JObj [])) of None \<Rightarrow> [] | Some c \<Rightarrow> c);
               generic_net = (case async_capture_control source_cell of Some (_, _, g) \<Rightarrow> g | None \<Rightarrow> net)
           in bind_res (add_ctrl_branch instance (knd, pin, net) generic_net s) (\<lambda>(br, key, s').
                Inr (Some (knd, br, key), s'))))"

text \<open>\<^verbatim>\<open>net_name_by_bit.get(net) or str(net)\<close>.\<close>

definition name_or_id :: "(int \<times> string) list \<Rightarrow> json \<Rightarrow> string" where
  "name_or_id names d =
     (case as_int d of
        Some n \<Rightarrow> (case map_of names n of Some (c # cs) \<Rightarrow> c # cs | _ \<Rightarrow> show_int n)
      | None \<Rightarrow> py_str d)"

definition map_entry :: "view_source \<Rightarrow> jobj \<Rightarrow> string \<Rightarrow> int \<Rightarrow> int \<Rightarrow> int \<Rightarrow> int option \<Rightarrow> int \<Rightarrow> json \<Rightarrow> jobj \<Rightarrow> json res" where
  "map_entry src record instance ppi_bit q_drive q_net ppo clock d_net boundary =
     bind_res (int_field record ''chain_index'') (\<lambda>chain.
     bind_res (int_field record ''chain_position'') (\<lambda>pos.
     Inr (JObj [(''ppi_port'', JStr (ppi_name instance)),
       (''ppo_port'', case ppo of None \<Rightarrow> JNull | Some _ \<Rightarrow> JStr (ppo_name instance)),
       (''ppi_net_id'', JInt ppi_bit), (''q_drive_net_id'', JInt q_drive),
       (''ppo_net_id'', case ppo of None \<Rightarrow> JNull | Some b \<Rightarrow> JInt b),
       (''original_q_net'', JStr (name_or_id (src_names src) (JInt q_net))),
       (''original_d_net'', JStr (name_or_id (src_names src) d_net)),
       (''chain_id'', JInt chain), (''position_in_chain'', JInt pos), (''clock_net'', JInt clock),
       (''boundary'', JObj boundary)])))"

definition drop_cell :: "string \<Rightarrow> view_state \<Rightarrow> view_state" where
  "drop_cell instance s =
     s\<lparr>vw_index := (case map_of (t_cells (vw_tables s)) instance of
                      None \<Rightarrow> vw_index s | Some cell \<Rightarrow> remove_cell instance cell (vw_index s)),
       vw_tables := (vw_tables s)\<lparr>t_cells := dict_pop (t_cells (vw_tables s)) instance\<rparr>\<rparr>"

text \<open>The cell is read again after the output was rewired: it is the same Python object.\<close>

definition live_cell :: "string \<Rightarrow> view_state \<Rightarrow> jobj" where
  "live_cell instance s =
     (case Option.bind (map_of (t_cells (vw_tables s)) instance) as_obj of None \<Rightarrow> [] | Some c \<Rightarrow> c)"

definition view_record :: "view_source \<Rightarrow> jobj \<Rightarrow> view_state \<Rightarrow> view_state res" where
  "view_record src record s =
     bind_res (getitem record ''instance'') (\<lambda>inst_raw.
     let instance = py_str inst_raw
     in case Option.bind (map_of (t_cells (vw_tables s)) instance) as_obj of
          None \<Rightarrow> Inl (ScanError (''scan cell missing from generic JSON: '' @ instance))
        | Some cell \<Rightarrow>
            if \<not> type_is cell SCAN_CELL_TYPES then Inl (ScanError (instance @ '': expected scan FF cell type''))
            else
              bind_res (int_field record ''q_net'') (\<lambda>q_net.
              bind_res (py_int (get_or record ''clock_net'' (JInt (-1)))) (\<lambda>clock.
              bind_res (control_of src instance cell s) (\<lambda>(control, s1).
              let ctl = map_option (\<lambda>(knd, br, key). (knd, br)) control;
                  ppi_bit = vw_next s1;
                  q = drive_q src instance q_net ctl s1
              in bind_res (int_field record ''data_net'') (\<lambda>dnet.
                 bind_res (data_input src instance (live_cell instance (snd q)) dnet) (\<lambda>d.
                 bind_res (if src_active src = None \<or> src_active src = Some clock
                           then bind_res (observe_d instance d ctl q_net (snd q)) (\<lambda>(b, boundary, s'). Inr (Some b, boundary, s'))
                           else Inr (None, [], snd q)) (\<lambda>(ppo, boundary, s3).
                 let boundary' = (case control of None \<Rightarrow> boundary
                       | Some (knd, br, key) \<Rightarrow> dict_set (dict_set boundary ''control_boundary_site_key'' (JStr key))
                           ''control_observe_net_id'' (JInt br));
                     s4 = drop_cell instance s3
                 in bind_res (map_entry src record instance ppi_bit (fst q) q_net ppo clock (fst d) boundary') (\<lambda>entry.
                    Inr (s4\<lparr>vw_map := dict_set (vw_map s4) instance entry\<rparr>)))))))))"

section \<open>The last passes\<close>

definition used_bits :: "jobj \<Rightarrow> int list" where
  "used_bits cells = concat (map (\<lambda>(i, cell). map snd (cell_sites cell)) cells)"

definition drop_dangling_scan_ports :: "jobj \<Rightarrow> int list \<Rightarrow> tables \<Rightarrow> tables" where
  "drop_dangling_scan_ports manifest clocks t =
     (let used = used_bits (t_cells t);
          scan_names = manifest_scan_port_names manifest @ List.map_filter (clock_port_name (t_ports t)) clocks
      in fold (\<lambda>name t. case Option.bind (map_of (t_ports t) name) as_obj of
            None \<Rightarrow> t
          | Some port \<Rightarrow> (case entry_bits (JObj port) of
              [b] \<Rightarrow> if b \<in> set used then t
                     else t\<lparr>t_ports := dict_pop (t_ports t) name, t_nets := dict_pop (t_nets t) name\<rparr>
            | _ \<Rightarrow> t)) scan_names t)"

definition count_readers :: "(int \<times> string) list \<Rightarrow> jobj \<Rightarrow> string \<times> json \<Rightarrow> (int \<times> int) list \<Rightarrow> (int \<times> int) list" where
  "count_readers q_drives directions pin_bits readers =
     (if get_or directions (fst pin_bits) JNull = JStr ''output'' then readers
      else fold (\<lambda>b m. if has_key q_drives b then dict_set m b (get_or m b 0 + 1) else m) (int_bits (snd pin_bits)) readers)"

definition output_readers :: "(int \<times> string) list \<Rightarrow> jobj \<Rightarrow> (int \<times> int) list res" where
  "output_readers q_drives cells =
     fold_res (\<lambda>raw readers. case as_obj raw of
         None \<Rightarrow> Inr readers
       | Some cell \<Rightarrow>
           bind_res (obj_or_empty (get_or cell ''port_directions'' JNull)) (\<lambda>directions.
           bind_res (lift_option AttributeError (as_obj (get_or cell ''connections'' (JObj [])))) (\<lambda>conns.
           Inr (fold (count_readers q_drives directions) conns readers)))) (map snd cells) []"

definition output_ports_on :: "jobj \<Rightarrow> int \<Rightarrow> string list" where
  "output_ports_on ports net =
     map fst (filter (\<lambda>(name, raw). case as_obj raw of
         None \<Rightarrow> False
       | Some port \<Rightarrow> get_or port ''direction'' JNull = JStr ''output'' \<and> \<not> starts_with name ''__ppo_'' \<and>
                     net \<in> set (entry_bits raw)) ports)"

definition move_entry :: "int \<Rightarrow> int \<Rightarrow> string \<Rightarrow> jobj \<Rightarrow> jobj" where
  "move_entry net branch name table =
     (case Option.bind (map_of table name) (rewire_entry net branch) of
        None \<Rightarrow> table
      | Some entry \<Rightarrow> dict_set table name entry)"

definition branch_output :: "(int \<times> int) list \<Rightarrow> int \<times> string \<Rightarrow> tables \<times> int \<Rightarrow> tables \<times> int" where
  "branch_output readers net_inst st =
     (case (net_inst, st) of ((net, instance), (t, next_id)) \<Rightarrow>
        (let outputs = output_ports_on (t_ports t) net
         in if get_or readers net 0 \<noteq> 1 \<or> outputs = [] then (t, next_id)
            else (\<lparr>t_cells = dict_set (t_cells t) (''$ffqpo_'' @ instance) (buf_cell D_BRANCH_BUF_CELL (JInt net) next_id),
                   t_ports = fold (move_entry net next_id) outputs (t_ports t),
                   t_nets = fold (move_entry net next_id) outputs (t_nets t)\<rparr>, next_id + 1)))"

definition next_id_of_tables :: "tables \<Rightarrow> int" where
  "next_id_of_tables t =
     fold max (concat (map (entry_bits \<circ> snd) (t_ports t)) @ concat (map (entry_bits \<circ> snd) (t_nets t)) @ used_bits (t_cells t)) (-1) + 1"

definition branch_flop_outputs :: "jobj \<Rightarrow> tables \<Rightarrow> tables res" where
  "branch_flop_outputs pseudo_port_map t =
     bind_res (map_res (\<lambda>(instance, raw).
         bind_res (subscript raw ''q_drive_net_id'') (\<lambda>j. bind_res (py_int j) (\<lambda>net. Inr (net, instance)))) pseudo_port_map) (\<lambda>kvs.
     let q_drives = dict_of kvs
     in bind_res (output_readers q_drives (t_cells t)) (\<lambda>readers.
        Inr (fst (fold (branch_output readers) (sort_key snd q_drives) (t, next_id_of_tables t)))))"

section \<open>The view\<close>

definition tables_of :: "jobj \<Rightarrow> tables res" where
  "tables_of module =
     (let part = (\<lambda>key. lift_option AttributeError (as_obj (get_or module key (JObj []))))
      in bind_res (part ''cells'') (\<lambda>cells. bind_res (part ''ports'') (\<lambda>ports. bind_res (part ''netnames'') (\<lambda>nets.
           Inr \<lparr>t_cells = cells, t_ports = ports, t_nets = nets\<rparr>))))"

definition module_of_tables :: "jobj \<Rightarrow> tables \<Rightarrow> jobj" where
  "module_of_tables module t =
     dict_set (dict_set (dict_set module ''cells'' (JObj (t_cells t))) ''ports'' (JObj (t_ports t))) ''netnames'' (JObj (t_nets t))"

text \<open>\<^verbatim>\<open>module.setdefault("attributes", {})[key] = value\<close>, skipped when the attributes are not an object.\<close>

definition set_attr :: "string \<Rightarrow> string \<Rightarrow> jobj \<Rightarrow> jobj" where
  "set_attr key v module =
     (case as_obj (get_or module ''attributes'' (JObj [])) of
        None \<Rightarrow> module
      | Some attrs \<Rightarrow> dict_set module ''attributes'' (JObj (dict_set attrs key (JStr v))))"

definition view_source_of :: "jobj \<Rightarrow> tables \<Rightarrow> jobj \<Rightarrow> int option \<Rightarrow> view_source res" where
  "view_source_of module t manifest active =
     bind_res (constant_readers module) (\<lambda>readers.
       Inr \<lparr>src_cells = t_cells t, src_index = bit_index_init t, src_readers = readers,
            src_names = bit_to_single_net_name module, src_scan_ports = manifest_scan_port_names manifest,
            src_active = active\<rparr>)"

definition view_module :: "jobj \<Rightarrow> jobj \<Rightarrow> jobj list \<Rightarrow> int option \<Rightarrow> (tables \<times> jobj) res" where
  "view_module module manifest records active =
     bind_res (map_res (\<lambda>r. bind_res (getitem r ''instance'') (\<lambda>i. Inr (py_str i))) records) (\<lambda>instances.
     bind_res (check_pseudo_names_free module instances) (\<lambda>_.
     if \<not> is_obj (get_or module ''cells'' (JObj [])) then Inl (ScanError ''top module cells must be an object'')
     else
       bind_res (next_net_id module) (\<lambda>next_id.
       bind_res (tables_of module) (\<lambda>t.
       bind_res (view_source_of module t manifest active) (\<lambda>src.
       bind_res (fold_res (view_record src) records
           \<lparr>vw_tables = t, vw_index = bit_index_init t, vw_next = next_id, vw_map = []\<rparr>) (\<lambda>s.
       bind_res (manifest_clock_net_ids ScanError manifest) (\<lambda>clocks.
       bind_res (branch_flop_outputs (vw_map s) (drop_dangling_scan_ports manifest clocks (vw_tables s))) (\<lambda>t'.
       Inr (t', vw_map s)))))))))"

definition build_scan_atpg_view :: "jobj \<Rightarrow> jobj \<Rightarrow> int option \<Rightarrow> (jobj \<times> jobj) res" where
  "build_scan_atpg_view generic_json manifest active =
     bind_res (getitem manifest ''top'') (\<lambda>top_raw.
     bind_res (top_module generic_json (py_str top_raw)) (\<lambda>(name, module).
     bind_res (scan_cell_records manifest) (\<lambda>records.
     if records = [] then Inr (generic_json, [])
     else bind_res (view_module module manifest records active) (\<lambda>(t, pseudo_port_map).
       Inr (set_module generic_json name
              (set_attr ''faultflow_atpg_view_schema_ver'' ATPG_VIEW_SCHEMA_VER (module_of_tables module t)), pseudo_port_map)))))"

end
