(* ===== verification/Atpg_View_Sem.thy ===== *)
theory Atpg_View_Sem
  imports Atpg_View Hold_Mux
begin

text \<open>
  What the ATPG view means. A valuation of the nets is consistent with a netlist when every cell is
  satisfied: library cells by a behaviour that is a parameter, the cells the tool inserts by their own
  function, and a scan flip-flop when its output shows its state, forced by its asynchronous control.
  The theory shows that every consistent valuation of the design extends to one of the view: the pseudo
  inputs carry the states, the pseudo outputs what the flip-flops capture, and every port keeps its value.
\<close>

section \<open>Consistent valuations\<close>

type_synonym behaviour = "string \<Rightarrow> (string \<times> bool) list \<Rightarrow> bool"

definition bits_value :: "(int \<Rightarrow> bool) \<Rightarrow> json \<Rightarrow> bool" where
  "bits_value v bits = (case as_list bits of Some [b] \<Rightarrow> bit_value v b | _ \<Rightarrow> False)"

definition pin_vals :: "(int \<Rightarrow> bool) \<Rightarrow> json \<Rightarrow> (string \<times> bool) list" where
  "pin_vals v cell = map (\<lambda>(pin, bits). (pin, bits_value v bits)) (conns_of cell)"

definition pin_val :: "(int \<Rightarrow> bool) \<Rightarrow> json \<Rightarrow> string \<Rightarrow> bool" where
  "pin_val v cell pin = get_or (pin_vals v cell) pin False"

definition type_of :: "json \<Rightarrow> json" where
  "type_of cell = (case as_obj cell of None \<Rightarrow> JNull | Some c \<Rightarrow> get_or c ''type'' JNull)"

definition of_type :: "json \<Rightarrow> string list \<Rightarrow> bool" where
  "of_type cell types = (type_of cell \<in> JStr ` set types)"

text \<open>The asynchronous control of a scan flip-flop, on its pins.\<close>

definition forced :: "(int \<Rightarrow> bool) \<Rightarrow> json \<Rightarrow> bool \<Rightarrow> bool" where
  "forced v cell x =
     (if of_type cell SCAN_RESET_TYPES then x \<and> pin_val v cell ''RESET_B''
      else if of_type cell SCAN_SET_TYPES then x \<or> \<not> pin_val v cell ''SET_B''
      else x)"

definition captured :: "(int \<Rightarrow> bool) \<Rightarrow> json \<Rightarrow> bool" where
  "captured v cell = forced v cell (pin_val v cell DATA_PIN)"

definition cell_sat :: "behaviour \<Rightarrow> (string \<Rightarrow> bool) \<Rightarrow> (int \<Rightarrow> bool) \<Rightarrow> string \<Rightarrow> json \<Rightarrow> bool" where
  "cell_sat beh st v inst cell =
     (let a = pin_val v cell ''A''; b = pin_val v cell ''B''; y = pin_val v cell ''Y''
      in if of_type cell SCAN_CELL_TYPES then pin_val v cell ''Q'' = forced v cell (st inst)
         else if of_type cell [OBSERVE_BUF_CELL, D_BRANCH_BUF_CELL] then y = a
         else if of_type cell [CAPTURE_AND_CELL, YOSYS_CAPTURE_AND_CELL] then y = (a \<and> b)
         else if of_type cell [CAPTURE_OR_CELL, YOSYS_CAPTURE_OR_CELL] then y = (a \<or> b)
         else if of_type cell [CAPTURE_INV_CELL, YOSYS_CAPTURE_INV_CELL] then y = (\<not> a)
         else (case type_of cell of JStr ty \<Rightarrow> beh ty (pin_vals v cell) | _ \<Rightarrow> True))"

definition design_sat :: "behaviour \<Rightarrow> (string \<Rightarrow> bool) \<Rightarrow> (int \<Rightarrow> bool) \<Rightarrow> jobj \<Rightarrow> bool" where
  "design_sat beh st v cells = (\<forall>(inst, cell) \<in> set cells. cell_sat beh st v inst cell)"

section \<open>Cells that mean the same\<close>

text \<open>Same type, same pins, and on each pin one bit with the same value; a constant stays the constant and a
  net stays a net.\<close>

definition bit_rel :: "(int \<Rightarrow> bool) \<Rightarrow> (int \<Rightarrow> bool) \<Rightarrow> json \<Rightarrow> json \<Rightarrow> bool" where
  "bit_rel v v' b b' = (bit_value v b = bit_value v' b' \<and> (as_int b = None \<longleftrightarrow> as_int b' = None) \<and> (as_int b = None \<longrightarrow> b' = b))"

definition pin_rel :: "(int \<Rightarrow> bool) \<Rightarrow> (int \<Rightarrow> bool) \<Rightarrow> string \<times> json \<Rightarrow> string \<times> json \<Rightarrow> bool" where
  "pin_rel v v' p p' = (fst p' = fst p \<and> (\<exists>b b'. snd p = JList [b] \<and> snd p' = JList [b'] \<and> bit_rel v v' b b'))"

definition cell_rel :: "(int \<Rightarrow> bool) \<Rightarrow> (int \<Rightarrow> bool) \<Rightarrow> json \<Rightarrow> json \<Rightarrow> bool" where
  "cell_rel v v' cell cell' =
     (is_obj cell = is_obj cell' \<and> type_of cell = type_of cell' \<and> list_all2 (pin_rel v v') (conns_of cell) (conns_of cell'))"

lemma pin_vals_rel: "list_all2 (pin_rel v v') conns conns' \<Longrightarrow>
    map (\<lambda>(p, bits). (p, bits_value v bits)) conns = map (\<lambda>(p, bits). (p, bits_value v' bits)) conns'"
  by (induction rule: list_all2_induct) (auto simp: pin_rel_def bit_rel_def bits_value_def)

lemma cell_rel_vals: "cell_rel v v' cell cell' \<Longrightarrow> pin_vals v cell = pin_vals v' cell'"
  by (simp add: cell_rel_def pin_vals_def pin_vals_rel)

lemma cell_rel_val: "cell_rel v v' cell cell' \<Longrightarrow> pin_val v cell p = pin_val v' cell' p"
  by (simp add: pin_val_def cell_rel_vals)

lemma cell_rel_type: "cell_rel v v' cell cell' \<Longrightarrow> of_type cell types = of_type cell' types"
  by (simp add: cell_rel_def of_type_def)

lemma cell_rel_forced: "cell_rel v v' cell cell' \<Longrightarrow> forced v cell x = forced v' cell' x"
  by (simp add: forced_def cell_rel_type cell_rel_val)

lemma cell_rel_captured: "cell_rel v v' cell cell' \<Longrightarrow> captured v cell = captured v' cell'"
  by (simp add: captured_def cell_rel_forced cell_rel_val)

lemma cell_rel_sat:
  assumes "cell_rel v v' cell cell'"
  shows "cell_sat beh st v i cell = cell_sat beh st v' i cell'"
proof -
  have ty: "type_of cell = type_of cell'" using assms by (simp add: cell_rel_def)
  show ?thesis
    unfolding cell_sat_def Let_def of_type_def ty cell_rel_val [OF assms] cell_rel_forced [OF assms] cell_rel_vals [OF assms] ..
qed

lemma pin_rel_trans: "pin_rel v v1 p p1 \<Longrightarrow> pin_rel v1 v2 p1 p2 \<Longrightarrow> pin_rel v v2 p p2"
  by (auto simp: pin_rel_def bit_rel_def)

lemma cell_rel_trans:
  assumes "cell_rel v v1 c c1" and "cell_rel v1 v2 c1 c2"
  shows "cell_rel v v2 c c2"
proof -
  have "list_all2 (pin_rel v v2) (conns_of c) (conns_of c2)"
    using assms by (intro list_all2_trans [OF pin_rel_trans]) (auto simp: cell_rel_def)
  then show ?thesis using assms by (simp add: cell_rel_def)
qed

text \<open>The bits of ports and net names; a port may be a bus.\<close>

definition entry_vals :: "(int \<Rightarrow> bool) \<Rightarrow> json \<Rightarrow> bool list" where
  "entry_vals v entry = (case Option.bind (as_obj entry) (\<lambda>e. as_list (get_or e ''bits'' JNull)) of
     None \<Rightarrow> [] | Some bits \<Rightarrow> map (bit_value v) bits)"

section \<open>One-bit pins\<close>

definition one_bit_pins :: "json \<Rightarrow> bool" where
  "one_bit_pins cell = (\<forall>(p, bits) \<in> set (conns_of cell). \<exists>b. bits = JList [b])"

lemma cell_rel_cong:
  assumes "one_bit_pins cell" and "\<And>p n. (p, n) \<in> set (cell_sites cell) \<Longrightarrow> v' n = v n"
  shows "cell_rel v v' cell cell"
proof -
  have "pin_rel v v' pb pb" if "pb \<in> set (conns_of cell)" for pb
  proof -
    obtain p bits where pb: "pb = (p, bits)" by (cases pb)
    with that assms(1) obtain b where b: "bits = JList [b]" by (auto simp: one_bit_pins_def)
    have "bit_value v b = bit_value v' b"
    proof (cases "as_int b")
      case (Some n)
      with that b pb have "(p, n) \<in> set (cell_sites cell)"
        by (force simp: cell_sites_def int_bits_def List.map_filter_simps)
      with assms(2) Some show ?thesis by (simp add: bit_value_def)
    qed (simp add: bit_value_def)
    with b pb show ?thesis by (auto simp: pin_rel_def bit_rel_def)
  qed
  then show ?thesis by (auto simp: cell_rel_def list_all2_same)
qed

lemma cell_rel_rewire:
  assumes "one_bit_pins cell" and "v new = v old"
  shows "cell_rel v v cell (rewire_cell old new cell)" and "one_bit_pins (rewire_cell old new cell)"
proof -
  let ?f = "\<lambda>(pin, bits). (pin, if old \<in> set (int_bits bits) then subst_pin old new bits else bits)"
  have pin: "pin_rel v v pb (?f pb)" if one: "\<exists>b. snd pb = JList [b]" for pb :: "string \<times> json"
  proof -
    obtain p b where pb: "pb = (p, JList [b])" using one by (cases pb) auto
    show ?thesis
    proof (cases "as_int b = Some old")
      case True
      then have "?f pb = (p, JList [JInt new])"
        by (simp add: pb int_bits_def List.map_filter_simps subst_pin_def subst_bits_def)
      with True assms(2) show ?thesis by (auto simp: pb pin_rel_def bit_rel_def bit_value_def)
    next
      case False
      then have "?f pb = pb" by (auto simp: pb int_bits_def List.map_filter_simps split: option.splits)
      then show ?thesis by (simp add: pb pin_rel_def bit_rel_def)
    qed
  qed
  have conns: "conns_of (rewire_cell old new cell) = map ?f (conns_of cell)"
  proof (cases "Option.bind (as_obj cell) (\<lambda>c. as_obj (get_or c ''connections'' (JObj [])))")
    case None
    then have "rewire_cell old new cell = cell" by (auto simp: rewire_cell_def split: option.splits)
    with None show ?thesis by (simp add: conns_of_def)
  next
    case (Some conns)
    then obtain c where c: "cell = JObj c" "as_obj (get_or c ''connections'' (JObj [])) = Some conns" by (cases cell) auto
    have "map ?f conns = conns" if "\<not> list_ex (\<lambda>(pin, bits). old \<in> set (int_bits bits)) conns"
      using that by (intro map_idI) (auto simp: list_ex_iff)
    with c show ?thesis by (auto simp: rewire_cell_def conns_of_JObj get_or_dict_set)
  qed
  have types: "type_of (rewire_cell old new cell) = type_of cell" "is_obj (rewire_cell old new cell) = is_obj cell"
    by (auto simp: type_of_def rewire_cell_def is_obj_def get_or_dict_set split: option.splits)
  have "list_all2 (pin_rel v v) (conns_of cell) (map ?f (conns_of cell))"
    unfolding list_all2_map2 list_all2_same using assms(1) pin by (auto simp: one_bit_pins_def)
  then show "cell_rel v v cell (rewire_cell old new cell)" by (simp add: cell_rel_def conns types)
  show "one_bit_pins (rewire_cell old new cell)"
    unfolding one_bit_pins_def conns
  proof safe
    fix p bits assume "(p, bits) \<in> set (map ?f (conns_of cell))"
    then obtain pb where pb: "pb \<in> set (conns_of cell)" "(p, bits) = ?f pb" by auto
    then have "\<exists>b. snd pb = JList [b]" using assms(1) by (auto simp: one_bit_pins_def)
    from pin [OF this] pb(2) show "\<exists>b. bits = JList [b]" by (metis pin_rel_def snd_conv)
  qed
qed

section \<open>The invariant of the builder\<close>

definition below :: "int \<Rightarrow> tables \<Rightarrow> bool" where
  "below n t = ((\<forall>(i, cell) \<in> set (t_cells t). \<forall>(p, b) \<in> set (cell_sites cell). b < n) \<and>
     (\<forall>(name, e) \<in> set (t_ports t) \<union> set (t_nets t). \<forall>b \<in> set (entry_bits e). b < n))"

text \<open>\<open>G\<close> bounds the instance names in use, \<open>P\<close> the port and net names; \<open>n\<close> is the first net the builder may
  take.\<close>

definition good :: "behaviour \<Rightarrow> (string \<Rightarrow> bool) \<Rightarrow> int \<Rightarrow> string set \<Rightarrow> string set \<Rightarrow> view_state \<Rightarrow> (int \<Rightarrow> bool) \<Rightarrow> bool" where
  "good beh st n G P s v =
     (let t = vw_tables s
      in wf_tables t \<and> agrees n (vw_index s) t \<and> n \<le> vw_next s \<and> below (vw_next s) t \<and>
         fst ` set (t_cells t) \<subseteq> G \<and> fst ` set (t_ports t) \<union> fst ` set (t_nets t) \<subseteq> P \<and>
         (\<forall>(i, cell) \<in> set (t_cells t). one_bit_pins cell \<and> cell_sat beh st v i cell))"

text \<open>What a step keeps: the cells outside \<open>R\<close> mean the same, the ports in \<open>N\<close> have the same values, and nets
  that were there keep theirs.\<close>

definition keeps :: "string set \<Rightarrow> string set \<Rightarrow> view_state \<Rightarrow> (int \<Rightarrow> bool) \<Rightarrow> view_state \<Rightarrow> (int \<Rightarrow> bool) \<Rightarrow> bool" where
  "keeps R N s v s' v' =
     ((\<forall>i cell. i \<notin> R \<longrightarrow> map_of (t_cells (vw_tables s)) i = Some cell \<longrightarrow>
         (\<exists>cell'. map_of (t_cells (vw_tables s')) i = Some cell' \<and> cell_rel v v' cell cell')) \<and>
      (\<forall>name \<in> N. \<forall>e. map_of (t_ports (vw_tables s)) name = Some e \<longrightarrow>
         (\<exists>e'. map_of (t_ports (vw_tables s')) name = Some e' \<and> entry_vals v e = entry_vals v' e')) \<and>
      vw_next s \<le> vw_next s' \<and> (\<forall>b < vw_next s. v' b = v b))"

lemma keeps_trans:
  assumes "keeps R N s v s1 v1" and "keeps R' N s1 v1 s2 v2"
  shows "keeps (R \<union> R') N s v s2 v2"
  unfolding keeps_def
proof (intro conjI allI impI ballI)
  fix i cell assume i: "i \<notin> R \<union> R'" "map_of (t_cells (vw_tables s)) i = Some cell"
  with assms(1) obtain c1 where "map_of (t_cells (vw_tables s1)) i = Some c1" "cell_rel v v1 cell c1"
    unfolding keeps_def by blast
  moreover from this i assms(2) obtain c2 where "map_of (t_cells (vw_tables s2)) i = Some c2" "cell_rel v1 v2 c1 c2"
    unfolding keeps_def by blast
  ultimately show "\<exists>cell'. map_of (t_cells (vw_tables s2)) i = Some cell' \<and> cell_rel v v2 cell cell'"
    using cell_rel_trans by blast
next
  fix name e assume "name \<in> N" "map_of (t_ports (vw_tables s)) name = Some e"
  with assms show "\<exists>e'. map_of (t_ports (vw_tables s2)) name = Some e' \<and> entry_vals v e = entry_vals v2 e'"
    unfolding keeps_def by metis
qed (use assms in \<open>auto simp: keeps_def\<close>)

lemma keeps_mono: "keeps R N s v s' v' \<Longrightarrow> R \<subseteq> R' \<Longrightarrow> keeps R' N s v s' v'"
  unfolding keeps_def by blast

lemma keeps_ports: "keeps R N s v s' v' \<Longrightarrow> N' \<subseteq> N \<Longrightarrow> keeps R N' s v s' v'"
  unfolding keeps_def by blast

text \<open>A one-bit port and its value.\<close>

definition shows_port :: "view_state \<Rightarrow> (int \<Rightarrow> bool) \<Rightarrow> string \<Rightarrow> bool \<Rightarrow> bool" where
  "shows_port s v name x = (\<exists>e. map_of (t_ports (vw_tables s)) name = Some e \<and> entry_vals v e = [x])"

lemma keeps_shows: "keeps R N s v s' v' \<Longrightarrow> name \<in> N \<Longrightarrow> shows_port s v name x \<Longrightarrow> shows_port s' v' name x"
  unfolding keeps_def shows_port_def by metis

lemma shows_add_port: "v k = x \<Longrightarrow> shows_port (view_add_port name dir k s) v name x"
  by (simp add: shows_port_def view_add_port_def update_conv' entry_vals_def get_or_def bit_value_def)

lemma goodD:
  assumes "good beh st n G P s v"
  shows "wf_tables (vw_tables s)" "agrees n (vw_index s) (vw_tables s)" "n \<le> vw_next s" "below (vw_next s) (vw_tables s)"
    and "fst ` set (t_cells (vw_tables s)) \<subseteq> G" "fst ` set (t_ports (vw_tables s)) \<subseteq> P" "fst ` set (t_nets (vw_tables s)) \<subseteq> P"
    and "(i, cell) \<in> set (t_cells (vw_tables s)) \<Longrightarrow> one_bit_pins cell"
    and "(i, cell) \<in> set (t_cells (vw_tables s)) \<Longrightarrow> cell_sat beh st v i cell"
    and "(i, cell) \<in> set (t_cells (vw_tables s)) \<Longrightarrow> (p, b) \<in> set (cell_sites cell) \<Longrightarrow> b < vw_next s"
    and "(name, e) \<in> set (t_ports (vw_tables s)) \<union> set (t_nets (vw_tables s)) \<Longrightarrow> b' \<in> set (entry_bits e) \<Longrightarrow> b' < vw_next s"
proof -
  show *: "wf_tables (vw_tables s)" "agrees n (vw_index s) (vw_tables s)" "n \<le> vw_next s" "below (vw_next s) (vw_tables s)"
    "fst ` set (t_cells (vw_tables s)) \<subseteq> G" "fst ` set (t_ports (vw_tables s)) \<subseteq> P" "fst ` set (t_nets (vw_tables s)) \<subseteq> P"
    using assms by (simp_all add: good_def Let_def)
  have all: "\<forall>(i, cell) \<in> set (t_cells (vw_tables s)). one_bit_pins cell \<and> cell_sat beh st v i cell"
    using assms unfolding good_def Let_def by blast
  show "(i, cell) \<in> set (t_cells (vw_tables s)) \<Longrightarrow> one_bit_pins cell"
    "(i, cell) \<in> set (t_cells (vw_tables s)) \<Longrightarrow> cell_sat beh st v i cell" using all by blast+
  show "(i, cell) \<in> set (t_cells (vw_tables s)) \<Longrightarrow> (p, b) \<in> set (cell_sites cell) \<Longrightarrow> b < vw_next s"
    "(name, e) \<in> set (t_ports (vw_tables s)) \<union> set (t_nets (vw_tables s)) \<Longrightarrow> b' \<in> set (entry_bits e) \<Longrightarrow> b' < vw_next s"
    using *(4) unfolding below_def by blast+
qed

lemma entry_vals_cong:
  assumes "\<And>b. b \<in> set (entry_bits e) \<Longrightarrow> v' b = v b"
  shows "entry_vals v e = entry_vals v' e"
proof (cases "Option.bind (as_obj e) (\<lambda>e. as_list (get_or e ''bits'' JNull))")
  case (Some bits)
  then have eb: "entry_bits e = List.map_filter as_int bits" by (auto simp: entry_bits_def int_bits_def bind_eq_Some_conv)
  have "bit_value v b = bit_value v' b" if "b \<in> set bits" for b
  proof (cases "as_int b")
    case (Some n)
    with that have "n \<in> set (entry_bits e)" unfolding eb by (force simp: List.map_filter_def)
    with assms Some show ?thesis by (simp add: bit_value_def)
  qed (simp add: bit_value_def)
  with Some show ?thesis by (simp add: entry_vals_def)
qed (simp add: entry_vals_def)

text \<open>Changing a valuation on nets that are not there yet.\<close>

lemma good_valuation:
  assumes "good beh st n G P s v" and "\<And>b. b < vw_next s \<Longrightarrow> v' b = v b"
  shows "good beh st n G P s v'" and "keeps {} N s v s v'"
proof -
  have rel: "cell_rel v v' cell cell" if "(i, cell) \<in> set (t_cells (vw_tables s))" for i cell
    using goodD(8) [OF assms(1) that] goodD(10) [OF assms(1) that] assms(2) by (intro cell_rel_cong) auto
  have "cell_sat beh st v' i cell" if "(i, cell) \<in> set (t_cells (vw_tables s))" for i cell
    using goodD(9) [OF assms(1) that] cell_rel_sat [OF rel [OF that]] by simp
  then show "good beh st n G P s v'" using assms(1) by (auto simp: good_def Let_def)
  have vals: "entry_vals v e = entry_vals v' e" if "(name, e) \<in> set (t_ports (vw_tables s))" for name e
    using goodD(11) [OF assms(1)] that assms(2) by (intro entry_vals_cong) blast
  show "keeps {} N s v s v'"
    unfolding keeps_def using rel vals assms(2) by (auto dest!: map_of_SomeD)
qed

section \<open>The steps\<close>

lemma put_cell_good:
  assumes g: "good beh st n G P s v" and "name \<notin> G" and "one_bit_pins cell" and "distinct (map fst (conns_of cell))"
    and sites: "\<And>p b. (p, b) \<in> set (cell_sites cell) \<Longrightarrow> b < vw_next s + d" and "0 \<le> d"
    and v': "\<And>b. b < vw_next s \<Longrightarrow> v' b = v b" and "cell_sat beh st v' name cell"
  shows "good beh st n (insert name G) P (bump d (put_cell name cell s)) v'"
    and "keeps {} N s v (bump d (put_cell name cell s)) v'"
proof -
  note g' = good_valuation [OF g v']
  let ?t = "vw_tables s" and ?s = "bump d (put_cell name cell s)"
  have fresh: "name \<notin> fst ` set (t_cells ?t)" using goodD(5) [OF g] assms(2) by blast
  then have cells: "dict_set (t_cells ?t) name cell = t_cells ?t @ [(name, cell)]" by (rule update_new)
  have tabs: "vw_tables ?s = ?t\<lparr>t_cells := dict_set (t_cells ?t) name cell\<rparr>" "vw_next ?s = vw_next s + d"
    "vw_index ?s = add_cell name cell (vw_index s)"
    by (simp_all add: bump_def put_cell_def)
  have "wf_tables (vw_tables ?s)" using goodD(1) [OF g] fresh assms(4)
    by (auto simp: wf_tables_def keys_ok_def tabs cells)
  moreover have "agrees n (vw_index ?s) (vw_tables ?s)"
    unfolding tabs by (rule agrees_add_cell [OF goodD(2) [OF g] fresh])
  moreover have "below (vw_next ?s) (vw_tables ?s)"
    using goodD(4) [OF g] sites assms(6) unfolding below_def tabs by (fastforce simp: cells)
  ultimately show "good beh st n (insert name G) P ?s v'"
    using goodD [OF g'(1)] assms(3,6,8) by (auto simp: good_def Let_def tabs cells)
  show "keeps {} N s v ?s v'"
  proof -
    have "map_of (t_cells ?t) name = None" using fresh by (simp add: map_of_eq_None_iff)
    then show ?thesis using g'(2) [of N] assms(6) by (auto simp: keeps_def tabs update_conv')
  qed
qed

lemma view_add_port_good:
  assumes g: "good beh st n G P s v" and "name \<notin> P" and "name \<notin> N" and v': "\<And>b. b < vw_next s \<Longrightarrow> v' b = v b"
  shows "good beh st n G (insert name P) (view_add_port name dir (vw_next s) (bump 1 s)) v'"
    and "keeps {} N s v (view_add_port name dir (vw_next s) (bump 1 s)) v'"
proof -
  note g' = good_valuation [OF g v']
  let ?t = "vw_tables s" and ?k = "vw_next s" and ?s = "view_add_port name dir (vw_next s) (bump 1 s)"
  let ?port = "JObj [(''direction'', JStr dir), (''bits'', JList [JInt ?k])]"
  have fresh: "name \<notin> fst ` set (t_ports ?t)" "name \<notin> fst ` set (t_nets ?t)" using goodD(6,7) [OF g] assms(2) by blast+
  have tabs: "t_cells (vw_tables ?s) = t_cells ?t" "t_ports (vw_tables ?s) = t_ports ?t @ [(name, ?port)]"
    "t_nets (vw_tables ?s) = t_nets ?t @ [(name, net_entry ?k)]" "vw_next ?s = ?k + 1" "vw_index ?s = vw_index s"
    by (simp_all add: view_add_port_def bump_def update_new [OF fresh(1)] update_new [OF fresh(2)])
  have eb: "entry_bits ?port = [?k]" "entry_bits (net_entry ?k) = [?k]"
    by (simp_all add: entry_bits_def net_entry_def get_or_def int_bits_def List.map_filter_simps)
  have "wf_tables (vw_tables ?s)" using goodD(1) [OF g] fresh by (auto simp: wf_tables_def tabs)
  moreover have "agrees n (vw_index ?s) (vw_tables ?s)"
  proof -
    have none: "map_of (t_ports ?t) name = None" "map_of (t_nets ?t) name = None" using fresh by (simp_all add: map_of_eq_None_iff)
    have "b < n \<Longrightarrow> b \<noteq> ?k" for b using goodD(3) [OF g] by simp
    then have "b < n \<Longrightarrow> name_at (t_ports (vw_tables ?s)) b x = name_at (t_ports ?t) b x"
      "b < n \<Longrightarrow> name_at (t_nets (vw_tables ?s)) b x = name_at (t_nets ?t) b x" for b x
      using none eb by (auto simp: name_at_def tabs map_add_def split: option.splits)
    then show ?thesis using goodD(2) [OF g] by (simp add: agrees_def tabs)
  qed
  moreover have "below (vw_next ?s) (vw_tables ?s)"
    using goodD(4) [OF g] unfolding below_def tabs by (auto simp: eb) fastforce+
  ultimately show "good beh st n G (insert name P) ?s v'"
    using goodD [OF g'(1)] by (auto simp: good_def Let_def tabs)
  show "keeps {} N s v ?s v'"
    using g'(2) [of N] assms(3) by (auto simp: keeps_def tabs map_add_def split: option.splits)
qed

lemma rewire_all_fields:
  "t_cells (rewire_all old new ex t) = (if old = new then t_cells t else map (\<lambda>(i, cell). (i, rewire_cell old new cell)) (t_cells t))"
  "t_ports (rewire_all old new ex t) = (if old = new then t_ports t else rewire_table old new ex (t_ports t))"
  "t_nets (rewire_all old new ex t) = (if old = new then t_nets t else rewire_table old new ex (t_nets t))"
  by (simp_all add: rewire_all_def)

lemma entry_bits_rewire_one: "b \<in> set (entry_bits (rewire_one old new ex name e)) \<Longrightarrow> b \<in> set (entry_bits e) \<or> b = new"
  using entry_bits_rewire [of old new e] by (auto simp: rewire_one_def split: if_splits option.splits)

lemma entry_vals_rewire_entry:
  assumes "v new = v old" and "rewire_entry old new e = Some e'"
  shows "entry_vals v e' = entry_vals v e"
proof -
  from assms(2) obtain d bs where e: "e = JObj d" "get_or d ''bits'' JNull = JList bs"
      "e' = JObj (dict_set d ''bits'' (JList (subst_bits old new bs)))"
    by (cases e) (auto simp: rewire_entry_def as_list_Some split: option.splits)
  have "map (bit_value v) (subst_bits old new bs) = map (bit_value v) bs"
    using assms(1) by (auto simp: subst_bits_def bit_value_def)
  with e show ?thesis by (simp add: entry_vals_def get_or_dict_set)
qed

lemma rewire_good:
  assumes g: "good beh st n G P s v" and "old < n" and new: "new < vw_next s" and v: "v new = v old"
    and w: "w = rewire old new ex (vw_tables s, vw_index s)"
  shows "good beh st n G P (s\<lparr>vw_tables := fst w, vw_index := snd w\<rparr>) v"
    and "keeps {} N s v (s\<lparr>vw_tables := fst w, vw_index := snd w\<rparr>) v"
proof -
  let ?t = "vw_tables s"
  note r = rewire_agrees [OF goodD(1,2) [OF g] assms(2), of new ex]
  have t: "fst w = rewire_all old new ex ?t" using r(1) w by simp
  have cr: "cell_rel v v cell (rewire_cell old new cell)" "one_bit_pins (rewire_cell old new cell)"
    if "(i, cell) \<in> set (t_cells ?t)" for i cell using cell_rel_rewire [OF goodD(8) [OF g that] v] by blast+
  have cells: "(i, cell') \<in> set (t_cells (fst w)) \<Longrightarrow> \<exists>cell. (i, cell) \<in> set (t_cells ?t) \<and> cell_rel v v cell cell' \<and> one_bit_pins cell' \<and>
      (\<forall>(p, b) \<in> set (cell_sites cell'). b < vw_next s)" for i cell'
  proof -
    assume "(i, cell') \<in> set (t_cells (fst w))"
    then consider "old = new" "(i, cell') \<in> set (t_cells ?t)"
      | cell where "(i, cell) \<in> set (t_cells ?t)" "cell' = rewire_cell old new cell"
      unfolding t rewire_all_fields by (auto split: if_splits)
    then show ?thesis
    proof cases
      case 1
      then show ?thesis using goodD(8,10) [OF g 1(2)] by (intro exI [of _ cell']) (auto intro: cell_rel_cong)
    next
      case 2
      then show ?thesis using cr [OF 2(1)] goodD(10) [OF g 2(1)] new by (intro exI [of _ cell]) (auto simp: cell_sites_rewire)
    qed
  qed
  have ents: "(nm, e') \<in> set (t_ports (fst w)) \<union> set (t_nets (fst w)) \<Longrightarrow> b \<in> set (entry_bits e') \<Longrightarrow> b < vw_next s" for nm e' b
    unfolding t rewire_all_fields rewire_table_map using goodD(11) [OF g] new
    by (auto split: if_splits dest!: entry_bits_rewire_one) 
  have "below (vw_next s) (fst w)" unfolding below_def using cells ents by blast
  moreover have keys: "fst ` set (t_cells (fst w)) = fst ` set (t_cells ?t)" "fst ` set (t_ports (fst w)) = fst ` set (t_ports ?t)"
    "fst ` set (t_nets (fst w)) = fst ` set (t_nets ?t)"
    unfolding t rewire_all_fields rewire_table_map by (force simp: image_iff)+
  moreover have "one_bit_pins cell' \<and> cell_sat beh st v i cell'" if "(i, cell') \<in> set (t_cells (fst w))" for i cell'
    using cells [OF that] goodD(9) [OF g] cell_rel_sat by blast
  moreover have "wf_tables (fst w)" "agrees n (snd w) (fst w)" using r w wf_rewire_all [OF goodD(1) [OF g]] by simp_all
  ultimately show "good beh st n G P (s\<lparr>vw_tables := fst w, vw_index := snd w\<rparr>) v"
    using goodD(3,5,6,7) [OF g] by (auto simp: good_def Let_def)
  have "entry_vals v (rewire_one old new ex nm e) = entry_vals v e" for nm e
    using entry_vals_rewire_entry [OF v] by (auto simp: rewire_one_def split: option.splits)
  moreover have "cell_rel v v cell cell" if "(i, cell) \<in> set (t_cells ?t)" for i cell
    using goodD(8) [OF g that] by (intro cell_rel_cong) auto
  ultimately show "keeps {} N s v (s\<lparr>vw_tables := fst w, vw_index := snd w\<rparr>) v"
    using cr unfolding keeps_def
    by (auto simp: t rewire_all_fields rewire_table_map map_of_map map_of_map_key dest!: map_of_SomeD)
qed

lemma drop_cell_good:
  assumes g: "good beh st n G P s v"
  shows "good beh st n (G - {i}) P (drop_cell i s) v" and "keeps {i} N s v (drop_cell i s) v"
proof -
  let ?t = "vw_tables s"
  have sub: "set (dict_pop (t_cells ?t) i) \<subseteq> set (t_cells ?t)" by (auto simp: AList.delete_eq)
  have tabs: "vw_tables (drop_cell i s) = ?t\<lparr>t_cells := dict_pop (t_cells ?t) i\<rparr>" "vw_next (drop_cell i s) = vw_next s"
    by (simp_all add: drop_cell_def)
  have "agrees n (vw_index (drop_cell i s)) (vw_tables (drop_cell i s))"
  proof (cases "map_of (t_cells ?t) i")
    case None
    then have "dict_pop (t_cells ?t) i = t_cells ?t" by (simp add: map_of_eq_None_iff delete_id)
    with None goodD(2) [OF g] show ?thesis by (simp add: drop_cell_def)
  next
    case (Some cell)
    then show ?thesis using agrees_remove_cell [OF goodD(2) [OF g] Some] by (simp add: drop_cell_def)
  qed
  moreover have "wf_tables (vw_tables (drop_cell i s))"
    using goodD(1) [OF g] sub by (auto simp: wf_tables_def keys_ok_def tabs distinct_delete list_all_iff)
  moreover have "below (vw_next s) (vw_tables (drop_cell i s))"
    using goodD(4) [OF g] sub unfolding below_def tabs by (simp add: subset_iff) blast
  moreover have "fst ` set (dict_pop (t_cells ?t) i) \<subseteq> G - {i}" using goodD(5) [OF g] by (auto simp: AList.delete_eq)
  ultimately show "good beh st n (G - {i}) P (drop_cell i s) v"
    using goodD(3,6-9) [OF g] sub by (auto simp: good_def Let_def tabs)
  have "cell_rel v v cell cell" if "(j, cell) \<in> set (t_cells ?t)" for j cell
    using goodD(8) [OF g that] by (intro cell_rel_cong) auto
  then show "keeps {i} N s v (drop_cell i s) v" by (auto simp: keeps_def tabs delete_conv' dest!: map_of_SomeD)
qed

section \<open>The inserted cells\<close>

lemma conns_internal_cell [simp]: "conns_of (internal_cell ty dirs (JObj conns)) = conns"
  and type_internal_cell [simp]: "type_of (internal_cell ty dirs conns') = JStr ty"
  by (simp_all add: internal_cell_def conns_of_JObj get_or_def type_of_def)

lemmas inserted_types = of_type_def SCAN_CELL_TYPES_def SCAN_CELL_TYPE_def YOSYS_SCAN_CELL_TYPE_def SCAN_RESET_CELL_TYPE_def
  YOSYS_SCAN_RESET_CELL_TYPE_def SCAN_SET_CELL_TYPE_def YOSYS_SCAN_SET_CELL_TYPE_def OBSERVE_BUF_CELL_def
  D_BRANCH_BUF_CELL_def CAPTURE_AND_CELL_def CAPTURE_OR_CELL_def CAPTURE_INV_CELL_def YOSYS_CAPTURE_AND_CELL_def
  YOSYS_CAPTURE_OR_CELL_def YOSYS_CAPTURE_INV_CELL_def

lemmas inserted_pins = pin_val_def pin_vals_def get_or_def bits_value_def bit_value_def

lemma buf_cell_sat:
  "ty \<in> {OBSERVE_BUF_CELL, D_BRANCH_BUF_CELL} \<Longrightarrow> cell_sat beh st v i (buf_cell ty b k) \<longleftrightarrow> v k = bit_value v b"
  "cell_sat beh st v i (buf_cell CAPTURE_INV_CELL b k) \<longleftrightarrow> v k = (\<not> bit_value v b)"
  by (auto simp: cell_sat_def Let_def buf_cell_def inserted_types inserted_pins)

lemma gate2_cell_sat:
  "cell_sat beh st v i (gate2_cell CAPTURE_AND_CELL a b k) \<longleftrightarrow> v k = (v a \<and> v b)"
  "cell_sat beh st v i (gate2_cell CAPTURE_OR_CELL a b k) \<longleftrightarrow> v k = (v a \<or> v b)"
  by (auto simp: cell_sat_def Let_def gate2_cell_def inserted_types inserted_pins)

lemma inserted_wf:
  "one_bit_pins (buf_cell ty b k)" "one_bit_pins (gate2_cell ty a' b' k)"
  "distinct (map fst (conns_of (buf_cell ty b k)))" "distinct (map fst (conns_of (gate2_cell ty a' b' k)))"
  "set (cell_sites (buf_cell ty b k)) = (case as_int b of None \<Rightarrow> {(''Y'', k)} | Some n \<Rightarrow> {(''A'', n), (''Y'', k)})"
  "set (cell_sites (gate2_cell ty a' b' k)) = {(''A'', a'), (''B'', b'), (''Y'', k)}"
  by (auto simp: one_bit_pins_def buf_cell_def gate2_cell_def cell_sites_def int_bits_def List.map_filter_simps split: option.splits)

text \<open>Inserting a buffer, an inverter or a gate whose output is the next net.\<close>

lemma put_buf:
  assumes g: "good beh st n G P s v" and "name \<notin> G" and "\<And>m. as_int b = Some m \<Longrightarrow> m < vw_next s"
    and ty: "ty \<in> {OBSERVE_BUF_CELL, D_BRANCH_BUF_CELL} \<and> x = bit_value v b \<or> ty = CAPTURE_INV_CELL \<and> x = (\<not> bit_value v b)"
  defines "s' \<equiv> bump 1 (put_cell name (buf_cell ty b (vw_next s)) s)" and "v' \<equiv> v(vw_next s := x)"
  shows "good beh st n (insert name G) P s' v'" "keeps {} N s v s' v'"
proof -
  have "bit_value v' b = bit_value v b" using assms(3) by (auto simp: v'_def bit_value_def split: option.splits)
  with ty have sat: "cell_sat beh st v' name (buf_cell ty b (vw_next s))" by (auto simp: buf_cell_sat v'_def)
  note l = put_cell_good [where d = 1 and v' = v' and cell = "buf_cell ty b (vw_next s)", OF g assms(2) inserted_wf(1,3) _ _ _ sat]
  show "good beh st n (insert name G) P s' v'"
    unfolding s'_def by (rule l(1)) (use assms(3) in \<open>fastforce simp: inserted_wf v'_def split: option.splits\<close>)+
  show "keeps {} N s v s' v'"
    unfolding s'_def by (rule l(2)) (use assms(3) in \<open>fastforce simp: inserted_wf v'_def split: option.splits\<close>)+
qed

lemma put_gate2:
  assumes g: "good beh st n G P s v" and "name \<notin> G" and "a < vw_next s" "b < vw_next s"
    and ty: "ty = CAPTURE_AND_CELL \<and> x = (v a \<and> v b) \<or> ty = CAPTURE_OR_CELL \<and> x = (v a \<or> v b)"
  defines "s' \<equiv> bump 1 (put_cell name (gate2_cell ty a b (vw_next s)) s)" and "v' \<equiv> v(vw_next s := x)"
  shows "good beh st n (insert name G) P s' v'" "keeps {} N s v s' v'"
proof -
  have sat: "cell_sat beh st v' name (gate2_cell ty a b (vw_next s))" using ty assms(3,4) by (auto simp: gate2_cell_sat v'_def)
  note l = put_cell_good [where d = 1 and v' = v' and cell = "gate2_cell ty a b (vw_next s)", OF g assms(2) inserted_wf(2,4) _ _ _ sat]
  show "good beh st n (insert name G) P s' v'"
    unfolding s'_def by (rule l(1)) (use assms(3,4) in \<open>auto simp: inserted_wf v'_def\<close>)
  show "keeps {} N s v s' v'"
    unfolding s'_def by (rule l(2)) (use assms(3,4) in \<open>auto simp: inserted_wf v'_def\<close>)
qed

section \<open>The blocks of one flip-flop\<close>

definition ctl_force :: "(int \<Rightarrow> bool) \<Rightarrow> (string \<times> int) option \<Rightarrow> bool \<Rightarrow> bool" where
  "ctl_force v ctl x = (case ctl of None \<Rightarrow> x | Some (knd, br) \<Rightarrow> if knd = ''reset'' then x \<and> v br else x \<or> \<not> v br)"

lemma bump_simps [simp]:
  "put_cell name cell (bump k s) = bump k (put_cell name cell s)" "bump j (bump k s) = bump (k + j) s"
  "vw_next (bump k s) = vw_next s + k" "vw_tables (bump k s) = vw_tables s" "vw_map (bump k s) = vw_map s"
  "vw_next (put_cell name cell s) = vw_next s" "vw_map (put_cell name cell s) = vw_map s"
  "vw_next (view_add_port name dir b s) = vw_next s" "vw_map (view_add_port name dir b s) = vw_map s"
  by (simp_all add: bump_def put_cell_def view_add_port_def)

lemma keepsD: "keeps R N s v s' v' \<Longrightarrow> b < vw_next s \<Longrightarrow> v' b = v b" "keeps R N s v s' v' \<Longrightarrow> vw_next s \<le> vw_next s'"
  by (auto simp: keeps_def)

lemma good_mono: "good beh st n G P s v \<Longrightarrow> G \<subseteq> G' \<Longrightarrow> good beh st n G' P s v"
  unfolding good_def Let_def by blast

lemma ctrl_mux_spec:
  assumes g: "good beh st n G P s v" and "data < vw_next s" "br < vw_next s"
    and names: "''$ff'' @ suffix @ ''rstmux_'' @ i \<notin> G" "''$ff'' @ suffix @ ''setinv_'' @ i \<notin> G" "''$ff'' @ suffix @ ''setmux_'' @ i \<notin> G"
    and mux: "ctrl_mux i suffix data knd br s = (m, s')"
  defines "G' \<equiv> G \<union> {''$ff'' @ suffix @ ''rstmux_'' @ i, ''$ff'' @ suffix @ ''setinv_'' @ i, ''$ff'' @ suffix @ ''setmux_'' @ i}"
  shows "\<exists>v'. good beh st n G' P s' v' \<and> keeps {} N s v s' v' \<and> v' m = ctl_force v (Some (knd, br)) (v data) \<and>
    m < vw_next s' \<and> vw_map s' = vw_map s"
proof (cases "knd = ''reset''")
  case True
  let ?v = "v(vw_next s := v data \<and> v br)"
  note p = put_gate2 [where ty = CAPTURE_AND_CELL and x = "v data \<and> v br", OF g names(1) assms(2,3)]
  from True mux have "m = vw_next s"
    "s' = bump 1 (put_cell (''$ff'' @ suffix @ ''rstmux_'' @ i) (gate2_cell CAPTURE_AND_CELL data br (vw_next s)) s)"
    by (auto simp: ctrl_mux_def Let_def)
  then show ?thesis using p True by (intro exI [of _ ?v]) (auto simp: ctl_force_def G'_def intro: good_mono)
next
  case False
  let ?k = "vw_next s"
  let ?v1 = "v(?k := \<not> v br)" and ?s1 = "bump 1 (put_cell (''$ff'' @ suffix @ ''setinv_'' @ i) (buf_cell CAPTURE_INV_CELL (JInt br) ?k) s)"
  have p1: "good beh st n (insert (''$ff'' @ suffix @ ''setinv_'' @ i) G) P ?s1 ?v1" "keeps {} N s v ?s1 ?v1"
    using put_buf [where ty = CAPTURE_INV_CELL and x = "\<not> v br" and b = "JInt br", OF g names(2)] assms(3)
    by (auto simp: bit_value_def)
  let ?v2 = "?v1(?k + 1 := v data \<or> \<not> v br)"
  let ?s2 = "bump 1 (put_cell (''$ff'' @ suffix @ ''setmux_'' @ i) (gate2_cell CAPTURE_OR_CELL data ?k (?k + 1)) ?s1)"
  have p2: "good beh st n (insert (''$ff'' @ suffix @ ''setmux_'' @ i) (insert (''$ff'' @ suffix @ ''setinv_'' @ i) G)) P ?s2 ?v2"
    "keeps {} N ?s1 ?v1 ?s2 ?v2"
    using put_gate2 [where ty = CAPTURE_OR_CELL and a = data and b = ?k and x = "v data \<or> \<not> v br", OF p1(1), of "''$ff'' @ suffix @ ''setmux_'' @ i"]
      names(3) assms(2) by auto
  from False mux have "m = ?k + 1" "s' = ?s2" by (auto simp: ctrl_mux_def Let_def)
  moreover have "keeps {} N s v ?s2 ?v2" using keeps_trans [OF p1(2) p2(2)] by simp
  ultimately show ?thesis using p2(1) False
    by (intro exI [of _ ?v2]) (auto simp: ctl_force_def G'_def intro: good_mono)
qed

definition ctl_below :: "(string \<times> int) option \<Rightarrow> int \<Rightarrow> bool" where
  "ctl_below ctl k = (case ctl of None \<Rightarrow> True | Some (knd, br) \<Rightarrow> br < k)"

lemma ctl_force_cong: "ctl_below ctl k \<Longrightarrow> (\<And>b. b < k \<Longrightarrow> v' b = v b) \<Longrightarrow> ctl_force v' ctl x = ctl_force v ctl x"
  by (auto simp: ctl_force_def ctl_below_def split: option.splits)

text \<open>A control multiplexer, if there is a control.\<close>

definition mux_names :: "string \<Rightarrow> string \<Rightarrow> string set" where
  "mux_names suffix i = {''$ff'' @ suffix @ ''rstmux_'' @ i, ''$ff'' @ suffix @ ''setinv_'' @ i, ''$ff'' @ suffix @ ''setmux_'' @ i}"

lemma opt_mux_spec:
  assumes g: "good beh st n G P s v" and "data < vw_next s" and "ctl_below ctl (vw_next s)" and "mux_names suffix i \<inter> G = {}"
    and mux: "(case ctl of None \<Rightarrow> (data, s) | Some (knd, br) \<Rightarrow> ctrl_mux i suffix data knd br s) = (m, s')"
  shows "\<exists>v'. good beh st n (G \<union> mux_names suffix i) P s' v' \<and> keeps {} N s v s' v' \<and> v' m = ctl_force v ctl (v data) \<and>
    m < vw_next s' \<and> vw_map s' = vw_map s"
proof (cases ctl)
  case None
  with mux have "m = data" "s' = s" by auto
  with None assms(2) show ?thesis using good_mono [OF g] good_valuation(2) [OF g, of v N]
    by (intro exI [of _ v]) (auto simp: ctl_force_def)
next
  case (Some kb)
  obtain knd br where kb: "kb = (knd, br)" by (cases kb)
  with Some mux assms(3,4) ctrl_mux_spec [OF g assms(2), of br suffix i knd m s' N] show ?thesis
    by (auto simp: ctl_below_def mux_names_def)
qed

lemma drive_q_spec:
  assumes g: "good beh st n G P s v" and "q_net < n" and "ctl_below ctl (vw_next s)" and "mux_names ''q'' i \<inter> G = {}"
    and "ppi_name i \<notin> P" "ppi_name i \<notin> N" and q: "v q_net = ctl_force v ctl x"
    and drive: "drive_q src i q_net ctl s = (qd, s')"
  shows "\<exists>v'. good beh st n (G \<union> mux_names ''q'' i) (insert (ppi_name i) P) s' v' \<and> keeps {} N s v s' v' \<and>
    shows_port s' v' (ppi_name i) x \<and> vw_map s' = vw_map s"
proof -
  let ?k = "vw_next s" and ?s1 = "view_add_port (ppi_name i) ''input'' (vw_next s) (bump 1 s)"
  let ?v1 = "v(?k := x)"
  have p1: "good beh st n G (insert (ppi_name i) P) ?s1 ?v1" "keeps {} N s v ?s1 ?v1"
    by (rule view_add_port_good [OF g assms(5,6)]; simp)+
  obtain m s2 where m: "(case ctl of None \<Rightarrow> (?k, ?s1) | Some (knd, br) \<Rightarrow> ctrl_mux i ''q'' ?k knd br ?s1) = (m, s2)"
    by (metis surj_pair)
  have "ctl_below ctl (vw_next ?s1)" using assms(3) by (auto simp: ctl_below_def split: option.splits)
  from opt_mux_spec [where N = UNIV, OF p1(1) _ this assms(4) m] obtain v2 where
    p2: "good beh st n (G \<union> mux_names ''q'' i) (insert (ppi_name i) P) s2 v2" "keeps {} UNIV ?s1 ?v1 s2 v2"
      "v2 m = ctl_force ?v1 ctl (?v1 ?k)" "m < vw_next s2" "vw_map s2 = vw_map ?s1" by auto
  have k2: "keeps {} N s v s2 v2" using keeps_trans [OF p1(2) keeps_ports [OF p2(2)]] by simp
  have "q_net < ?k" using assms(2) goodD(3) [OF g] by simp
  then have "v2 q_net = v q_net" using keepsD(1) [OF k2] by simp
  moreover have "ctl_force ?v1 ctl x = ctl_force v ctl x" by (rule ctl_force_cong [OF assms(3)]) simp
  ultimately have eq: "v2 m = v2 q_net" using p2(3) q by simp
  let ?w = "rewire q_net m (src_scan_ports src) (vw_tables s2, vw_index s2)"
  have s': "s' = s2\<lparr>vw_tables := fst ?w, vw_index := snd ?w\<rparr>" using drive m by (auto simp: drive_q_def Let_def)
  note p3 = rewire_good(1) [where ex = "src_scan_ports src", OF p2(1) assms(2) p2(4) eq refl]
    rewire_good(2) [where ex = "src_scan_ports src" and N = UNIV, OF p2(1) assms(2) p2(4) eq refl]
  have "shows_port s' v2 (ppi_name i) x"
    unfolding s' by (rule keeps_shows [OF keeps_trans [OF p2(2) p3(2)]]) (simp_all add: shows_add_port)
  then show ?thesis using p3(1) keeps_trans [OF k2 keeps_ports [OF p3(2)]] p2(5) by (intro exI [of _ v2]) (simp add: s')
qed

lemma resolve_d_spec:
  assumes g: "good beh st n G P s v" and "''$ffbranch_'' @ i \<notin> G" and "\<And>m. as_int d = Some m \<Longrightarrow> m < vw_next s"
    and r: "resolve_d_observe_boundary i d gnet shared s = Inr (obs, key, s')"
  shows "\<exists>v'. good beh st n (insert (''$ffbranch_'' @ i) G) P s' v' \<and> keeps {} N s v s' v' \<and> v' obs = bit_value v d \<and>
    obs < vw_next s' \<and> vw_map s' = vw_map s"
proof (cases "\<not> shared \<and> as_int d \<noteq> None")
  case True
  then obtain m where "as_int d = Some m" "\<not> shared" by auto
  with r have "obs = m" "s' = s" by (auto simp: resolve_d_observe_boundary_def bind_res_eq_Inr)
  with \<open>as_int d = Some m\<close> show ?thesis
    using good_mono [OF g] good_valuation(2) [OF g, of v N] assms(3) by (intro exI [of _ v]) (auto simp: bit_value_def)
next
  case False
  let ?s = "bump 1 (put_cell (''$ffbranch_'' @ i) (buf_cell D_BRANCH_BUF_CELL d (vw_next s)) s)"
  from False r have "obs = vw_next s" "s' = ?s"
    by (auto simp: resolve_d_observe_boundary_def bind_res_eq_Inr Let_def split: bool.splits option.splits if_splits)
  then show ?thesis using put_buf [where ty = D_BRANCH_BUF_CELL and x = "bit_value v d", OF g assms(2,3)]
    by (intro exI [of _ "v(vw_next s := bit_value v d)"]) auto
qed

lemma observe_d_spec:
  assumes g: "good beh st n G P s v" and names: "''$ffbranch_'' @ i \<notin> G" "''$ffobserve_'' @ i \<notin> G" "mux_names ''d'' i \<inter> G = {}"
    and "\<And>m. as_int d = Some m \<Longrightarrow> m < vw_next s" and "ctl_below ctl (vw_next s)"
    and "ppo_name i \<notin> P" "ppo_name i \<notin> N"
    and o: "observe_d i (d, gnet, shared) ctl q_net s = Inr (b, boundary, s')"
  defines "G' \<equiv> G \<union> {''$ffbranch_'' @ i, ''$ffobserve_'' @ i} \<union> mux_names ''d'' i"
  shows "\<exists>v'. good beh st n G' (insert (ppo_name i) P) s' v' \<and> keeps {} N s v s' v' \<and>
    shows_port s' v' (ppo_name i) (ctl_force v ctl (bit_value v d)) \<and> vw_map s' = vw_map s"
proof -
  let ?k = "vw_next s" and ?s1 = "view_add_port (ppo_name i) ''output'' (vw_next s) (bump 1 s)"
  let ?y = "ctl_force v ctl (bit_value v d)" and ?G1 = "insert (''$ffbranch_'' @ i) G"
  let ?v1 = "v(?k := ?y)"
  have p1: "good beh st n G (insert (ppo_name i) P) ?s1 ?v1" "keeps {} N s v ?s1 ?v1"
    by (rule view_add_port_good [OF g assms(7,8)]; simp)+
  from o obtain obs key s2 where res: "resolve_d_observe_boundary i d gnet shared ?s1 = Inr (obs, key, s2)"
    and rest: "b = ?k" "\<And>m s3. (case ctl of None \<Rightarrow> (obs, s2) | Some (knd, br) \<Rightarrow> ctrl_mux i ''d'' obs knd br s2) = (m, s3) \<Longrightarrow>
      s' = put_cell (''$ffobserve_'' @ i) (buf_cell OBSERVE_BUF_CELL (JInt m) ?k) s3"
    by (auto simp: observe_d_def Let_def bind_res_eq_Inr split: prod.splits)
  have "\<And>m. as_int d = Some m \<Longrightarrow> m < vw_next ?s1" using assms(5) by fastforce
  from resolve_d_spec [where N = UNIV, OF p1(1) names(1) this res] obtain v2 where
    p2: "good beh st n ?G1 (insert (ppo_name i) P) s2 v2" "keeps {} UNIV ?s1 ?v1 s2 v2" "v2 obs = bit_value ?v1 d" "obs < vw_next s2"
      "vw_map s2 = vw_map ?s1" by auto
  obtain m s3 where m: "(case ctl of None \<Rightarrow> (obs, s2) | Some (knd, br) \<Rightarrow> ctrl_mux i ''d'' obs knd br s2) = (m, s3)"
    by (metis surj_pair)
  have k1: "?k + 1 \<le> vw_next s2" using keepsD(2) [OF p2(2)] by simp
  have cb: "ctl_below ctl (vw_next s2)" using assms(6) k1 by (auto simp: ctl_below_def split: option.splits)
  have mn: "mux_names ''d'' i \<inter> ?G1 = {}" using names(3) by (auto simp: mux_names_def)
  from opt_mux_spec [where N = UNIV, OF p2(1,4) cb mn m] obtain v3 where
    p3: "good beh st n (?G1 \<union> mux_names ''d'' i) (insert (ppo_name i) P) s3 v3" "keeps {} UNIV s2 v2 s3 v3"
      "v3 m = ctl_force v2 ctl (v2 obs)" "m < vw_next s3" "vw_map s3 = vw_map s2" by blast
  have k13: "keeps {} UNIV ?s1 ?v1 s3 v3" using keeps_trans [OF p2(2) p3(2)] by simp
  have dv: "bit_value ?v1 d = bit_value v d" using assms(5) by (auto simp: bit_value_def split: option.splits)
  have "ctl_force v2 ctl (bit_value v d) = ?y"
    by (rule ctl_force_cong [OF assms(6)]) (use keepsD(1) [OF keeps_trans [OF p1(2) keeps_ports [OF p2(2)]]] in simp)
  then have my: "v3 m = ?y" using p3(3) p2(3) dv by simp
  have ky: "v3 ?k = ?y" using keepsD(1) [OF k13, of ?k] by simp
  have kk: "?k < vw_next s3" using keepsD(2) [OF k13] by simp
  have sat: "cell_sat beh st v3 (''$ffobserve_'' @ i) (buf_cell OBSERVE_BUF_CELL (JInt m) ?k)"
    using my ky by (subst buf_cell_sat(1)) (auto simp: bit_value_def)
  have fresh: "''$ffobserve_'' @ i \<notin> ?G1 \<union> mux_names ''d'' i" using names(2) by (auto simp: mux_names_def)
  note l = put_cell_good [where d = 0 and v' = v3 and cell = "buf_cell OBSERVE_BUF_CELL (JInt m) ?k",
      OF p3(1) fresh inserted_wf(1,3) _ _ _ sat]
  have "bump 0 z = z" for z by (simp add: bump_def)
  then have s': "s' = bump 0 (put_cell (''$ffobserve_'' @ i) (buf_cell OBSERVE_BUF_CELL (JInt m) ?k) s3)"
    using rest(2) [OF m] by simp
  have G': "insert (''$ffobserve_'' @ i) (?G1 \<union> mux_names ''d'' i) = G'" by (auto simp: G'_def)
  have "good beh st n G' (insert (ppo_name i) P) s' v3"
    unfolding s' G' [symmetric] by (rule l(1)) (use p3(4) kk in \<open>auto simp: inserted_wf\<close>)
  moreover have k4: "keeps {} UNIV s3 v3 s' v3"
    unfolding s' by (rule l(2)) (use p3(4) kk in \<open>auto simp: inserted_wf\<close>)
  moreover have "shows_port s' v3 (ppo_name i) ?y"
    by (rule keeps_shows [OF keeps_trans [OF k13 k4]]) (simp_all add: shows_add_port)
  ultimately show ?thesis using keeps_trans [OF keeps_trans [OF p1(2) keeps_ports [OF k13]] keeps_ports [OF k4]] rest(1) p3(5) p2(5)
    by (intro exI [of _ v3]) (auto simp: s')
qed

section \<open>One flip-flop\<close>

text \<open>What the builder relies on in a scan cell: its D pin is a net or a constant, and the control pin of a
  cell with asynchronous control is a net.\<close>

definition net_pin :: "json \<Rightarrow> string \<Rightarrow> int \<Rightarrow> bool" where
  "net_pin cell pin net = (\<exists>b. map_of (conns_of cell) pin = Some (JList [b]) \<and> as_int b = Some net)"

definition ctrl_ok :: "json \<Rightarrow> bool" where
  "ctrl_ok cell = ((of_type cell SCAN_RESET_TYPES \<longrightarrow> (\<exists>net. net_pin cell ''RESET_B'' net)) \<and>
     (of_type cell SCAN_SET_TYPES \<longrightarrow> (\<exists>net. net_pin cell ''SET_B'' net)))"

definition data_ok :: "json \<Rightarrow> bool" where
  "data_ok cell = ((\<exists>net. net_pin cell DATA_PIN net) \<or>
     (\<exists>c \<in> {''0'', ''1'', ''x'', ''z''}. map_of (conns_of cell) DATA_PIN = Some (JList [JStr c])))"

lemma pin_val_conns: "map_of (conns_of cell) p = Some bits \<Longrightarrow> pin_val v cell p = bits_value v bits"
  by (simp add: pin_val_def pin_vals_def get_or_def map_of_map)

lemma net_pin_val: "net_pin cell p net \<Longrightarrow> pin_val v cell p = v net"
  by (auto simp: net_pin_def pin_val_conns bits_value_def bit_value_def)

lemma net_pin_site: "net_pin cell p net \<Longrightarrow> (p, net) \<in> set (cell_sites cell)"
  by (force simp: net_pin_def cell_sites_def int_bits_def List.map_filter_simps dest: map_of_SomeD)

lemma net_pin_int_bits: "net_pin (JObj cell) p net \<Longrightarrow>
    \<exists>conns. as_obj (get_or cell ''connections'' (JObj [])) = Some conns \<and> int_bits (get_or conns p d) = [net]"
  by (cases "as_obj (get_or cell ''connections'' (JObj []))")
    (auto simp: net_pin_def conns_of_JObj get_or_def int_bits_def List.map_filter_simps)

lemma list_all2_pin_rel_map_of:
  "list_all2 (pin_rel v v') conns conns' \<Longrightarrow> map_of conns p = Some bits \<Longrightarrow>
     \<exists>b b'. bits = JList [b] \<and> map_of conns' p = Some (JList [b']) \<and> bit_rel v v' b b'"
  by (induction rule: list_all2_induct) (auto simp: pin_rel_def split: if_splits)

lemma net_pin_rel: "cell_rel v v' c c' \<Longrightarrow> net_pin c p net \<Longrightarrow> \<exists>net'. net_pin c' p net' \<and> v' net' = v net"
  using list_all2_pin_rel_map_of [of v v' "conns_of c" "conns_of c'" p]
  by (fastforce simp: net_pin_def cell_rel_def bit_rel_def bit_value_def split: option.splits)

lemma ctrl_ok_rel: "cell_rel v v' c c' \<Longrightarrow> ctrl_ok c \<Longrightarrow> ctrl_ok c'"
  using net_pin_rel [of v v' c c'] cell_rel_type [of v v' c c'] unfolding ctrl_ok_def by blast

lemma type_is_of_type: "type_is cell types = of_type (JObj cell) types"
  by (simp add: type_is_def of_type_def type_of_def)

lemma async_capture_control_cases:
  assumes "ctrl_ok (JObj cell)"
  obtains (reset) net where "of_type (JObj cell) SCAN_RESET_TYPES" "net_pin (JObj cell) ''RESET_B'' net"
      "async_capture_control cell = Some (''reset'', ''RESET_B'', net)"
    | (set) net where "\<not> of_type (JObj cell) SCAN_RESET_TYPES" "of_type (JObj cell) SCAN_SET_TYPES"
      "net_pin (JObj cell) ''SET_B'' net" "async_capture_control cell = Some (''set'', ''SET_B'', net)"
    | (none) "\<not> of_type (JObj cell) SCAN_RESET_TYPES" "\<not> of_type (JObj cell) SCAN_SET_TYPES" "async_capture_control cell = None"
proof -
  consider "of_type (JObj cell) SCAN_RESET_TYPES" | "\<not> of_type (JObj cell) SCAN_RESET_TYPES" "of_type (JObj cell) SCAN_SET_TYPES"
    | "\<not> of_type (JObj cell) SCAN_RESET_TYPES" "\<not> of_type (JObj cell) SCAN_SET_TYPES" by blast
  then show thesis
  proof cases
    case 1
    then obtain net where net: "net_pin (JObj cell) ''RESET_B'' net" using assms by (auto simp: ctrl_ok_def)
    then show ?thesis using 1 net_pin_int_bits [OF net, of JNull] by (intro reset) (auto simp: async_capture_control_def type_is_of_type)
  next
    case 2
    then obtain net where net: "net_pin (JObj cell) ''SET_B'' net" using assms by (auto simp: ctrl_ok_def)
    then show ?thesis using 2 net_pin_int_bits [OF net, of JNull] by (intro set) (auto simp: async_capture_control_def type_is_of_type)
  next
    case 3
    then show ?thesis by (intro none) (auto simp: async_capture_control_def type_is_of_type split: option.splits)
  qed
qed

lemma control_of_spec:
  assumes g: "good beh st n G P s v" and "''$ffctrlbranch_'' @ i \<notin> G" and cell: "(i, JObj cell) \<in> set (t_cells (vw_tables s))"
    and ok: "ctrl_ok (JObj cell)" and c: "control_of src i cell s = Inr (control, s1)"
  defines "ctl \<equiv> map_option (\<lambda>(knd, br, key). (knd, br)) control"
  shows "\<exists>v1. good beh st n (insert (''$ffctrlbranch_'' @ i) G) P s1 v1 \<and> keeps {} N s v s1 v1 \<and>
    (\<forall>x. forced v (JObj cell) x = ctl_force v1 ctl x) \<and> ctl_below ctl (vw_next s1) \<and> vw_map s1 = vw_map s" (is ?thesis)
proof -
  have branch: ?thesis if a: "async_capture_control cell = Some (knd, pin, net)" and pin: "net_pin (JObj cell) pin net"
    and f: "\<And>v' br. v' br = v net \<Longrightarrow> (\<forall>x. forced v (JObj cell) x = ctl_force v' (Some (knd, br)) x)" for knd pin net
  proof -
    let ?s = "bump 1 (put_cell (''$ffctrlbranch_'' @ i) (buf_cell D_BRANCH_BUF_CELL (JInt net) (vw_next s)) s)"
    let ?v = "v(vw_next s := v net)"
    from c a obtain key where s1: "control = Some (knd, vw_next s, key)" "s1 = ?s"
      by (auto simp: control_of_def add_ctrl_branch_def Let_def bind_res_eq_Inr)
    have "net < vw_next s" using net_pin_site [OF pin] goodD(10) [OF g cell] by blast
    then have "good beh st n (insert (''$ffctrlbranch_'' @ i) G) P ?s ?v" "keeps {} N s v ?s ?v"
      using put_buf [where ty = D_BRANCH_BUF_CELL and x = "v net" and b = "JInt net", OF g assms(2)] by (auto simp: bit_value_def)
    then show ?thesis using s1 f [of ?v "vw_next s"] by (intro exI [of _ ?v]) (auto simp: ctl_def ctl_below_def)
  qed
  from ok show ?thesis
  proof (cases rule: async_capture_control_cases)
    case none
    then have "control = None" "s1 = s" using c by (auto simp: control_of_def)
    then show ?thesis using none good_mono [OF g] good_valuation(2) [OF g, of v N]
      by (intro exI [of _ v]) (auto simp: forced_def ctl_def ctl_force_def ctl_below_def)
  next
    case (reset net)
    show ?thesis
      by (rule branch [OF reset(3,2)]) (use reset in \<open>simp add: forced_def ctl_force_def net_pin_val\<close>)
  next
    case (set net)
    show ?thesis
      by (rule branch [OF set(4,3)]) (use set in \<open>simp add: forced_def ctl_force_def net_pin_val\<close>)
  qed
qed

lemma constant_data_pin:
  assumes "map_of (conns_of (JObj c)) DATA_PIN = Some (JList [b])"
  shows "constant_data c = Inr (as_const b)"
proof -
  obtain conns where "map_of c ''connections'' = Some (JObj conns)" "map_of conns DATA_PIN = Some (JList [b])"
  proof (cases "map_of c ''connections''")
    case None
    then show ?thesis using assms by (simp add: conns_of_JObj get_or_def)
  next
    case (Some j)
    with assms that show ?thesis by (cases j) (auto simp: conns_of_JObj get_or_def)
  qed
  moreover from this have "conns \<noteq> []" by auto
  ultimately show ?thesis by (simp add: constant_data_def get_or_def obj_or_empty_def lift_option_def)
qed

lemma data_input_spec:
  assumes src: "map_of (src_cells src) i = Some (JObj c0)" and ok: "data_ok (JObj c0)" and rel: "cell_rel v0 v (JObj c0) (JObj cell)"
    and d: "data_input src i cell dnet = Inr (d, gnet, shared)"
  shows "bit_value v d = pin_val v0 (JObj c0) DATA_PIN" and "as_int d = Some m \<Longrightarrow> (DATA_PIN, m) \<in> set (cell_sites (JObj cell))"
proof -
  have *: "bit_value v d = pin_val v0 (JObj c0) DATA_PIN \<and> (\<forall>m. as_int d = Some m \<longrightarrow> (DATA_PIN, m) \<in> set (cell_sites (JObj cell)))"
    using ok unfolding data_ok_def
  proof (elim disjE exE bexE)
    fix net assume net: "net_pin (JObj c0) DATA_PIN net"
    then obtain b where b: "map_of (conns_of (JObj c0)) DATA_PIN = Some (JList [b])" "as_int b = Some net" by (auto simp: net_pin_def)
    then have "as_const b = None" by (cases b) (auto simp: as_const_def parsed_net_def)
    then have const: "constant_data c0 = Inr None" using constant_data_pin [OF b(1)] by simp
    obtain net' where net': "net_pin (JObj cell) DATA_PIN net'" "v net' = v0 net" using net_pin_rel [OF rel net] by blast
    then have "current_data_net cell dnet = net'"
      using net_pin_int_bits [OF net'(1), of "JList []"] by (auto simp: current_data_net_def)
    then have "d = JInt net'" using d src const by (simp add: data_input_def get_or_def Let_def)
    then show ?thesis using net' net net_pin_val net_pin_site by (auto simp: bit_value_def)
  next
    fix c assume c: "c \<in> {''0'', ''1'', ''x'', ''z''}" "map_of (conns_of (JObj c0)) DATA_PIN = Some (JList [JStr c])"
    then have "constant_data c0 = Inr (Some (if c = ''1'' then ''1'' else ''0''))"
      using constant_data_pin [OF c(2)] by (auto simp: as_const_def parsed_net_def has_key_def CONST_NETS_def)
    then have "d = JStr (if c = ''1'' then ''1'' else ''0'')" using d src by (auto simp: data_input_def get_or_def Let_def)
    then show ?thesis using c by (auto simp: bit_value_def pin_val_conns bits_value_def)
  qed
  show "bit_value v d = pin_val v0 (JObj c0) DATA_PIN" "as_int d = Some m \<Longrightarrow> (DATA_PIN, m) \<in> set (cell_sites (JObj cell))"
    using * by blast+
qed

end
