(* ===== verification/Atpg_View_Pass.thy ===== *)
theory Atpg_View_Pass
  imports Atpg_View_Sem
begin

text \<open>
  The last passes of the ATPG view builder: dropping the scan ports nothing uses any more, and putting a buffer
  between a flip-flop output with one reader and the output ports it drives. Both keep the values of the ports.
\<close>

section \<open>Which nets the ports have\<close>

text \<open>\<open>n\<close> is the first new net: an older net of a port is one the port had in the source.\<close>

definition low_from :: "int \<Rightarrow> jobj \<Rightarrow> jobj \<Rightarrow> bool" where
  "low_from n ports0 ports =
     (\<forall>(name, e) \<in> set ports. \<forall>b \<in> set (entry_bits e). b < n \<longrightarrow> (\<exists>e0. map_of ports0 name = Some e0 \<and> b \<in> set (entry_bits e0)))"

lemma low_fromD: "low_from n ports0 ports \<Longrightarrow> (name, e) \<in> set ports \<Longrightarrow> b \<in> set (entry_bits e) \<Longrightarrow> b < n \<Longrightarrow>
    \<exists>e0. map_of ports0 name = Some e0 \<and> b \<in> set (entry_bits e0)"
  unfolding low_from_def by blast

lemma set_update_subset: "set (dict_set d k v) \<subseteq> insert (k, v) (set d)"
  by (induction d) auto

lemma low_from_set:
  assumes "low_from n ports0 ports"
    and "\<And>b. b \<in> set (entry_bits e) \<Longrightarrow> b < n \<Longrightarrow> \<exists>e0. map_of ports0 name = Some e0 \<and> b \<in> set (entry_bits e0)"
  shows "low_from n ports0 (dict_set ports name e)"
  using assms set_update_subset [where d = ports and k = name and v = e] unfolding low_from_def by blast

lemma low_from_rewire_names:
  assumes "low_from n ports0 ports" and "n \<le> new"
  shows "low_from n ports0 (fst (rewire_names old new ex ports locs))"
proof -
  have step: "low_from n ports0 (fst (rewire_name old new ex name st))" if low: "low_from n ports0 (fst st)" for name st
  proof (cases "name \<notin> set ex \<and> (\<exists>e. Option.bind (map_of (fst st) name) (rewire_entry old new) = Some e)")
    case True
    then obtain e0 e where e: "map_of (fst st) name = Some e0" "rewire_entry old new e0 = Some e" by (auto simp: bind_eq_Some_conv)
    have "low_from n ports0 (dict_set (fst st) name e)"
      using low_fromD [OF low map_of_SomeD [OF e(1)]] entry_bits_rewire [OF e(2)] assms(2)
      by (intro low_from_set [OF low]) (auto split: if_splits)
    with True e show ?thesis by (cases st) (auto simp: rewire_name_def)
  next
    case False
    then have "fst (rewire_name old new ex name st) = fst st" by (cases st) (auto simp: rewire_name_def split: option.splits)
    with low show ?thesis by simp
  qed
  have "low_from n ports0 (fst (fold (rewire_name old new ex) names st))" if "low_from n ports0 (fst st)" for names st
    using that by (induction names arbitrary: st) (simp_all add: step)
  then show ?thesis using assms(1) by (simp add: rewire_names_def Let_def)
qed

lemma ports_simps [simp]:
  "t_ports (vw_tables (put_cell name cell s)) = t_ports (vw_tables s)" "t_ports (vw_tables (drop_cell i s)) = t_ports (vw_tables s)"
  by (simp_all add: put_cell_def drop_cell_def)

lemma ctrl_mux_ports: "ctrl_mux i suffix data knd br s = (m, s') \<Longrightarrow> t_ports (vw_tables s') = t_ports (vw_tables s) \<and> vw_next s \<le> m \<and> vw_next s \<le> vw_next s'"
  by (auto simp: ctrl_mux_def Let_def split: if_splits)

lemma low_from_add_port:
  "low_from n ports0 (t_ports (vw_tables s)) \<Longrightarrow> n \<le> b \<Longrightarrow> low_from n ports0 (t_ports (vw_tables (view_add_port name dir b s)))"
  unfolding view_add_port_def by (simp, rule low_from_set) (simp_all add: entry_bits_def get_or_def int_bits_def List.map_filter_simps)

lemma drive_q_low:
  assumes "low_from n ports0 (t_ports (vw_tables s))" and "n \<le> vw_next s"
  shows "low_from n ports0 (t_ports (vw_tables (snd (drive_q src i q ctl s)))) \<and> n \<le> vw_next (snd (drive_q src i q ctl s))"
proof -
  let ?s1 = "view_add_port (ppi_name i) ''input'' (vw_next s) (bump 1 s)"
  obtain m s2 where m: "(case ctl of None \<Rightarrow> (vw_next s, ?s1) | Some (knd, br) \<Rightarrow> ctrl_mux i ''q'' (vw_next s) knd br ?s1) = (m, s2)"
    by (metis surj_pair)
  have low1: "low_from n ports0 (t_ports (vw_tables ?s1))" using low_from_add_port [of n ports0 "bump 1 s"] assms by simp
  have s2: "t_ports (vw_tables s2) = t_ports (vw_tables ?s1) \<and> n \<le> m \<and> n \<le> vw_next s2"
    using m assms(2) ctrl_mux_ports [of i "''q''" "vw_next s" _ _ ?s1 m s2] by (fastforce split: option.splits)
  show ?thesis
    using m low1 s2 low_from_rewire_names [of n ports0 "t_ports (vw_tables s2)" m]
    by (cases "q = m") (auto simp: drive_q_def Let_def rewire_def)
qed

lemma observe_d_low:
  assumes "low_from n ports0 (t_ports (vw_tables s))" and "n \<le> vw_next s" and "observe_d i d ctl q s = Inr (b, boundary, s')"
  shows "low_from n ports0 (t_ports (vw_tables s')) \<and> n \<le> vw_next s'"
proof -
  let ?s1 = "view_add_port (ppo_name i) ''output'' (vw_next s) (bump 1 s)"
  obtain d1 gnet shared where d: "d = (d1, gnet, shared)" by (cases d)
  have low1: "low_from n ports0 (t_ports (vw_tables ?s1))" using low_from_add_port [of n ports0 "bump 1 s"] assms by simp
  from assms(3) d obtain obs key s2 where r: "resolve_d_observe_boundary i d1 gnet shared ?s1 = Inr (obs, key, s2)"
    and rest: "\<And>m s3. (case ctl of None \<Rightarrow> (obs, s2) | Some (knd, br) \<Rightarrow> ctrl_mux i ''d'' obs knd br s2) = (m, s3) \<Longrightarrow>
      s' = put_cell (''$ffobserve_'' @ i) (buf_cell OBSERVE_BUF_CELL (JInt m) (vw_next s)) s3"
    by (auto simp: observe_d_def Let_def bind_res_eq_Inr split: prod.splits)
  have s2: "t_ports (vw_tables s2) = t_ports (vw_tables ?s1) \<and> n \<le> vw_next s2"
    using r assms(2) by (auto simp: resolve_d_observe_boundary_def bind_res_eq_Inr Let_def split: bool.splits option.splits if_splits)
  obtain m s3 where m: "(case ctl of None \<Rightarrow> (obs, s2) | Some (knd, br) \<Rightarrow> ctrl_mux i ''d'' obs knd br s2) = (m, s3)" by (metis surj_pair)
  have "t_ports (vw_tables s3) = t_ports (vw_tables s2) \<and> n \<le> vw_next s3"
    using m s2 ctrl_mux_ports [of i "''d''" obs _ _ s2 m s3] by (fastforce split: option.splits)
  then show ?thesis using rest [OF m] s2 low1 by simp
qed

section \<open>Dropping ports\<close>

text \<open>The two removals of the pass: the names it may drop are scan ports, and ports that are just a clock net.\<close>

definition droppable :: "jobj \<Rightarrow> int list \<Rightarrow> string \<Rightarrow> json \<Rightarrow> bool" where
  "droppable manifest clocks name e =
     (\<exists>b. entry_bits e = [b] \<and> (name \<in> set (manifest_scan_port_names manifest) \<or> b \<in> set clocks))"

definition drop_port :: "int list \<Rightarrow> string \<Rightarrow> tables \<Rightarrow> tables" where
  "drop_port used name t =
     (case Option.bind (map_of (t_ports t) name) as_obj of
        None \<Rightarrow> t
      | Some port \<Rightarrow> (case entry_bits (JObj port) of
          [b] \<Rightarrow> if b \<in> set used then t
                 else t\<lparr>t_ports := dict_pop (t_ports t) name, t_nets := dict_pop (t_nets t) name\<rparr>
        | _ \<Rightarrow> t))"

lemma drop_port_cases:
  obtains "drop_port used name t = t"
    | e b where "map_of (t_ports t) name = Some e" "entry_bits e = [b]" "b \<notin> set used"
      "drop_port used name t = t\<lparr>t_ports := dict_pop (t_ports t) name, t_nets := dict_pop (t_nets t) name\<rparr>"
proof -
  have "drop_port used name t = t \<or> (\<exists>e b. map_of (t_ports t) name = Some e \<and> entry_bits e = [b] \<and> b \<notin> set used \<and>
      drop_port used name t = t\<lparr>t_ports := dict_pop (t_ports t) name, t_nets := dict_pop (t_nets t) name\<rparr>)"
  proof (cases "Option.bind (map_of (t_ports t) name) as_obj")
    case (Some port)
    then have "map_of (t_ports t) name = Some (JObj port)" by (auto simp: bind_eq_Some_conv elim!: as_obj.elims)
    then show ?thesis by (auto simp: drop_port_def split: list.splits)
  qed (simp add: drop_port_def)
  then show thesis using that by blast
qed

lemma set_delete_subset: "kv \<in> set (AList.delete k d) \<Longrightarrow> kv \<in> set d"
  by (auto simp: AList.delete_eq)

lemma drop_ports_spec:
  "t_cells (fold (drop_port used) names t) = t_cells t"
  "map_of (t_ports (fold (drop_port used) names t)) m = Some e \<Longrightarrow> map_of (t_ports t) m = Some e"
  "map_of (t_ports t) m = Some e \<Longrightarrow> m \<notin> set names \<or> (\<nexists>b. entry_bits e = [b]) \<Longrightarrow> map_of (t_ports (fold (drop_port used) names t)) m = Some e"
  "set (t_ports (fold (drop_port used) names t)) \<subseteq> set (t_ports t) \<and> set (t_nets (fold (drop_port used) names t)) \<subseteq> set (t_nets t)"
proof -
  have step: "t_cells (drop_port used name t) = t_cells t \<and>
      (\<forall>m e. map_of (t_ports (drop_port used name t)) m = Some e \<longrightarrow> map_of (t_ports t) m = Some e) \<and>
      (\<forall>m e. map_of (t_ports t) m = Some e \<longrightarrow> m \<noteq> name \<or> (\<nexists>b. entry_bits e = [b]) \<longrightarrow> map_of (t_ports (drop_port used name t)) m = Some e) \<and>
      set (t_ports (drop_port used name t)) \<subseteq> set (t_ports t) \<and> set (t_nets (drop_port used name t)) \<subseteq> set (t_nets t)" for name t
    by (rule drop_port_cases [of used name t]) (auto simp: delete_conv' dest: set_delete_subset split: if_splits)
  show "t_cells (fold (drop_port used) names t) = t_cells t" by (induction names arbitrary: t) (simp_all add: step)
  show "map_of (t_ports (fold (drop_port used) names t)) m = Some e \<Longrightarrow> map_of (t_ports t) m = Some e"
  proof (induction names arbitrary: t)
    case (Cons name names)
    have "map_of (t_ports (drop_port used name t)) m = Some e" using Cons.IH [of "drop_port used name t"] Cons.prems by simp
    then show ?case using step [of name t] by blast
  qed simp
  show "map_of (t_ports t) m = Some e \<Longrightarrow> m \<notin> set names \<or> (\<nexists>b. entry_bits e = [b]) \<Longrightarrow> map_of (t_ports (fold (drop_port used) names t)) m = Some e"
  proof (induction names arbitrary: t)
    case (Cons name names)
    have "m \<noteq> name \<or> (\<nexists>b. entry_bits e = [b])" "m \<notin> set names \<or> (\<nexists>b. entry_bits e = [b])" using Cons.prems(2) by auto
    moreover from this(1) have "map_of (t_ports (drop_port used name t)) m = Some e" using Cons.prems(1) step [of name t] by blast
    ultimately show ?case using Cons.IH [of "drop_port used name t"] by simp
  qed simp
  show "set (t_ports (fold (drop_port used) names t)) \<subseteq> set (t_ports t) \<and> set (t_nets (fold (drop_port used) names t)) \<subseteq> set (t_nets t)"
  proof (induction names arbitrary: t)
    case (Cons name names)
    have "set (t_ports (drop_port used name t)) \<subseteq> set (t_ports t)" "set (t_nets (drop_port used name t)) \<subseteq> set (t_nets t)"
      using step [of name t] by blast+
    with Cons.IH [of "drop_port used name t"] show ?case unfolding fold_simps by blast
  qed simp
qed

lemma drop_dangling_fold:
  "drop_dangling_scan_ports manifest clocks t =
     fold (drop_port (used_bits (t_cells t)))
       (manifest_scan_port_names manifest @ List.map_filter (clock_port_name (t_ports t)) clocks) t"
  by (simp add: drop_dangling_scan_ports_def Let_def drop_port_def [abs_def])

lemma clock_port_bits:
  assumes "clock_port_name ports c = Some name" and "distinct (map fst ports)" and "map_of ports name = Some e"
  shows "entry_bits e = [c]"
proof -
  from assms(1) obtain p where "find (\<lambda>(name, port). is_obj port \<and> entry_bits port = [c]) ports = Some (name, p)"
    by (auto simp: clock_port_name_def)
  then have "entry_bits p = [c]" "(name, p) \<in> set ports" by (auto simp: find_Some_iff in_set_conv_nth)
  with assms(2,3) show ?thesis by simp
qed

lemma drop_dangling_keeps:
  assumes "distinct (map fst (t_ports t))" and "map_of (t_ports t) name = Some e" and "\<not> droppable manifest clocks name e"
  shows "map_of (t_ports (drop_dangling_scan_ports manifest clocks t)) name = Some e"
  unfolding drop_dangling_fold
proof (rule drop_ports_spec(3) [OF assms(2)], rule disjCI)
  assume "\<not> (\<nexists>b. entry_bits e = [b])"
  then obtain b where b: "entry_bits e = [b]" by blast
  show "name \<notin> set (manifest_scan_port_names manifest @ List.map_filter (clock_port_name (t_ports t)) clocks)"
  proof
    assume "name \<in> set (manifest_scan_port_names manifest @ List.map_filter (clock_port_name (t_ports t)) clocks)"
    then consider "name \<in> set (manifest_scan_port_names manifest)" | c where "c \<in> set clocks" "clock_port_name (t_ports t) c = Some name"
      by (auto simp: List.map_filter_def)
    then show False
    proof cases
      case 1
      then show ?thesis using assms(3) b by (auto simp: droppable_def)
    next
      case 2
      then show ?thesis using assms(3) clock_port_bits [OF 2(2) assms(1,2)] by (auto simp: droppable_def)
    qed
  qed
qed

section \<open>Buffers for flip-flop outputs\<close>

lemma move_entry_spec:
  assumes "v br = v net" and "map_of table m = Some e"
  shows "\<exists>e'. map_of (fold (move_entry net br) names table) m = Some e' \<and> entry_vals v e' = entry_vals v e"
  using assms(2)
proof (induction names arbitrary: table e)
  case (Cons name names)
  have "\<exists>e1. map_of (move_entry net br name table) m = Some e1 \<and> entry_vals v e1 = entry_vals v e"
  proof (cases "Option.bind (map_of table name) (rewire_entry net br)")
    case (Some e1)
    then obtain e0 where "map_of table name = Some e0" "rewire_entry net br e0 = Some e1" by (auto simp: bind_eq_Some_conv)
    then show ?thesis using Some Cons.prems entry_vals_rewire_entry [OF assms(1)]
      by (cases "m = name") (auto simp: move_entry_def update_conv')
  qed (use Cons.prems in \<open>simp add: move_entry_def\<close>)
  then obtain e1 where e1: "map_of (move_entry net br name table) m = Some e1" "entry_vals v e1 = entry_vals v e" by blast
  from Cons.IH [OF e1(1)] e1(2) show ?case by simp
qed simp

lemma move_entry_bits:
  assumes "\<forall>(m, e) \<in> set table. \<forall>b \<in> set (entry_bits e). b < k" and "br < k"
  shows "\<forall>(m, e) \<in> set (fold (move_entry net br) names table). \<forall>b \<in> set (entry_bits e). b < k"
proof -
  have step: "\<forall>(m, e) \<in> set (move_entry net br name table). \<forall>b \<in> set (entry_bits e). b < k"
    if *: "\<forall>(m, e) \<in> set table. \<forall>b \<in> set (entry_bits e). b < k" for name table
  proof (cases "Option.bind (map_of table name) (rewire_entry net br)")
    case (Some e1)
    then obtain e0 where e0: "map_of table name = Some e0" "rewire_entry net br e0 = Some e1" by (auto simp: bind_eq_Some_conv)
    have "\<forall>b \<in> set (entry_bits e1). b < k"
      using entry_bits_rewire [OF e0(2)] map_of_SomeD [OF e0(1)] * assms(2) by fastforce
    moreover have "move_entry net br name table = dict_set table name e1" using Some by (simp add: move_entry_def)
    ultimately show ?thesis using * set_update_subset [where d = table and k = name and v = e1] by fastforce
  qed (use * in \<open>simp add: move_entry_def\<close>)
  show ?thesis using assms(1)
  proof (induction names arbitrary: table)
    case (Cons name names)
    from Cons.IH [OF step [OF Cons.prems]] show ?case by simp
  qed simp
qed

text \<open>The invariant of the pass; the index is no longer used.\<close>

definition tgood :: "behaviour \<Rightarrow> (string \<Rightarrow> bool) \<Rightarrow> string set \<Rightarrow> tables \<times> int \<Rightarrow> (int \<Rightarrow> bool) \<Rightarrow> bool" where
  "tgood beh st G tk v =
     (below (snd tk) (fst tk) \<and> fst ` set (t_cells (fst tk)) \<subseteq> G \<and>
      (\<forall>(i, cell) \<in> set (t_cells (fst tk)). one_bit_pins cell \<and> cell_sat beh st v i cell))"

definition same_ports :: "tables \<Rightarrow> (int \<Rightarrow> bool) \<Rightarrow> tables \<Rightarrow> (int \<Rightarrow> bool) \<Rightarrow> bool" where
  "same_ports t v t' v' =
     (\<forall>name e. map_of (t_ports t) name = Some e \<longrightarrow> (\<exists>e'. map_of (t_ports t') name = Some e' \<and> entry_vals v' e' = entry_vals v e))"

lemma same_ports_trans: "same_ports t v t1 v1 \<Longrightarrow> same_ports t1 v1 t2 v2 \<Longrightarrow> same_ports t v t2 v2"
  unfolding same_ports_def by metis

lemma branch_output_spec:
  assumes g: "tgood beh st G (t, k) v" and fresh: "''$ffqpo_'' @ i \<notin> G"
  shows "\<exists>v'. tgood beh st (insert (''$ffqpo_'' @ i) G) (branch_output readers (net, i) (t, k)) v' \<and>
    same_ports t v (fst (branch_output readers (net, i) (t, k))) v'"
proof (cases "get_or readers net 0 \<noteq> 1 \<or> output_ports_on (t_ports t) net = []")
  case True
  then have "branch_output readers (net, i) (t, k) = (t, k)" by (simp add: branch_output_def Let_def)
  with g show ?thesis by (intro exI [of _ v]) (auto simp: tgood_def same_ports_def)
next
  case False
  let ?v = "v(k := v net)" and ?outs = "output_ports_on (t_ports t) net" and ?cell = "buf_cell D_BRANCH_BUF_CELL (JInt net) k"
  let ?t = "\<lparr>t_cells = dict_set (t_cells t) (''$ffqpo_'' @ i) ?cell, t_ports = fold (move_entry net k) ?outs (t_ports t),
    t_nets = fold (move_entry net k) ?outs (t_nets t)\<rparr>"
  have eq: "branch_output readers (net, i) (t, k) = (?t, k + 1)" using False by (simp add: branch_output_def Let_def)
  have b: "below k t" "fst ` set (t_cells t) \<subseteq> G" and sat: "\<forall>(i, cell) \<in> set (t_cells t). one_bit_pins cell \<and> cell_sat beh st v i cell"
    using g by (simp_all add: tgood_def)
  from False obtain nm where "nm \<in> set ?outs" by (cases ?outs) auto
  then obtain e where "(nm, e) \<in> set (t_ports t)" "net \<in> set (entry_bits e)"
    by (auto simp: output_ports_on_def split: option.splits)
  then have net: "net < k" using b(1) unfolding below_def by blast
  have cells: "t_cells ?t = t_cells t @ [(''$ffqpo_'' @ i, ?cell)]" using update_new [of "''$ffqpo_'' @ i" "t_cells t"] b(2) fresh by auto
  have rel: "cell_rel v ?v cell cell" if "(j, cell) \<in> set (t_cells t)" for j cell
  proof (rule cell_rel_cong)
    show "one_bit_pins cell" using sat that by blast
    show "?v m = v m" if "(p, m) \<in> set (cell_sites cell)" for p m
      using b(1) that \<open>(j, cell) \<in> set (t_cells t)\<close> unfolding below_def by fastforce
  qed
  have "cell_sat beh st ?v (''$ffqpo_'' @ i) ?cell" using net by (subst buf_cell_sat(1)) (auto simp: bit_value_def)
  moreover have "one_bit_pins cell \<and> cell_sat beh st ?v j cell" if "(j, cell) \<in> set (t_cells t)" for j cell
    using sat that cell_rel_sat [OF rel [OF that]] by blast
  ultimately have "\<forall>(j, cell) \<in> set (t_cells ?t). one_bit_pins cell \<and> cell_sat beh st ?v j cell"
    unfolding cells by (auto simp: inserted_wf)
  moreover have "below (k + 1) ?t"
  proof -
    have tab: "\<forall>(m, e) \<in> set tab. \<forall>b \<in> set (entry_bits e). b < k + 1" if "tab = t_ports t \<or> tab = t_nets t" for tab
      using b(1) that unfolding below_def by force
    have "\<forall>(m, e) \<in> set (t_ports ?t). \<forall>b \<in> set (entry_bits e). b < k + 1" "\<forall>(m, e) \<in> set (t_nets ?t). \<forall>b \<in> set (entry_bits e). b < k + 1"
      using move_entry_bits [OF tab [of "t_ports t"], of k net ?outs] move_entry_bits [OF tab [of "t_nets t"], of k net ?outs] by simp_all
    moreover have "\<forall>(j, cell) \<in> set (t_cells ?t). \<forall>(p, b) \<in> set (cell_sites cell). b < k + 1"
    proof -
      have "\<forall>(p, b) \<in> set (cell_sites ?cell). b < k + 1" using net by (simp add: inserted_wf)
      moreover have "b < k + 1" if "(j, cell) \<in> set (t_cells t)" "(p, b) \<in> set (cell_sites cell)" for j cell p b
        using b(1) that unfolding below_def by fastforce
      ultimately show ?thesis unfolding cells by auto
    qed
    ultimately show ?thesis unfolding below_def by blast
  qed
  moreover have "fst ` set (t_cells ?t) \<subseteq> insert (''$ffqpo_'' @ i) G" using b(2) unfolding cells by auto
  moreover have "same_ports t v ?t ?v"
    unfolding same_ports_def
  proof (intro allI impI)
    fix name e assume e: "map_of (t_ports t) name = Some e"
    have "entry_vals v e = entry_vals ?v e"
      using b(1) map_of_SomeD [OF e] unfolding below_def by (intro entry_vals_cong) fastforce
    then show "\<exists>e'. map_of (t_ports ?t) name = Some e' \<and> entry_vals ?v e' = entry_vals v e"
      using move_entry_spec [of ?v k net "t_ports t" name e ?outs] e by simp
  qed
  ultimately show ?thesis unfolding eq tgood_def by (intro exI [of _ ?v]) simp
qed

lemma branch_outputs_spec:
  assumes "tgood beh st G tk v" and "distinct (map snd nis)" and "\<forall>i \<in> snd ` set nis. ''$ffqpo_'' @ i \<notin> G"
  shows "\<exists>v'. tgood beh st (G \<union> (\<lambda>i. ''$ffqpo_'' @ i) ` snd ` set nis) (fold (branch_output readers) nis tk) v' \<and> same_ports (fst tk) v (fst (fold (branch_output readers) nis tk)) v'"
  using assms
proof (induction nis arbitrary: tk v G)
  case Nil
  then show ?case by (auto simp: same_ports_def)
next
  case (Cons ni nis)
  obtain net i t k where ni: "ni = (net, i)" "tk = (t, k)" by fastforce
  from branch_output_spec [of beh st G t k v i readers net] Cons.prems(1,3) ni obtain v1 where
    v1: "tgood beh st (insert (''$ffqpo_'' @ i) G) (branch_output readers ni tk) v1" "same_ports (fst tk) v (fst (branch_output readers ni tk)) v1"
    by auto
  have rest: "distinct (map snd nis)" "\<forall>j \<in> snd ` set nis. ''$ffqpo_'' @ j \<notin> insert (''$ffqpo_'' @ i) G"
    using Cons.prems(2,3) ni by auto
  have names: "insert (''$ffqpo_'' @ i) G \<union> (\<lambda>i. ''$ffqpo_'' @ i) ` snd ` set nis = G \<union> (\<lambda>i. ''$ffqpo_'' @ i) ` snd ` set (ni # nis)"
    by (auto simp: ni)
  from Cons.IH [OF v1(1) rest] obtain v' where
    "tgood beh st (G \<union> (\<lambda>i. ''$ffqpo_'' @ i) ` snd ` set (ni # nis)) (fold (branch_output readers) (ni # nis) tk) v'"
    "same_ports (fst (branch_output readers ni tk)) v1 (fst (fold (branch_output readers) (ni # nis) tk)) v'"
    unfolding fold_simps names by blast
  then show ?case using same_ports_trans [OF v1(2)] by blast
qed

lemma below_next_id: "below (next_id_of_tables t) t"
proof -
  let ?bits = "concat (map (entry_bits \<circ> snd) (t_ports t)) @ concat (map (entry_bits \<circ> snd) (t_nets t)) @ used_bits (t_cells t)"
  have le: "b < next_id_of_tables t" if "b \<in> set ?bits" for b
    using fold_max_ge(1) [OF that, of "-1"] by (simp add: next_id_of_tables_def)
  have "b \<in> set ?bits" if "(i, cell) \<in> set (t_cells t)" "(p, b) \<in> set (cell_sites cell)" for i cell p b
  proof -
    have "b \<in> snd ` set (cell_sites cell)" using that(2) by force
    then have "b \<in> set (used_bits (t_cells t))" using that(1) by (force simp: used_bits_def)
    then show ?thesis by simp
  qed
  moreover have "b \<in> set ?bits" if "(name, e) \<in> set (t_ports t) \<union> set (t_nets t)" "b \<in> set (entry_bits e)" for name e b
    using that by fastforce
  ultimately show ?thesis unfolding below_def using le by blast
qed

lemma distinct_dict_of_snd:
  fixes kvs :: "('a \<times> 'b) list"
  assumes "distinct (map snd kvs)"
  shows "distinct (map snd (dict_of kvs))"
proof -
  have upd: "distinct (map snd (AList.update k v d))" if "distinct (map snd d)" "v \<notin> snd ` set d" for k :: 'a and v :: 'b and d
    using that
  proof (induction d)
    case (Cons x d)
    have "snd ` set (AList.update k v d) \<subseteq> insert v (snd ` set d)" using set_update_subset [where d = d and k = k and v = v] by force
    with Cons show ?case by (cases x) auto
  qed simp
  have "distinct (map snd (dict_update d kvs))" if "distinct (map snd d)" "distinct (map snd kvs)" "snd ` set d \<inter> snd ` set kvs = {}"
    for d :: "('a \<times> 'b) list" using that
  proof (induction kvs arbitrary: d)
    case (Cons kv kvs)
    let ?d = "AList.update (fst kv) (snd kv) d"
    have "distinct (map snd ?d)" using Cons.prems by (intro upd) auto
    moreover have "snd ` set ?d \<inter> snd ` set kvs = {}"
      using set_update_subset [where d = d and k = "fst kv" and v = "snd kv"] Cons.prems by force
    ultimately have "distinct (map snd (dict_update ?d kvs))" using Cons.prems(2) by (intro Cons.IH) auto
    then show ?case by (cases kv) (simp add: dict_update_def)
  qed (simp add: dict_update_def)
  from this [of "[]"] assms show ?thesis by (simp add: dict_of_def)
qed

lemma branch_flop_outputs_spec:
  assumes run: "branch_flop_outputs m t = Inr t'" and "distinct (map fst m)"
    and g: "tgood beh st G (t, next_id_of_tables t) v" and fresh: "\<And>i. i \<in> fst ` set m \<Longrightarrow> ''$ffqpo_'' @ i \<notin> G"
  shows "\<exists>v'. design_sat beh st v' (t_cells t') \<and> same_ports t v t' v' \<and>
    fst ` set (t_cells t') \<subseteq> G \<union> (\<lambda>i. ''$ffqpo_'' @ i) ` fst ` set m"
proof -
  from run obtain kvs readers where kvs: "list_all2 (\<lambda>(i, raw) ni. bind_res (subscript raw ''q_drive_net_id'')
        (\<lambda>j. bind_res (py_int j) (\<lambda>net. Inr (net, i))) = Inr ni) m kvs"
    and t': "t' = fst (fold (branch_output readers) (sort_key snd (dict_of kvs)) (t, next_id_of_tables t))"
    by (auto simp: branch_flop_outputs_def bind_res_eq_Inr map_res_eq_Inr Let_def split_def)
  have snds: "map snd kvs = map fst m"
    using kvs by (induction rule: list_all2_induct) (auto simp: bind_res_eq_Inr)
  let ?nis = "sort_key snd (dict_of kvs)"
  have d: "distinct (map snd ?nis)"
  proof -
    have "distinct (map snd (dict_of kvs))" using distinct_dict_of_snd snds assms(2) by metis
    moreover have "mset (map snd ?nis) = mset (map snd (dict_of kvs))" by (simp add: mset_map)
    ultimately show ?thesis by (metis mset_eq_imp_distinct_iff)
  qed
  have sub: "snd ` set ?nis \<subseteq> fst ` set m"
  proof
    fix i assume "i \<in> snd ` set ?nis"
    then have "i \<in> set (map snd kvs)" using set_dict_of [of kvs] by auto
    then show "i \<in> fst ` set m" by (simp add: snds)
  qed
  then have "\<forall>i \<in> snd ` set ?nis. ''$ffqpo_'' @ i \<notin> G" using fresh by blast
  from branch_outputs_spec [where readers = readers, OF g d this] obtain v' where
    v': "tgood beh st (G \<union> (\<lambda>i. ''$ffqpo_'' @ i) ` snd ` set ?nis) (fold (branch_output readers) ?nis (t, next_id_of_tables t)) v'"
      "same_ports t v t' v'" unfolding t' fst_conv by blast
  have "design_sat beh st v' (t_cells t')" using v'(1) unfolding t' tgood_def design_sat_def by blast
  moreover have "fst ` set (t_cells t') \<subseteq> G \<union> (\<lambda>i. ''$ffqpo_'' @ i) ` snd ` set ?nis" using v'(1) unfolding t' tgood_def by blast
  ultimately show ?thesis using v'(2) sub by (intro exI [of _ v']) blast
qed

end
