(* ===== verification/Atpg_View_Props.thy ===== *)
theory Atpg_View_Props
  imports Atpg_View_Pass
begin

text \<open>
  The ATPG view of a whole design: the loop over the flip-flops keeps the invariant of
  \<open>Atpg_View_Sem\<close>, the last passes keep the values, and the resulting view simulates the design.
\<close>

section \<open>One turn of the loop\<close>

definition gen_names :: "string \<Rightarrow> string set" where
  "gen_names i = {''$ffctrlbranch_'' @ i, ''$ffbranch_'' @ i, ''$ffobserve_'' @ i} \<union> mux_names ''q'' i \<union> mux_names ''d'' i"

text \<open>An entry of the pseudo port map: its input port carries the state and its output port what the
  flip-flop captures; only a flip-flop outside the active clock domain has no output port.\<close>

definition entry_ok :: "bool \<Rightarrow> (string \<Rightarrow> bool) \<Rightarrow> (int \<Rightarrow> bool) \<Rightarrow> view_state \<Rightarrow> (int \<Rightarrow> bool) \<Rightarrow> string \<Rightarrow> json \<Rightarrow> json \<Rightarrow> bool" where
  "entry_ok every st v0 s v i cell e =
     (\<exists>d. e = JObj d \<and> get_or d ''ppi_port'' JNull = JStr (ppi_name i) \<and> shows_port s v (ppi_name i) (st i) \<and>
        (\<not> every \<and> get_or d ''ppo_port'' JNull = JNull \<or>
         get_or d ''ppo_port'' JNull = JStr (ppo_name i) \<and> shows_port s v (ppo_name i) (captured v0 cell)))"

lemma entry_ok_later:
  "entry_ok every st v0 s v i cell e \<Longrightarrow> keeps R N s v s' v' \<Longrightarrow> ppi_name i \<in> N \<Longrightarrow> ppo_name i \<in> N \<Longrightarrow>
     entry_ok every st v0 s' v' i cell e"
  unfolding entry_ok_def using keeps_shows by blast

definition record_ok :: "jobj \<Rightarrow> jobj \<Rightarrow> string \<Rightarrow> bool" where
  "record_ok cells record i =
     (\<exists>ij q cell. getitem record ''instance'' = Inr ij \<and> py_str ij = i \<and> int_field record ''q_net'' = Inr q \<and>
        map_of cells i = Some (JObj cell) \<and> ctrl_ok (JObj cell) \<and> data_ok (JObj cell) \<and> net_pin (JObj cell) ''Q'' q)"

lemma map_entry_ports:
  assumes "map_entry src record i ppi qd q ppo clock dn boundary = Inr e"
  shows "\<exists>d. e = JObj d \<and> get_or d ''ppi_port'' JNull = JStr (ppi_name i) \<and>
    get_or d ''ppo_port'' JNull = (case ppo of None \<Rightarrow> JNull | Some b \<Rightarrow> JStr (ppo_name i))"
  using assms by (cases ppo) (auto simp: map_entry_def bind_res_eq_Inr get_or_def)

lemma good_mono2: "good beh st n G P s v \<Longrightarrow> G \<subseteq> G' \<Longrightarrow> P \<subseteq> P' \<Longrightarrow> good beh st n G' P' s v"
  unfolding good_def Let_def by blast

text \<open>The parts of a turn that succeeds.\<close>

lemma view_record_parts:
  assumes run: "view_record src record s = Inr s'" and i: "getitem record ''instance'' = Inr ij" "py_str ij = i"
    and q: "int_field record ''q_net'' = Inr q" and cell: "map_of (t_cells (vw_tables s)) i = Some (JObj cell)"
  obtains clock control s1 qd s2 dnet d gnet shared ppo boundary s3 boundary' e where
    "of_type (JObj cell) SCAN_CELL_TYPES"
    "control_of src i cell s = Inr (control, s1)"
    "drive_q src i q (map_option (\<lambda>(knd, br, key). (knd, br)) control) s1 = (qd, s2)"
    "data_input src i (live_cell i s2) dnet = Inr (d, gnet, shared)"
    "src_active src \<noteq> None \<and> ppo = None \<and> s3 = s2 \<or> (\<exists>b. ppo = Some b \<and>
       observe_d i (d, gnet, shared) (map_option (\<lambda>(knd, br, key). (knd, br)) control) q s2 = Inr (b, boundary, s3))"
    "map_entry src record i (vw_next s1) qd q ppo clock d boundary' = Inr e"
    "s' = (drop_cell i s3)\<lparr>vw_map := dict_set (vw_map (drop_cell i s3)) i e\<rparr>"
proof -
  have ty: "of_type (JObj cell) SCAN_CELL_TYPES"
    using run i cell by (auto simp: view_record_def Let_def type_is_of_type split: if_splits)
  from run i q cell ty obtain clock control s1 dnet d ppo boundary s3 e where p:
    "control_of src i cell s = Inr (control, s1)"
    "data_input src i (live_cell i (snd (drive_q src i q (map_option (\<lambda>(knd, br, key). (knd, br)) control) s1))) dnet = Inr d"
    "(if src_active src = None \<or> src_active src = Some clock
      then bind_res (observe_d i d (map_option (\<lambda>(knd, br, key). (knd, br)) control) q
              (snd (drive_q src i q (map_option (\<lambda>(knd, br, key). (knd, br)) control) s1))) (\<lambda>(b, boundary, s'). Inr (Some b, boundary, s'))
      else Inr (None, [], snd (drive_q src i q (map_option (\<lambda>(knd, br, key). (knd, br)) control) s1))) = Inr (ppo, boundary, s3)"
    "map_entry src record i (vw_next s1) (fst (drive_q src i q (map_option (\<lambda>(knd, br, key). (knd, br)) control) s1)) q ppo clock (fst d)
       (case control of None \<Rightarrow> boundary
         | Some (knd, br, key) \<Rightarrow> dict_set (dict_set boundary ''control_boundary_site_key'' (JStr key)) ''control_observe_net_id'' (JInt br)) = Inr e"
    "s' = (drop_cell i s3)\<lparr>vw_map := dict_set (vw_map (drop_cell i s3)) i e\<rparr>"
    unfolding view_record_def Let_def by (auto simp: bind_res_eq_Inr type_is_of_type)
  obtain qd s2 where qd: "drive_q src i q (map_option (\<lambda>(knd, br, key). (knd, br)) control) s1 = (qd, s2)" by fastforce
  obtain d' gnet shared where d: "d = (d', gnet, shared)" by (cases d)
  from p(3) have ob: "src_active src \<noteq> None \<and> ppo = None \<and> s3 = s2 \<or> (\<exists>b. ppo = Some b \<and>
       observe_d i (d', gnet, shared) (map_option (\<lambda>(knd, br, key). (knd, br)) control) q s2 = Inr (b, boundary, s3))"
    by (auto simp: d qd bind_res_eq_Inr split: if_splits)
  show thesis using that [OF ty p(1) qd _ ob _ p(5)] p(2,4) d qd by auto
qed
lemma view_record_spec:
  assumes start: "good beh st n G0 P0 s0 v0" "vw_next s0 = n" "t_cells (vw_tables s0) = src_cells src"
    and g: "good beh st n G P s v" and k: "keeps R N0 s0 v0 s v" and "i \<notin> R"
    and rec: "record_ok (src_cells src) record i" and c0: "map_of (src_cells src) i = Some cell0"
    and names: "gen_names i \<inter> G = {}" "ppi_name i \<notin> P" "ppo_name i \<notin> P"
    and run: "view_record src record s = Inr s'"
  defines "N \<equiv> - {ppi_name i, ppo_name i}"
  shows "\<exists>v' e. good beh st n (G \<union> gen_names i - {i}) (P \<union> {ppi_name i, ppo_name i}) s' v' \<and> keeps {i} N s v s' v' \<and>
    vw_map s' = dict_set (vw_map s) i e \<and> entry_ok (src_active src = None) st v0 s' v' i cell0 e \<and>
    (low_from n ports0 (t_ports (vw_tables s)) \<longrightarrow> low_from n ports0 (t_ports (vw_tables s')))"
proof -
  from rec c0 obtain ij q c where r: "getitem record ''instance'' = Inr ij" "py_str ij = i" "int_field record ''q_net'' = Inr q"
    "cell0 = JObj c" "ctrl_ok (JObj c)" "data_ok (JObj c)" "net_pin (JObj c) ''Q'' q" by (auto simp: record_ok_def)
  from k c0 r(4) start(3) \<open>i \<notin> R\<close> obtain cj where cj: "map_of (t_cells (vw_tables s)) i = Some cj" "cell_rel v0 v (JObj c) cj"
    unfolding keeps_def by metis
  then obtain cell where cell: "cj = JObj cell" by (cases cj) (auto simp: cell_rel_def is_obj_def)
  note rel = cj(2) [unfolded cell]
  have cin: "(i, JObj cell) \<in> set (t_cells (vw_tables s))" using cj(1) cell map_of_SomeD by fastforce
  have cm: "map_of (t_cells (vw_tables s)) i = Some (JObj cell)" using cj(1) cell by simp
  obtain clock control s1 qd s2 dnet d gnet shared ppo boundary s3 boundary' e where ty: "of_type (JObj cell) SCAN_CELL_TYPES"
    and parts: "control_of src i cell s = Inr (control, s1)"
      "drive_q src i q (map_option (\<lambda>(knd, br, key). (knd, br)) control) s1 = (qd, s2)"
      "data_input src i (live_cell i s2) dnet = Inr (d, gnet, shared)"
      "src_active src \<noteq> None \<and> ppo = None \<and> s3 = s2 \<or> (\<exists>b. ppo = Some b \<and>
         observe_d i (d, gnet, shared) (map_option (\<lambda>(knd, br, key). (knd, br)) control) q s2 = Inr (b, boundary, s3))"
      "map_entry src record i (vw_next s1) qd q ppo clock d boundary' = Inr e"
      "s' = (drop_cell i s3)\<lparr>vw_map := dict_set (vw_map (drop_cell i s3)) i e\<rparr>"
    by (rule view_record_parts [OF run r(1-3) cm]) blast
  define ctl where "ctl = map_option (\<lambda>(knd, br, key). (knd, br)) control"
  note nm = names(1) [unfolded gen_names_def]
  let ?G1 = "insert (''$ffctrlbranch_'' @ i) G"
  have "''$ffctrlbranch_'' @ i \<notin> G" using nm by blast
  from control_of_spec [where N = N, OF g this cin ctrl_ok_rel [OF rel r(5)] parts(1)] obtain v1 where
    p1: "good beh st n ?G1 P s1 v1" "keeps {} N s v s1 v1" "\<And>x. forced v (JObj cell) x = ctl_force v1 ctl x"
      "ctl_below ctl (vw_next s1)" "vw_map s1 = vw_map s" unfolding ctl_def by blast
  have qn: "q < n"
    using net_pin_site [OF r(7)] goodD(10) [OF start(1), of i "JObj c"] map_of_SomeD [OF c0] start(2,3) r(4) by simp
  have "v1 q = v q" using keepsD(1) [OF p1(2)] qn goodD(3) [OF g] by simp
  also have "v q = v0 q" using keepsD(1) [OF k] qn start(2) by simp
  also have "\<dots> = pin_val v (JObj cell) ''Q''" using cell_rel_val [OF rel, of "''Q''"] net_pin_val [OF r(7), of v0] by simp
  also have "\<dots> = forced v (JObj cell) (st i)" using goodD(9) [OF g cin] ty by (simp add: cell_sat_def Let_def)
  finally have qv: "v1 q = ctl_force v1 ctl (st i)" using p1(3) by simp
  have mq: "mux_names ''q'' i \<inter> ?G1 = {}" using nm by (auto simp: mux_names_def)
  have pn: "ppi_name i \<notin> P" "ppi_name i \<notin> N" using names(2) by (simp_all add: N_def)
  from drive_q_spec [where N = N, OF p1(1) qn p1(4) mq pn qv parts(2) [folded ctl_def]] obtain v2 where
    p2: "good beh st n (?G1 \<union> mux_names ''q'' i) (insert (ppi_name i) P) s2 v2" "keeps {} N s1 v1 s2 v2"
      "shows_port s2 v2 (ppi_name i) (st i)" "vw_map s2 = vw_map s1" by blast
  have k2: "keeps {} N s v s2 v2" using keeps_trans [OF p1(2) p2(2)] by simp
  from k2 cm obtain lj where lj: "map_of (t_cells (vw_tables s2)) i = Some lj" "cell_rel v v2 (JObj cell) lj"
    unfolding keeps_def by blast
  then obtain live where live: "lj = JObj live" by (cases lj) (auto simp: cell_rel_def is_obj_def)
  have lc: "live_cell i s2 = live" using lj(1) live by (simp add: live_cell_def)
  have rel2: "cell_rel v0 v2 (JObj c) (JObj live)" using cell_rel_trans [OF rel lj(2) [unfolded live]] .
  have lin: "(i, JObj live) \<in> set (t_cells (vw_tables s2))" using lj(1) live map_of_SomeD by fastforce
  note di = data_input_spec [OF c0 [unfolded r(4)] r(6) rel2 parts(3) [unfolded lc]]
  have dn: "m < vw_next s2" if "as_int d = Some m" for m using di(2) [OF that] goodD(10) [OF p2(1) lin] by blast
  have cb: "ctl_below ctl (vw_next s2)" using p1(4) keepsD(2) [OF p2(2)] by (auto simp: ctl_below_def split: option.splits)
  have cf: "ctl_force v2 ctl x = forced v0 cell0 x" for x
    using ctl_force_cong [OF p1(4), of v2 v1 x] keepsD(1) [OF p2(2)] p1(3) cell_rel_forced [OF rel] r(4) by simp
  have cap: "ctl_force v2 ctl (bit_value v2 d) = captured v0 cell0" using cf di(1) r(4) by (simp add: captured_def)
  let ?G = "G \<union> gen_names i" and ?P = "P \<union> {ppi_name i, ppo_name i}"
  have fin: "\<exists>v3. good beh st n ?G ?P s3 v3 \<and> keeps {} N s2 v2 s3 v3 \<and> shows_port s3 v3 (ppi_name i) (st i) \<and> vw_map s3 = vw_map s2 \<and>
      (src_active src \<noteq> None \<and> ppo = None \<or> (\<exists>b. ppo = Some b) \<and> shows_port s3 v3 (ppo_name i) (captured v0 cell0))"
    using parts(4)
  proof
    assume "src_active src \<noteq> None \<and> ppo = None \<and> s3 = s2"
    then show ?thesis using good_mono2 [OF p2(1), of ?G ?P] good_valuation(2) [OF p2(1), of v2 N] p2(3)
      by (intro exI [of _ v2]) (auto simp: gen_names_def)
  next
    assume "\<exists>b. ppo = Some b \<and>
      observe_d i (d, gnet, shared) (map_option (\<lambda>(knd, br, key). (knd, br)) control) q s2 = Inr (b, boundary, s3)"
    then obtain b where b: "ppo = Some b" "observe_d i (d, gnet, shared) ctl q s2 = Inr (b, boundary, s3)" by (auto simp: ctl_def)
    have "ppo_name i \<notin> insert (ppi_name i) P" "ppo_name i \<notin> - {ppo_name i}" using names(3) by (auto simp: ppi_name_def ppo_name_def)
    from observe_d_spec [OF p2(1) _ _ _ dn cb this b(2)] nm obtain v3 where
      v3: "good beh st n (?G1 \<union> mux_names ''q'' i \<union> {''$ffbranch_'' @ i, ''$ffobserve_'' @ i} \<union> mux_names ''d'' i)
         (insert (ppo_name i) (insert (ppi_name i) P)) s3 v3"
      "keeps {} (- {ppo_name i}) s2 v2 s3 v3" "shows_port s3 v3 (ppo_name i) (ctl_force v2 ctl (bit_value v2 d))" "vw_map s3 = vw_map s2"
      by (auto simp: mux_names_def)
    have "shows_port s3 v3 (ppi_name i) (st i)"
      by (rule keeps_shows [OF v3(2) _ p2(3)]) (simp add: ppi_name_def ppo_name_def)
    moreover have "good beh st n ?G ?P s3 v3" by (rule good_mono2 [OF v3(1)]) (auto simp: gen_names_def)
    moreover have "keeps {} N s2 v2 s3 v3" by (rule keeps_ports [OF v3(2)]) (auto simp: N_def)
    ultimately show ?thesis using b(1) cap v3(3,4) by (intro exI [of _ v3]) simp
  qed
  then obtain v3 where p3: "good beh st n ?G ?P s3 v3" "keeps {} N s2 v2 s3 v3" "shows_port s3 v3 (ppi_name i) (st i)" "vw_map s3 = vw_map s2"
    "src_active src \<noteq> None \<and> ppo = None \<or> (\<exists>b. ppo = Some b) \<and> shows_port s3 v3 (ppo_name i) (captured v0 cell0)" by blast
  note dr = drop_cell_good(1) [OF p3(1), of i] drop_cell_good(2) [OF p3(1), of i N]
  have same: "vw_next (drop_cell i s3) = vw_next s3" "vw_map (drop_cell i s3) = vw_map s3"
    "shows_port s' w name x = shows_port s3 w name x" for w name x by (simp_all add: drop_cell_def shows_port_def parts(6))
  have k4: "keeps {i} N s2 v2 (drop_cell i s3) v3" using keeps_trans [OF p3(2) dr(2)] by simp
  have "entry_ok (src_active src = None) st v0 s' v3 i cell0 e"
    using map_entry_ports [OF parts(5)] p3(3,5) unfolding entry_ok_def same by (auto split: option.splits)
  moreover have "good beh st n (?G - {i}) ?P s' v3" using dr(1) unfolding parts(6) by (simp add: good_def)
  moreover have "keeps {i} N s v s' v3" using keeps_trans [OF k2 k4] unfolding parts(6) by (simp add: keeps_def)
  moreover have "vw_map s' = dict_set (vw_map s) i e" using same p3(4) p2(4) p1(5) by (simp add: parts(6))
  moreover have "low_from n ports0 (t_ports (vw_tables s'))" if low: "low_from n ports0 (t_ports (vw_tables s))"
  proof -
    have s1: "t_ports (vw_tables s1) = t_ports (vw_tables s)"
      using parts(1) by (auto simp: control_of_def add_ctrl_branch_def bind_res_eq_Inr Let_def split: option.splits)
    have low2: "low_from n ports0 (t_ports (vw_tables s2)) \<and> n \<le> vw_next s2"
      using drive_q_low [of n ports0 s1 src i q ctl] low s1 goodD(3) [OF p1(1)] parts(2) by (simp add: ctl_def)
    then have "low_from n ports0 (t_ports (vw_tables s3))" using parts(4) observe_d_low [of n ports0 s2] by blast
    then show ?thesis by (simp add: parts(6))
  qed
  ultimately show ?thesis by blast
qed

section \<open>The loop\<close>

lemma gen_names_disjoint: "i \<noteq> j \<Longrightarrow> gen_names i \<inter> gen_names j = {}"
  by (auto simp: gen_names_def mux_names_def)

lemma pseudo_names_inj [simp]: "ppi_name i = ppi_name j \<longleftrightarrow> i = j" "ppo_name i = ppo_name j \<longleftrightarrow> i = j" "ppi_name i \<noteq> ppo_name j"
    "ppo_name i \<noteq> ppi_name j"
  by (auto simp: ppi_name_def ppo_name_def)

text \<open>The state after the flip-flops in \<open>R\<close>: \<open>G0\<close> and \<open>P0\<close> are the names of the source.\<close>

definition view_inv :: "behaviour \<Rightarrow> (string \<Rightarrow> bool) \<Rightarrow> view_source \<Rightarrow> view_state \<Rightarrow> (int \<Rightarrow> bool) \<Rightarrow> string set \<Rightarrow> string set \<Rightarrow>
    string set \<Rightarrow> view_state \<Rightarrow> (int \<Rightarrow> bool) \<Rightarrow> bool" where
  "view_inv beh st src s0 v0 G0 P0 R s v =
     (good beh st (vw_next s0) (G0 - R \<union> \<Union> (gen_names ` R)) (P0 \<union> ppi_name ` R \<union> ppo_name ` R) s v \<and> keeps R P0 s0 v0 s v \<and>
      low_from (vw_next s0) (t_ports (vw_tables s0)) (t_ports (vw_tables s)) \<and> fst ` set (vw_map s) = R \<and> distinct (map fst (vw_map s)) \<and>
      (\<forall>i \<in> R. \<exists>cell e. map_of (src_cells src) i = Some cell \<and> map_of (vw_map s) i = Some e \<and>
         entry_ok (src_active src = None) st v0 s v i cell e))"

lemma view_record_inv:
  assumes start: "good beh st (vw_next s0) G0 P0 s0 v0" "t_cells (vw_tables s0) = src_cells src"
    and inv: "view_inv beh st src s0 v0 G0 P0 R s v" and "i \<notin> R"
    and rec: "record_ok (src_cells src) record i"
    and names: "gen_names i \<inter> G0 = {}" "ppi_name i \<notin> P0" "ppo_name i \<notin> P0"
    and run: "view_record src record s = Inr s'"
  shows "\<exists>v'. view_inv beh st src s0 v0 G0 P0 (insert i R) s' v'"
proof -
  note inv' = inv [unfolded view_inv_def]
  note g = inv' [THEN conjunct1] and k = inv' [THEN conjunct2, THEN conjunct1] and rest = inv' [THEN conjunct2, THEN conjunct2]
  obtain cell0 where c0: "map_of (src_cells src) i = Some cell0" using rec by (auto simp: record_ok_def)
  have n1: "gen_names i \<inter> (G0 - R \<union> \<Union> (gen_names ` R)) = {}"
  proof -
    have "gen_names i \<inter> gen_names j = {}" if "j \<in> R" for j using gen_names_disjoint [of i j] that \<open>i \<notin> R\<close> by metis
    then show ?thesis using names(1) by (simp add: Int_Un_distrib Int_UN_distrib) blast
  qed
  have n2: "ppi_name i \<notin> P0 \<union> ppi_name ` R \<union> ppo_name ` R" "ppo_name i \<notin> P0 \<union> ppi_name ` R \<union> ppo_name ` R"
    using names(2,3) \<open>i \<notin> R\<close> by auto
  from view_record_spec [OF start(1) refl start(2) g k \<open>i \<notin> R\<close> rec c0 n1 n2 run] obtain v' e where
    s': "good beh st (vw_next s0) (G0 - R \<union> \<Union> (gen_names ` R) \<union> gen_names i - {i}) (P0 \<union> ppi_name ` R \<union> ppo_name ` R \<union> {ppi_name i, ppo_name i}) s' v'"
      "keeps {i} (- {ppi_name i, ppo_name i}) s v s' v'" "vw_map s' = dict_set (vw_map s) i e"
      "entry_ok (src_active src = None) st v0 s' v' i cell0 e"
      "low_from (vw_next s0) (t_ports (vw_tables s0)) (t_ports (vw_tables s'))"
    using rest [THEN conjunct1] by blast
  have "P0 \<subseteq> - {ppi_name i, ppo_name i}" using names(2,3) by auto
  then have k': "keeps (insert i R) P0 s0 v0 s' v'" using keeps_trans [OF k keeps_ports [OF s'(2)]] by simp
  have new: "i \<notin> fst ` set (vw_map s)" "fst ` set (vw_map s) = R" "distinct (map fst (vw_map s))"
    using rest \<open>i \<notin> R\<close> by simp_all
  have old: "\<exists>cell e. map_of (src_cells src) j = Some cell \<and> map_of (vw_map s') j = Some e \<and>
      entry_ok (src_active src = None) st v0 s' v' j cell e" if "j \<in> R" for j
  proof -
    from rest [THEN conjunct2, THEN conjunct2, THEN conjunct2] that obtain cell e where e: "map_of (src_cells src) j = Some cell" "map_of (vw_map s) j = Some e"
      "entry_ok (src_active src = None) st v0 s v j cell e" by blast
    have "j \<noteq> i" using that \<open>i \<notin> R\<close> by blast
    then have "entry_ok (src_active src = None) st v0 s' v' j cell e" by (intro entry_ok_later [OF e(3) s'(2)]) simp_all
    with e \<open>j \<noteq> i\<close> show ?thesis by (simp add: s'(3) update_conv')
  qed
  have g': "good beh st (vw_next s0) (G0 - insert i R \<union> \<Union> (gen_names ` insert i R)) (P0 \<union> ppi_name ` insert i R \<union> ppo_name ` insert i R) s' v'"
    by (rule good_mono2 [OF s'(1)]) auto
  have keys: "fst ` set (vw_map s') = insert i R" "distinct (map fst (vw_map s'))"
    unfolding s'(3) update_new [OF new(1)] using new by auto
  have "map_of (vw_map s') i = Some e" by (simp add: s'(3) update_conv')
  then show ?thesis unfolding view_inv_def
    using g' k' s'(5) keys s'(4) c0 old by (intro exI [of _ v']) auto
qed

lemma view_loop_inv:
  assumes start: "good beh st (vw_next s0) G0 P0 s0 v0" "t_cells (vw_tables s0) = src_cells src"
    and "view_inv beh st src s0 v0 G0 P0 R s v" and "list_all2 (record_ok (src_cells src)) records insts"
    and "distinct insts" "set insts \<inter> R = {}"
    and "\<And>i. i \<in> set insts \<Longrightarrow> gen_names i \<inter> G0 = {} \<and> ppi_name i \<notin> P0 \<and> ppo_name i \<notin> P0"
    and "fold_res (view_record src) records s = Inr s'"
  shows "\<exists>v'. view_inv beh st src s0 v0 G0 P0 (R \<union> set insts) s' v'"
  using assms(4,3,5-8)
proof (induction arbitrary: R s v rule: list_all2_induct)
  case Nil
  then show ?case by auto
next
  case (Cons r records i insts)
  from Cons.prems(5) obtain s1 where s1: "view_record src r s = Inr s1" "fold_res (view_record src) records s1 = Inr s'"
    by (auto simp: bind_res_eq_Inr)
  have "i \<notin> R" "gen_names i \<inter> G0 = {}" "ppi_name i \<notin> P0" "ppo_name i \<notin> P0" using Cons.prems(3,4) by auto
  from view_record_inv [OF start Cons.prems(1) this(1) Cons.hyps(1) this(2-4) s1(1)] obtain v1 where
    "view_inv beh st src s0 v0 G0 P0 (insert i R) s1 v1" by blast
  from Cons.IH [OF this _ _ _ s1(2)] Cons.prems(2-4) show ?case by simp
qed

section \<open>The view of a module\<close>

lemma tables_of_parts:
  assumes "tables_of module = Inr t"
  shows "as_obj (get_or module ''cells'' (JObj [])) = Some (t_cells t)" "as_obj (get_or module ''ports'' (JObj [])) = Some (t_ports t)"
    "as_obj (get_or module ''netnames'' (JObj [])) = Some (t_nets t)"
  using assms by (auto simp: tables_of_def Let_def bind_res_eq_Inr lift_option_def split: option.splits)

lemma below_start:
  assumes t: "tables_of module = Inr t" and n: "next_net_id module = Inr n"
  shows "below n t"
proof -
  let ?bits = "concat (map (bits_of \<circ> snd) (t_ports t)) @ concat (map (bits_of \<circ> snd) (t_nets t)) @ concat (map (conn_bits_of \<circ> snd) (t_cells t))"
  have "module_bits module = Inr ?bits" using tables_of_parts [OF t] by (simp add: module_bits_def values_of_def)
  then have less: "\<forall>b \<in> set ?bits. b < n" by (rule next_net_id_fresh(1) [OF n])
  have "b \<in> set ?bits" if "(i, cell) \<in> set (t_cells t)" "(p, b) \<in> set (cell_sites cell)" for i cell p b
  proof -
    have "b \<in> set (conn_bits_of cell)"
      using that(2) by (cases cell) (force simp: cell_sites_def conns_of_def conn_bits_of_def split: option.splits)+
    with that(1) show ?thesis by fastforce
  qed
  moreover have "b \<in> set ?bits" if "(name, e) \<in> set (t_ports t) \<union> set (t_nets t)" "b \<in> set (entry_bits e)" for name e b
    using that by (fastforce simp: bits_of_def entry_bits_def)
  ultimately show ?thesis unfolding below_def using less by blast
qed

definition start_state :: "tables \<Rightarrow> int \<Rightarrow> view_state" where
  "start_state t n = \<lparr>vw_tables = t, vw_index = bit_index_init t, vw_next = n, vw_map = []\<rparr>"

lemma start_inv:
  assumes "tables_of module = Inr t" and "next_net_id module = Inr n" and "wf_tables t"
    and "\<forall>(i, cell) \<in> set (t_cells t). one_bit_pins cell" and "design_sat beh st v (t_cells t)"
  defines "G0 \<equiv> fst ` set (t_cells t)" and "P0 \<equiv> fst ` set (t_ports t) \<union> fst ` set (t_nets t)"
  shows "good beh st n G0 P0 (start_state t n) v"
    and "view_inv beh st src (start_state t n) v G0 P0 {} (start_state t n) v"
proof -
  show g: "good beh st n G0 P0 (start_state t n) v"
    using assms(3-5) below_start [OF assms(1,2)] agrees_init [OF assms(3), of n]
    by (auto simp: good_def Let_def start_state_def G0_def P0_def design_sat_def)
  have "low_from n (t_ports t) (t_ports t)"
    using assms(3) unfolding low_from_def wf_tables_def by auto
  then show "view_inv beh st src (start_state t n) v G0 P0 {} (start_state t n) v"
    using g good_valuation(2) [OF g, of v P0] by (simp add: view_inv_def) (simp add: start_state_def)
qed

definition port_value :: "tables \<Rightarrow> (int \<Rightarrow> bool) \<Rightarrow> string \<Rightarrow> bool list option" where
  "port_value t v name = map_option (entry_vals v) (map_of (t_ports t) name)"

definition entry_field :: "json \<Rightarrow> string \<Rightarrow> json" where
  "entry_field e key = (case as_obj e of None \<Rightarrow> JNull | Some d \<Rightarrow> get_or d key JNull)"

lemma check_pseudo_names_free_Inr:
  assumes "check_pseudo_names_free module insts = Inr u" and "tables_of module = Inr t" and "i \<in> set insts"
  shows "distinct insts" "ppi_name i \<notin> fst ` set (t_ports t) \<union> fst ` set (t_nets t)" "ppo_name i \<notin> fst ` set (t_ports t) \<union> fst ` set (t_nets t)"
proof -
  have free: "\<forall>name \<in> ppi_name ` set insts \<union> ppo_name ` set insts. name \<notin> set (name_set module)"
    and d: "distinct (map ppi_name insts @ map ppo_name insts)"
    using assms(1) by (auto simp: check_pseudo_names_free_def Let_def find_None_iff split: option.splits if_splits)
  show "distinct insts" using d by (simp add: distinct_map)
  show "ppi_name i \<notin> fst ` set (t_ports t) \<union> fst ` set (t_nets t)" "ppo_name i \<notin> fst ` set (t_ports t) \<union> fst ` set (t_nets t)"
    using free assms(3) tables_of_parts [OF assms(2)] by (auto simp: name_set_def)
qed

text \<open>What the pseudo ports of one flip-flop mean in the finished view.\<close>

definition pseudo_ports_ok :: "bool \<Rightarrow> tables \<Rightarrow> (int \<Rightarrow> bool) \<Rightarrow> json \<Rightarrow> string \<Rightarrow> bool \<Rightarrow> bool \<Rightarrow> bool" where
  "pseudo_ports_ok every t v e i state capture =
     (entry_field e ''ppi_port'' = JStr (ppi_name i) \<and> port_value t v (ppi_name i) = Some [state] \<and>
      (\<not> every \<and> entry_field e ''ppo_port'' = JNull \<or>
       entry_field e ''ppo_port'' = JStr (ppo_name i) \<and> port_value t v (ppo_name i) = Some [capture]))"

lemma passes_keep_port:
  assumes "distinct (map fst (t_ports t))" and "map_of (t_ports t) name = Some e" and "\<not> droppable manifest clocks name e"
    and "same_ports (drop_dangling_scan_ports manifest clocks t) v t' v'"
  shows "port_value t' v' name = Some (entry_vals v e)"
  using drop_dangling_keeps [OF assms(1-3)] assms(4) unfolding same_ports_def port_value_def by force

lemma view_passes:
  assumes inv: "view_inv beh st src s0 v0 G0 P0 R s v"
    and run: "branch_flop_outputs (vw_map s) (drop_dangling_scan_ports manifest clocks (vw_tables s)) = Inr t'"
    and fresh: "\<And>i. i \<in> R \<Longrightarrow> ''$ffqpo_'' @ i \<notin> G0"
  shows "\<exists>v'. design_sat beh st v' (t_cells t') \<and> same_ports (drop_dangling_scan_ports manifest clocks (vw_tables s)) v t' v' \<and>
    fst ` set (t_cells t') \<subseteq> G0 - R \<union> \<Union> (gen_names ` R) \<union> (\<lambda>i. ''$ffqpo_'' @ i) ` R"
proof -
  let ?G = "G0 - R \<union> \<Union> (gen_names ` R)" and ?t = "drop_dangling_scan_ports manifest clocks (vw_tables s)"
  have g: "good beh st (vw_next s0) ?G (P0 \<union> ppi_name ` R \<union> ppo_name ` R) s v"
    and m: "fst ` set (vw_map s) = R" "distinct (map fst (vw_map s))" using inv by (simp_all add: view_inv_def)
  have cells: "t_cells ?t = t_cells (vw_tables s)" unfolding drop_dangling_fold by (rule drop_ports_spec(1))
  have sat: "\<forall>(i, cell) \<in> set (t_cells (vw_tables s)). one_bit_pins cell \<and> cell_sat beh st v i cell"
    using goodD(8,9) [OF g] by blast
  have tg: "tgood beh st ?G (?t, next_id_of_tables ?t) v"
    unfolding tgood_def fst_conv snd_conv using below_next_id [of ?t] goodD(5) [OF g] sat cells by simp
  have names: "''$ffqpo_'' @ i \<notin> ?G" if "i \<in> R" for i using fresh [OF that] by (auto simp: gen_names_def mux_names_def)
  then show ?thesis using branch_flop_outputs_spec [OF run m(2) tg] m(1) by auto
qed

lemma view_module_parts:
  assumes "view_module module manifest records active = Inr (t', m)" and "tables_of module = Inr t"
    and "next_net_id module = Inr n" and "manifest_clock_net_ids ScanError manifest = Inr clocks"
    and recs: "list_all2 (record_ok (t_cells t)) records insts"
  obtains src s u where "check_pseudo_names_free module insts = Inr u" "src_cells src = t_cells t" "src_active src = active"
    "fold_res (view_record src) records (start_state t n) = Inr s" "m = vw_map s"
    "branch_flop_outputs (vw_map s) (drop_dangling_scan_ports manifest clocks (vw_tables s)) = Inr t'"
proof -
  from assms(1) obtain names u src s where p: "list_all2 (\<lambda>r i. bind_res (getitem r ''instance'') (\<lambda>i. Inr (py_str i)) = Inr i) records names"
    "check_pseudo_names_free module names = Inr u" "view_source_of module t manifest active = Inr src"
    "fold_res (view_record src) records (start_state t n) = Inr s" "m = vw_map s"
    "branch_flop_outputs (vw_map s) (drop_dangling_scan_ports manifest clocks (vw_tables s)) = Inr t'"
    using assms(2-4) unfolding view_module_def start_state_def by (auto simp: bind_res_eq_Inr map_res_eq_Inr split: if_splits)
  have "names = insts"
    using p(1) recs by (induction arbitrary: insts rule: list_all2_induct) (auto simp: list_all2_Cons1 record_ok_def bind_res_eq_Inr)
  moreover have "src_cells src = t_cells t" "src_active src = active" using p(3) by (auto simp: view_source_of_def bind_res_eq_Inr)
  ultimately show thesis using p that by blast
qed

lemma not_droppable:
  assumes low: "low_from n ports0 (t_ports t)" and e: "map_of (t_ports t) name = Some e" and "\<forall>c \<in> set clocks. c < n"
    and "name \<notin> set (manifest_scan_port_names manifest)"
    and "\<And>e0. map_of ports0 name = Some e0 \<Longrightarrow> set (entry_bits e0) \<inter> set clocks = {}"
  shows "\<not> droppable manifest clocks name e"
proof
  assume "droppable manifest clocks name e"
  then obtain b where b: "entry_bits e = [b]" "b \<in> set clocks" using assms(4) by (auto simp: droppable_def)
  then obtain e0 where "map_of ports0 name = Some e0" "b \<in> set (entry_bits e0)"
    using low_fromD [OF low map_of_SomeD [OF e], of b] assms(3) by auto
  with assms(5) b(2) show False by blast
qed

lemma pseudo_ports_final:
  assumes inv: "view_inv beh st src s0 v0 G0 P0 R s v" and "i \<in> R" and clocks: "\<forall>c \<in> set clocks. c < vw_next s0"
    and same: "same_ports (drop_dangling_scan_ports manifest clocks (vw_tables s)) v t' v'"
    and scan: "ppi_name i \<notin> set (manifest_scan_port_names manifest)" "ppo_name i \<notin> set (manifest_scan_port_names manifest)"
    and new: "map_of (t_ports (vw_tables s0)) (ppi_name i) = None" "map_of (t_ports (vw_tables s0)) (ppo_name i) = None"
  shows "\<exists>cell e. map_of (src_cells src) i = Some cell \<and> map_of (vw_map s) i = Some e \<and>
    pseudo_ports_ok (src_active src = None) t' v' e i (st i) (captured v0 cell)"
proof -
  have low: "low_from (vw_next s0) (t_ports (vw_tables s0)) (t_ports (vw_tables s))"
    and g: "good beh st (vw_next s0) (G0 - R \<union> \<Union> (gen_names ` R)) (P0 \<union> ppi_name ` R \<union> ppo_name ` R) s v"
    using inv by (simp_all add: view_inv_def)
  from inv \<open>i \<in> R\<close> obtain cell e where e: "map_of (src_cells src) i = Some cell" "map_of (vw_map s) i = Some e"
    "entry_ok (src_active src = None) st v0 s v i cell e" unfolding view_inv_def by blast
  have d: "distinct (map fst (t_ports (vw_tables s)))" using goodD(1) [OF g] by (simp add: wf_tables_def)
  have final: "port_value t' v' name = Some [x]" if "shows_port s v name x" "name \<in> {ppi_name i, ppo_name i}" for name x
  proof -
    from that(1) obtain pe where pe: "map_of (t_ports (vw_tables s)) name = Some pe" "entry_vals v pe = [x]" by (auto simp: shows_port_def)
    have "\<not> droppable manifest clocks name pe"
      by (rule not_droppable [OF low pe(1) clocks]) (use that(2) scan new in auto)
    from passes_keep_port [OF d pe(1) this same] pe(2) show ?thesis by simp
  qed
  have "pseudo_ports_ok (src_active src = None) t' v' e i (st i) (captured v0 cell)"
    using e(3) final unfolding entry_ok_def pseudo_ports_ok_def entry_field_def by auto
  with e show ?thesis by blast
qed


text \<open>A flip-flop with reset that toggles: an inverter from its output to its input, and a port on the output.\<close>

definition toggle_module :: jobj where
  "toggle_module =
     [(''ports'', JObj [
        (''clk'', JObj [(''direction'', JStr ''input''), (''bits'', JList [JInt 5])]),
        (''rst_n'', JObj [(''direction'', JStr ''input''), (''bits'', JList [JInt 4])]),
        (''q'', JObj [(''direction'', JStr ''output''), (''bits'', JList [JInt 2])])]),
      (''cells'', JObj [
        (''ff'', JObj [(''type'', JStr ''$scanff_r_faultflow''), (''connections'', JObj [(''D'', JList [JInt 3]), (''Q'', JList [JInt 2]),
           (''RESET_B'', JList [JInt 4]), (''CLK'', JList [JInt 5])])]),
        (''inv'', JObj [(''type'', JStr ''INV''), (''port_directions'', JObj [(''A'', JStr ''input''), (''Z'', JStr ''output'')]),
           (''connections'', JObj [(''A'', JList [JInt 2]), (''Z'', JList [JInt 3])])])]),
      (''netnames'', JObj [])]"

definition toggle_manifest :: jobj where
  "toggle_manifest = [(''clock_nets'', JList [JInt 5])]"

definition toggle_records :: "jobj list" where
  "toggle_records = [[(''instance'', JStr ''ff''), (''q_net'', JInt 2), (''data_net'', JInt 3), (''clock_net'', JInt 5),
     (''chain_index'', JInt 0), (''chain_position'', JInt 0)]]"

definition toggle_beh :: behaviour where
  "toggle_beh ty pins = (ty = ''INV'' \<longrightarrow> get_or pins ''Z'' False = (\<not> get_or pins ''A'' False))"

definition toggle_tables :: tables where
  "toggle_tables = (case tables_of toggle_module of Inr t \<Rightarrow> t | Inl e \<Rightarrow> \<lparr>t_cells = [], t_ports = [], t_nets = []\<rparr>)"

definition toggle_view :: "tables \<times> jobj" where
  "toggle_view = (case view_module toggle_module toggle_manifest toggle_records None of Inr r \<Rightarrow> r | Inl e \<Rightarrow> (toggle_tables, []))"

definition toggle_src :: view_source where
  "toggle_src = projr (view_source_of toggle_module toggle_tables toggle_manifest None)"

definition toggle_cell :: jobj where
  "toggle_cell = the (as_obj (get_or (t_cells toggle_tables) ''ff'' JNull))"

definition toggle_s1 :: view_state where
  "toggle_s1 = bump 1 (put_cell ''$ffctrlbranch_ff'' (buf_cell D_BRANCH_BUF_CELL (JInt 4) 6) (start_state toggle_tables 6))"

definition toggle_s2 :: view_state where
  "toggle_s2 = snd (drive_q toggle_src ''ff'' 2 (Some (''reset'', 6)) toggle_s1)"

definition toggle_s3 :: view_state where
  "toggle_s3 = put_cell ''$ffobserve_ff'' (buf_cell OBSERVE_BUF_CELL (JInt 11) 9)
     (bump 1 (put_cell ''$ffdrstmux_ff'' (gate2_cell CAPTURE_AND_CELL 10 6 11)
       (bump 1 (put_cell ''$ffbranch_ff'' (buf_cell D_BRANCH_BUF_CELL (JInt 3) 10)
         (view_add_port ''__ppo_ff'' ''output'' 9 (bump 1 toggle_s2))))))"

definition toggle_boundary :: jobj where
  "toggle_boundary = [(''atpg_view_schema_ver'', JStr ATPG_VIEW_SCHEMA_VER), (''d_boundary_site_key'', JStr ''net:3:branch:ff:D''),
     (''d_observe_net_id'', JInt 10), (''q_stem_site_key'', JStr ''net:2:stem''), (''unload_capable'', JBool True)]"

definition toggle_entry :: json where
  "toggle_entry = JObj [(''ppi_port'', JStr ''__ppi_ff''), (''ppo_port'', JStr ''__ppo_ff''), (''ppi_net_id'', JInt 7),
     (''q_drive_net_id'', JInt 8), (''ppo_net_id'', JInt 9), (''original_q_net'', JStr ''2''), (''original_d_net'', JStr ''3''),
     (''chain_id'', JInt 0), (''position_in_chain'', JInt 0), (''clock_net'', JInt 5),
     (''boundary'', JObj (toggle_boundary @ [(''control_boundary_site_key'', JStr ''net:4:branch:ff:RESET_B''),
        (''control_observe_net_id'', JInt 6)]))]"

definition toggle_s4 :: view_state where
  "toggle_s4 = (drop_cell ''ff'' toggle_s3)\<lparr>vw_map := [(''ff'', toggle_entry)]\<rparr>"

lemma Inr_projr: "\<not> isl x \<Longrightarrow> x = Inr (projr x)"
  by (cases x) simp_all

lemma toggle_tables_of: "tables_of toggle_module = Inr toggle_tables"
  by (simp add: tables_of_def toggle_tables_def toggle_module_def get_or_def lift_option_def)

lemma toggle_source: "view_source_of toggle_module toggle_tables toggle_manifest None = Inr toggle_src"
  unfolding toggle_src_def by (rule Inr_projr) code_simp

lemma toggle_control: "control_of toggle_src ''ff'' toggle_cell (start_state toggle_tables 6) =
    Inr (Some (''reset'', 6, ''net:4:branch:ff:RESET_B''), toggle_s1)"
  by code_simp

lemma toggle_data: "data_input toggle_src ''ff'' (live_cell ''ff'' toggle_s2) 3 = Inr (JInt 3, 3, True)"
  by code_simp

lemma toggle_q: "fst (drive_q toggle_src ''ff'' 2 (Some (''reset'', 6)) toggle_s1) = 8"
  by code_simp

lemma toggle_keys: "stem_site_key 3 = Inr ''net:3:stem''" "stem_site_key 2 = Inr ''net:2:stem''"
  "branch_key 3 ''ff'' DATA_PIN = Inr ''net:3:branch:ff:D''" "vw_next toggle_s2 = 9" "ppo_name ''ff'' = ''__ppo_ff''" "vw_map toggle_s2 = []"
  by code_simp+

lemma toggle_observe: "observe_d ''ff'' (JInt 3, 3, True) (Some (''reset'', 6)) 2 toggle_s2 = Inr (9, toggle_boundary, toggle_s3)"
  by (simp add: observe_d_def resolve_d_observe_boundary_def Let_def ctrl_mux_def toggle_keys toggle_boundary_def toggle_s3_def)

lemma toggle_map_entry: "map_entry toggle_src (hd toggle_records) ''ff'' 7 8 2 (Some 9) 5 (JInt 3)
     (dict_set (dict_set toggle_boundary ''control_boundary_site_key'' (JStr ''net:4:branch:ff:RESET_B''))
        ''control_observe_net_id'' (JInt 6)) = Inr toggle_entry"
  by code_simp

lemma toggle_fields:
  "map_of (t_cells (vw_tables (start_state toggle_tables 6))) ''ff'' = Some (JObj toggle_cell)"
  "getitem (hd toggle_records) ''instance'' = Inr (JStr ''ff'')" "int_field (hd toggle_records) ''q_net'' = Inr 2"
  "py_int (get_or (hd toggle_records) ''clock_net'' (JInt (- 1))) = Inr 5" "int_field (hd toggle_records) ''data_net'' = Inr 3"
  "type_is toggle_cell SCAN_CELL_TYPES" "src_active toggle_src = None" "vw_next toggle_s1 = 7" "py_str (JStr ''ff'') = ''ff''"
  by code_simp+

lemma toggle_record: "view_record toggle_src (hd toggle_records) (start_state toggle_tables 6) = Inr toggle_s4"
proof -
  have "vw_map (drop_cell ''ff'' toggle_s3) = []" by (simp add: drop_cell_def toggle_s3_def toggle_keys)
  then show ?thesis unfolding view_record_def Let_def
    by (simp add: toggle_fields toggle_control toggle_q toggle_observe toggle_data toggle_map_entry toggle_s4_def flip: toggle_s2_def)
qed

lemma toggle_start: "check_pseudo_names_free toggle_module [''ff''] = Inr ()" "next_net_id toggle_module = Inr 6"
  "manifest_clock_net_ids ScanError toggle_manifest = Inr [5]" "is_obj (get_or toggle_module ''cells'' (JObj []))"
  "toggle_records = [hd toggle_records]"
  by code_simp+


text \<open>The tables after the loop.\<close>

definition toggle_mid :: tables where
  "toggle_mid = \<lparr>
     t_cells = [(''inv'', JObj [(''type'', JStr ''INV''), (''port_directions'', JObj [(''A'', JStr ''input''), (''Z'', JStr ''output'')]),
         (''connections'', JObj [(''A'', JList [JInt 8]), (''Z'', JList [JInt 3])])]),
       (''$ffctrlbranch_ff'', buf_cell D_BRANCH_BUF_CELL (JInt 4) 6), (''$ffqrstmux_ff'', gate2_cell CAPTURE_AND_CELL 7 6 8),
       (''$ffbranch_ff'', buf_cell D_BRANCH_BUF_CELL (JInt 3) 10), (''$ffdrstmux_ff'', gate2_cell CAPTURE_AND_CELL 10 6 11),
       (''$ffobserve_ff'', buf_cell OBSERVE_BUF_CELL (JInt 11) 9)],
     t_ports = [(''clk'', JObj [(''direction'', JStr ''input''), (''bits'', JList [JInt 5])]),
       (''rst_n'', JObj [(''direction'', JStr ''input''), (''bits'', JList [JInt 4])]),
       (''q'', JObj [(''direction'', JStr ''output''), (''bits'', JList [JInt 8])]),
       (''__ppi_ff'', JObj [(''direction'', JStr ''input''), (''bits'', JList [JInt 7])]),
       (''__ppo_ff'', JObj [(''direction'', JStr ''output''), (''bits'', JList [JInt 9])])],
     t_nets = [(''__ppi_ff'', net_entry 7), (''__ppo_ff'', net_entry 9)]\<rparr>"

lemma toggle_s4_tables: "vw_tables toggle_s4 = toggle_mid"
  by code_simp

lemma toggle_passes: "\<not> isl (branch_flop_outputs [(''ff'', toggle_entry)] (drop_dangling_scan_ports toggle_manifest [5] toggle_mid))"
  by code_simp

lemma toggle_runs: "view_module toggle_module toggle_manifest toggle_records None = Inr (fst toggle_view, snd toggle_view)"
proof -
  have m: "vw_map toggle_s4 = [(''ff'', toggle_entry)]" by (simp add: toggle_s4_def)
  obtain t where t: "branch_flop_outputs (vw_map toggle_s4) (drop_dangling_scan_ports toggle_manifest [5] (vw_tables toggle_s4)) = Inr t"
    using Inr_projr [OF toggle_passes] by (simp add: toggle_s4_tables m)
  have "view_module toggle_module toggle_manifest [hd toggle_records] None = Inr (t, vw_map toggle_s4)"
    unfolding view_module_def
    by (simp add: toggle_fields toggle_start(1-4) toggle_tables_of toggle_source t toggle_record [unfolded start_state_def])
  then show ?thesis using toggle_start(5) by (simp add: toggle_view_def)
qed

text \<open>The flip-flop holds a one and reset is not asserted: it captures a zero.\<close>

definition toggle_v :: "int \<Rightarrow> bool" where
  "toggle_v b = (b \<in> {2, 4})"

lemma toggle_hyps:
  "list_all2 (record_ok (t_cells toggle_tables)) toggle_records [''ff'']"
  "wf_tables toggle_tables" "\<forall>(i, cell) \<in> set (t_cells toggle_tables). one_bit_pins cell"
  "\<forall>i \<in> set [''ff'']. insert (''$ffqpo_'' @ i) (gen_names i) \<inter> fst ` set (t_cells toggle_tables) = {}"
  "\<forall>i \<in> set [''ff'']. {ppi_name i, ppo_name i} \<inter> set (manifest_scan_port_names toggle_manifest) = {}"
  "\<forall>c \<in> set [5]. c < (6::int)"
  "design_sat toggle_beh (\<lambda>i. True) toggle_v (t_cells toggle_tables)"
proof -
  let ?ff = "[(''type'', JStr ''$scanff_r_faultflow''), (''connections'', JObj [(''D'', JList [JInt 3]), (''Q'', JList [JInt 2]),
           (''RESET_B'', JList [JInt 4]), (''CLK'', JList [JInt 5])])]"
  let ?inv = "[(''type'', JStr ''INV''), (''port_directions'', JObj [(''A'', JStr ''input''), (''Z'', JStr ''output'')]),
           (''connections'', JObj [(''A'', JList [JInt 2]), (''Z'', JList [JInt 3])])]"
  have cells: "t_cells toggle_tables = [(''ff'', JObj ?ff), (''inv'', JObj ?inv)]"
    by (simp add: toggle_tables_def tables_of_def toggle_module_def get_or_def lift_option_def)
  have conns: "conns_of (JObj ?ff) = [(''D'', JList [JInt 3]), (''Q'', JList [JInt 2]), (''RESET_B'', JList [JInt 4]), (''CLK'', JList [JInt 5])]"
    "conns_of (JObj ?inv) = [(''A'', JList [JInt 2]), (''Z'', JList [JInt 3])]" by (simp_all add: conns_of_def get_or_def)
  show "wf_tables toggle_tables" by code_simp
  show "\<forall>(i, cell) \<in> set (t_cells toggle_tables). one_bit_pins cell" by (simp add: cells one_bit_pins_def conns)
  show "\<forall>i \<in> set [''ff'']. insert (''$ffqpo_'' @ i) (gen_names i) \<inter> fst ` set (t_cells toggle_tables) = {}"
    by (simp add: cells gen_names_def mux_names_def)
  show "\<forall>i \<in> set [''ff'']. {ppi_name i, ppo_name i} \<inter> set (manifest_scan_port_names toggle_manifest) = {}" by code_simp
  show "\<forall>c \<in> set [5]. c < (6::int)" by simp
  have ty: "of_type (JObj ?ff) SCAN_RESET_TYPES" "\<not> of_type (JObj ?ff) SCAN_SET_TYPES" "of_type (JObj ?ff) SCAN_CELL_TYPES"
    by code_simp+
  show "list_all2 (record_ok (t_cells toggle_tables)) toggle_records [''ff'']"
    unfolding record_ok_def ctrl_ok_def data_ok_def net_pin_def
    by (subst toggle_start(5)) (simp add: toggle_fields cells conns ty DATA_PIN_def)
  show "design_sat toggle_beh (\<lambda>i. True) toggle_v (t_cells toggle_tables)"
    by code_simp
qed


end
