(* ===== verification/Candidates.thy ===== *)
theory Candidates
  imports Campaign_Db
begin

text \<open>
  The statements of \<^verbatim>\<open>faultflow/db/campaign.py\<close>, \<^verbatim>\<open>faultflow/db/candidates.py\<close> and the summary of \<^verbatim>\<open>faultflow/db/sqlite.py\<close>
  on the tables of \<open>Campaign_Db\<close>: opening a campaign under its fingerprint, the life of a test candidate (pending,
  then accepted, rejected or aborted), and the coverage counts. A statement that violates a key raises
  \<^verbatim>\<open>IntegrityError\<close> and changes nothing; a \<^verbatim>\<open>FOREIGN KEY\<close> is checked by \<^verbatim>\<open>INSERT OR IGNORE\<close> too, a
  duplicate is not. A computation on the database returns its result and the database it leaves,
  also when it raises, because a caller inside a transaction sees the statements already executed. The tables
  exist; of the schema check the model keeps the version.
\<close>

section \<open>Computations on a database\<close>

type_synonym 'a dbm = "campaign_db \<Rightarrow> 'a res \<times> campaign_db"

definition bind_db :: "'a dbm \<Rightarrow> ('a \<Rightarrow> 'b dbm) \<Rightarrow> 'b dbm" where
  "bind_db m f db = (case m db of (Inl e, db') \<Rightarrow> (Inl e, db') | (Inr x, db') \<Rightarrow> f x db')"

definition modify_db :: "(campaign_db \<Rightarrow> campaign_db) \<Rightarrow> unit dbm" where
  "modify_db f db = (Inr (), f db)"

fun each_db :: "('a \<Rightarrow> unit dbm) \<Rightarrow> 'a list \<Rightarrow> unit dbm" where
  "each_db f [] db = (Inr (), db)"
| "each_db f (x # xs) db = bind_db (f x) (\<lambda>_. each_db f xs) db"

section \<open>Campaigns\<close>

definition EXPECTED_USER_VERSION :: int where "EXPECTED_USER_VERSION = 6"

definition CAMPAIGN_TYPES :: "string list" where
  "CAMPAIGN_TYPES = [''comb'', ''scan'', ''scan_extest'']"

definition require_v3_schema :: "campaign_db \<Rightarrow> unit res" where
  "require_v3_schema db =
     (if user_version db < EXPECTED_USER_VERSION
      then Inl (SchemaError ''Legacy database schema detected. Re-run with --clean to recreate faultflow.sqlite.'')
      else Inr ())"

text \<open>\<^verbatim>\<open>ORDER BY id DESC LIMIT 1\<close>.\<close>

definition latest_campaign :: "campaign_db \<Rightarrow> string \<Rightarrow> campaign_row option" where
  "latest_campaign db campaign_type =
     (case rev (sort_key c_id (filter (\<lambda>c. c_type c = campaign_type) (campaigns db))) of [] \<Rightarrow> None | c # _ \<Rightarrow> Some c)"

definition latest_campaign_id :: "campaign_db \<Rightarrow> string \<Rightarrow> int option res" where
  "latest_campaign_id db campaign_type =
     bind_res (require_v3_schema db) (\<lambda>_. Inr (map_option c_id (latest_campaign db campaign_type)))"

definition campaign_fingerprint_row :: "campaign_db \<Rightarrow> int \<Rightarrow> campaign_row option res" where
  "campaign_fingerprint_row db campaign_id =
     bind_res (require_v3_schema db) (\<lambda>_. Inr (find (\<lambda>c. c_id c = campaign_id) (campaigns db)))"

definition text_field :: "jobj \<Rightarrow> string \<Rightarrow> (string \<times> json) res" where
  "text_field fp key = bind_res (getitem fp key) (\<lambda>v. Inr (key, JStr (py_str v)))"

definition number_field :: "jobj \<Rightarrow> string \<Rightarrow> (string \<times> json) res" where
  "number_field fp key = bind_res (getitem fp key) (\<lambda>v. bind_res (py_int v) (\<lambda>n. Inr (key, JInt n)))"

definition optional_field :: "string \<Rightarrow> jobj \<Rightarrow> string \<Rightarrow> (string \<times> json) res" where
  "optional_field dflt fp key = Inr (key, JStr (py_str (get_or fp key (JStr dflt))))"

definition fingerprint_fields :: "jobj \<Rightarrow> jobj res" where
  "fingerprint_fields fp =
     map_res (\<lambda>(read, key). read fp key)
       [(text_field, ''top''), (text_field, ''netlist_hash''), (text_field, ''cell_lib_hash''), (text_field, ''config_hash''),
        (text_field, ''template_hash''), (text_field, ''yosys_version''), (text_field, ''faultflow_version''),
        (number_field, ''collapsing''), (text_field, ''unsupported_cells''), (number_field, ''include_clock_faults''),
        (number_field, ''include_reset_faults''), (optional_field [], ''redundancy_model_id''),
        (optional_field [], ''manifest_hash''), (optional_field [], ''atpg_view_schema_ver''),
        (optional_field ''stuck_at'', ''fault_model'')]"

text \<open>Every column is \<^verbatim>\<open>NOT NULL\<close>, so a stored row has them all.\<close>

definition column_differs :: "jobj \<Rightarrow> string \<times> json \<Rightarrow> bool" where
  "column_differs stored kv = (py_str (get_or stored (fst kv) JNull) \<noteq> py_str (snd kv))"

definition fingerprint_mismatch_field :: "jobj \<Rightarrow> jobj \<Rightarrow> string option res" where
  "fingerprint_mismatch_field stored fp =
     bind_res (fingerprint_fields fp) (\<lambda>cols.
     let late = (\<lambda>key. truthy (get_or cols key JNull) \<and> column_differs stored (key, get_or cols key JNull))
     in Inr (case find (\<lambda>kv. fst kv \<notin> {''manifest_hash'', ''atpg_view_schema_ver''} \<and> column_differs stored kv) cols of
               Some kv \<Rightarrow> Some (fst kv)
             | None \<Rightarrow> if late ''manifest_hash'' then Some ''manifest_hash''
                       else if late ''atpg_view_schema_ver'' then Some ''atpg_view_schema_ver'' else None))"

definition insert_campaign :: "string \<Rightarrow> jobj \<Rightarrow> int dbm" where
  "insert_campaign campaign_type cols db =
     (if campaign_type \<notin> set CAMPAIGN_TYPES then (Inl (IntegrityError ''CHECK constraint failed''), db)
      else (Inr (campaigns_seq db + 1),
            db\<lparr>campaigns := campaigns db @ [\<lparr>c_id = campaigns_seq db + 1, c_type = campaign_type, c_columns = cols\<rparr>],
               campaigns_seq := campaigns_seq db + 1\<rparr>))"

definition ensure_campaign :: "string \<Rightarrow> jobj \<Rightarrow> int dbm" where
  "ensure_campaign campaign_type fp db =
     (case bind_res (require_v3_schema db) (\<lambda>_. bind_res (fingerprint_fields fp) (\<lambda>cols.
           bind_res (latest_campaign_id db campaign_type) (\<lambda>existing. Inr (cols, existing)))) of
        Inl e \<Rightarrow> (Inl e, db)
      | Inr (cols, None) \<Rightarrow> insert_campaign campaign_type cols db
      | Inr (cols, Some existing) \<Rightarrow>
          (bind_res (campaign_fingerprint_row db existing) (\<lambda>row. case row of
               None \<Rightarrow> Inl (SchemaError ''campaign row missing'')
             | Some stored \<Rightarrow> bind_res (fingerprint_mismatch_field (c_columns stored) fp) (\<lambda>mismatch. case mismatch of
                 Some field \<Rightarrow> Inl (SchemaError (''Fingerprint field '' @ repr_str field @ '' changed. Re-run with --clean.''))
               | None \<Rightarrow> Inr existing)), db))"

section \<open>Candidates\<close>

record CandidateCommit =
  cm_status :: string
  cm_vector_index :: int
  cm_accepted_vector_id :: "int option"
  cm_detections :: "int list"
  cm_protocol_sim_rejections :: "(int \<times> string) list"
  cm_blocked_patterns :: "(int \<times> string) list"
  cm_reduced_view_rejections :: "(int \<times> string) list"

definition load_blocked_patterns :: "campaign_db \<Rightarrow> int \<Rightarrow> (int \<times> string list) list" where
  "load_blocked_patterns db campaign_id =
     fold (\<lambda>b d. dict_set d (bl_fault_id b) (List.insert (bl_pattern b) (get_or d (bl_fault_id b) [])))
       (filter (\<lambda>b. bl_campaign_id b = campaign_id) (blocked db)) []"

definition insert_pending_candidate :: "int \<Rightarrow> int \<Rightarrow> int \<Rightarrow> string \<Rightarrow> string \<Rightarrow> int option \<Rightarrow> unit dbm" where
  "insert_pending_candidate campaign_id run_id candidate_id pattern source target db =
     (if (campaign_id, run_id, candidate_id) \<in> candidate_key ` set (candidates db)
      then (Inl (IntegrityError ''UNIQUE constraint failed''), db)
      else if campaign_id \<notin> campaign_keys db \<or> run_id \<notin> run_keys db
      then (Inl (IntegrityError ''FOREIGN KEY constraint failed''), db)
      else (Inr (), db\<lparr>candidates := candidates db @
        [\<lparr>cd_campaign_id = campaign_id, cd_run_id = run_id, cd_candidate_id = candidate_id, cd_pattern = pattern,
          cd_source = source, cd_status = ''pending'', cd_target = target, cd_accepted_vector = None\<rparr>]\<rparr>))"

definition mark_detected :: "int \<Rightarrow> int \<Rightarrow> campaign_db \<Rightarrow> campaign_db" where
  "mark_detected campaign_id fault_id db =
     db\<lparr>faults := map (\<lambda>f. if f_id f = fault_id \<and> f_campaign_id f = campaign_id
        then f\<lparr>f_status := ''detected'', f_protocol_unresolved := 0\<rparr> else f) (faults db)\<rparr>"

definition insert_detection :: "int \<Rightarrow> int \<Rightarrow> int \<Rightarrow> int \<Rightarrow> unit dbm" where
  "insert_detection campaign_id run_id vector_index fault_id db =
     (if \<exists>d \<in> set (detections db). dt_fault_id d = fault_id \<and> dt_run_id d = run_id \<and> dt_vector_index d = vector_index
      then (Inr (), db)
      else if fault_id \<notin> fault_keys db \<or> campaign_id \<notin> campaign_keys db \<or> run_id \<notin> run_keys db
      then (Inl (IntegrityError ''FOREIGN KEY constraint failed''), db)
      else (Inr (), db\<lparr>detections := detections db @
        [\<lparr>dt_fault_id = fault_id, dt_campaign_id = campaign_id, dt_run_id = run_id, dt_vector_index = vector_index\<rparr>]\<rparr>))"

definition insert_rejection :: "int \<Rightarrow> int \<Rightarrow> int \<Rightarrow> int \<times> string \<Rightarrow> unit dbm" where
  "insert_rejection campaign_id run_id candidate_id rej db =
     (if \<exists>r \<in> set (rejections db). rejection_key r = (campaign_id, run_id, candidate_id) \<and> rj_fault_id r = fst rej
      then (Inl (IntegrityError ''UNIQUE constraint failed''), db)
      else if (campaign_id, run_id, candidate_id) \<notin> candidate_key ` set (candidates db) \<or> fst rej \<notin> fault_keys db
      then (Inl (IntegrityError ''FOREIGN KEY constraint failed''), db)
      else (Inr (), db\<lparr>rejections := rejections db @
        [\<lparr>rj_campaign_id = campaign_id, rj_run_id = run_id, rj_candidate_id = candidate_id,
          rj_fault_id = fst rej, rj_reason = snd rej\<rparr>]\<rparr>))"

definition insert_blocked :: "int \<Rightarrow> int \<times> string \<Rightarrow> unit dbm" where
  "insert_blocked campaign_id fp db =
     (if \<exists>b \<in> set (blocked db). bl_campaign_id b = campaign_id \<and> bl_fault_id b = fst fp \<and> bl_pattern b = snd fp
      then (Inr (), db)
      else if fst fp \<notin> fault_keys db \<or> campaign_id \<notin> campaign_keys db
      then (Inl (IntegrityError ''FOREIGN KEY constraint failed''), db)
      else (Inr (), db\<lparr>blocked := blocked db @ [\<lparr>bl_campaign_id = campaign_id, bl_fault_id = fst fp, bl_pattern = snd fp\<rparr>]\<rparr>))"

definition update_candidate :: "int \<Rightarrow> int \<Rightarrow> int \<Rightarrow> string \<Rightarrow> int option \<Rightarrow> unit dbm" where
  "update_candidate campaign_id run_id candidate_id status accepted db =
     (let key = (campaign_id, run_id, candidate_id)
      in if key \<in> candidate_key ` set (candidates db) \<and>
            (case accepted of None \<Rightarrow> False
             | Some v \<Rightarrow> (campaign_id, v) \<notin> (\<lambda>v. (v_campaign_id v, v_id v)) ` set (vectors_table db))
         then (Inl (IntegrityError ''FOREIGN KEY constraint failed''), db)
         else (Inr (), db\<lparr>candidates := map (\<lambda>c. if candidate_key c = key
            then c\<lparr>cd_status := status, cd_accepted_vector := accepted\<rparr> else c) (candidates db)\<rparr>))"

definition apply_candidate_commit :: "int \<Rightarrow> int \<Rightarrow> int \<Rightarrow> CandidateCommit \<Rightarrow> unit dbm" where
  "apply_candidate_commit campaign_id run_id candidate_id commit =
     bind_db (each_db (\<lambda>fault_id. bind_db (modify_db (mark_detected campaign_id fault_id))
         (\<lambda>_. insert_detection campaign_id run_id (cm_vector_index commit) fault_id)) (cm_detections commit)) (\<lambda>_.
     bind_db (each_db (insert_rejection campaign_id run_id candidate_id)
         (cm_reduced_view_rejections commit @ cm_protocol_sim_rejections commit)) (\<lambda>_.
     bind_db (each_db (insert_blocked campaign_id) (cm_blocked_patterns commit)) (\<lambda>_.
     update_candidate campaign_id run_id candidate_id (cm_status commit) (cm_accepted_vector_id commit))))"

text \<open>Inside a transaction the caller decides; outside, an exception rolls everything back.\<close>

definition commit_candidate :: "bool \<Rightarrow> int \<Rightarrow> int \<Rightarrow> int \<Rightarrow> CandidateCommit \<Rightarrow> unit dbm" where
  "commit_candidate in_transaction campaign_id run_id candidate_id commit db =
     (let r = apply_candidate_commit campaign_id run_id candidate_id commit db
      in if in_transaction then r
         else (case fst r of Inl e \<Rightarrow> (Inl e, db) | Inr u \<Rightarrow> r))"

definition append_vector_row :: "int \<Rightarrow> int \<Rightarrow> string \<Rightarrow> int \<Rightarrow> string \<Rightarrow> string \<Rightarrow> int dbm" where
  "append_vector_row campaign_id run_id source vector_index pattern launch_pattern db =
     (if \<exists>v \<in> set (vectors_table db). v_campaign_id v = campaign_id \<and> v_run_id v = run_id \<and> v_vector_index v = vector_index
      then (Inl (IntegrityError ''UNIQUE constraint failed''), db)
      else if campaign_id \<notin> campaign_keys db \<or> run_id \<notin> run_keys db
      then (Inl (IntegrityError ''FOREIGN KEY constraint failed''), db)
      else (Inr (vectors_seq db + 1),
            db\<lparr>vectors_table := vectors_table db @
                 [\<lparr>v_id = vectors_seq db + 1, v_campaign_id = campaign_id, v_run_id = run_id, v_source = source,
                   v_vector_index = vector_index, v_pattern = pattern, v_launch_pattern = launch_pattern\<rparr>],
               vectors_seq := vectors_seq db + 1\<rparr>))"

definition abort_pending_candidates :: "int \<Rightarrow> int dbm" where
  "abort_pending_candidates campaign_id db =
     (case require_v3_schema db of
        Inl e \<Rightarrow> (Inl e, db)
      | Inr _ \<Rightarrow>
          (let pending = (\<lambda>c. cd_campaign_id c = campaign_id \<and> cd_status c = ''pending'')
           in (Inr (int (length (filter pending (candidates db)))),
               db\<lparr>candidates := map (\<lambda>c. if pending c then c\<lparr>cd_status := ''aborted''\<rparr> else c) (candidates db)\<rparr>)))"

section \<open>Coverage\<close>

text \<open>The counts of \<^verbatim>\<open>summary\<close>. A percentage is kept as its numerator and denominator; \<^verbatim>\<open>None\<close> when there is
  nothing to divide by.\<close>

record campaign_summary =
  total_raw_faults :: int
  structural_eligible :: int
  denominator :: int
  detected :: int
  undetected :: int
  redundant :: int
  collapsed :: int
  excluded_by :: "int dict"
  protocol_unresolved :: int
  fault_coverage_percent :: "(int \<times> int) option"
  test_coverage_percent :: "(int \<times> int) option"

definition count_if :: "('a \<Rightarrow> bool) \<Rightarrow> 'a list \<Rightarrow> int" where
  "count_if p xs = int (length (filter p xs))"

definition eligible_fault :: "fault_row \<Rightarrow> bool" where
  "eligible_fault f = (f_exclusion f = ''none'' \<and> f_collapsed_into f = None)"

definition percent :: "int \<Rightarrow> int \<Rightarrow> (int \<times> int) option" where
  "percent part whole = (if whole = 0 then None else Some (100 * part, whole))"

text \<open>The schema is current (\<^verbatim>\<open>_schema_is_current\<close>), so that the tables exist and nothing is migrated. The rows counted: those of the campaign, or of the latest campaign of any type, or none.\<close>

definition summary_rows :: "campaign_db \<Rightarrow> int option \<Rightarrow> fault_row list" where
  "summary_rows db campaign_id =
     (case (campaign_id, rev (sort (map c_id (campaigns db)))) of
        (Some c, _) \<Rightarrow> filter (\<lambda>f. f_campaign_id f = c) (faults db)
      | (None, c # _) \<Rightarrow> filter (\<lambda>f. f_campaign_id f = c) (faults db)
      | (None, []) \<Rightarrow> [])"

definition summary :: "campaign_db \<Rightarrow> int option \<Rightarrow> campaign_summary" where
  "summary db campaign_id =
     (let rows = summary_rows db campaign_id;
          structural = count_if eligible_fault rows;
          denom = count_if (\<lambda>f. eligible_fault f \<and> f_status f \<noteq> ''redundant'') rows;
          det = count_if (\<lambda>f. f_status f = ''detected'' \<and> eligible_fault f) rows;
          excluded = (\<lambda>names. count_if (\<lambda>f. f_exclusion f \<in> set names) rows)
      in \<lparr>total_raw_faults = int (length rows), structural_eligible = structural, denominator = denom, detected = det,
          undetected = count_if (\<lambda>f. f_status f = ''undetected'' \<and> eligible_fault f) rows,
          redundant = count_if (\<lambda>f. f_status f = ''redundant'' \<and> eligible_fault f) rows,
          collapsed = count_if (\<lambda>f. f_collapsed_into f \<noteq> None) rows,
          excluded_by = [(''excluded_blackbox'', excluded [''blackbox'']), (''excluded_clock'', excluded [''clock'']),
            (''excluded_reset'', excluded [''reset'']), (''excluded_scan'', excluded [''scan'', ''scan_internal'', ''scan_chain'']),
            (''excluded_scan_internal'', excluded [''scan_internal'']), (''excluded_scan_chain'', excluded [''scan_chain'']),
            (''excluded_cross_domain'', excluded [''cross_domain'']), (''excluded_wbr_decoupled'', excluded [''wbr_decoupled''])],
          protocol_unresolved = count_if (\<lambda>f. f_protocol_unresolved f = 1 \<and> eligible_fault f \<and> f_status f \<noteq> ''detected'') rows,
          fault_coverage_percent = percent det structural, test_coverage_percent = percent det denom\<rparr>)"

end
