(* ===== verification/Candidates_Props.thy ===== *)
theory Candidates_Props
  imports Candidates
begin

text \<open>
  What the campaign database guarantees. The keys of the schema hold in every database the modelled statements can
  reach; committing a candidate has exactly its effect or, outside a transaction, none; a campaign is
  reopened only under the fingerprint it was created with; the coverage counts add up.
\<close>

section \<open>Invariants of a commit\<close>

text \<open>An invariant that each statement of a commit keeps, kept by the whole commit.\<close>

locale db_invariant =
  fixes I :: "campaign_db \<Rightarrow> bool"
  assumes mark: "I db \<Longrightarrow> I (mark_detected c f db)"
    and detection: "I db \<Longrightarrow> I (snd (insert_detection c r k f db))"
    and rejection: "I db \<Longrightarrow> I (snd (insert_rejection c r n rej db))"
    and blocking: "I db \<Longrightarrow> I (snd (insert_blocked c fp db))"
    and candidate: "I db \<Longrightarrow> I (snd (update_candidate c r n status accepted db))"
begin

lemma bind_inv:
  assumes "\<And>db. I db \<Longrightarrow> I (snd (m db))" and "\<And>x db. I db \<Longrightarrow> I (snd (f x db))" and "I db"
  shows "I (snd (bind_db m f db))"
proof (cases "m db")
  case (Pair res db')
  then have "I db'" using assms(1) [OF assms(3)] by simp
  with Pair assms(2) show ?thesis by (cases res) (simp_all add: bind_db_def)
qed

lemma each_inv: "(\<And>x db. I db \<Longrightarrow> I (snd (f x db))) \<Longrightarrow> I db \<Longrightarrow> I (snd (each_db f xs db))"
  by (induction xs arbitrary: db) (simp_all add: bind_inv)

lemma apply_inv: "I db \<Longrightarrow> I (snd (apply_candidate_commit c r n commit db))"
  unfolding apply_candidate_commit_def
  by (intro bind_inv each_inv; (assumption | simp add: modify_db_def mark detection rejection blocking candidate))

lemma commit_inv: "I db \<Longrightarrow> I (snd (commit_candidate tx c r n commit db))"
  using apply_inv [of db c r n commit] by (auto simp: commit_candidate_def Let_def split: sum.splits)

end

text \<open>A fault once detected stays detected.\<close>

definition fault_detected :: "int \<Rightarrow> campaign_db \<Rightarrow> bool" where
  "fault_detected i db = (\<exists>f \<in> set (faults db). f_id f = i \<and> f_status f = ''detected'')"

lemma fault_detected_mark:
  assumes "fault_detected i db"
  shows "fault_detected i (mark_detected c f db)"
proof -
  let ?g = "\<lambda>x. if f_id x = f \<and> f_campaign_id x = c then x\<lparr>f_status := ''detected'', f_protocol_unresolved := 0\<rparr> else x"
  from assms obtain x where x: "x \<in> set (faults db)" "f_id x = i" "f_status x = ''detected''" by (auto simp: fault_detected_def)
  then have "?g x \<in> set (faults (mark_detected c f db))" "f_id (?g x) = i" "f_status (?g x) = ''detected''"
    by (auto simp: mark_detected_def)
  then show ?thesis unfolding fault_detected_def by blast
qed

interpretation stays_detected: db_invariant "fault_detected i" for i
  by unfold_locales
    (auto simp: fault_detected_mark, auto simp: fault_detected_def mark_detected_def insert_detection_def insert_rejection_def insert_blocked_def update_candidate_def Let_def)

section \<open>The keys\<close>

lemmas wf_tables_defs = wf_campaigns_def wf_faults_def wf_runs_def wf_vectors_def wf_detections_def wf_candidates_def
  wf_rejections_def wf_blocked_def

text \<open>A table's keys do not depend on the other tables.\<close>

lemma wf_updates [simp]:
  "wf_campaigns (db\<lparr>detections := t0\<rparr>) = wf_campaigns db"
  "wf_faults (db\<lparr>detections := t0\<rparr>) = wf_faults db"
  "wf_runs (db\<lparr>detections := t0\<rparr>) = wf_runs db"
  "wf_vectors (db\<lparr>detections := t0\<rparr>) = wf_vectors db"
  "wf_candidates (db\<lparr>detections := t0\<rparr>) = wf_candidates db"
  "wf_rejections (db\<lparr>detections := t0\<rparr>) = wf_rejections db"
  "wf_blocked (db\<lparr>detections := t0\<rparr>) = wf_blocked db"
  "wf_campaigns (db\<lparr>rejections := t1\<rparr>) = wf_campaigns db"
  "wf_faults (db\<lparr>rejections := t1\<rparr>) = wf_faults db"
  "wf_runs (db\<lparr>rejections := t1\<rparr>) = wf_runs db"
  "wf_vectors (db\<lparr>rejections := t1\<rparr>) = wf_vectors db"
  "wf_detections (db\<lparr>rejections := t1\<rparr>) = wf_detections db"
  "wf_candidates (db\<lparr>rejections := t1\<rparr>) = wf_candidates db"
  "wf_blocked (db\<lparr>rejections := t1\<rparr>) = wf_blocked db"
  "wf_campaigns (db\<lparr>blocked := t2\<rparr>) = wf_campaigns db"
  "wf_faults (db\<lparr>blocked := t2\<rparr>) = wf_faults db"
  "wf_runs (db\<lparr>blocked := t2\<rparr>) = wf_runs db"
  "wf_vectors (db\<lparr>blocked := t2\<rparr>) = wf_vectors db"
  "wf_detections (db\<lparr>blocked := t2\<rparr>) = wf_detections db"
  "wf_candidates (db\<lparr>blocked := t2\<rparr>) = wf_candidates db"
  "wf_rejections (db\<lparr>blocked := t2\<rparr>) = wf_rejections db"
  "wf_campaigns (db\<lparr>candidates := t3\<rparr>) = wf_campaigns db"
  "wf_faults (db\<lparr>candidates := t3\<rparr>) = wf_faults db"
  "wf_runs (db\<lparr>candidates := t3\<rparr>) = wf_runs db"
  "wf_vectors (db\<lparr>candidates := t3\<rparr>) = wf_vectors db"
  "wf_detections (db\<lparr>candidates := t3\<rparr>) = wf_detections db"
  "wf_blocked (db\<lparr>candidates := t3\<rparr>) = wf_blocked db"
  "wf_campaigns (db\<lparr>faults := t4\<rparr>) = wf_campaigns db"
  "wf_runs (db\<lparr>faults := t4\<rparr>) = wf_runs db"
  "wf_vectors (db\<lparr>faults := t4\<rparr>) = wf_vectors db"
  "wf_candidates (db\<lparr>faults := t4\<rparr>) = wf_candidates db"
  "wf_campaigns (db\<lparr>vectors_table := t5, vectors_seq := n\<rparr>) = wf_campaigns db"
  "wf_faults (db\<lparr>vectors_table := t5, vectors_seq := n\<rparr>) = wf_faults db"
  "wf_runs (db\<lparr>vectors_table := t5, vectors_seq := n\<rparr>) = wf_runs db"
  "wf_detections (db\<lparr>vectors_table := t5, vectors_seq := n\<rparr>) = wf_detections db"
  "wf_rejections (db\<lparr>vectors_table := t5, vectors_seq := n\<rparr>) = wf_rejections db"
  "wf_blocked (db\<lparr>vectors_table := t5, vectors_seq := n\<rparr>) = wf_blocked db"
  "wf_rejections (db\<lparr>campaigns := t6, campaigns_seq := n\<rparr>) = wf_rejections db"
  "wf_campaigns (db\<lparr>runs := t7, runs_seq := n\<rparr>) = wf_campaigns db"
  "wf_faults (db\<lparr>runs := t7, runs_seq := n\<rparr>) = wf_faults db"
  "wf_rejections (db\<lparr>runs := t7, runs_seq := n\<rparr>) = wf_rejections db"
  "wf_blocked (db\<lparr>runs := t7, runs_seq := n\<rparr>) = wf_blocked db"
  by (simp_all add: wf_tables_defs cong: option.case_cong)

lemma wf_map_faults:
  assumes "wf_db db" and g: "\<And>x. f_id (g x) = f_id x" "\<And>x. f_campaign_id (g x) = f_campaign_id x"
    "\<And>x. f_site_key (g x) = f_site_key x" "\<And>x. f_fault_type (g x) = f_fault_type x"
  shows "wf_db (db\<lparr>faults := map g (faults db)\<rparr>)"
proof -
  have keys: "f_id ` g ` A = f_id ` A" for A by (simp add: image_image g)
  have "wf_faults (db\<lparr>faults := map g (faults db)\<rparr>)" using assms(1) by (auto simp: wf_db_def wf_faults_def g comp_def)
  moreover have "wf_detections (db\<lparr>faults := map g (faults db)\<rparr>)" "wf_rejections (db\<lparr>faults := map g (faults db)\<rparr>)"
    "wf_blocked (db\<lparr>faults := map g (faults db)\<rparr>)"
    using assms(1) by (simp_all add: wf_db_def wf_detections_def wf_rejections_def wf_blocked_def keys)
  ultimately show ?thesis using assms(1) by (simp add: wf_db_def)
qed

lemma wf_mark_detected: "wf_db db \<Longrightarrow> wf_db (mark_detected c f db)"
  unfolding mark_detected_def by (rule wf_map_faults) simp_all

lemma wf_insert_detection: "wf_db db \<Longrightarrow> wf_db (snd (insert_detection c r k f db))"
  by (auto simp: wf_db_def insert_detection_def, auto simp: wf_detections_def)

lemma wf_insert_rejection: "wf_db db \<Longrightarrow> wf_db (snd (insert_rejection c r n rej db))"
  by (auto simp: wf_db_def insert_rejection_def, auto simp: wf_rejections_def rejection_key_def)

lemma wf_insert_blocked: "wf_db db \<Longrightarrow> wf_db (snd (insert_blocked c fp db))"
  by (auto simp: wf_db_def insert_blocked_def, auto simp: wf_blocked_def)

lemma candidate_key_update: "candidate_key (c\<lparr>cd_status := s\<rparr>) = candidate_key c"
  "candidate_key (c\<lparr>cd_status := s, cd_accepted_vector := a\<rparr>) = candidate_key c"
  by (simp_all add: candidate_key_def)

lemma wf_map_candidates:
  assumes "wf_db db" and key: "\<And>c. candidate_key (g c) = candidate_key c"
    and vec: "\<And>c v. c \<in> set (candidates db) \<Longrightarrow> cd_accepted_vector (g c) = Some v \<Longrightarrow>
      cd_accepted_vector c = Some v \<or> (cd_campaign_id c, v) \<in> (\<lambda>v. (v_campaign_id v, v_id v)) ` set (vectors_table db)"
  shows "wf_db (db\<lparr>candidates := map g (candidates db)\<rparr>)"
proof -
  have same: "cd_run_id (g c) = cd_run_id c" "cd_campaign_id (g c) = cd_campaign_id c" for c
    using key [of c] by (simp_all add: candidate_key_def)
  have c: "wf_candidates db" and r: "wf_rejections db" using assms(1) by (simp_all add: wf_db_def)
  have keys: "distinct (map candidate_key (map g (candidates db)))" "candidate_key ` set (map g (candidates db)) = candidate_key ` set (candidates db)"
    using c by (simp_all add: wf_candidates_def comp_def image_image key)
  have "wf_candidates (db\<lparr>candidates := map g (candidates db)\<rparr>)"
    unfolding wf_candidates_def
  proof (intro conjI ballI)
    show "distinct (map candidate_key (candidates (db\<lparr>candidates := map g (candidates db)\<rparr>)))" using keys(1) by simp
    fix x assume "x \<in> set (candidates (db\<lparr>candidates := map g (candidates db)\<rparr>))"
    then obtain d where d: "d \<in> set (candidates db)" "x = g d" by auto
    with c have old: "cd_run_id d \<in> run_keys db" "cd_campaign_id d \<in> campaign_keys db"
      "\<And>v. cd_accepted_vector d = Some v \<Longrightarrow> (cd_campaign_id d, v) \<in> (\<lambda>v. (v_campaign_id v, v_id v)) ` set (vectors_table db)"
      unfolding wf_candidates_def by (force split: option.splits)+
    then show "cd_run_id x \<in> run_keys (db\<lparr>candidates := map g (candidates db)\<rparr>)"
      "cd_campaign_id x \<in> campaign_keys (db\<lparr>candidates := map g (candidates db)\<rparr>)" using same d by simp_all
    show "case cd_accepted_vector x of None \<Rightarrow> True
      | Some v \<Rightarrow> (cd_campaign_id x, v) \<in> (\<lambda>v. (v_campaign_id v, v_id v)) ` set (vectors_table (db\<lparr>candidates := map g (candidates db)\<rparr>))"
      using old(3) vec [OF d(1)] same d(2) by (auto split: option.splits)
  qed
  moreover have "wf_rejections (db\<lparr>candidates := map g (candidates db)\<rparr>)" using r keys(2) by (simp add: wf_rejections_def)
  ultimately show ?thesis using assms(1) by (simp add: wf_db_def)
qed

lemma wf_update_candidate: "wf_db db \<Longrightarrow> wf_db (snd (update_candidate c r n status accepted db))"
proof (cases "(c, r, n) \<in> candidate_key ` set (candidates db) \<and>
            (case accepted of None \<Rightarrow> False
             | Some v \<Rightarrow> (c, v) \<notin> (\<lambda>v. (v_campaign_id v, v_id v)) ` set (vectors_table db))")
  case False
  assume wf: "wf_db db"
  let ?g = "\<lambda>x. if candidate_key x = (c, r, n) then x\<lparr>cd_status := status, cd_accepted_vector := accepted\<rparr> else x"
  have "wf_db (db\<lparr>candidates := map ?g (candidates db)\<rparr>)"
  proof (rule wf_map_candidates [OF wf])
    fix x v assume x: "x \<in> set (candidates db)" "cd_accepted_vector (?g x) = Some v"
    show "cd_accepted_vector x = Some v \<or> (cd_campaign_id x, v) \<in> (\<lambda>v. (v_campaign_id v, v_id v)) ` set (vectors_table db)"
    proof (cases "candidate_key x = (c, r, n)")
      case True
      then have "(c, r, n) \<in> candidate_key ` set (candidates db)" "accepted = Some v" "cd_campaign_id x = c"
        using x by (force, auto simp: candidate_key_def)
      with False show ?thesis by auto
    qed (use x in simp)
  qed (simp add: candidate_key_update)
  then show ?thesis using False by (auto simp: update_candidate_def Let_def)
qed (auto simp: update_candidate_def Let_def)

interpretation keys: db_invariant wf_db
  by unfold_locales (simp_all add: wf_mark_detected wf_insert_detection wf_insert_rejection wf_insert_blocked wf_update_candidate)

section \<open>Reachable databases\<close>

definition empty_db :: campaign_db where
  "empty_db = \<lparr>user_version = EXPECTED_USER_VERSION, campaigns = [], campaigns_seq = 0, faults = [], runs = [], runs_seq = 0,
     vectors_table = [], vectors_seq = 0, detections = [], candidates = [], rejections = [], blocked = []\<rparr>"

text \<open>A run row as the runner and the compaction insert it, and fault rows as the core loads them. The schema rejects
  rows that repeat a key.\<close>

definition insert_run :: "run_row \<Rightarrow> campaign_db \<Rightarrow> campaign_db" where
  "insert_run row db = (if r_campaign_id row \<in> campaign_keys db \<and> 0 \<le> runs_seq db
     then db\<lparr>runs := runs db @ [row\<lparr>r_id := runs_seq db + 1\<rparr>], runs_seq := runs_seq db + 1\<rparr> else db)"

definition load_fault :: "fault_row \<Rightarrow> campaign_db \<Rightarrow> campaign_db" where
  "load_fault row db = (if f_campaign_id row \<in> campaign_keys db \<and> f_id row \<notin> fault_keys db \<and>
       (f_campaign_id row, f_site_key row, f_fault_type row) \<notin> (\<lambda>f. (f_campaign_id f, f_site_key f, f_fault_type f)) ` set (faults db)
     then db\<lparr>faults := faults db @ [row]\<rparr> else db)"

inductive reachable_db :: "campaign_db \<Rightarrow> bool" where
  empty: "reachable_db empty_db"
| campaign: "reachable_db db \<Longrightarrow> reachable_db (snd (ensure_campaign campaign_type fp db))"
| run: "reachable_db db \<Longrightarrow> reachable_db (insert_run row db)"
| fault: "reachable_db db \<Longrightarrow> reachable_db (load_fault frow db)"
| pending: "reachable_db db \<Longrightarrow> reachable_db (snd (insert_pending_candidate c r n pattern source target db))"
| commit: "reachable_db db \<Longrightarrow> reachable_db (snd (commit_candidate tx c r n cm db))"
| vector: "reachable_db db \<Longrightarrow> reachable_db (snd (append_vector_row c r source k pattern launch db))"
| vectors: "reachable_db db \<Longrightarrow> append_vectors db c r source patterns k launches = Inr db' \<Longrightarrow> reachable_db db'"
| abort: "reachable_db db \<Longrightarrow> reachable_db (snd (abort_pending_candidates c db))"

lemma wf_more_campaigns:
  assumes "wf_db db" and "campaigns_seq db \<le> n" and "\<forall>c \<in> set new. campaigns_seq db < c_id c \<and> c_id c \<le> n" and "distinct (map c_id new)"
  shows "wf_db (db\<lparr>campaigns := campaigns db @ new, campaigns_seq := n\<rparr>)"
proof -
  have "wf_campaigns (db\<lparr>campaigns := campaigns db @ new, campaigns_seq := n\<rparr>)"
    using assms by (fastforce simp: wf_db_def wf_campaigns_def)
  moreover have "wf_candidates (db\<lparr>campaigns := campaigns db @ new, campaigns_seq := n\<rparr>)"
    using assms(1) unfolding wf_db_def wf_candidates_def by (simp cong: option.case_cong) blast
  ultimately show ?thesis
    using assms(1) by (simp add: wf_db_def) (simp add: wf_faults_def wf_runs_def wf_vectors_def wf_detections_def wf_blocked_def image_Un)
qed

lemma wf_more_runs:
  assumes "wf_db db" and "runs_seq db < n" "0 < n" and "r_id row = n" "r_campaign_id row \<in> campaign_keys db"
  shows "wf_db (db\<lparr>runs := runs db @ [row], runs_seq := n\<rparr>)"
proof -
  have "wf_runs (db\<lparr>runs := runs db @ [row], runs_seq := n\<rparr>)" using assms by (fastforce simp: wf_db_def wf_runs_def)
  moreover have "wf_candidates (db\<lparr>runs := runs db @ [row], runs_seq := n\<rparr>)"
    using assms(1) unfolding wf_db_def wf_candidates_def by (simp cong: option.case_cong)
  ultimately show ?thesis using assms(1) by (simp add: wf_db_def) (simp add: wf_vectors_def wf_detections_def)
qed

lemma wf_more_vectors:
  assumes "wf_db db" and "vectors_seq db \<le> n" and "distinct (map v_id new)" "\<forall>v \<in> set new. vectors_seq db < v_id v \<and> v_id v \<le> n"
    and "\<forall>v \<in> set new. v_campaign_id v \<in> campaign_keys db \<and> v_run_id v \<in> run_keys db"
    and "distinct (map (\<lambda>v. (v_campaign_id v, v_run_id v, v_vector_index v)) (vectors_table db @ new))"
  shows "wf_db (db\<lparr>vectors_table := vectors_table db @ new, vectors_seq := n\<rparr>)"
proof -
  have "wf_vectors (db\<lparr>vectors_table := vectors_table db @ new, vectors_seq := n\<rparr>)"
    using assms by (fastforce simp: wf_db_def wf_vectors_def)
  moreover have "wf_candidates (db\<lparr>vectors_table := vectors_table db @ new, vectors_seq := n\<rparr>)"
    using assms(1) unfolding wf_db_def wf_candidates_def by (auto simp: image_Un cong: option.case_cong split: option.splits)
  ultimately show ?thesis using assms(1) by (simp add: wf_db_def)
qed

lemma wf_more_candidates:
  assumes "wf_db db" and "candidate_key row \<notin> candidate_key ` set (candidates db)" and "cd_campaign_id row \<in> campaign_keys db"
    "cd_run_id row \<in> run_keys db" "cd_accepted_vector row = None"
  shows "wf_db (db\<lparr>candidates := candidates db @ [row]\<rparr>)"
proof -
  have "wf_candidates (db\<lparr>candidates := candidates db @ [row]\<rparr>)"
    using assms unfolding wf_db_def wf_candidates_def by (auto cong: option.case_cong)
  moreover have "wf_rejections (db\<lparr>candidates := candidates db @ [row]\<rparr>)" using assms(1) by (simp add: wf_db_def wf_rejections_def)
  ultimately show ?thesis using assms(1) by (simp add: wf_db_def)
qed

lemma wf_more_faults:
  assumes "wf_db db" and "f_id row \<notin> fault_keys db" and "f_campaign_id row \<in> campaign_keys db"
    and "(f_campaign_id row, f_site_key row, f_fault_type row) \<notin> (\<lambda>f. (f_campaign_id f, f_site_key f, f_fault_type f)) ` set (faults db)"
  shows "wf_db (db\<lparr>faults := faults db @ [row]\<rparr>)"
  using assms by (simp add: wf_db_def) (simp add: wf_faults_def wf_detections_def wf_rejections_def wf_blocked_def)

lemma wf_ensure_campaign:
  assumes "wf_db db"
  shows "wf_db (snd (ensure_campaign t fp db))"
proof -
  have "wf_db (snd (insert_campaign t cols db))" for cols
    using wf_more_campaigns [OF assms, of "campaigns_seq db + 1"] assms by (simp add: insert_campaign_def)
  then show ?thesis using assms by (auto simp: ensure_campaign_def split: sum.splits option.splits)
qed

lemma append_vectors_cases:
  assumes "append_vectors db c r source patterns k launches = Inr db'"
  obtains "db' = db" | "c \<in> campaign_keys db" "r \<in> run_keys db"
    "\<forall>v \<in> set (vectors_table db). v_campaign_id v = c \<and> v_run_id v = r \<longrightarrow>
       v_vector_index v \<notin> v_vector_index ` set (new_vector_rows (vectors_seq db) c r source patterns k launches)"
    "db' = db\<lparr>vectors_table := vectors_table db @ new_vector_rows (vectors_seq db) c r source patterns k launches,
       vectors_seq := vectors_seq db + int (length patterns)\<rparr>"
proof (cases "patterns = []")
  case True
  then show ?thesis using assms that(1) by (simp add: append_vectors_def)
next
  case False
  let ?new = "new_vector_rows (vectors_seq db) c r source patterns k launches"
  from False assms have "\<not> (r \<notin> run_keys db \<or> c \<notin> campaign_keys db)"
    "\<not> list_ex (\<lambda>v. v_campaign_id v = c \<and> v_run_id v = r \<and> v_vector_index v \<in> v_vector_index ` set ?new) (vectors_table db)"
    "db' = db\<lparr>vectors_table := vectors_table db @ ?new, vectors_seq := vectors_seq db + int (length patterns)\<rparr>"
    by (simp_all only: append_vectors_def Let_def if_raise_eq_Inr length_new_vector_rows if_False simp_thms sum.inject)
  then show ?thesis using that(2) unfolding list_ex_iff by blast
qed

lemma wf_append_vectors:
  assumes "wf_db db" and "append_vectors db c r source patterns k launches = Inr db'"
  shows "wf_db db'"
  using assms(2)
proof (cases rule: append_vectors_cases)
  case 2
  let ?new = "new_vector_rows (vectors_seq db) c r source patterns k launches"
  have new: "\<forall>v \<in> set ?new. v_campaign_id v = c \<and> v_run_id v = r \<and> vectors_seq db < v_id v \<and> v_id v \<le> vectors_seq db + int (length patterns)"
    "distinct (map v_id ?new)" "distinct (map (\<lambda>v. (v_campaign_id v, v_run_id v, v_vector_index v)) ?new)"
    by (auto simp: new_vector_rows_def comp_def distinct_map inj_on_def)
  have old: "distinct (map (\<lambda>v. (v_campaign_id v, v_run_id v, v_vector_index v)) (vectors_table db))"
    using assms(1) by (simp add: wf_db_def wf_vectors_def)
  have "wf_db (db\<lparr>vectors_table := vectors_table db @ ?new, vectors_seq := vectors_seq db + int (length patterns)\<rparr>)"
  proof (rule wf_more_vectors [OF assms(1)])
    have "(v_campaign_id v, v_run_id v, v_vector_index v) \<noteq> (v_campaign_id w, v_run_id w, v_vector_index w)"
      if "v \<in> set (vectors_table db)" "w \<in> set ?new" for v w using 2(3) new(1) that by auto
    then show "distinct (map (\<lambda>v. (v_campaign_id v, v_run_id v, v_vector_index v)) (vectors_table db @ ?new))"
      using old new(3) by fastforce
  qed (use new 2 in auto)
  with 2(4) show ?thesis by simp
qed (use assms in simp)

lemma reachable_db_keys: "reachable_db db \<Longrightarrow> wf_db db"
proof (induction rule: reachable_db.induct)
  case empty
  show ?case by (simp add: wf_db_def wf_tables_defs empty_db_def)
next
  case (campaign db t fp)
  show ?case by (rule wf_ensure_campaign [OF campaign.IH])
next
  case (run db row)
  then show ?case using wf_more_runs [OF run.IH, of "runs_seq db + 1"] by (simp add: insert_run_def)
next
  case (fault db frow)
  then show ?case using wf_more_faults [OF fault.IH] by (simp add: load_fault_def)
next
  case (pending db c r n pattern source target)
  then show ?case using wf_more_candidates [OF pending.IH] by (simp add: insert_pending_candidate_def candidate_key_def)
next
  case (commit db tx c r n cm)
  then show ?case by (simp add: keys.commit_inv)
next
  case (vector db c r source k pattern launch)
  note more = wf_more_vectors [OF vector.IH, of "vectors_seq db + 1"]
  have "distinct (map (\<lambda>v. (v_campaign_id v, v_run_id v, v_vector_index v)) (vectors_table db))"
    using vector.IH by (simp add: wf_db_def wf_vectors_def)
  then show ?case using vector.IH unfolding append_vector_row_def
    by (auto intro!: more) force
next
  case (vectors db c r source patterns k launches db')
  then show ?case using wf_append_vectors by blast
next
  case (abort db c)
  have "wf_db (db\<lparr>candidates := map (\<lambda>x. if cd_campaign_id x = c \<and> cd_status x = ''pending'' then x\<lparr>cd_status := ''aborted''\<rparr> else x) (candidates db)\<rparr>)"
    by (rule wf_map_candidates [OF abort.IH]) (auto simp: candidate_key_update split: if_splits)
  then show ?case using abort.IH by (auto simp: abort_pending_candidates_def Let_def split: sum.splits)
qed

section \<open>Committing a candidate\<close>

lemma bind_db_eq_Inr: "bind_db m f db = (Inr y, db') \<longleftrightarrow> (\<exists>x db1. m db = (Inr x, db1) \<and> f x db1 = (Inr y, db'))"
  by (auto simp: bind_db_def split: prod.splits sum.splits)

definition detection_key :: "detection_row \<Rightarrow> int \<times> int \<times> int" where
  "detection_key d = (dt_fault_id d, dt_run_id d, dt_vector_index d)"

definition detected_by :: "int \<Rightarrow> int set \<Rightarrow> fault_row \<Rightarrow> fault_row" where
  "detected_by c ids f = (if f_id f \<in> ids \<and> f_campaign_id f = c then f\<lparr>f_status := ''detected'', f_protocol_unresolved := 0\<rparr> else f)"

abbreviation rejected_key :: "rejection_row \<Rightarrow> (int \<times> int \<times> int) \<times> int \<times> string" where
  "rejected_key r \<equiv> (rejection_key r, rj_fault_id r, rj_reason r)"

abbreviation blocked_key :: "blocked_row \<Rightarrow> int \<times> int \<times> string" where
  "blocked_key b \<equiv> (bl_campaign_id b, bl_fault_id b, bl_pattern b)"

lemma f_id_detected_by [simp]: "f_id (detected_by c ids f) = f_id f"
  by (simp add: detected_by_def)

lemma each_detection:
  assumes "each_db (\<lambda>f. bind_db (modify_db (mark_detected c f)) (\<lambda>_. insert_detection c r k f)) fs db = (Inr u, db')"
  shows "\<exists>ds. db' = db\<lparr>faults := map (detected_by c (set fs)) (faults db), detections := ds\<rparr> \<and>
    detection_key ` set ds = detection_key ` set (detections db) \<union> (\<lambda>f. (f, r, k)) ` set fs"
  using assms
proof (induction fs arbitrary: db)
  case Nil
  have "detected_by c {} = (\<lambda>f. f)" by (auto simp: detected_by_def)
  then show ?case using Nil by (intro exI [of _ "detections db"]) simp
next
  case (Cons f fs)
  let ?m = "mark_detected c f db"
  from Cons.prems obtain db0 db1 where d0: "modify_db (mark_detected c f) db = (Inr (), db0)" "insert_detection c r k f db0 = (Inr (), db1)"
    and rest: "each_db (\<lambda>f. bind_db (modify_db (mark_detected c f)) (\<lambda>_. insert_detection c r k f)) fs db1 = (Inr u, db')"
    unfolding each_db.simps bind_db_eq_Inr by auto
  then have "insert_detection c r k f ?m = (Inr (), db1)" by (simp add: modify_db_def)
  moreover have "?m = db\<lparr>faults := map (detected_by c {f}) (faults db)\<rparr>" by (simp add: mark_detected_def detected_by_def)
  ultimately have ins: "insert_detection c r k f (db\<lparr>faults := map (detected_by c {f}) (faults db)\<rparr>) = (Inr (), db1)" by simp
  obtain ds1 where one: "db1 = db\<lparr>faults := map (detected_by c {f}) (faults db), detections := ds1\<rparr>"
    "detection_key ` set ds1 = insert (f, r, k) (detection_key ` set (detections db))"
  proof (cases "\<exists>d \<in> set (detections db). dt_fault_id d = f \<and> dt_run_id d = r \<and> dt_vector_index d = k")
    case True
    then have "(f, r, k) \<in> detection_key ` set (detections db)" by (force simp: detection_key_def)
    then show thesis using True ins by (intro that [of "detections db"]) (auto simp: insert_detection_def)
  next
    case False
    then have "db1 = db\<lparr>faults := map (detected_by c {f}) (faults db), detections := detections db @
        [\<lparr>dt_fault_id = f, dt_campaign_id = c, dt_run_id = r, dt_vector_index = k\<rparr>]\<rparr>"
      using ins unfolding insert_detection_def by (auto split: if_splits)
    then show thesis by (intro that [of "detections db1"]) (simp_all add: detection_key_def)
  qed
  from Cons.IH [OF rest] obtain ds where ds: "db' = db1\<lparr>faults := map (detected_by c (set fs)) (faults db1), detections := ds\<rparr>"
    "detection_key ` set ds = detection_key ` set (detections db1) \<union> (\<lambda>f. (f, r, k)) ` set fs" by blast
  have "detected_by c (set fs) (detected_by c {f} x) = detected_by c (set (f # fs)) x" for x by (auto simp: detected_by_def)
  then have "map (detected_by c (set fs)) (map (detected_by c {f}) (faults db)) = map (detected_by c (set (f # fs))) (faults db)" by simp
  with one ds show ?case by (intro exI [of _ ds]) simp
qed

lemma each_rejection:
  assumes "each_db (insert_rejection c r n) rejs db = (Inr u, db')"
  shows "\<exists>rs. db' = db\<lparr>rejections := rs\<rparr> \<and>
    rejected_key ` set rs = rejected_key ` set (rejections db) \<union> (\<lambda>rej. ((c, r, n), fst rej, snd rej)) ` set rejs"
  using assms
proof (induction rejs arbitrary: db)
  case Nil
  then show ?case by (intro exI [of _ "rejections db"]) simp
next
  case (Cons rej rejs)
  from Cons.prems obtain db1 where d1: "insert_rejection c r n rej db = (Inr (), db1)" and rest: "each_db (insert_rejection c r n) rejs db1 = (Inr u, db')"
    by (auto simp: bind_db_eq_Inr)
  let ?row = "\<lparr>rj_campaign_id = c, rj_run_id = r, rj_candidate_id = n, rj_fault_id = fst rej, rj_reason = snd rej\<rparr>"
  have "db1 = db\<lparr>rejections := rejections db @ [?row]\<rparr>" using d1 by (auto simp: insert_rejection_def split: if_splits)
  moreover from Cons.IH [OF rest] obtain rs where "db' = db1\<lparr>rejections := rs\<rparr>"
    "rejected_key ` set rs = rejected_key ` set (rejections db1) \<union> (\<lambda>rej. ((c, r, n), fst rej, snd rej)) ` set rejs" by blast
  ultimately show ?case by (intro exI [of _ rs]) (simp add: rejection_key_def)
qed

lemma each_blocked:
  assumes "each_db (insert_blocked c) fps db = (Inr u, db')"
  shows "\<exists>bs. db' = db\<lparr>blocked := bs\<rparr> \<and> blocked_key ` set bs = blocked_key ` set (blocked db) \<union> (\<lambda>fp. (c, fst fp, snd fp)) ` set fps"
  using assms
proof (induction fps arbitrary: db)
  case Nil
  then show ?case by (intro exI [of _ "blocked db"]) simp
next
  case (Cons fp fps)
  from Cons.prems obtain db1 where d1: "insert_blocked c fp db = (Inr (), db1)" and rest: "each_db (insert_blocked c) fps db1 = (Inr u, db')"
    by (auto simp: bind_db_eq_Inr)
  have "\<exists>bs1. db1 = db\<lparr>blocked := bs1\<rparr> \<and> blocked_key ` set bs1 = insert (c, fst fp, snd fp) (blocked_key ` set (blocked db))"
  proof (cases "\<exists>b \<in> set (blocked db). bl_campaign_id b = c \<and> bl_fault_id b = fst fp \<and> bl_pattern b = snd fp")
    case True
    then have "(c, fst fp, snd fp) \<in> blocked_key ` set (blocked db)" by force
    then show ?thesis using True d1 by (intro exI [of _ "blocked db"]) (auto simp: insert_blocked_def)
  next
    case False
    then have "db1 = db\<lparr>blocked := blocked db @ [\<lparr>bl_campaign_id = c, bl_fault_id = fst fp, bl_pattern = snd fp\<rparr>]\<rparr>"
      using d1 by (auto simp: insert_blocked_def split: if_splits)
    then show ?thesis by (intro exI [of _ "blocked db1"]) simp
  qed
  then obtain bs1 where b1: "db1 = db\<lparr>blocked := bs1\<rparr>" "blocked_key ` set bs1 = insert (c, fst fp, snd fp) (blocked_key ` set (blocked db))" by blast
  from Cons.IH [OF rest] obtain bs where "db' = db1\<lparr>blocked := bs\<rparr>"
    "blocked_key ` set bs = blocked_key ` set (blocked db1) \<union> (\<lambda>fp. (c, fst fp, snd fp)) ` set fps" by blast
  with b1 show ?case by (intro exI [of _ bs]) simp
qed

text \<open>C29: committing a candidate. When it succeeds, exactly the listed faults of the campaign become detected, each has a
  detection row for this run and vector, every rejection and blocked pattern is stored, the
  candidate has its new status and vector, and nothing else changes. When it fails outside a transaction the
  database is as before.\<close>

theorem commit_candidate_effect:
  assumes "commit_candidate tx c r n cm db = (res, db')"
  shows "case res of
      Inl e \<Rightarrow> \<not> tx \<longrightarrow> db' = db
    | Inr u \<Rightarrow>
        faults db' = map (detected_by c (set (cm_detections cm))) (faults db) \<and>
        detection_key ` set (detections db') = detection_key ` set (detections db) \<union> (\<lambda>f. (f, r, cm_vector_index cm)) ` set (cm_detections cm) \<and>
        rejected_key ` set (rejections db') = rejected_key ` set (rejections db) \<union>
          (\<lambda>rej. ((c, r, n), fst rej, snd rej)) ` set (cm_reduced_view_rejections cm @ cm_protocol_sim_rejections cm) \<and>
        blocked_key ` set (blocked db') = blocked_key ` set (blocked db) \<union> (\<lambda>fp. (c, fst fp, snd fp)) ` set (cm_blocked_patterns cm) \<and>
        candidates db' = map (\<lambda>x. if candidate_key x = (c, r, n)
          then x\<lparr>cd_status := cm_status cm, cd_accepted_vector := cm_accepted_vector_id cm\<rparr> else x) (candidates db) \<and>
        db' = db\<lparr>faults := faults db', detections := detections db', candidates := candidates db', rejections := rejections db',
          blocked := blocked db'\<rparr>"
proof (cases res)
  case (Inl e)
  then show ?thesis using assms by (auto simp: commit_candidate_def Let_def split: sum.splits)
next
  case (Inr u)
  then have "apply_candidate_commit c r n cm db = (Inr (), db')"
    using assms by (auto simp: commit_candidate_def Let_def split: if_splits sum.splits)
  then obtain db1 db2 db3 where d:
    "each_db (\<lambda>f. bind_db (modify_db (mark_detected c f)) (\<lambda>_. insert_detection c r (cm_vector_index cm) f)) (cm_detections cm) db = (Inr (), db1)"
    "each_db (insert_rejection c r n) (cm_reduced_view_rejections cm @ cm_protocol_sim_rejections cm) db1 = (Inr (), db2)"
    "each_db (insert_blocked c) (cm_blocked_patterns cm) db2 = (Inr (), db3)"
    "update_candidate c r n (cm_status cm) (cm_accepted_vector_id cm) db3 = (Inr (), db')"
    unfolding apply_candidate_commit_def bind_db_eq_Inr by auto
  let ?g = "\<lambda>x. if candidate_key x = (c, r, n) then x\<lparr>cd_status := cm_status cm, cd_accepted_vector := cm_accepted_vector_id cm\<rparr> else x"
  from each_detection [OF d(1)] obtain ds where ds: "db1 = db\<lparr>faults := map (detected_by c (set (cm_detections cm))) (faults db), detections := ds\<rparr>"
    "detection_key ` set ds = detection_key ` set (detections db) \<union> (\<lambda>f. (f, r, cm_vector_index cm)) ` set (cm_detections cm)" by blast
  from each_rejection [OF d(2)] ds(1) obtain rs where rs: "db2 = db1\<lparr>rejections := rs\<rparr>"
    "rejected_key ` set rs = rejected_key ` set (rejections db) \<union>
       (\<lambda>rej. ((c, r, n), fst rej, snd rej)) ` set (cm_reduced_view_rejections cm @ cm_protocol_sim_rejections cm)" by auto
  from each_blocked [OF d(3)] ds(1) rs(1) obtain bs where bs: "db3 = db2\<lparr>blocked := bs\<rparr>"
    "blocked_key ` set bs = blocked_key ` set (blocked db) \<union> (\<lambda>fp. (c, fst fp, snd fp)) ` set (cm_blocked_patterns cm)" by auto
  have "db' = db3\<lparr>candidates := map ?g (candidates db3)\<rparr>"
    using d(4) by (auto simp: update_candidate_def Let_def split: if_splits)
  then have db': "db' = db\<lparr>faults := map (detected_by c (set (cm_detections cm))) (faults db), detections := ds,
      candidates := map ?g (candidates db), rejections := rs, blocked := bs\<rparr>" using ds(1) rs(1) bs(1) by simp
  show ?thesis unfolding Inr sum.case db' by (intro conjI) (simp_all add: ds(2) rs(2) bs(2))
qed

text \<open>When the identifiers it names exist and it does not reject a fault twice, the commit succeeds.\<close>

lemma insert_detection_total:
  assumes "f \<in> fault_keys db" "c \<in> campaign_keys db" "r \<in> run_keys db"
  shows "\<exists>ds. insert_detection c r k f db = (Inr (), db\<lparr>detections := ds\<rparr>)"
proof (cases "\<exists>d \<in> set (detections db). dt_fault_id d = f \<and> dt_run_id d = r \<and> dt_vector_index d = k")
  case True
  then show ?thesis by (intro exI [of _ "detections db"]) (simp add: insert_detection_def)
next
  case False
  then show ?thesis using assms unfolding insert_detection_def by simp blast
qed

lemma each_detection_total:
  assumes "set fs \<subseteq> fault_keys db" and "c \<in> campaign_keys db" "r \<in> run_keys db"
  shows "\<exists>fs' ds. each_db (\<lambda>f. bind_db (modify_db (mark_detected c f)) (\<lambda>_. insert_detection c r k f)) fs db =
    (Inr (), db\<lparr>faults := fs', detections := ds\<rparr>) \<and> f_id ` set fs' = fault_keys db"
  using assms
proof (induction fs arbitrary: db)
  case Nil
  then show ?case by (intro exI [of _ "faults db"] exI [of _ "detections db"]) simp
next
  case (Cons f fs)
  let ?m = "db\<lparr>faults := map (detected_by c {f}) (faults db)\<rparr>"
  have m: "mark_detected c f db = ?m" by (simp add: mark_detected_def detected_by_def)
  have keys: "fault_keys ?m = fault_keys db" by (simp add: image_image)
  then obtain ds where ds: "insert_detection c r k f ?m = (Inr (), ?m\<lparr>detections := ds\<rparr>)"
    using insert_detection_total [of f ?m c r k] Cons.prems by auto
  have step: "bind_db (modify_db (mark_detected c f)) (\<lambda>_. insert_detection c r k f) db = (Inr (), ?m\<lparr>detections := ds\<rparr>)"
    unfolding bind_db_def modify_db_def m prod.case sum.case by (rule ds)
  have "fault_keys (?m\<lparr>detections := ds\<rparr>) = fault_keys db" using keys by simp
  with Cons.IH [of "?m\<lparr>detections := ds\<rparr>"] Cons.prems show ?case
    unfolding each_db.simps bind_db_def [of "bind_db (modify_db (mark_detected c f)) (\<lambda>_. insert_detection c r k f)" _ db] step prod.case sum.case
    by simp
qed

lemma each_rejection_total:
  assumes "(c, r, n) \<in> candidate_key ` set (candidates db)" and "fst ` set rejs \<subseteq> fault_keys db" and "distinct (map fst rejs)"
    and "\<forall>rej \<in> set rejs. \<forall>x \<in> set (rejections db). rejection_key x = (c, r, n) \<longrightarrow> rj_fault_id x \<noteq> fst rej"
  shows "\<exists>rs. each_db (insert_rejection c r n) rejs db = (Inr (), db\<lparr>rejections := rs\<rparr>)"
  using assms
proof (induction rejs arbitrary: db)
  case Nil
  then show ?case by (intro exI [of _ "rejections db"]) simp
next
  case (Cons rej rejs)
  let ?row = "\<lparr>rj_campaign_id = c, rj_run_id = r, rj_candidate_id = n, rj_fault_id = fst rej, rj_reason = snd rej\<rparr>"
  let ?db = "db\<lparr>rejections := rejections db @ [?row]\<rparr>"
  have step: "insert_rejection c r n rej db = (Inr (), ?db)"
    using Cons.prems by (auto simp: insert_rejection_def)
  have "\<exists>rs. each_db (insert_rejection c r n) rejs ?db = (Inr (), ?db\<lparr>rejections := rs\<rparr>)"
    by (rule Cons.IH) (use Cons.prems in \<open>auto simp: rejection_key_def\<close>)
  then show ?case unfolding each_db.simps bind_db_def [of _ _ db] step prod.case sum.case by simp
qed

lemma each_blocked_total:
  assumes "fst ` set fps \<subseteq> fault_keys db" and "c \<in> campaign_keys db"
  shows "\<exists>bs. each_db (insert_blocked c) fps db = (Inr (), db\<lparr>blocked := bs\<rparr>)"
  using assms
proof (induction fps arbitrary: db)
  case Nil
  then show ?case by (intro exI [of _ "blocked db"]) simp
next
  case (Cons fp fps)
  obtain bs1 where step: "insert_blocked c fp db = (Inr (), db\<lparr>blocked := bs1\<rparr>)"
  proof (cases "\<exists>b \<in> set (blocked db). bl_campaign_id b = c \<and> bl_fault_id b = fst fp \<and> bl_pattern b = snd fp")
    case True
    then show thesis by (intro that [of "blocked db"]) (simp add: insert_blocked_def)
  next
    case False
    then have "insert_blocked c fp db = (Inr (), db\<lparr>blocked := blocked db @ [\<lparr>bl_campaign_id = c, bl_fault_id = fst fp, bl_pattern = snd fp\<rparr>]\<rparr>)"
      using Cons.prems by (auto simp: insert_blocked_def)
    then show thesis by (rule that)
  qed
  have "\<exists>bs. each_db (insert_blocked c) fps (db\<lparr>blocked := bs1\<rparr>) = (Inr (), db\<lparr>blocked := bs1\<rparr>\<lparr>blocked := bs\<rparr>)"
    by (rule Cons.IH) (use Cons.prems in auto)
  then show ?case unfolding each_db.simps bind_db_def [of _ _ db] step prod.case sum.case by simp
qed

definition commit_names_rows :: "campaign_db \<Rightarrow> int \<Rightarrow> int \<Rightarrow> int \<Rightarrow> CandidateCommit \<Rightarrow> bool" where
  "commit_names_rows db c r n cm =
     (let rejs = cm_reduced_view_rejections cm @ cm_protocol_sim_rejections cm
      in c \<in> campaign_keys db \<and> r \<in> run_keys db \<and> (c, r, n) \<in> candidate_key ` set (candidates db) \<and>
         set (cm_detections cm) \<union> fst ` set rejs \<union> fst ` set (cm_blocked_patterns cm) \<subseteq> fault_keys db \<and>
         distinct (map fst rejs) \<and>
         (\<forall>rej \<in> set rejs. \<forall>x \<in> set (rejections db). rejection_key x = (c, r, n) \<longrightarrow> rj_fault_id x \<noteq> fst rej) \<and>
         (case cm_accepted_vector_id cm of None \<Rightarrow> True
          | Some v \<Rightarrow> (c, v) \<in> (\<lambda>v. (v_campaign_id v, v_id v)) ` set (vectors_table db)))"

text \<open>C30: a commit whose campaign, run, candidate, faults and accepted vector exist, and which rejects no fault
  twice, always goes through, inside or outside a transaction.\<close>

theorem commit_candidate_succeeds:
  assumes "commit_names_rows db c r n cm"
  shows "fst (commit_candidate tx c r n cm db) = Inr ()"
proof -
  let ?rejs = "cm_reduced_view_rejections cm @ cm_protocol_sim_rejections cm"
  note ok = assms [unfolded commit_names_rows_def Let_def]
  obtain fs ds where d: "each_db (\<lambda>f. bind_db (modify_db (mark_detected c f)) (\<lambda>_. insert_detection c r (cm_vector_index cm) f))
      (cm_detections cm) db = (Inr (), db\<lparr>faults := fs, detections := ds\<rparr>)" "f_id ` set fs = fault_keys db"
    using each_detection_total [of "cm_detections cm" db c r "cm_vector_index cm"] ok by blast
  let ?db1 = "db\<lparr>faults := fs, detections := ds\<rparr>"
  obtain rs where rs: "each_db (insert_rejection c r n) ?rejs ?db1 = (Inr (), ?db1\<lparr>rejections := rs\<rparr>)"
    using each_rejection_total [of c r n ?db1 ?rejs] ok d(2) by auto
  let ?db2 = "?db1\<lparr>rejections := rs\<rparr>"
  obtain bs where bs: "each_db (insert_blocked c) (cm_blocked_patterns cm) ?db2 = (Inr (), ?db2\<lparr>blocked := bs\<rparr>)"
    using each_blocked_total [of "cm_blocked_patterns cm" ?db2 c] ok d(2) by auto
  have "fst (update_candidate c r n (cm_status cm) (cm_accepted_vector_id cm) (?db2\<lparr>blocked := bs\<rparr>)) = Inr ()"
    using ok by (auto simp: update_candidate_def Let_def split: option.splits)
  then have "fst (apply_candidate_commit c r n cm db) = Inr ()"
    by (simp add: apply_candidate_commit_def bind_db_def d(1) rs bs)
  then show ?thesis by (auto simp: commit_candidate_def Let_def)
qed

section \<open>Opening a campaign\<close>

definition FINGERPRINT_COLUMNS :: "string list" where
  "FINGERPRINT_COLUMNS = [''top'', ''netlist_hash'', ''cell_lib_hash'', ''config_hash'', ''template_hash'', ''yosys_version'',
     ''faultflow_version'', ''collapsing'', ''unsupported_cells'', ''include_clock_faults'', ''include_reset_faults'',
     ''redundancy_model_id'', ''manifest_hash'', ''atpg_view_schema_ver'', ''fault_model'']"

lemma fingerprint_columns: "fingerprint_fields fp = Inr cols \<Longrightarrow> map fst cols = FINGERPRINT_COLUMNS"
  unfolding fingerprint_fields_def FINGERPRINT_COLUMNS_def
  by (auto simp: bind_res_eq_Inr text_field_def number_field_def optional_field_def)

text \<open>Two columns count only when the new fingerprint has a value for them.\<close>

definition compatible :: "jobj \<Rightarrow> jobj \<Rightarrow> bool" where
  "compatible stored cols = (\<forall>kv \<in> set cols.
     fst kv \<in> {''manifest_hash'', ''atpg_view_schema_ver''} \<and> \<not> truthy (snd kv) \<or> \<not> column_differs stored kv)"

lemma mismatch_None_iff:
  assumes "fingerprint_fields fp = Inr cols"
  shows "fingerprint_mismatch_field stored fp = Inr None \<longleftrightarrow> compatible stored cols"
    and "\<not> compatible stored cols \<Longrightarrow> \<exists>k. fingerprint_mismatch_field stored fp = Inr (Some k)"
proof -
  have d: "distinct (map fst cols)" and keys: "''manifest_hash'' \<in> fst ` set cols" "''atpg_view_schema_ver'' \<in> fst ` set cols"
    using fingerprint_columns [OF assms] by (simp_all add: FINGERPRINT_COLUMNS_def flip: set_map)
  have late: "(\<forall>kv \<in> set cols. fst kv = k \<longrightarrow> \<not> truthy (snd kv) \<or> \<not> column_differs stored kv) \<longleftrightarrow>
      \<not> (truthy (get_or cols k JNull) \<and> column_differs stored (k, get_or cols k JNull))" if "k \<in> fst ` set cols" for k
  proof -
    from that obtain v where v: "(k, v) \<in> set cols" by force
    then have "get_or cols k JNull = v" using d by (simp add: get_or_def)
    moreover have "kv = (k, v)" if "kv \<in> set cols" "fst kv = k" for kv using that v d by (metis eq_key_imp_eq_value prod.collapse)
    ultimately show ?thesis using v by (metis fst_conv snd_conv)
  qed
  let ?early = "find (\<lambda>kv. fst kv \<notin> {''manifest_hash'', ''atpg_view_schema_ver''} \<and> column_differs stored kv) cols"
  have early: "?early = None \<longleftrightarrow> (\<forall>kv \<in> set cols. fst kv \<notin> {''manifest_hash'', ''atpg_view_schema_ver''} \<longrightarrow> \<not> column_differs stored kv)"
    unfolding find_None_iff by blast
  have "compatible stored cols \<longleftrightarrow> ?early = None \<and>
      (\<forall>kv \<in> set cols. fst kv = ''manifest_hash'' \<longrightarrow> \<not> truthy (snd kv) \<or> \<not> column_differs stored kv) \<and>
      (\<forall>kv \<in> set cols. fst kv = ''atpg_view_schema_ver'' \<longrightarrow> \<not> truthy (snd kv) \<or> \<not> column_differs stored kv)"
    unfolding early compatible_def by blast
  then have c: "compatible stored cols \<longleftrightarrow> ?early = None \<and>
      \<not> (truthy (get_or cols ''manifest_hash'' JNull) \<and> column_differs stored (''manifest_hash'', get_or cols ''manifest_hash'' JNull)) \<and>
      \<not> (truthy (get_or cols ''atpg_view_schema_ver'' JNull) \<and>
        column_differs stored (''atpg_view_schema_ver'', get_or cols ''atpg_view_schema_ver'' JNull))"
    unfolding late [OF keys(1)] late [OF keys(2)] .
  show none: "fingerprint_mismatch_field stored fp = Inr None \<longleftrightarrow> compatible stored cols"
    unfolding c fingerprint_mismatch_field_def assms bind_res_Inr Let_def by (cases ?early; force)
  obtain m where "fingerprint_mismatch_field stored fp = Inr m" by (simp add: fingerprint_mismatch_field_def assms Let_def)
  with none show "\<exists>k. fingerprint_mismatch_field stored fp = Inr (Some k)" if "\<not> compatible stored cols" using that by (cases m) auto
qed

lemma compatible_self:
  assumes "fingerprint_fields fp = Inr cols"
  shows "compatible cols cols"
proof -
  have "distinct (map fst cols)" using fingerprint_columns [OF assms] by (simp add: FINGERPRINT_COLUMNS_def)
  then have "get_or cols (fst kv) JNull = snd kv" if "kv \<in> set cols" for kv using that by (cases kv) (simp add: get_or_def)
  then show ?thesis by (simp add: compatible_def column_differs_def)
qed

lemma latest_campaign_Some: "latest_campaign db t = Some c \<Longrightarrow> c \<in> set (campaigns db) \<and> c_type c = t"
proof -
  assume "latest_campaign db t = Some c"
  then have "c \<in> set (rev (sort_key c_id (filter (\<lambda>c. c_type c = t) (campaigns db))))"
    unfolding latest_campaign_def by (metis (no_types, lifting) list.case(2) list.exhaust list.set_intros(1) list.case(1) option.distinct(1) option.inject)
  then show ?thesis by simp
qed

lemma find_by_id:
  assumes "distinct (map c_id cs)" and "c \<in> set cs"
  shows "find (\<lambda>x. c_id x = c_id c) cs = Some c"
  using assms by (induction cs) force+

lemma ensure_campaign_existing:
  assumes "wf_campaigns db" and "EXPECTED_USER_VERSION \<le> user_version db" and "fingerprint_fields fp = Inr cols"
    and l: "latest_campaign db t = Some stored"
  shows "ensure_campaign t fp db = (if compatible (c_columns stored) cols then Inr (c_id stored)
      else Inl (SchemaError (''Fingerprint field '' @ repr_str (the (projr (fingerprint_mismatch_field (c_columns stored) fp))) @
        '' changed. Re-run with --clean.'')), db)"
proof -
  have "find (\<lambda>x. c_id x = c_id stored) (campaigns db) = Some stored"
    using assms(1) latest_campaign_Some [OF l] by (intro find_by_id) (auto simp: wf_campaigns_def)
  then have row: "campaign_fingerprint_row db (c_id stored) = Inr (Some stored)"
    using assms(2) by (simp add: campaign_fingerprint_row_def require_v3_schema_def)
  have req: "require_v3_schema db = Inr ()" "latest_campaign_id db t = Inr (Some (c_id stored))"
    using assms(2) l by (simp_all add: require_v3_schema_def latest_campaign_id_def)
  show ?thesis
  proof (cases "compatible (c_columns stored) cols")
    case True
    then have "fingerprint_mismatch_field (c_columns stored) fp = Inr None" using mismatch_None_iff(1) [OF assms(3)] by blast
    with True show ?thesis by (simp add: ensure_campaign_def req assms(3) row)
  next
    case False
    then obtain k where "fingerprint_mismatch_field (c_columns stored) fp = Inr (Some k)" using mismatch_None_iff(2) [OF assms(3)] by blast
    with False show ?thesis by (simp add: ensure_campaign_def req assms(3) row)
  qed
qed

text \<open>Opening a campaign is idempotent. After it returned an identifier, opening the same type of campaign with the same
  fingerprint returns the same identifier and changes nothing; a campaign that already existed was not
  touched.\<close>

theorem ensure_campaign_idempotent:
  assumes wf: "wf_campaigns db" and run: "ensure_campaign t fp db = (Inr i, db')"
  shows "ensure_campaign t fp db' = (Inr i, db') \<and> latest_campaign_id db' t = Inr (Some i) \<and>
    (latest_campaign db t \<noteq> None \<longrightarrow> db' = db)"
proof -
  from run have v: "EXPECTED_USER_VERSION \<le> user_version db" by (auto simp: ensure_campaign_def require_v3_schema_def split: if_splits)
  from run obtain cols where cols: "fingerprint_fields fp = Inr cols"
    by (cases "fingerprint_fields fp") (auto simp: ensure_campaign_def require_v3_schema_def split: if_splits)
  show ?thesis
  proof (cases "latest_campaign db t")
    case (Some stored)
    note e = ensure_campaign_existing [OF wf v cols Some]
    then have "i = c_id stored" "db' = db" using run by (auto split: if_splits)
    then show ?thesis using run Some v by (simp add: latest_campaign_id_def require_v3_schema_def)
  next
    case None
    let ?row = "\<lparr>c_id = campaigns_seq db + 1, c_type = t, c_columns = cols\<rparr>"
    let ?db = "db\<lparr>campaigns := campaigns db @ [?row], campaigns_seq := campaigns_seq db + 1\<rparr>"
    have "insert_campaign t cols db = (Inr i, db')"
      using run v cols None by (simp add: ensure_campaign_def require_v3_schema_def latest_campaign_id_def)
    then have new: "i = campaigns_seq db + 1" "db' = ?db" by (auto simp: insert_campaign_def split: if_splits)
    have "filter (\<lambda>c. c_type c = t) (campaigns db) = []"
    proof (rule ccontr)
      assume "filter (\<lambda>c. c_type c = t) (campaigns db) \<noteq> []"
      then have "rev (sort_key c_id (filter (\<lambda>c. c_type c = t) (campaigns db))) \<noteq> []" by (metis rev_is_Nil_conv length_0_conv length_sort)
      with None show False by (auto simp: latest_campaign_def split: list.splits)
    qed
    then have l: "latest_campaign ?db t = Some ?row" by (simp add: latest_campaign_def)
    have "wf_campaigns ?db" using wf by (force simp: wf_campaigns_def)
    from ensure_campaign_existing [OF this _ cols l] compatible_self [OF cols] v
    show ?thesis using l new v None by (simp add: latest_campaign_id_def require_v3_schema_def)
  qed
qed

text \<open>C31: a campaign is reopened exactly under a fingerprint that agrees with the stored one in every column compared
  (a manifest hash or view version that is empty now is not compared). Otherwise the call raises a
  schema error; either way the database is unchanged.\<close>

theorem ensure_campaign_checks_fingerprint:
  assumes "wf_campaigns db" and "EXPECTED_USER_VERSION \<le> user_version db" and "fingerprint_fields fp = Inr cols"
    and "latest_campaign db t = Some stored"
  shows "snd (ensure_campaign t fp db) = db \<and>
    (compatible (c_columns stored) cols \<longrightarrow> fst (ensure_campaign t fp db) = Inr (c_id stored)) \<and>
    (\<not> compatible (c_columns stored) cols \<longrightarrow> (\<exists>msg. fst (ensure_campaign t fp db) = Inl (SchemaError msg)))"
  using ensure_campaign_existing [OF assms] by simp

section \<open>The summary\<close>

lemma count_if_nonneg [simp]: "0 \<le> count_if p xs"
  by (simp add: count_if_def)

lemma count_if_mono: "(\<And>x. x \<in> set xs \<Longrightarrow> p x \<Longrightarrow> q x) \<Longrightarrow> count_if p xs \<le> count_if q xs"
  unfolding count_if_def by (induction xs) auto

lemma count_if_split: "count_if p xs = count_if (\<lambda>x. p x \<and> q x) xs + count_if (\<lambda>x. p x \<and> \<not> q x) xs"
  unfolding count_if_def by (induction xs) auto

lemma count_if_cong: "(\<And>x. x \<in> set xs \<Longrightarrow> p x = q x) \<Longrightarrow> count_if p xs = count_if q xs"
  unfolding count_if_def by (metis filter_cong)

text \<open>C32: the coverage counts add up. The eligible faults are the denominator and the redundant ones; the detected ones are
  in the denominator, and with the three statuses the core writes, the rest of it is undetected; faults that are
  not eligible are excluded or collapsed; a coverage is a percentage between 0 and 100.\<close>

theorem summary_accounts:
  "structural_eligible (summary db c) = denominator (summary db c) + redundant (summary db c) \<and>
    0 \<le> detected (summary db c) \<and> detected (summary db c) \<le> denominator (summary db c) \<and>
    total_raw_faults (summary db c) = structural_eligible (summary db c) +
      count_if (\<lambda>f. f_exclusion f \<noteq> ''none'' \<or> f_collapsed_into f \<noteq> None) (summary_rows db c) \<and>
    ((\<forall>f \<in> set (summary_rows db c). f_status f \<in> {''detected'', ''undetected'', ''redundant''}) \<longrightarrow>
      denominator (summary db c) = detected (summary db c) + undetected (summary db c)) \<and>
    (\<forall>p q. test_coverage_percent (summary db c) = Some (p, q) \<longrightarrow> 0 < q \<and> 0 \<le> p \<and> p \<le> 100 * q)"
proof -
  define s where "s = summary db c"
  define rows where "rows = summary_rows db c"
  let ?live = "\<lambda>f. eligible_fault f \<and> f_status f \<noteq> ''redundant''" and ?det = "\<lambda>f. f_status f = ''detected'' \<and> eligible_fault f"
  have flds: "structural_eligible s = count_if eligible_fault rows" "denominator s = count_if ?live rows" "detected s = count_if ?det rows"
    "redundant s = count_if (\<lambda>f. f_status f = ''redundant'' \<and> eligible_fault f) rows"
    "undetected s = count_if (\<lambda>f. f_status f = ''undetected'' \<and> eligible_fault f) rows" "total_raw_faults s = int (length rows)"
    "test_coverage_percent s = percent (count_if ?det rows) (count_if ?live rows)"
    by (simp_all add: s_def rows_def summary_def Let_def)
  have le: "count_if ?det rows \<le> count_if ?live rows" by (rule count_if_mono) auto
  have "structural_eligible s = denominator s + redundant s"
    unfolding flds count_if_split [of eligible_fault rows "\<lambda>f. f_status f \<noteq> ''redundant''"]
    using count_if_cong [of rows "\<lambda>f. eligible_fault f \<and> \<not> f_status f \<noteq> ''redundant''" "\<lambda>f. f_status f = ''redundant'' \<and> eligible_fault f"] by auto
  moreover have "total_raw_faults s = structural_eligible s + count_if (\<lambda>f. f_exclusion f \<noteq> ''none'' \<or> f_collapsed_into f \<noteq> None) rows"
  proof -
    have "int (length rows) = count_if eligible_fault rows + count_if (\<lambda>f. \<not> eligible_fault f) rows"
      using count_if_split [of "\<lambda>f. True" rows eligible_fault] by (simp add: count_if_def)
    moreover have "(\<lambda>f. \<not> eligible_fault f) = (\<lambda>f. f_exclusion f \<noteq> ''none'' \<or> f_collapsed_into f \<noteq> None)"
      by (auto simp: eligible_fault_def)
    ultimately show ?thesis by (simp only: flds(1,6))
  qed
  moreover have "denominator s = detected s + undetected s" if "\<forall>f \<in> set rows. f_status f \<in> {''detected'', ''undetected'', ''redundant''}"
    unfolding flds count_if_split [of ?live rows "\<lambda>f. f_status f = ''detected''"]
    using that count_if_cong [of rows "\<lambda>f. ?live f \<and> f_status f = ''detected''" ?det]
      count_if_cong [of rows "\<lambda>f. ?live f \<and> f_status f \<noteq> ''detected''" "\<lambda>f. f_status f = ''undetected'' \<and> eligible_fault f"] by fastforce
  moreover have "0 < q \<and> 0 \<le> p \<and> p \<le> 100 * q" if pq: "test_coverage_percent s = Some (p, q)" for p q
  proof -
    have "q = count_if ?live rows" "p = 100 * count_if ?det rows" "count_if ?live rows \<noteq> 0" using pq flds(7) by (auto simp: percent_def split: if_splits)
    then show ?thesis using le count_if_nonneg [of ?live rows] by (smt (verit) count_if_nonneg)
  qed
  ultimately show ?thesis using le flds(2,3) unfolding s_def [symmetric] rows_def [symmetric] by simp
qed



section \<open>A small campaign\<close>

text \<open>One campaign with two faults and one pending candidate that detects the first and is rejected for the
  second.\<close>

definition example_fp :: jobj where
  "example_fp = [(''top'', JStr ''core''), (''netlist_hash'', JStr ''n''), (''cell_lib_hash'', JStr ''l''), (''config_hash'', JStr ''c''),
     (''template_hash'', JStr ''t''), (''yosys_version'', JStr ''y''), (''faultflow_version'', JStr ''f''), (''collapsing'', JInt 1),
     (''unsupported_cells'', JStr ''error''), (''include_clock_faults'', JInt 0), (''include_reset_faults'', JInt 0),
     (''redundancy_model_id'', JStr ''r''), (''manifest_hash'', JStr ''m''), (''atpg_view_schema_ver'', JStr ''1''),
     (''fault_model'', JStr ''stuck_at'')]"

definition example_fault :: "int \<Rightarrow> fault_row" where
  "example_fault i = \<lparr>f_id = i, f_campaign_id = 1, f_site_key = [char_of (48 + nat i)], f_net_id = i, f_compiled_net_index = i,
     f_atpg_compiled_net_index = None, f_fault_type = ''SA0'', f_status = ''undetected'', f_exclusion = ''none'',
     f_collapsed_into = None, f_protocol_unresolved = 0,
     f_detected_by_vector = None, f_redundancy_model_id = None\<rparr>"

definition example_run :: run_row where
  "example_run = \<lparr>r_id = 1, r_campaign_id = 1, r_status = ''running'', r_vector_source = ''atpg'', r_vector_count = 0,
     r_coverage = None, r_terminal_reason = None, r_atpg = replicate 8 0, r_carried = []\<rparr>"

definition example_db :: campaign_db where
  "example_db = empty_db\<lparr>campaigns := [\<lparr>c_id = 1, c_type = ''scan'', c_columns = example_fp\<rparr>], campaigns_seq := 1,
     faults := [example_fault 1, example_fault 2], runs := [example_run], runs_seq := 1,
     candidates := [\<lparr>cd_campaign_id = 1, cd_run_id = 1, cd_candidate_id = 7, cd_pattern = ''01'', cd_source = ''sat'',
       cd_status = ''pending'', cd_target = Some 1, cd_accepted_vector = None\<rparr>]\<rparr>"

definition example_commit :: CandidateCommit where
  "example_commit = \<lparr>cm_status = ''rejected'', cm_vector_index = 0, cm_accepted_vector_id = None, cm_detections = [1],
     cm_protocol_sim_rejections = [(2, ''protocol'')], cm_blocked_patterns = [(2, ''01'')], cm_reduced_view_rejections = []\<rparr>"

lemma example_fields: "fingerprint_fields example_fp = Inr example_fp"
  by code_simp

lemma example_wf: "wf_campaigns example_db" "EXPECTED_USER_VERSION \<le> user_version example_db"
    "latest_campaign example_db ''scan'' = Some \<lparr>c_id = 1, c_type = ''scan'', c_columns = example_fp\<rparr>"
  by (simp_all add: wf_campaigns_def example_db_def empty_db_def latest_campaign_def)

theorem commit_candidate_succeeds_witness: "fst (commit_candidate False 1 1 7 example_commit example_db) = Inr ()"
  by (rule commit_candidate_succeeds) code_simp

theorem commit_candidate_effect_witness:
  "map f_status (faults (snd (commit_candidate False 1 1 7 example_commit example_db))) = [''detected'', ''undetected''] \<and>
   rejected_key ` set (rejections (snd (commit_candidate False 1 1 7 example_commit example_db))) = {((1, 1, 7), 2, ''protocol'')}"
proof -
  let ?r = "commit_candidate False 1 1 7 example_commit example_db"
  have "fst ?r = Inr ()" by code_simp
  with commit_candidate_effect [of False 1 1 7 example_commit example_db "fst ?r" "snd ?r"] show ?thesis
    by (simp add: example_db_def example_commit_def example_fault_def empty_db_def detected_by_def)
qed

theorem ensure_campaign_idempotent_witness:
  "ensure_campaign ''scan'' example_fp (snd (ensure_campaign ''scan'' example_fp example_db)) =
     (Inr 1, snd (ensure_campaign ''scan'' example_fp example_db))"
proof -
  have "fst (ensure_campaign ''scan'' example_fp example_db) = Inr 1" by code_simp
  then have "ensure_campaign ''scan'' example_fp example_db = (Inr 1, snd (ensure_campaign ''scan'' example_fp example_db))"
    by (metis prod.collapse)
  from ensure_campaign_idempotent [OF example_wf(1) this] show ?thesis by blast
qed

theorem ensure_campaign_checks_fingerprint_witness:
  "ensure_campaign ''scan'' example_fp example_db = (Inr 1, example_db)"
  using ensure_campaign_checks_fingerprint [OF example_wf(1,2) example_fields example_wf(3)] compatible_self [OF example_fields]
  by (simp add: prod_eq_iff)

theorem summary_accounts_witness:
  "denominator (summary example_db (Some 1)) = 2 \<and> detected (summary example_db (Some 1)) + undetected (summary example_db (Some 1)) = 2"
proof -
  have d: "denominator (summary example_db (Some 1)) = 2" by code_simp
  have "\<forall>f \<in> set (summary_rows example_db (Some 1)). f_status f \<in> {''detected'', ''undetected'', ''redundant''}" by code_simp
  with d summary_accounts [of example_db "Some 1"] show ?thesis by simp
qed


end
