(* ===== verification/Wbr_View.thy ===== *)
theory Wbr_View
  imports Atpg_View Scan_Protocol
begin

text \<open>
  \<^verbatim>\<open>faultflow/scan/wbr_view.py\<close>: cutting the combinational view at the wrapper boundary (IEEE 1500). In INTEST every wrapper
  cell gives way to a port on its core net: an input that drives it, or an output that observes it through a
  buffer. In EXTEST it gives way to a port on its system net and the core input is tied to 0. The pass works on
  the tables of the top module; the state of its loop is the record \<open>fuse_state\<close>. The type of a cell is a
  string or absent.
\<close>

section \<open>Names and constants\<close>

definition WBI_PREFIX :: string where "WBI_PREFIX = ''__wbi_''"
definition WBO_PREFIX :: string where "WBO_PREFIX = ''__wbo_''"
definition WBO_CTL_PREFIX :: string where "WBO_CTL_PREFIX = ''__wbo_ctl_''"
definition WBI_OBS_PREFIX :: string where "WBI_OBS_PREFIX = ''__wbi_obs_''"
definition WBR_SCAN_VIEW_SCHEMA_VER :: string where "WBR_SCAN_VIEW_SCHEMA_VER = ''wbr-scan-intest-1''"
definition WBR_SCAN_EXTEST_VIEW_SCHEMA_VER :: string where "WBR_SCAN_EXTEST_VIEW_SCHEMA_VER = ''wbr-scan-extest-1''"
definition CONST0_LITERAL :: json where "CONST0_LITERAL = JStr ''0''"

definition WBR_IN_TYPES :: "string list" where
  "WBR_IN_TYPES = [''$wbc_in_faultflow'', CHR 0x5C # ''$wbc_in_faultflow'']"
definition WBR_OUT_TYPES :: "string list" where
  "WBR_OUT_TYPES = [''$wbc_out_faultflow'', CHR 0x5C # ''$wbc_out_faultflow'']"
definition WBR_SCAN_IN_TYPES :: "string list" where
  "WBR_SCAN_IN_TYPES = [''$wbc_in_scan_faultflow'', CHR 0x5C # ''$wbc_in_scan_faultflow'']"
definition WBR_SCAN_OUT_TYPES :: "string list" where
  "WBR_SCAN_OUT_TYPES = [''$wbc_out_scan_faultflow'', CHR 0x5C # ''$wbc_out_scan_faultflow'']"
definition WBR_SCAN_CHAIN_PINS :: "string list" where "WBR_SCAN_CHAIN_PINS = [''CTI'', ''SE'', ''CTO'']"
definition WBR_IN_CORE_PIN :: string where "WBR_IN_CORE_PIN = ''TO_CORE''"
definition WBR_IN_SYS_PIN :: string where "WBR_IN_SYS_PIN = ''FROM_SYS''"
definition WBR_OUT_CORE_PIN :: string where "WBR_OUT_CORE_PIN = ''FROM_CORE''"
definition WBR_OUT_SYS_PIN :: string where "WBR_OUT_SYS_PIN = ''TO_SYS''"

section \<open>Wrapper cells\<close>

record WbrRecord =
  wr_instance :: string
  wr_core_net :: int
  wr_sys_net :: int
  wr_is_input :: bool
  wr_chain_nets :: "int list"

definition pin_bits :: "json \<Rightarrow> string \<Rightarrow> int list" where
  "pin_bits cell pin = int_bits (get_or (conns_of cell) pin JNull)"

definition single_bit :: "json \<Rightarrow> string \<Rightarrow> string \<Rightarrow> int res" where
  "single_bit cell pin instance =
     (case pin_bits cell pin of
        [b] \<Rightarrow> Inr b
      | _ \<Rightarrow> Inl (ScanError (''wrapper cell '' @ instance @ '': pin '' @ pin @ '' must be a single net'')))"

definition is_constant_bit :: "json \<Rightarrow> string \<Rightarrow> bool" where
  "is_constant_bit cell pin =
     (get_or (conns_of cell) pin JNull \<in> {JList [JStr ''0''], JList [JStr ''1''], JList [JStr ''x''], JList [JStr ''z'']})"

definition scan_chain_nets :: "json \<Rightarrow> int list" where
  "scan_chain_nets cell = concat (map (pin_bits cell) WBR_SCAN_CHAIN_PINS)"

definition cell_type_in :: "json \<Rightarrow> string list \<Rightarrow> bool" where
  "cell_type_in cell types = (case as_obj cell of None \<Rightarrow> False | Some c \<Rightarrow> type_is c types)"

definition is_wbr_in :: "json \<Rightarrow> bool" where
  "is_wbr_in cell = (cell_type_in cell WBR_IN_TYPES \<or> cell_type_in cell WBR_SCAN_IN_TYPES)"

definition is_wbr_out :: "json \<Rightarrow> bool" where
  "is_wbr_out cell = (cell_type_in cell WBR_OUT_TYPES \<or> cell_type_in cell WBR_SCAN_OUT_TYPES)"

definition wbr_record :: "string \<Rightarrow> json \<Rightarrow> WbrRecord option res" where
  "wbr_record instance cell =
     (if is_wbr_in cell then
        if is_constant_bit cell WBR_IN_CORE_PIN then Inr None
        else bind_res (single_bit cell WBR_IN_CORE_PIN instance) (\<lambda>core.
             bind_res (single_bit cell WBR_IN_SYS_PIN instance) (\<lambda>sys.
             Inr (Some \<lparr>wr_instance = instance, wr_core_net = core, wr_sys_net = sys, wr_is_input = True,
               wr_chain_nets = (if cell_type_in cell WBR_SCAN_IN_TYPES then scan_chain_nets cell else [])\<rparr>)))
      else if is_wbr_out cell then
        if is_constant_bit cell WBR_OUT_CORE_PIN then Inr None
        else bind_res (single_bit cell WBR_OUT_CORE_PIN instance) (\<lambda>core.
             bind_res (single_bit cell WBR_OUT_SYS_PIN instance) (\<lambda>sys.
             Inr (Some \<lparr>wr_instance = instance, wr_core_net = core, wr_sys_net = sys, wr_is_input = False,
               wr_chain_nets = (if cell_type_in cell WBR_SCAN_OUT_TYPES then scan_chain_nets cell else [])\<rparr>)))
      else Inr None)"

definition extract_wbr_cells :: "jobj \<Rightarrow> WbrRecord list res" where
  "extract_wbr_cells module =
     (case as_obj (get_or module ''cells'' (JObj [])) of
        None \<Rightarrow> Inl (ScanError ''top module cells must be an object'')
      | Some cells \<Rightarrow>
          bind_res (map_res (\<lambda>(instance, cell). wbr_record instance cell) cells) (\<lambda>records.
          Inr (sort_key wr_instance (List.map_filter (\<lambda>r. r) records))))"

definition extract_wbr_chain_bits :: "jobj \<Rightarrow> int list" where
  "extract_wbr_chain_bits module =
     (case as_obj (get_or module ''cells'' (JObj [])) of
        None \<Rightarrow> []
      | Some cells \<Rightarrow>
          remdups (concat (map (\<lambda>(instance, cell).
            if cell_type_in cell (WBR_SCAN_IN_TYPES @ WBR_SCAN_OUT_TYPES) then scan_chain_nets cell else []) cells)))"

section \<open>Editing the tables\<close>

definition tables_add_port :: "string \<Rightarrow> string \<Rightarrow> int \<Rightarrow> tables \<Rightarrow> tables" where
  "tables_add_port name direction b t =
     t\<lparr>t_ports := dict_set (t_ports t) name (JObj [(''direction'', JStr direction), (''bits'', JList [JInt b])]),
       t_nets := dict_set (t_nets t) name (net_entry b)\<rparr>"

definition port_on :: "int list \<Rightarrow> json \<Rightarrow> bool" where
  "port_on bits port = (case entry_bits port of [b] \<Rightarrow> b \<in> set bits | _ \<Rightarrow> False)"

definition drop_top_ports_by_bit :: "int list \<Rightarrow> tables \<Rightarrow> tables" where
  "drop_top_ports_by_bit bits t =
     (let dropped = map fst (filter (\<lambda>(name, port). port_on bits port) (t_ports t))
      in t\<lparr>t_ports := filter (\<lambda>(name, port). name \<notin> set dropped) (t_ports t),
           t_nets := filter (\<lambda>(name, net). name \<notin> set dropped) (t_nets t)\<rparr>)"

definition add_const0_driver_cell :: "string \<Rightarrow> int \<Rightarrow> jobj \<Rightarrow> jobj" where
  "add_const0_driver_cell instance out_bit cells = dict_set cells instance (buf_cell OBSERVE_BUF_CELL CONST0_LITERAL out_bit)"

definition add_internal_buf_cell :: "string \<Rightarrow> string \<Rightarrow> int \<Rightarrow> int \<Rightarrow> jobj \<Rightarrow> jobj" where
  "add_internal_buf_cell instance cell_type in_bit out_bit cells =
     dict_set cells instance (buf_cell cell_type (JInt in_bit) out_bit)"

definition single_entry :: "json \<Rightarrow> int option" where
  "single_entry port = (case entry_bits port of [b] \<Rightarrow> Some b | _ \<Rightarrow> None)"

definition ppo_bits :: "jobj \<Rightarrow> int list" where
  "ppo_bits ports = List.map_filter (\<lambda>(name, port). if starts_with name PPO_PREFIX then single_entry port else None) ports"

definition observes :: "int list \<Rightarrow> json \<Rightarrow> bool" where
  "observes bits cell = (case pin_bits cell ''Y'' of [b] \<Rightarrow> b \<in> set bits | _ \<Rightarrow> False)"

definition drop_ppo_ports_and_observers :: "tables \<Rightarrow> tables" where
  "drop_ppo_ports_and_observers t =
     (let bits = ppo_bits (t_ports t); other = filter (\<lambda>(name, e). \<not> starts_with name PPO_PREFIX)
      in t\<lparr>t_cells := filter (\<lambda>(inst, cell). \<not> observes bits cell) (t_cells t), t_ports := other (t_ports t), t_nets := other (t_nets t)\<rparr>)"

section \<open>Fusion\<close>

record fuse_state =
  fz_tables :: tables
  fz_next :: int
  fz_drop :: "int list"
  fz_map :: jobj

definition port_entry :: "string \<Rightarrow> string \<Rightarrow> WbrRecord \<Rightarrow> json" where
  "port_entry port role rec =
     JObj [(''port'', JStr port), (''role'', JStr role), (''core_net'', JInt (wr_core_net rec)), (''sys_net'', JInt (wr_sys_net rec))]"

definition on_cells :: "(jobj \<Rightarrow> jobj) \<Rightarrow> tables \<Rightarrow> tables" where
  "on_cells f t = t\<lparr>t_cells := f (t_cells t)\<rparr>"

definition intest_record :: "WbrRecord \<Rightarrow> fuse_state \<Rightarrow> fuse_state" where
  "intest_record rec s =
     (let i = wr_instance rec; t = fz_tables s; obs_bit = fz_next s;
          s1 = s\<lparr>fz_drop := fz_drop s @ wr_chain_nets rec @ [wr_sys_net rec]\<rparr>
      in if wr_is_input rec then
           (let port = WBI_PREFIX @ i
            in s1\<lparr>fz_tables := tables_add_port port ''input'' (wr_core_net rec) (on_cells (\<lambda>cells. dict_pop cells i) t),
                 fz_map := dict_set (fz_map s) i (port_entry port ''ppi'' rec)\<rparr>)
         else
           (let port = WBO_PREFIX @ i
            in s1\<lparr>fz_tables := tables_add_port port ''output'' obs_bit (on_cells (\<lambda>cells.
                   dict_pop (add_internal_buf_cell (''$wbobserve_'' @ i) OBSERVE_BUF_CELL (wr_core_net rec) obs_bit cells) i) t),
                 fz_next := obs_bit + 1, fz_map := dict_set (fz_map s) i (port_entry port ''ppo'' rec)\<rparr>))"

definition constant_output :: "json \<Rightarrow> bool" where
  "constant_output cell = (is_wbr_out cell \<and> is_constant_bit cell WBR_OUT_CORE_PIN)"

definition strip_constant_outputs :: "fuse_state \<Rightarrow> fuse_state" where
  "strip_constant_outputs s =
     (let cells = t_cells (fz_tables s)
      in s\<lparr>fz_tables := on_cells (filter (\<lambda>(i, cell). \<not> constant_output cell)) (fz_tables s),
           fz_drop := fz_drop s @ concat (map (\<lambda>(i, cell). if constant_output cell
             then pin_bits cell WBR_OUT_SYS_PIN @ scan_chain_nets cell else []) cells)\<rparr>)"

definition extest_record :: "WbrRecord \<Rightarrow> fuse_state \<Rightarrow> fuse_state" where
  "extest_record rec s =
     (let i = wr_instance rec; t = fz_tables s; obs_bit = fz_next s;
          s1 = s\<lparr>fz_drop := fz_drop s @ wr_chain_nets rec\<rparr>
      in if wr_is_input rec then
           (let port = WBI_OBS_PREFIX @ i
            in s1\<lparr>fz_tables := tables_add_port port ''output'' obs_bit (on_cells (\<lambda>cells.
                   add_const0_driver_cell (''$wbsafe0_'' @ i) (wr_core_net rec)
                     (dict_pop (add_internal_buf_cell (''$wbiobserve_'' @ i) OBSERVE_BUF_CELL (wr_sys_net rec) obs_bit cells) i)) t),
                 fz_next := obs_bit + 1, fz_map := dict_set (fz_map s) i (port_entry port ''ppo'' rec)\<rparr>)
         else
           (let port = WBO_CTL_PREFIX @ i
            in s1\<lparr>fz_tables := tables_add_port port ''input'' (wr_sys_net rec) (on_cells (\<lambda>cells. dict_pop cells i) t),
                 fz_map := dict_set (fz_map s) i (port_entry port ''ppi'' rec)\<rparr>))"

text \<open>The two passes on the tables of the top module, from the first free net.\<close>

definition fuse_intest :: "WbrRecord list \<Rightarrow> int \<Rightarrow> tables \<Rightarrow> tables \<times> jobj" where
  "fuse_intest records next_id t =
     (let s = strip_constant_outputs (fold intest_record records \<lparr>fz_tables = t, fz_next = next_id, fz_drop = [], fz_map = []\<rparr>)
      in (drop_top_ports_by_bit (fz_drop s) (fz_tables s), fz_map s))"

definition fuse_extest :: "WbrRecord list \<Rightarrow> int \<Rightarrow> tables \<Rightarrow> tables \<times> jobj" where
  "fuse_extest records next_id t =
     (let s = fold extest_record records \<lparr>fz_tables = t, fz_next = next_id, fz_drop = [], fz_map = []\<rparr>
      in (drop_top_ports_by_bit (fz_drop s) (drop_ppo_ports_and_observers (fz_tables s)), fz_map s))"

definition put_part :: "string \<Rightarrow> jobj \<Rightarrow> jobj \<Rightarrow> jobj" where
  "put_part key d module = (if has_key module key \<or> d \<noteq> [] then dict_set module key (JObj d) else module)"

definition fuse_module :: "(WbrRecord list \<Rightarrow> int \<Rightarrow> tables \<Rightarrow> tables \<times> jobj) \<Rightarrow> string \<Rightarrow> jobj \<Rightarrow> (jobj \<times> jobj) res" where
  "fuse_module pass version module =
     bind_res (extract_wbr_cells module) (\<lambda>records.
     bind_res (next_net_id module) (\<lambda>next_id.
     bind_res (tables_of module) (\<lambda>t.
     case pass records next_id t of (t', port_map) \<Rightarrow>
       Inr (set_attr ''faultflow_wbr_scan_view_schema_ver'' version
              (put_part ''netnames'' (t_nets t') (put_part ''ports'' (t_ports t') (put_part ''cells'' (t_cells t') module))), port_map))))"

definition fuse_wbr_into_view :: "jobj \<Rightarrow> string \<Rightarrow> string \<Rightarrow> (jobj \<times> jobj) res" where
  "fuse_wbr_into_view view top_name mode =
     (if mode \<noteq> ''extest'' \<and> mode \<noteq> ''intest'' then Inr (view, [])
      else bind_res (top_module view top_name) (\<lambda>(name, module).
        bind_res (if mode = ''extest'' then fuse_module fuse_extest WBR_SCAN_EXTEST_VIEW_SCHEMA_VER module
                  else fuse_module fuse_intest WBR_SCAN_VIEW_SCHEMA_VER module) (\<lambda>(module', port_map).
        Inr (set_module view name module', port_map))))"

section \<open>Names of the boundary in the generic netlist\<close>

definition lex_smallest_by_bit :: "jobj \<Rightarrow> (int \<times> string) list" where
  "lex_smallest_by_bit table =
     fold (\<lambda>(name, entry). fold (\<lambda>b out.
         (case map_of out b of None \<Rightarrow> dict_set out b name | Some old \<Rightarrow> if name < old then dict_set out b name else out))
       (entry_bits entry)) table []"

definition bit_to_name_index :: "jobj \<Rightarrow> (int \<times> string) list" where
  "bit_to_name_index module =
     (let table = (\<lambda>key. case as_obj (get_or module key (JObj [])) of None \<Rightarrow> [] | Some d \<Rightarrow> d)
      in dict_update (lex_smallest_by_bit (table ''netnames'')) (lex_smallest_by_bit (table ''ports'')))"

definition protocol_ports :: "(int \<times> string) list \<Rightarrow> jobj \<Rightarrow> string list res" where
  "protocol_ports bit_name manifest =
     (let clock_ids = (case as_list (get_or manifest ''clock_nets'' JNull) of
              Some nets \<Rightarrow> List.map_filter as_int nets
            | None \<Rightarrow> (case as_int (get_or manifest ''clock_net'' JNull) of None \<Rightarrow> [] | Some c \<Rightarrow> [c]))
      in bind_res (py_tuple (get_or manifest ''scan_inputs'' (JList []))) (\<lambda>inputs.
           Inr (List.map_filter (map_of bit_name) clock_ids @
                (case as_str (get_or manifest ''scan_enable'' JNull) of None \<Rightarrow> [] | Some se \<Rightarrow> [se]) @ map py_str inputs)))"

record name_map =
  nm_stimulus :: "string dict"
  nm_observe :: "string dict"
  nm_decoupled :: "int list"

definition map_boundary :: "string \<Rightarrow> (int \<times> string) list \<Rightarrow> string list \<Rightarrow> string \<times> json \<Rightarrow> name_map \<Rightarrow> name_map res" where
  "map_boundary top_name bit_name reserved ie nm =
     bind_res (obj_get (snd ie) ''port'' (JStr [])) (\<lambda>port.
     bind_res (obj_get (snd ie) ''sys_net'' (JInt (-1))) (\<lambda>sys. bind_res (py_int sys) (\<lambda>sys_net.
     bind_res (obj_get (snd ie) ''role'' (JStr [])) (\<lambda>role.
     let nm1 = (if 0 \<le> sys_net then nm\<lparr>nm_decoupled := List.insert sys_net (nm_decoupled nm)\<rparr> else nm);
         generic_name = get_or bit_name sys_net []
     in if generic_name = [] then Inl (ScanError (''wrapper boundary '' @ fst ie @ '': system net '' @ show_int sys_net @
            '' has no port or netname in generic top '' @ repr_str top_name @ ''; cannot reconcile to the scan golden gate''))
        else if py_str role = ''ppi'' then
          Inr (if generic_name \<in> set reserved then nm1
               else nm1\<lparr>nm_stimulus := dict_set (nm_stimulus nm1) (py_str port) generic_name\<rparr>)
        else Inr (nm1\<lparr>nm_observe := dict_set (nm_observe nm1) (py_str port) generic_name\<rparr>)))))"

definition build_wbr_generic_name_map :: "jobj \<Rightarrow> string \<Rightarrow> jobj \<Rightarrow> string \<Rightarrow> jobj option \<Rightarrow> name_map res" where
  "build_wbr_generic_name_map generic_json top_name wbr_port_map mode manifest =
     (let empty = \<lparr>nm_stimulus = [], nm_observe = [], nm_decoupled = []\<rparr>
      in if mode = ''functional'' then Inr empty
         else if mode \<noteq> ''intest'' then Inl (ScanError (
           ''build_wbr_generic_name_map supports only INTEST golden-gate reconciliation, not '' @ repr_str mode @ '' (see Runner._sim_scan)''))
         else bind_res (top_module generic_json top_name) (\<lambda>(name, module).
           let bit_name = bit_to_name_index module
           in bind_res (case manifest of None \<Rightarrow> Inr [] | Some m \<Rightarrow> protocol_ports bit_name m) (\<lambda>reserved.
              fold_res (map_boundary top_name bit_name reserved) wbr_port_map empty)))"

end
