(* ===== verification/Wbr_View_Props.thy ===== *)
theory Wbr_View_Props
  imports Wbr_View Atpg_View_Props
begin

text \<open>
  What the fused views mean. Both passes replace wrapper cells by ports and buffers, so one locale
  describes a pass: which cells and which port a record gives, and how the net counter moves. It is interpreted
  on the INTEST and the EXTEST step. The consistent valuations of a fused view are exactly those of the netlist
  cut at the boundary.
\<close>

section \<open>Extraction\<close>

text \<open>A wrapper cell that gets a record.\<close>

definition boundary_cell :: "json \<Rightarrow> bool" where
  "boundary_cell cell = (is_wbr_in cell \<and> \<not> is_constant_bit cell WBR_IN_CORE_PIN \<or>
     \<not> is_wbr_in cell \<and> is_wbr_out cell \<and> \<not> is_constant_bit cell WBR_OUT_CORE_PIN)"

lemma wbr_record_cases:
  assumes "wbr_record i cell = Inr m"
  shows "if boundary_cell cell
    then \<exists>rec. m = Some rec \<and> wr_instance rec = i \<and> wr_is_input rec = is_wbr_in cell \<and>
      pin_bits cell (if is_wbr_in cell then WBR_IN_CORE_PIN else WBR_OUT_CORE_PIN) = [wr_core_net rec] \<and>
      pin_bits cell (if is_wbr_in cell then WBR_IN_SYS_PIN else WBR_OUT_SYS_PIN) = [wr_sys_net rec] \<and>
      set (wr_chain_nets rec) \<subseteq> set (scan_chain_nets cell)
    else m = None"
  using assms unfolding wbr_record_def boundary_cell_def
  by (auto simp: single_bit_def bind_res_eq_Inr split: if_splits list.splits)

lemma extract_wbr_cells_spec:
  assumes e: "extract_wbr_cells module = Inr recs" and t: "tables_of module = Inr t" and d: "distinct (map fst (t_cells t))"
  shows "distinct (map wr_instance recs)"
    and "rec \<in> set recs \<Longrightarrow> \<exists>cell. (wr_instance rec, cell) \<in> set (t_cells t) \<and> boundary_cell cell \<and>
      wbr_record (wr_instance rec) cell = Inr (Some rec)"
    and "(i, cell) \<in> set (t_cells t) \<Longrightarrow> boundary_cell cell \<longleftrightarrow> i \<in> wr_instance ` set recs"
proof -
  from e tables_of_parts(1) [OF t] obtain ms where
    ms: "list_all2 (\<lambda>ic m. wbr_record (fst ic) (snd ic) = Inr m) (t_cells t) ms" "recs = sort_key wr_instance (List.map_filter (\<lambda>r. r) ms)"
    by (auto simp: extract_wbr_cells_def bind_res_eq_Inr map_res_eq_Inr case_prod_beta')
  have r: "wr_instance rec = fst ic" "boundary_cell (snd ic)" if "wbr_record (fst ic) (snd ic) = Inr (Some rec)" for ic rec
    using wbr_record_cases [OF that] by (auto split: if_splits)
  have dist: "distinct (map wr_instance (List.map_filter (\<lambda>r. r) ms)) \<and>
      set (map wr_instance (List.map_filter (\<lambda>r. r) ms)) \<subseteq> set (map fst (t_cells t))"
    using ms(1) d
  proof (induction rule: list_all2_induct)
    case Nil
    show ?case by (simp add: List.map_filter_simps)
  next
    case (Cons ic ics m ms)
    then show ?case using r [of ic] by (cases m) (auto simp: List.map_filter_simps)
  qed
  have recs: "set recs = {rec. Some rec \<in> set ms}" unfolding ms(2) by (force simp: List.map_filter_def)
  show "distinct (map wr_instance recs)"
    using dist unfolding ms(2) distinct_map by (auto intro: inj_on_subset)
  show 2: "\<exists>cell. (wr_instance rec, cell) \<in> set (t_cells t) \<and> boundary_cell cell \<and> wbr_record (wr_instance rec) cell = Inr (Some rec)"
    if "rec \<in> set recs" for rec
  proof -
    from that obtain j where j: "j < length ms" "ms ! j = Some rec" unfolding recs by (auto simp: in_set_conv_nth)
    then have "wbr_record (fst (t_cells t ! j)) (snd (t_cells t ! j)) = Inr (Some rec)" "j < length (t_cells t)"
      using ms(1) by (auto simp: list_all2_conv_all_nth)
    then show ?thesis using r [of "t_cells t ! j" rec] by (metis nth_mem prod.collapse)
  qed
  show "boundary_cell cell \<longleftrightarrow> i \<in> wr_instance ` set recs" if ic: "(i, cell) \<in> set (t_cells t)"
  proof
    assume b: "boundary_cell cell"
    from ic obtain j where j: "j < length (t_cells t)" "t_cells t ! j = (i, cell)" by (auto simp: in_set_conv_nth)
    then have m: "wbr_record i cell = Inr (ms ! j)" "j < length ms" using ms(1) by (auto simp: list_all2_conv_all_nth)
    from wbr_record_cases [OF m(1)] b obtain rec where "ms ! j = Some rec" "wr_instance rec = i" by auto
    with m(2) show "i \<in> wr_instance ` set recs" unfolding recs by (metis (mono_tags) imageI mem_Collect_eq nth_mem)
  next
    assume "i \<in> wr_instance ` set recs"
    with 2 obtain cell' where "(i, cell') \<in> set (t_cells t)" "boundary_cell cell'" by blast
    with ic d show "boundary_cell cell" by (metis eq_key_imp_eq_value)
  qed
qed

section \<open>A pass over the records\<close>

text \<open>The records with the first free net at their turn; a record that observes takes it.\<close>

fun numbered :: "(WbrRecord \<Rightarrow> bool) \<Rightarrow> int \<Rightarrow> WbrRecord list \<Rightarrow> (int \<times> WbrRecord) list" where
  "numbered obs k [] = []"
| "numbered obs k (r # rs) = (k, r) # numbered obs (if obs r then k + 1 else k) rs"

lemma numbered_le: "(k', r) \<in> set (numbered obs k rs) \<Longrightarrow> k \<le> k' \<and> r \<in> set rs"
  by (induction rs arbitrary: k) (force split: if_splits)+

lemma numbered_all: "r \<in> set rs \<Longrightarrow> \<exists>k'. (k', r) \<in> set (numbered obs k rs)"
  by (induction rs arbitrary: k) auto

lemma numbered_ext: "\<exists>v'. (\<forall>b < k. v' b = v b) \<and> (\<forall>(k', r) \<in> set (numbered obs k rs). obs r \<longrightarrow> v' k' = f r)"
proof (induction rs arbitrary: k v)
  case (Cons r rs)
  let ?k = "if obs r then k + 1 else k" and ?v = "if obs r then v(k := f r) else v"
  obtain v' where v': "\<forall>b < ?k. v' b = ?v b" "\<forall>(k', r) \<in> set (numbered obs ?k rs). obs r \<longrightarrow> v' k' = f r"
    using Cons.IH [of ?k ?v] by blast
  have "(\<forall>b < k. v' b = v b) \<and> (obs r \<longrightarrow> v' k = f r)" using v'(1) by (auto split: if_splits)
  with v'(2) show ?case by (intro exI [of _ v']) simp
qed auto

locale boundary_pass =
  fixes step :: "WbrRecord \<Rightarrow> fuse_state \<Rightarrow> fuse_state"
    and observing :: "WbrRecord \<Rightarrow> bool"
    and new_names :: "WbrRecord \<Rightarrow> string list"
    and new_cells :: "int \<Rightarrow> WbrRecord \<Rightarrow> jobj"
    and port_name :: "WbrRecord \<Rightarrow> string"
    and port_net :: "int \<Rightarrow> WbrRecord \<Rightarrow> int"
    and drops :: "WbrRecord \<Rightarrow> int list"
  assumes step_cells: "set (new_names r) \<inter> fst ` set (t_cells (fz_tables s)) = {} \<Longrightarrow>
      t_cells (fz_tables (step r s)) = filter (\<lambda>(i, c). i \<noteq> wr_instance r) (t_cells (fz_tables s)) @ new_cells (fz_next s) r"
    and step_next: "fz_next (step r s) = (if observing r then fz_next s + 1 else fz_next s)"
    and step_port: "\<exists>d. t_ports (fz_tables (step r s)) = dict_set (t_ports (fz_tables s)) (port_name r)
      (JObj [(''direction'', JStr d), (''bits'', JList [JInt (port_net (fz_next s) r)])])"
    and step_drop: "fz_drop (step r s) = fz_drop s @ drops r"
    and names: "map fst (new_cells k r) = new_names r"
    and fresh_names: "wr_instance r \<noteq> wr_instance r' \<Longrightarrow> set (new_names r) \<inter> set (new_names r') = {}"
    and port_inj: "wr_instance r \<noteq> wr_instance r' \<Longrightarrow> port_name r \<noteq> port_name r'"
begin

lemma pass_cells:
  assumes "distinct (map wr_instance rs)" and "wr_instance ` set rs \<subseteq> G" and "fst ` set (t_cells (fz_tables s)) \<subseteq> G \<union> H"
    and "\<forall>r \<in> set rs. set (new_names r) \<inter> (G \<union> H) = {}"
  shows "t_cells (fz_tables (fold step rs s)) =
    filter (\<lambda>(i, c). i \<notin> wr_instance ` set rs) (t_cells (fz_tables s)) @ concat (map (\<lambda>(k, r). new_cells k r) (numbered observing (fz_next s) rs))"
  using assms
proof (induction rs arbitrary: s H)
  case (Cons r rs)
  let ?s = "step r s"
  have c: "t_cells (fz_tables ?s) = filter (\<lambda>(i, c). i \<noteq> wr_instance r) (t_cells (fz_tables s)) @ new_cells (fz_next s) r"
    using Cons.prems(3,4) by (intro step_cells) auto
  have keys: "fst ` set (new_cells (fz_next s) r) = set (new_names r)" by (metis names list.set_map)
  have "t_cells (fz_tables (fold step rs ?s)) = filter (\<lambda>(i, c). i \<notin> wr_instance ` set rs) (t_cells (fz_tables ?s)) @
      concat (map (\<lambda>(k, r). new_cells k r) (numbered observing (fz_next ?s) rs))"
  proof (rule Cons.IH [of ?s "H \<union> set (new_names r)"])
    show "fst ` set (t_cells (fz_tables ?s)) \<subseteq> G \<union> (H \<union> set (new_names r))" unfolding c using Cons.prems(3) keys by auto
    have "set (new_names r') \<inter> set (new_names r) = {}" if "r' \<in> set rs" for r'
    proof (rule fresh_names)
      show "wr_instance r' \<noteq> wr_instance r" using that Cons.prems(1) by (auto simp: image_iff)
    qed
    then show "\<forall>r' \<in> set rs. set (new_names r') \<inter> (G \<union> (H \<union> set (new_names r))) = {}" using Cons.prems(4) by auto
  qed (use Cons.prems in auto)
  moreover have "filter (\<lambda>(i, c). i \<notin> wr_instance ` set rs) (new_cells (fz_next s) r) = new_cells (fz_next s) r"
  proof (rule filter_True, rule ballI)
    fix ic assume "ic \<in> set (new_cells (fz_next s) r)"
    then have "fst ic \<in> set (new_names r)" using keys by blast
    then have "fst ic \<notin> wr_instance ` set rs" using Cons.prems(2,4) by auto
    then show "case ic of (i, c) \<Rightarrow> i \<notin> wr_instance ` set rs" by (simp add: case_prod_beta')
  qed
  ultimately show ?case unfolding c by (simp add: step_next case_prod_beta' conj_commute)
qed simp

lemma pass_other_ports:
  "name \<notin> port_name ` set rs \<Longrightarrow> map_of (t_ports (fz_tables (fold step rs s))) name = map_of (t_ports (fz_tables s)) name"
proof (induction rs arbitrary: s)
  case (Cons r rs)
  then show ?case using step_port [of r s] by (auto simp: update_conv')
qed simp

lemma pass_ports:
  assumes "distinct (map wr_instance rs)" and "(k, r) \<in> set (numbered observing (fz_next s) rs)"
  shows "\<exists>d. map_of (t_ports (fz_tables (fold step rs s))) (port_name r) = Some (JObj [(''direction'', JStr d), (''bits'', JList [JInt (port_net k r)])])"
  using assms
proof (induction rs arbitrary: s)
  case (Cons r' rs)
  obtain d where p: "t_ports (fz_tables (step r' s)) = dict_set (t_ports (fz_tables s)) (port_name r')
      (JObj [(''direction'', JStr d), (''bits'', JList [JInt (port_net (fz_next s) r')])])" using step_port by blast
  show ?case
  proof (cases "(k, r) = (fz_next s, r')")
    case True
    have "port_name r' \<notin> port_name ` set rs"
    proof
      assume "port_name r' \<in> port_name ` set rs"
      then obtain q where "q \<in> set rs" "port_name r' = port_name q" by blast
      with Cons.prems(1) port_inj [of r' q] show False by force
    qed
    then show ?thesis using pass_other_ports [of "port_name r'" rs "step r' s"] True p by (simp add: update_conv')
  next
    case False
    then show ?thesis using Cons.IH [of "step r' s"] Cons.prems by (auto simp: step_next)
  qed
qed simp

lemma pass_drop: "fz_drop (fold step rs s) = fz_drop s @ concat (map drops rs)"
  by (induction rs arbitrary: s) (simp_all add: step_drop)

lemma pass_distinct: "distinct (map fst (t_ports (fz_tables s))) \<Longrightarrow> distinct (map fst (t_ports (fz_tables (fold step rs s))))"
proof (induction rs arbitrary: s)
  case (Cons r rs)
  then show ?case using step_port [of r s] by (auto simp: distinct_update)
qed simp

end

section \<open>The two steps\<close>

definition intest_cells :: "int \<Rightarrow> WbrRecord \<Rightarrow> jobj" where
  "intest_cells k r = (if wr_is_input r then [] else
     [(''$wbobserve_'' @ wr_instance r, buf_cell OBSERVE_BUF_CELL (JInt (wr_core_net r)) k)])"

definition intest_port :: "WbrRecord \<Rightarrow> string" where
  "intest_port r = (if wr_is_input r then WBI_PREFIX else WBO_PREFIX) @ wr_instance r"

definition extest_cells :: "int \<Rightarrow> WbrRecord \<Rightarrow> jobj" where
  "extest_cells k r = (if wr_is_input r then
     [(''$wbiobserve_'' @ wr_instance r, buf_cell OBSERVE_BUF_CELL (JInt (wr_sys_net r)) k),
      (''$wbsafe0_'' @ wr_instance r, buf_cell OBSERVE_BUF_CELL CONST0_LITERAL (wr_core_net r))] else [])"

definition extest_port :: "WbrRecord \<Rightarrow> string" where
  "extest_port r = (if wr_is_input r then WBI_OBS_PREFIX else WBO_CTL_PREFIX) @ wr_instance r"

lemma dict_set_fresh: "k \<notin> fst ` set d \<Longrightarrow> dict_set d k v = d @ [(k, v)]"
  by (induction d) auto

lemma dict_pop_filter: "dict_pop d k = filter (\<lambda>(i, c). i \<noteq> k) d"
  by (induction d) auto

lemma filter_key_other: "k \<notin> fst ` set d \<Longrightarrow> filter (\<lambda>(i, c). i \<noteq> k) d = d"
  by (rule filter_True) force

interpretation intest: boundary_pass intest_record "\<lambda>r. \<not> wr_is_input r"
  "\<lambda>r. if wr_is_input r then [] else [''$wbobserve_'' @ wr_instance r]" intest_cells intest_port
  "\<lambda>k r. if wr_is_input r then wr_core_net r else k" "\<lambda>r. wr_chain_nets r @ [wr_sys_net r]"
proof
  fix r :: WbrRecord and s :: fuse_state
  assume f: "set (if wr_is_input r then [] else [''$wbobserve_'' @ wr_instance r]) \<inter> fst ` set (t_cells (fz_tables s)) = {}"
  show "t_cells (fz_tables (intest_record r s)) = filter (\<lambda>(i, c). i \<noteq> wr_instance r) (t_cells (fz_tables s)) @ intest_cells (fz_next s) r"
    using f by (auto simp: intest_record_def Let_def tables_add_port_def on_cells_def intest_cells_def add_internal_buf_cell_def
      dict_pop_filter dict_set_fresh)
qed (auto simp: intest_record_def Let_def tables_add_port_def on_cells_def intest_cells_def intest_port_def WBI_PREFIX_def WBO_PREFIX_def)

interpretation extest: boundary_pass extest_record wr_is_input
  "\<lambda>r. if wr_is_input r then [''$wbiobserve_'' @ wr_instance r, ''$wbsafe0_'' @ wr_instance r] else []" extest_cells extest_port
  "\<lambda>k r. if wr_is_input r then k else wr_sys_net r" wr_chain_nets
proof
  fix r :: WbrRecord and s :: fuse_state
  let ?obs = "''$wbiobserve_'' @ wr_instance r" and ?safe = "''$wbsafe0_'' @ wr_instance r"
  assume f: "set (if wr_is_input r then [?obs, ?safe] else []) \<inter> fst ` set (t_cells (fz_tables s)) = {}"
  have ne: "?obs \<noteq> wr_instance r" by (simp add: append_eq_conv_conj)
  show "t_cells (fz_tables (extest_record r s)) = filter (\<lambda>(i, c). i \<noteq> wr_instance r) (t_cells (fz_tables s)) @ extest_cells (fz_next s) r"
  proof (cases "wr_is_input r")
    case True
    then have out: "?obs \<notin> fst ` set (t_cells (fz_tables s))" "?safe \<notin> fst ` set (t_cells (fz_tables s))" using f by auto
    let ?rest = "filter (\<lambda>(i, c). i \<noteq> wr_instance r) (t_cells (fz_tables s))"
    have "?safe \<notin> fst ` set (?rest @ [(?obs, buf_cell OBSERVE_BUF_CELL (JInt (wr_sys_net r)) (fz_next s))])" using out(2) by auto
    then show ?thesis using True out ne
      by (simp add: extest_record_def Let_def tables_add_port_def on_cells_def extest_cells_def add_internal_buf_cell_def
        add_const0_driver_cell_def dict_pop_filter dict_set_fresh)
  next
    case False
    then show ?thesis by (simp add: extest_record_def Let_def tables_add_port_def on_cells_def extest_cells_def dict_pop_filter)
  qed
qed (auto simp: extest_record_def Let_def tables_add_port_def on_cells_def extest_cells_def extest_port_def WBI_OBS_PREFIX_def WBO_CTL_PREFIX_def)

section \<open>Ports that stay\<close>

lemma map_of_filter_key: "map_of (filter (\<lambda>(i, c). P i) d) k = (if P k then map_of d k else None)"
  by (induction d) auto

lemma dropped_port:
  assumes "distinct (map fst (t_ports t))"
  shows "map_of (t_ports (drop_top_ports_by_bit bits t)) name =
    (case map_of (t_ports t) name of None \<Rightarrow> None | Some e \<Rightarrow> if port_on bits e then None else Some e)"
proof -
  let ?d = "map fst (filter (\<lambda>(name, port). port_on bits port) (t_ports t))"
  have in_d: "name \<in> set ?d \<longleftrightarrow> (\<exists>e. map_of (t_ports t) name = Some e \<and> port_on bits e)"
    using assms by (auto simp: image_iff dest: map_of_SomeD)
  have "map_of (t_ports (drop_top_ports_by_bit bits t)) name = (if name \<notin> set ?d then map_of (t_ports t) name else None)"
    unfolding drop_top_ports_by_bit_def Let_def by (simp add: map_of_filter_key)
  then show ?thesis using in_d by (auto split: option.splits)
qed

lemma entry_of_port [simp]: "entry_bits (JObj [(''direction'', JStr d), (''bits'', JList [JInt b])]) = [b]"
  "entry_vals v (JObj [(''direction'', JStr d), (''bits'', JList [JInt b])]) = [v b]"
  by (simp_all add: entry_bits_def entry_vals_def get_or_def int_bits_def List.map_filter_simps bit_value_def)

lemma t_cells_drop_ports [simp]: "t_cells (drop_top_ports_by_bit bits t) = t_cells t"
  by (simp add: drop_top_ports_by_bit_def Let_def)

lemma sat_outside:
  assumes "one_bit_pins cell" and "\<And>p b. (p, b) \<in> set (cell_sites cell) \<Longrightarrow> b < n" and "\<forall>b < n. v' b = v b"
  shows "cell_sat beh st v' i cell = cell_sat beh st v i cell"
  using cell_rel_sat [OF cell_rel_cong [OF assms(1), of v' v]] assms(2,3) by metis

lemma sat_unchanged:
  assumes t: "tables_of module = Inr t" and n: "next_net_id module = Inr n" and "\<forall>(i, cell) \<in> set (t_cells t). one_bit_pins cell"
    and v': "\<forall>b < n. v' b = v b" and ic: "(i, cell) \<in> set (t_cells t)"
  shows "cell_sat beh st v' i cell = cell_sat beh st v i cell"
proof (rule sat_outside [OF _ _ v'])
  show "one_bit_pins cell" using assms(3) ic by blast
  show "b < n" if "(p, b) \<in> set (cell_sites cell)" for p b using below_start [OF t n] ic that by (auto simp: below_def)
qed

lemma inserted_not_wrapper:
  "\<not> boundary_cell (buf_cell OBSERVE_BUF_CELL b k)" "\<not> constant_output (buf_cell OBSERVE_BUF_CELL b k)"
  by (auto simp: boundary_cell_def constant_output_def is_wbr_in_def is_wbr_out_def cell_type_in_def buf_cell_def internal_cell_def
    type_is_def get_or_def WBR_IN_TYPES_def WBR_OUT_TYPES_def WBR_SCAN_IN_TYPES_def WBR_SCAN_OUT_TYPES_def OBSERVE_BUF_CELL_def)

lemma pin_bits_site: "b \<in> set (pin_bits cell pin) \<Longrightarrow> (pin, b) \<in> set (cell_sites cell)"
  by (force simp: pin_bits_def cell_sites_def get_or_def int_bits_def split: option.splits dest: map_of_SomeD)

lemma record_nets_below:
  assumes e: "extract_wbr_cells module = Inr recs" and t: "tables_of module = Inr t" and n: "next_net_id module = Inr n"
    and d: "distinct (map fst (t_cells t))" and r: "rec \<in> set recs"
  shows "wr_core_net rec < n" "wr_sys_net rec < n" "\<forall>b \<in> set (wr_chain_nets rec). b < n"
proof -
  from extract_wbr_cells_spec(2) [OF e t d r] obtain cell where c: "(wr_instance rec, cell) \<in> set (t_cells t)" "boundary_cell cell"
    "wbr_record (wr_instance rec) cell = Inr (Some rec)" by blast
  have "b < n" if "b \<in> set (pin_bits cell pin)" for b pin
    using below_start [OF t n] c(1) pin_bits_site [OF that] by (auto simp: below_def)
  then show "wr_core_net rec < n" "wr_sys_net rec < n" "\<forall>b \<in> set (wr_chain_nets rec). b < n"
    using wbr_record_cases [OF c(3)] c(2) by (auto simp: scan_chain_nets_def split: if_splits) (metis list.set_intros(1))+
qed

lemma design_sat_append: "design_sat beh st v (cs @ ds) \<longleftrightarrow> design_sat beh st v cs \<and> design_sat beh st v ds"
  by (auto simp: design_sat_def)

lemma design_sat_concat: "design_sat beh st v (concat css) \<longleftrightarrow> (\<forall>cs \<in> set css. design_sat beh st v cs)"
  by (induction css) (auto simp: design_sat_append design_sat_def)

section \<open>INTEST\<close>

text \<open>The nets outside the wrapper: those on the system and chain side of the wrapper cells.\<close>

definition outer_nets :: "WbrRecord list \<Rightarrow> jobj \<Rightarrow> int list" where
  "outer_nets recs cells = concat (map (\<lambda>r. wr_chain_nets r @ [wr_sys_net r]) recs) @
     concat (map (\<lambda>(i, cell). if constant_output cell then pin_bits cell WBR_OUT_SYS_PIN @ scan_chain_nets cell else []) cells)"

definition core_sat :: "behaviour \<Rightarrow> (string \<Rightarrow> bool) \<Rightarrow> (int \<Rightarrow> bool) \<Rightarrow> jobj \<Rightarrow> bool" where
  "core_sat beh st v cells = (\<forall>(i, cell) \<in> set cells. \<not> boundary_cell cell \<longrightarrow> \<not> constant_output cell \<longrightarrow> cell_sat beh st v i cell)"

definition fuse_start :: "tables \<Rightarrow> int \<Rightarrow> fuse_state" where
  "fuse_start t n = \<lparr>fz_tables = t, fz_next = n, fz_drop = [], fz_map = []\<rparr>"

lemma intest_tables:
  assumes e: "extract_wbr_cells module = Inr recs" and t: "tables_of module = Inr t" and wf: "wf_tables t"
    and free: "\<forall>r \<in> set recs. ''$wbobserve_'' @ wr_instance r \<notin> fst ` set (t_cells t)" and f: "fuse_intest recs n t = (t', m)"
  shows "t_cells t' = filter (\<lambda>(i, cell). \<not> boundary_cell cell \<and> \<not> constant_output cell) (t_cells t) @
      concat (map (\<lambda>(k, r). intest_cells k r) (numbered (\<lambda>r. \<not> wr_is_input r) n recs))"
    and "t' = drop_top_ports_by_bit (outer_nets recs (t_cells t)) (fz_tables (strip_constant_outputs (fold intest_record recs (fuse_start t n))))"
proof -
  let ?start = "fuse_start t n"
  let ?s = "fold intest_record recs ?start"
  let ?rest = "filter (\<lambda>(i, c). i \<notin> wr_instance ` set recs) (t_cells t)"
  let ?new = "concat (map (\<lambda>(k, r). intest_cells k r) (numbered (\<lambda>r. \<not> wr_is_input r) n recs))"
  have d: "distinct (map fst (t_cells t))" using wf by (simp add: wf_tables_def keys_ok_def)
  note x = extract_wbr_cells_spec [OF e t d]
  have cells: "t_cells (fz_tables ?s) = ?rest @ ?new"
  proof -
    have sub: "wr_instance ` set recs \<subseteq> fst ` set (t_cells t)" using x(2) by (auto simp: image_iff) (metis fst_conv)
    have "\<forall>r \<in> set recs. set (if wr_is_input r then [] else [''$wbobserve_'' @ wr_instance r]) \<inter> (fst ` set (t_cells t) \<union> {}) = {}"
      using free by auto
    from intest.pass_cells [OF x(1) sub _ this, of ?start] show ?thesis by (simp add: fuse_start_def)
  qed
  have new: "\<not> constant_output (snd ic)" if "ic \<in> set ?new" for ic
    using that by (auto simp: intest_cells_def inserted_not_wrapper split: if_splits)
  have rest: "?rest = filter (\<lambda>(i, cell). \<not> boundary_cell cell) (t_cells t)" by (rule filter_cong) (use x(3) in auto)
  have t': "t' = drop_top_ports_by_bit (fz_drop (strip_constant_outputs ?s)) (fz_tables (strip_constant_outputs ?s))"
    using f by (simp add: fuse_intest_def Let_def fuse_start_def)
  have "filter (\<lambda>(i, cell). \<not> constant_output cell) ?new = ?new" by (rule filter_True) (use new in \<open>auto simp: case_prod_beta'\<close>)
  then show "t_cells t' = filter (\<lambda>(i, cell). \<not> boundary_cell cell \<and> \<not> constant_output cell) (t_cells t) @ ?new"
    unfolding t' by (simp add: strip_constant_outputs_def Let_def on_cells_def cells [unfolded rest] case_prod_beta' conj_commute)
  let ?nets = "\<lambda>(i, cell). if constant_output cell then pin_bits cell WBR_OUT_SYS_PIN @ scan_chain_nets cell else []"
  have nones: "concat (map ?nets ?new) = []" using new by (auto simp: case_prod_beta')
  have others: "concat (map ?nets (filter (\<lambda>(i, cell). \<not> boundary_cell cell) cs)) = concat (map ?nets cs)" for cs
    by (induction cs) (auto simp: boundary_cell_def constant_output_def is_wbr_in_def is_wbr_out_def cell_type_in_def type_is_def
      WBR_IN_TYPES_def WBR_OUT_TYPES_def WBR_SCAN_IN_TYPES_def WBR_SCAN_OUT_TYPES_def split: option.splits)
  have "concat (map ?nets (t_cells (fz_tables ?s))) = concat (map ?nets (t_cells t))"
    unfolding cells rest map_append concat_append nones others by simp
  moreover have "fz_drop ?s = concat (map (\<lambda>r. wr_chain_nets r @ [wr_sys_net r]) recs)" by (simp add: intest.pass_drop fuse_start_def)
  ultimately have "fz_drop (strip_constant_outputs ?s) = outer_nets recs (t_cells t)"
    by (simp add: strip_constant_outputs_def Let_def outer_nets_def)
  with t' show "t' = drop_top_ports_by_bit (outer_nets recs (t_cells t)) (fz_tables (strip_constant_outputs ?s))" by simp
qed

text \<open>C33: the INTEST view is the core behind its wrapper. Its consistent valuations are exactly those of the netlist without
  the wrapper cells, so the core inputs are free; the port of each record shows the core net of
  its cell; no wrapper cell is left that could be one, and no one-bit port is left on a net outside the wrapper.
  The hypotheses: one bit per pin, no duplicate names, the observe buffers have free names, and
  a core input is not also a net outside the wrapper.\<close>

theorem fuse_intest_correct:
  assumes e: "extract_wbr_cells module = Inr recs" and n: "next_net_id module = Inr n" and t: "tables_of module = Inr t"
    and wf: "wf_tables t" "\<forall>(i, cell) \<in> set (t_cells t). one_bit_pins cell"
    and free: "\<forall>r \<in> set recs. ''$wbobserve_'' @ wr_instance r \<notin> fst ` set (t_cells t)"
    and sides: "\<forall>r \<in> set recs. wr_is_input r \<longrightarrow> wr_core_net r \<notin> set (outer_nets recs (t_cells t))"
    and f: "fuse_intest recs n t = (t', m)"
  shows "(\<forall>v. design_sat beh st v (t_cells t') \<longrightarrow> core_sat beh st v (t_cells t) \<and>
        (\<forall>r \<in> set recs. port_value t' v (intest_port r) = Some [v (wr_core_net r)])) \<and>
    (\<forall>v. core_sat beh st v (t_cells t) \<longrightarrow> (\<exists>v'. (\<forall>b < n. v' b = v b) \<and> design_sat beh st v' (t_cells t'))) \<and>
    (\<forall>(i, cell) \<in> set (t_cells t'). \<not> boundary_cell cell \<and> \<not> constant_output cell) \<and>
    (\<forall>name port. map_of (t_ports t') name = Some port \<longrightarrow> \<not> port_on (outer_nets recs (t_cells t)) port)"
proof -
  let ?num = "numbered (\<lambda>r. \<not> wr_is_input r) n recs" and ?s = "fold intest_record recs (fuse_start t n)"
  note c = intest_tables(1) [OF e t wf(1) free f]
  note t' = intest_tables(2) [OF e t wf(1) free f]
  note x = extract_wbr_cells_spec [OF e t]
  have d: "distinct (map fst (t_cells t))" "distinct (map fst (t_ports t))" using wf(1) by (simp_all add: wf_tables_def keys_ok_def)
  have new: "design_sat beh st v (intest_cells k r) \<longleftrightarrow> (wr_is_input r \<or> v k = v (wr_core_net r))" for k r v
    by (auto simp: design_sat_def intest_cells_def buf_cell_sat bit_value_def)
  have sat: "design_sat beh st v (t_cells t') \<longleftrightarrow> core_sat beh st v (t_cells t) \<and> (\<forall>(k, r) \<in> set ?num. wr_is_input r \<or> v k = v (wr_core_net r))" for v
  proof -
    have "design_sat beh st v (filter (\<lambda>(i, cell). \<not> boundary_cell cell \<and> \<not> constant_output cell) (t_cells t)) = core_sat beh st v (t_cells t)"
      by (auto simp: design_sat_def core_sat_def)
    then show ?thesis unfolding c design_sat_append design_sat_concat by (simp add: new case_prod_beta')
  qed
  have dist: "distinct (map fst (t_ports (fz_tables ?s)))" by (rule intest.pass_distinct) (simp add: fuse_start_def d(2))
  have strip: "t_ports (fz_tables (strip_constant_outputs s)) = t_ports (fz_tables s)" for s
    by (simp add: strip_constant_outputs_def Let_def on_cells_def)
  have ports: "map_of (t_ports t') name = (case map_of (t_ports (fz_tables ?s)) name of None \<Rightarrow> None
      | Some port \<Rightarrow> if port_on (outer_nets recs (t_cells t)) port then None else Some port)" for name
    unfolding t' by (subst dropped_port) (simp_all add: strip dist)
  have outer: "b < n" if "b \<in> set (outer_nets recs (t_cells t))" for b
    using that record_nets_below [OF e t n d(1)] below_start [OF t n] pin_bits_site
    by (fastforce simp: outer_nets_def scan_chain_nets_def below_def split: if_splits)
  have shown: "port_value t' v (intest_port r) = Some [v (wr_core_net r)]" if v: "design_sat beh st v (t_cells t')" and r: "r \<in> set recs" for v r
  proof -
    obtain k where k: "(k, r) \<in> set ?num" using numbered_all r by blast
    then have le: "n \<le> k" using numbered_le by blast
    let ?b = "if wr_is_input r then wr_core_net r else k"
    obtain dir where p: "map_of (t_ports (fz_tables ?s)) (intest_port r) = Some (JObj [(''direction'', JStr dir), (''bits'', JList [JInt ?b])])"
      using intest.pass_ports [of recs k r "fuse_start t n"] x(1) [OF d(1)] k by (auto simp: fuse_start_def)
    have "?b \<notin> set (outer_nets recs (t_cells t))" using sides r le outer [of k] by auto
    moreover have "v ?b = v (wr_core_net r)" using v [unfolded sat] k by auto
    ultimately show ?thesis using ports [of "intest_port r"] p by (simp add: port_value_def port_on_def)
  qed
  have extend: "\<exists>v'. (\<forall>b < n. v' b = v b) \<and> design_sat beh st v' (t_cells t')" if v: "core_sat beh st v (t_cells t)" for v
  proof -
    obtain v' where v': "\<forall>b < n. v' b = v b" "\<forall>(k, r) \<in> set ?num. \<not> wr_is_input r \<longrightarrow> v' k = v (wr_core_net r)"
      using numbered_ext [of n v "\<lambda>r. \<not> wr_is_input r" recs "\<lambda>r. v (wr_core_net r)"] by blast
    have "core_sat beh st v' (t_cells t)" using v sat_unchanged [OF t n wf(2) v'(1)] unfolding core_sat_def by blast
    moreover have "wr_is_input r \<or> v' k = v' (wr_core_net r)" if "(k, r) \<in> set ?num" for k r
      using v' that record_nets_below(1) [OF e t n d(1), of r] numbered_le [OF that] by auto
    ultimately show ?thesis using v'(1) unfolding sat by blast
  qed
  have "\<not> boundary_cell cell \<and> \<not> constant_output cell" if "(i, cell) \<in> set (t_cells t')" for i cell
    using that unfolding c by (auto simp: intest_cells_def inserted_not_wrapper split: if_splits)
  then show ?thesis using shown extend sat ports by (auto split: option.splits if_splits)
qed

section \<open>EXTEST\<close>

definition interconnect_sat :: "behaviour \<Rightarrow> (string \<Rightarrow> bool) \<Rightarrow> (int \<Rightarrow> bool) \<Rightarrow> tables \<Rightarrow> bool" where
  "interconnect_sat beh st v t = (\<forall>(i, cell) \<in> set (t_cells t). \<not> boundary_cell cell \<longrightarrow>
     \<not> observes (ppo_bits (t_ports t)) cell \<longrightarrow> cell_sat beh st v i cell)"

lemma single_entry_iff: "single_entry e = Some b \<longleftrightarrow> entry_bits e = [b]"
  by (auto simp: single_entry_def split: list.splits)

lemma in_ppo_bits: "b \<in> set (ppo_bits ports) \<longleftrightarrow> (\<exists>name e. (name, e) \<in> set ports \<and> starts_with name PPO_PREFIX \<and> entry_bits e = [b])"
proof -
  have "b \<in> set (ppo_bits ports) \<longleftrightarrow> (\<exists>name e. (name, e) \<in> set ports \<and> (if starts_with name PPO_PREFIX then single_entry e else None) = Some b)"
    unfolding ppo_bits_def in_set_map_filter Bex_def split_paired_Ex case_prod_conv ..
  then show ?thesis by (auto simp: single_entry_iff split: if_splits)
qed

lemma set_ppo_bits:
  "distinct (map fst ports) \<Longrightarrow>
    set (ppo_bits ports) = {b. \<exists>name e. map_of ports name = Some e \<and> starts_with name PPO_PREFIX \<and> entry_bits e = [b]}"
  using in_ppo_bits map_of_eq_Some_iff by fastforce

lemma not_ppo: "\<not> starts_with (extest_port r) PPO_PREFIX"
  by (simp add: extest_port_def starts_with_def PPO_PREFIX_def WBI_OBS_PREFIX_def WBO_CTL_PREFIX_def)

lemma observes_buf: "observes bits (buf_cell ty b k) \<longleftrightarrow> k \<in> set bits"
  by (simp add: observes_def pin_bits_def buf_cell_def get_or_def int_bits_def List.map_filter_simps)

lemma extest_tables:
  assumes e: "extract_wbr_cells module = Inr recs" and n: "next_net_id module = Inr n" and t: "tables_of module = Inr t" and wf: "wf_tables t"
    and free: "\<forall>r \<in> set recs. {''$wbiobserve_'' @ wr_instance r, ''$wbsafe0_'' @ wr_instance r} \<inter> fst ` set (t_cells t) = {}"
    and safe: "\<forall>r \<in> set recs. wr_is_input r \<longrightarrow> wr_core_net r \<notin> set (ppo_bits (t_ports t))"
    and f: "fuse_extest recs n t = (t', m)"
  shows "t_cells t' = filter (\<lambda>(i, cell). \<not> boundary_cell cell \<and> \<not> observes (ppo_bits (t_ports t)) cell) (t_cells t) @
      concat (map (\<lambda>(k, r). extest_cells k r) (numbered wr_is_input n recs))"
    and "map_of (t_ports t') name = (if starts_with name PPO_PREFIX then None
      else case map_of (t_ports (fz_tables (fold extest_record recs (fuse_start t n)))) name of None \<Rightarrow> None
        | Some port \<Rightarrow> if port_on (concat (map wr_chain_nets recs)) port then None else Some port)"
proof -
  let ?start = "fuse_start t n"
  let ?s = "fold extest_record recs ?start"
  let ?rest = "filter (\<lambda>(i, c). i \<notin> wr_instance ` set recs) (t_cells t)"
  let ?num = "numbered wr_is_input n recs"
  let ?new = "concat (map (\<lambda>(k, r). extest_cells k r) ?num)" and ?ppo = "ppo_bits (t_ports t)"
  have d: "distinct (map fst (t_cells t))" "distinct (map fst (t_ports t))" using wf by (simp_all add: wf_tables_def keys_ok_def)
  note x = extract_wbr_cells_spec [OF e t d(1)]
  have cells: "t_cells (fz_tables ?s) = ?rest @ ?new"
  proof -
    have sub: "wr_instance ` set recs \<subseteq> fst ` set (t_cells t)" using x(2) by (auto simp: image_iff) (metis fst_conv)
    have "\<forall>r \<in> set recs. set (if wr_is_input r then [''$wbiobserve_'' @ wr_instance r, ''$wbsafe0_'' @ wr_instance r] else []) \<inter>
        (fst ` set (t_cells t) \<union> {}) = {}"
    proof
      fix r assume "r \<in> set recs"
      with free show "set (if wr_is_input r then [''$wbiobserve_'' @ wr_instance r, ''$wbsafe0_'' @ wr_instance r] else []) \<inter>
        (fst ` set (t_cells t) \<union> {}) = {}" by (cases "wr_is_input r") simp_all
    qed
    from extest.pass_cells [OF x(1) sub _ this, of ?start] show ?thesis by (simp add: fuse_start_def)
  qed
  have rest: "?rest = filter (\<lambda>(i, cell). \<not> boundary_cell cell) (t_cells t)" by (rule filter_cong) (use x(3) in auto)
  have dist: "distinct (map fst (t_ports (fz_tables ?s)))" by (rule extest.pass_distinct) (simp add: fuse_start_def d(2))
  have "map_of (t_ports (fz_tables ?s)) name = map_of (t_ports t) name" if "starts_with name PPO_PREFIX" for name
    using extest.pass_other_ports [of name recs ?start] that not_ppo by (auto simp: fuse_start_def)
  then have ppo: "set (ppo_bits (t_ports (fz_tables ?s))) = set ?ppo" unfolding set_ppo_bits [OF dist] set_ppo_bits [OF d(2)] by metis
  have obs: "observes (ppo_bits (t_ports (fz_tables ?s))) = observes ?ppo" unfolding observes_def ppo by simp
  have below: "b < n" if "b \<in> set ?ppo" for b
  proof -
    from that obtain name p where "map_of (t_ports t) name = Some p" "entry_bits p = [b]" unfolding set_ppo_bits [OF d(2)] by blast
    then have "(name, p) \<in> set (t_ports t) \<union> set (t_nets t)" "b \<in> set (entry_bits p)" by (simp_all add: map_of_SomeD)
    then show ?thesis using below_start [OF t n] unfolding below_def by blast
  qed
  have "\<not> observes ?ppo (snd ic)" if ic: "ic \<in> set ?new" for ic
  proof -
    from ic obtain k r where k: "(k, r) \<in> set ?num" "ic \<in> set (extest_cells k r)" by auto
    have "k \<notin> set ?ppo" "wr_is_input r \<longrightarrow> wr_core_net r \<notin> set ?ppo" using numbered_le [OF k(1)] below safe by force+
    then show ?thesis using k(2) by (auto simp: extest_cells_def observes_buf split: if_splits)
  qed
  then have "filter (\<lambda>(i, cell). \<not> observes ?ppo cell) ?new = ?new" by (intro filter_True) (auto simp: case_prod_beta')
  then have "filter (\<lambda>(i, cell). \<not> observes ?ppo cell) (t_cells (fz_tables ?s)) =
      filter (\<lambda>(i, cell). \<not> boundary_cell cell \<and> \<not> observes ?ppo cell) (t_cells t) @ ?new"
    unfolding cells rest by (simp add: case_prod_beta' conj_commute)
  moreover have t': "t' = drop_top_ports_by_bit (fz_drop ?s) (drop_ppo_ports_and_observers (fz_tables ?s))"
    using f by (simp add: fuse_extest_def Let_def fuse_start_def)
  ultimately show "t_cells t' = filter (\<lambda>(i, cell). \<not> boundary_cell cell \<and> \<not> observes ?ppo cell) (t_cells t) @ ?new"
    by (simp add: drop_ppo_ports_and_observers_def Let_def obs)
  have drop: "fz_drop ?s = concat (map wr_chain_nets recs)" by (simp add: extest.pass_drop fuse_start_def)
  show "map_of (t_ports t') name = (if starts_with name PPO_PREFIX then None
      else case map_of (t_ports (fz_tables ?s)) name of None \<Rightarrow> None
        | Some port \<Rightarrow> if port_on (concat (map wr_chain_nets recs)) port then None else Some port)"
    unfolding t' drop
    by (subst dropped_port) (use dist in \<open>simp_all add: drop_ppo_ports_and_observers_def Let_def map_of_filter_key distinct_map_filter split: option.splits\<close>)
qed


section \<open>A wrapped inverter\<close>

definition wrapper_cell :: "string \<Rightarrow> string \<Rightarrow> int \<Rightarrow> string \<Rightarrow> int \<Rightarrow> json" where
  "wrapper_cell ty core_pin core sys_pin sys =
     JObj [(''type'', JStr ty), (''connections'', JObj [(core_pin, JList [JInt core]), (sys_pin, JList [JInt sys])])]"

definition wrapped_module :: jobj where
  "wrapped_module = [
     (''cells'', JObj [(''wi'', wrapper_cell ''$wbc_in_faultflow'' ''TO_CORE'' 2 ''FROM_SYS'' 3),
        (''g'', wrapper_cell ''inv'' ''A'' 2 ''Y'' 4), (''wo'', wrapper_cell ''$wbc_out_faultflow'' ''FROM_CORE'' 4 ''TO_SYS'' 5)]),
     (''ports'', JObj [(''a'', JObj [(''direction'', JStr ''input''), (''bits'', JList [JInt 3])]),
        (''y'', JObj [(''direction'', JStr ''output''), (''bits'', JList [JInt 5])])]),
     (''netnames'', JObj [])]"

definition wrapped_recs :: "WbrRecord list" where
  "wrapped_recs = [\<lparr>wr_instance = ''wi'', wr_core_net = 2, wr_sys_net = 3, wr_is_input = True, wr_chain_nets = []\<rparr>,
     \<lparr>wr_instance = ''wo'', wr_core_net = 4, wr_sys_net = 5, wr_is_input = False, wr_chain_nets = []\<rparr>]"

definition wrapped_tables :: tables where
  "wrapped_tables = projr (tables_of wrapped_module)"

definition inv_beh :: behaviour where
  "inv_beh ty pins = (ty = ''inv'' \<longrightarrow> get_or pins ''Y'' False = (\<not> get_or pins ''A'' False))"

lemma wrapped_start:
  "extract_wbr_cells wrapped_module = Inr wrapped_recs" "next_net_id wrapped_module = Inr 6" "tables_of wrapped_module = Inr wrapped_tables"
  "wf_tables wrapped_tables" "\<forall>(i, cell) \<in> set (t_cells wrapped_tables). one_bit_pins cell"
proof -
  show "extract_wbr_cells wrapped_module = Inr wrapped_recs" "next_net_id wrapped_module = Inr 6" "tables_of wrapped_module = Inr wrapped_tables"
    "wf_tables wrapped_tables" by code_simp+
  show "\<forall>(i, cell) \<in> set (t_cells wrapped_tables). one_bit_pins cell"
    by (simp add: wrapped_tables_def wrapped_module_def tables_of_def Let_def lift_option_def get_or_def wrapper_cell_def one_bit_pins_def conns_of_def)
qed

text \<open>With 0 at the core input, the fused view shows 1 at the observed output.\<close>

theorem fuse_intest_correct_witness:
  "\<exists>v'. \<not> v' 2 \<and> design_sat inv_beh (\<lambda>i. False) v' (t_cells (fst (fuse_intest wrapped_recs 6 wrapped_tables))) \<and>
    port_value (fst (fuse_intest wrapped_recs 6 wrapped_tables)) v' ''__wbo_wo'' = Some [True]"
proof -
  let ?f = "fuse_intest wrapped_recs 6 wrapped_tables" and ?wo = "wrapped_recs ! 1"
  have free: "\<forall>r \<in> set wrapped_recs. ''$wbobserve_'' @ wr_instance r \<notin> fst ` set (t_cells wrapped_tables)" by code_simp
  have sides: "\<forall>r \<in> set wrapped_recs. wr_is_input r \<longrightarrow> wr_core_net r \<notin> set (outer_nets wrapped_recs (t_cells wrapped_tables))" by code_simp
  note fused = fuse_intest_correct [OF wrapped_start free sides prod.collapse [symmetric], of inv_beh "\<lambda>i. False"]
  have "core_sat inv_beh (\<lambda>i. False) (\<lambda>b. b = 4) (t_cells wrapped_tables)" by code_simp
  with fused obtain v' where v': "\<forall>b < 6. v' b = (b = 4)" "design_sat inv_beh (\<lambda>i. False) v' (t_cells (fst ?f))" by blast
  have "intest_port ?wo = ''__wbo_wo''" "?wo \<in> set wrapped_recs" "wr_core_net ?wo = 4" by code_simp+
  moreover from fused v'(2) have "\<forall>r \<in> set wrapped_recs. port_value (fst ?f) v' (intest_port r) = Some [v' (wr_core_net r)]" by blast
  ultimately have "port_value (fst ?f) v' ''__wbo_wo'' = Some [v' 4]" by metis
  then have "port_value (fst ?f) v' ''__wbo_wo'' = Some [True]" using v'(1) by simp
  with v' show ?thesis by (intro exI [of _ v']) simp
qed


end
