(* ===== verification/Aggregate.thy ===== *)
theory Aggregate
  imports Wbr_View Candidates
begin

text \<open>
  \<^verbatim>\<open>faultflow/project/aggregate.py\<close>: the coverage of a chip from the campaigns of its blocks and of the interconnect. Every
  fault row of a scope is classified by who owns it, and three guards check that the scopes are disjoint and
  complete. Reading files is a parameter: \<open>netlists\<close> gives the parsed JSON at a path, \<open>dbs\<close> the database at a path
  if there is one. A Python set is the list of its members; its order shows only in error messages.
\<close>

section \<open>Wrapper pins\<close>

definition CROSS_SCOPE_EXCLUSIONS :: "string list" where "CROSS_SCOPE_EXCLUSIONS = [''wbr_decoupled'']"
definition INWARD_PINS :: "string list" where "INWARD_PINS = [''TO_CORE'', ''FROM_CORE'']"
definition OUTWARD_PINS :: "string list" where "OUTWARD_PINS = [''FROM_SYS'', ''TO_SYS'']"

record wbc_pin =
  wp_block :: "string option"
  wp_wbc :: string
  wp_pin :: string
  wp_side :: string

type_synonym pin_index = "(int \<times> wbc_pin) list"

definition boundary_pin :: "string \<Rightarrow> jobj \<Rightarrow> string \<Rightarrow> string \<Rightarrow> wbc_pin" where
  "boundary_pin inst cell pin side =
     (let attrs = (case as_obj (get_or cell ''attributes'' (JObj [])) of None \<Rightarrow> [] | Some a \<Rightarrow> a)
      in \<lparr>wp_block = (case get_or attrs ''faultflow_block'' JNull of JStr b \<Rightarrow> if b = [] then None else Some b | _ \<Rightarrow> None),
          wp_wbc = py_str (get_or attrs ''faultflow_wbc'' (JStr inst)), wp_pin = pin, wp_side = side\<rparr>)"

definition wbc_side :: "json \<Rightarrow> string option" where
  "wbc_side cell = (if is_wbr_in cell then Some ''in'' else if is_wbr_out cell then Some ''out'' else None)"

definition index_wbc :: "string \<times> json \<Rightarrow> pin_index \<Rightarrow> pin_index" where
  "index_wbc ic index =
     (case (as_obj (snd ic), wbc_side (snd ic)) of
        (Some cell, Some side) \<Rightarrow>
          (case as_obj (get_or cell ''connections'' (JObj [])) of
             None \<Rightarrow> index
           | Some conns \<Rightarrow> fold (\<lambda>(pin, bits). fold (\<lambda>b d. dict_set d b (boundary_pin (fst ic) cell pin side)) (int_bits bits)) conns index)
      | _ \<Rightarrow> index)"

definition wbc_pin_index :: "json \<Rightarrow> string \<Rightarrow> pin_index res" where
  "wbc_pin_index data top_name =
     bind_res (obj_get data ''modules'' (JObj [])) (\<lambda>modules.
     bind_res (obj_get modules top_name JNull) (\<lambda>module.
     Inr (case Option.bind (as_obj module) (\<lambda>m. as_obj (get_or m ''cells'' (JObj []))) of
            None \<Rightarrow> []
          | Some cells \<Rightarrow> fold index_wbc cells [])))"

definition cell_boundary_pin :: "string \<Rightarrow> json \<Rightarrow> wbc_pin option" where
  "cell_boundary_pin inst cell =
     (case as_obj cell of
        None \<Rightarrow> None
      | Some c \<Rightarrow> if is_wbr_in cell then Some (boundary_pin inst c ''FROM_SYS'' ''in'')
                  else if is_wbr_out cell then Some (boundary_pin inst c ''TO_SYS'' ''out'') else None)"

definition index_port :: "(string \<times> wbc_pin) list \<Rightarrow> jobj \<Rightarrow> string \<times> json \<Rightarrow> pin_index \<Rightarrow> pin_index" where
  "index_port cell_pins fused_ports ni index =
     (case (as_obj (snd ni), map_of cell_pins (fst ni)) of
        (Some info, Some pin) \<Rightarrow>
          (case Option.bind (as_str (get_or info ''port'' JNull)) (map_of fused_ports) of
             None \<Rightarrow> index
           | Some port \<Rightarrow> fold (\<lambda>b d. dict_set d b pin) (entry_bits port) index)
      | _ \<Rightarrow> index)"

definition wbc_pin_index_extest :: "json \<Rightarrow> string \<Rightarrow> pin_index res" where
  "wbc_pin_index_extest data top_name =
     bind_res (obj_get data ''modules'' (JObj [])) (\<lambda>modules.
     bind_res (obj_get modules top_name JNull) (\<lambda>module.
     case (as_obj data, Option.bind (as_obj module) (\<lambda>m. as_obj (get_or m ''cells'' (JObj [])))) of
       (Some view, Some (ic # ics)) \<Rightarrow>
         (let cell_pins = List.map_filter (\<lambda>(i, cell). map_option (Pair i) (cell_boundary_pin i cell)) (ic # ics)
          in bind_res (fuse_wbr_into_view view top_name ''extest'') (\<lambda>(fused, port_map).
             bind_res (obj_get (JObj fused) ''modules'' (JObj [])) (\<lambda>fused_modules.
             bind_res (obj_get fused_modules top_name (JObj [])) (\<lambda>fused_module.
             let fused_ports = (case as_obj fused_module of None \<Rightarrow> JObj [] | Some m \<Rightarrow> get_or m ''ports'' (JObj []))
             in bind_res (if port_map = [] then Inr [] else lift_option AttributeError (as_obj fused_ports)) (\<lambda>ports.
                Inr (fold (index_port cell_pins ports) port_map []))))))
     | _ \<Rightarrow> Inr []))"

section \<open>Who owns a fault\<close>

datatype fault_key = Wbc string string string string string | Local string string string

definition canonical_key :: "string \<Rightarrow> pin_index \<Rightarrow> fault_row \<Rightarrow> fault_key" where
  "canonical_key scope_name wbc_pins row =
     (case map_of wbc_pins (net_id_of (f_site_key row) (f_net_id row)) of
        Some pin \<Rightarrow> Wbc (case wp_block pin of None \<Rightarrow> scope_name | Some b \<Rightarrow> if b = [] then scope_name else b)
                      (wp_wbc pin) (wp_pin pin) (wp_side pin) (f_fault_type row)
      | None \<Rightarrow> Local scope_name (f_site_key row) (f_fault_type row))"

definition is_wbc_key :: "fault_key \<Rightarrow> bool" where
  "is_wbc_key key = (case key of Wbc _ _ _ _ _ \<Rightarrow> True | Local _ _ _ \<Rightarrow> False)"

definition owning_role :: "wbc_pin option \<Rightarrow> string \<Rightarrow> string" where
  "owning_role pin scope_role =
     (case pin of
        None \<Rightarrow> scope_role
      | Some p \<Rightarrow> if wp_pin p \<in> set INWARD_PINS then ''block'' else if wp_pin p \<in> set OUTWARD_PINS then ''assembly'' else scope_role)"

section \<open>One scope\<close>

record ScopeRun =
  sr_kind :: string
  sr_name :: string
  sr_top :: string
  sr_campaign_type :: string
  sr_db_path :: string
  sr_netlist :: string

record ScopeCoverage =
  sc_kind :: string
  sc_name :: string
  sc_top :: string
  sc_campaign_id :: int
  sc_denominator :: int
  sc_detected :: int
  sc_owned :: int
  sc_owned_detected :: int
  sc_foreign :: int
  sc_handoff :: int
  sc_excluded_by_design :: int
  sc_total_sites :: int
  sc_coverage_percent :: "(int \<times> int) option"

record ScopeKeys =
  sk_owned :: "fault_key list"
  sk_handoff :: "fault_key list"
  sk_accounted :: "fault_key list"

record tally =
  n_owned :: int
  n_owned_detected :: int
  n_foreign :: int
  n_handoff :: int
  n_excluded :: int
  k_owned :: "fault_key list"
  k_handoff :: "fault_key list"
  k_accounted :: "fault_key list"

definition empty_tally :: tally where
  "empty_tally = \<lparr>n_owned = 0, n_owned_detected = 0, n_foreign = 0, n_handoff = 0, n_excluded = 0, k_owned = [], k_handoff = [], k_accounted = []\<rparr>"

definition in_denom :: "fault_row \<Rightarrow> bool" where
  "in_denom row = (f_exclusion row = ''none'' \<and> f_status row \<noteq> ''redundant'' \<and> f_collapsed_into row = None)"

definition row_role :: "string \<Rightarrow> pin_index \<Rightarrow> fault_row \<Rightarrow> string" where
  "row_role scope_role wbc_pins row = owning_role (map_of wbc_pins (net_id_of (f_site_key row) (f_net_id row))) scope_role"

definition tally_row :: "string \<Rightarrow> string \<Rightarrow> pin_index \<Rightarrow> fault_row \<Rightarrow> tally \<Rightarrow> tally" where
  "tally_row scope_name scope_role wbc_pins row a =
     (let role = row_role scope_role wbc_pins row; key = canonical_key scope_name wbc_pins row
      in if in_denom row \<and> role = scope_role then
           a\<lparr>n_owned := n_owned a + 1, n_owned_detected := n_owned_detected a + (if f_status row = ''detected'' then 1 else 0),
             k_owned := List.insert key (k_owned a)\<rparr>
         else if in_denom row \<and> role \<noteq> scope_role then
           a\<lparr>n_foreign := n_foreign a + 1, k_handoff := List.insert key (k_handoff a)\<rparr>
         else if f_exclusion row \<in> set CROSS_SCOPE_EXCLUSIONS then
           a\<lparr>n_handoff := n_handoff a + 1, k_handoff := (if is_wbc_key key then List.insert key (k_handoff a) else k_handoff a)\<rparr>
         else
           a\<lparr>n_excluded := n_excluded a + 1, k_accounted := (if is_wbc_key key then List.insert key (k_accounted a) else k_accounted a)\<rparr>)"

definition scope_role_of :: "ScopeRun \<Rightarrow> string" where
  "scope_role_of scope = (if sr_kind scope = ''block'' then ''block'' else ''assembly'')"

definition scope_pins :: "(string \<Rightarrow> json res) \<Rightarrow> ScopeRun \<Rightarrow> pin_index res" where
  "scope_pins netlists scope =
     bind_res (netlists (sr_netlist scope)) (\<lambda>data.
       if sr_campaign_type scope = ''scan_extest'' then wbc_pin_index_extest data (sr_top scope)
       else wbc_pin_index data (sr_top scope))"

definition scope_coverage ::
  "(string \<Rightarrow> json res) \<Rightarrow> (string \<Rightarrow> campaign_db option) \<Rightarrow> ScopeRun \<Rightarrow> (ScopeCoverage \<times> ScopeKeys) res" where
  "scope_coverage netlists dbs scope =
     (case dbs (sr_db_path scope) of
        None \<Rightarrow> Inl (AggregateError (''scope '' @ repr_str (sr_name scope) @ '': no database at '' @ sr_db_path scope))
      | Some db \<Rightarrow>
          bind_res (scope_pins netlists scope) (\<lambda>wbc_pins.
          bind_res (latest_campaign_id db (sr_campaign_type scope)) (\<lambda>campaign. case campaign of
              None \<Rightarrow> Inl (AggregateError (''scope '' @ repr_str (sr_name scope) @ '': no '' @ sr_campaign_type scope @ '' campaign''))
            | Some campaign_id \<Rightarrow>
                (let data = summary db (Some campaign_id);
                     rows = filter (\<lambda>f. f_campaign_id f = campaign_id) (faults db);
                     a = fold (tally_row (sr_name scope) (scope_role_of scope) wbc_pins) rows empty_tally;
                     total_sites = int (length rows)
                 in if n_owned a + n_foreign a + n_handoff a + n_excluded a \<noteq> total_sites
                    then Inl (AggregateError (''scope '' @ repr_str (sr_name scope) @ '': partition does not cover all '' @
                      show_int total_sites @ '' fault sites''))
                    else Inr (\<lparr>sc_kind = sr_kind scope, sc_name = sr_name scope, sc_top = sr_top scope, sc_campaign_id = campaign_id,
                        sc_denominator = denominator data, sc_detected = detected data, sc_owned = n_owned a,
                        sc_owned_detected = n_owned_detected a, sc_foreign = n_foreign a, sc_handoff = n_handoff a,
                        sc_excluded_by_design = n_excluded a, sc_total_sites = total_sites,
                        sc_coverage_percent = test_coverage_percent data\<rparr>,
                      \<lparr>sk_owned = k_owned a, sk_handoff = k_handoff a, sk_accounted = k_accounted a\<rparr>)))))"

section \<open>The chip\<close>

record ChipCoverage =
  ch_project :: string
  ch_denominator :: int
  ch_detected :: int
  ch_percent :: "(int \<times> int) option"
  ch_scopes :: "ScopeCoverage list"
  ch_owned_sites :: int
  ch_handoff_sites :: int
  ch_accounted_sites :: int

record chip_state =
  cs_scopes :: "ScopeCoverage list"
  cs_denominator :: int
  cs_detected :: int
  cs_owned :: "(fault_key \<times> string) list"
  cs_handoff :: "fault_key list"
  cs_accounted :: "fault_key list"
  cs_overlaps :: "(fault_key \<times> string \<times> string) list"

definition key_fields :: "fault_key \<Rightarrow> string list" where
  "key_fields key = (case key of Wbc a b c d e \<Rightarrow> [a, b, c, d, e] | Local a b c \<Rightarrow> [a, b, c])"

definition overlap_json :: "fault_key \<times> string \<times> string \<Rightarrow> json" where
  "overlap_json kab = (case kab of (key, a, b) \<Rightarrow>
     JObj [(''key'', JList (map JStr ((if is_wbc_key key then ''wbc'' else ''local'') # key_fields key))), (''scopes'', JList [JStr a, JStr b])])"

definition own_key :: "string \<Rightarrow> fault_key \<Rightarrow> chip_state \<Rightarrow> chip_state" where
  "own_key name key s =
     (case map_of (cs_owned s) key of
        Some prev \<Rightarrow> if prev \<noteq> name then s\<lparr>cs_overlaps := cs_overlaps s @ [(key, prev, name)]\<rparr>
                      else s\<lparr>cs_owned := dict_set (cs_owned s) key name\<rparr>
      | None \<Rightarrow> s\<lparr>cs_owned := dict_set (cs_owned s) key name\<rparr>)"

definition add_scope ::
  "(string \<Rightarrow> json res) \<Rightarrow> (string \<Rightarrow> campaign_db option) \<Rightarrow> ScopeRun \<Rightarrow> chip_state \<Rightarrow> chip_state res" where
  "add_scope netlists dbs scope s =
     bind_res (scope_coverage netlists dbs scope) (\<lambda>(cov, keys).
       let s1 = fold (own_key (sr_name scope)) (sk_owned keys) s
       in Inr (s1\<lparr>cs_scopes := cs_scopes s @ [cov], cs_denominator := cs_denominator s + sc_owned cov,
            cs_detected := cs_detected s + sc_owned_detected cov,
            cs_handoff := fold List.insert (sk_handoff keys) (cs_handoff s),
            cs_accounted := fold List.insert (sk_accounted keys) (cs_accounted s)\<rparr>))"

definition EM_DASH :: string where "EM_DASH = [CHR 0xE2, CHR 0x80, CHR 0x94]"

definition aggregate_project ::
  "(string \<Rightarrow> json res) \<Rightarrow> (string \<Rightarrow> campaign_db option) \<Rightarrow> string \<Rightarrow> ScopeRun list \<Rightarrow> ChipCoverage res" where
  "aggregate_project netlists dbs project_name scopes =
     (if scopes = [] then Inl (AggregateError ''project has no scopes to aggregate'')
      else if \<not> distinct (map sr_top scopes)
      then Inl (AggregateError (''scope tops are not pairwise distinct: '' @ py_repr (JList (map (JStr \<circ> sr_top) scopes))))
      else bind_res (fold_res (add_scope netlists dbs) scopes
             \<lparr>cs_scopes = [], cs_denominator = 0, cs_detected = 0, cs_owned = [], cs_handoff = [], cs_accounted = [], cs_overlaps = []\<rparr>) (\<lambda>s.
        let unowned = sorted_set (map (\<lambda>k. join_str '':'' (key_fields k))
              (filter (\<lambda>k. \<not> has_key (cs_owned s) k \<and> k \<notin> set (cs_accounted s)) (cs_handoff s)))
        in if cs_overlaps s \<noteq> [] then
             Inl (AggregateError (''faults double-counted across scopes: '' @ py_repr (JList (map overlap_json (cs_overlaps s)))))
           else if unowned \<noteq> [] then
             Inl (AggregateError (''wrapper-boundary faults handed off by one scope are owned by no other scope (the chip number would be optimistic) '' @
               EM_DASH @ '' the assembly must wrap + EXTEST these block boundaries: '' @ py_repr (JList (map JStr unowned))))
           else if cs_denominator s \<le> 0 then Inl (AggregateError (''chip denominator is zero '' @ EM_DASH @ '' nothing to cover''))
           else Inr \<lparr>ch_project = project_name, ch_denominator = cs_denominator s, ch_detected = cs_detected s,
                  ch_percent = percent (cs_detected s) (cs_denominator s), ch_scopes = cs_scopes s,
                  ch_owned_sites = int (length (cs_owned s)), ch_handoff_sites = int (length (cs_handoff s)),
                  ch_accounted_sites = int (length (cs_accounted s))\<rparr>))"

end
