(* ===== verification/Aggregate_Props.thy ===== *)
theory Aggregate_Props
  imports Aggregate Candidates_Props
begin

text \<open>
  The chip coverage adds up and its guards hold: the classification of a scope covers all its fault rows, an
  accepted aggregation owns no fault under two names and leaves no handed-off fault without an owner, and the one
  case the guards miss.
\<close>

section \<open>The classification of a scope\<close>

definition owned_row :: "string \<Rightarrow> pin_index \<Rightarrow> fault_row \<Rightarrow> bool" where
  "owned_row role pins row = (in_denom row \<and> row_role role pins row = role)"

definition foreign_row :: "string \<Rightarrow> pin_index \<Rightarrow> fault_row \<Rightarrow> bool" where
  "foreign_row role pins row = (in_denom row \<and> row_role role pins row \<noteq> role)"

lemma count_if_Cons: "count_if p (x # xs) = (if p x then 1 else 0) + count_if p xs"
  by (simp add: count_if_def)

lemma count_if_Nil [simp]: "count_if p [] = 0"
  by (simp add: count_if_def)

lemma tally_counts:
  "n_owned (fold (tally_row name role pins) rows a) = n_owned a + count_if (owned_row role pins) rows"
  "n_foreign (fold (tally_row name role pins) rows a) = n_foreign a + count_if (foreign_row role pins) rows"
  "n_owned_detected (fold (tally_row name role pins) rows a) =
     n_owned_detected a + count_if (\<lambda>r. owned_row role pins r \<and> f_status r = ''detected'') rows"
  by (induction rows arbitrary: a) (auto simp: count_if_Cons tally_row_def Let_def owned_row_def foreign_row_def)

definition tallied :: "tally \<Rightarrow> int" where
  "tallied a = n_owned a + n_foreign a + n_handoff a + n_excluded a"

lemma tally_partition: "tallied (fold (tally_row name role pins) rows a) = tallied a + int (length rows)"
  by (induction rows arbitrary: a) (auto simp: tallied_def tally_row_def Let_def)

lemma tally_owned_keys:
  "set (k_owned (fold (tally_row name role pins) rows a)) = set (k_owned a) \<union> canonical_key name pins ` {r \<in> set rows. owned_row role pins r}"
  by (induction rows arbitrary: a) (auto simp: tally_row_def Let_def owned_row_def)

lemma in_denom_iff: "in_denom r \<longleftrightarrow> eligible_fault r \<and> f_status r \<noteq> ''redundant''"
  by (auto simp: in_denom_def eligible_fault_def)

text \<open>What \<^verbatim>\<open>_scope_coverage\<close> returns, with its guard discharged.\<close>

lemma scope_coverage_eq:
  assumes "dbs (sr_db_path scope) = Some db" and "scope_pins netlists scope = Inr pins"
    and "latest_campaign_id db (sr_campaign_type scope) = Inr (Some c)"
  defines "rows \<equiv> filter (\<lambda>f. f_campaign_id f = c) (faults db)"
  defines "a \<equiv> fold (tally_row (sr_name scope) (scope_role_of scope) pins) rows empty_tally"
  shows "scope_coverage netlists dbs scope = Inr (\<lparr>sc_kind = sr_kind scope, sc_name = sr_name scope, sc_top = sr_top scope, sc_campaign_id = c,
      sc_denominator = denominator (summary db (Some c)), sc_detected = detected (summary db (Some c)), sc_owned = n_owned a,
      sc_owned_detected = n_owned_detected a, sc_foreign = n_foreign a, sc_handoff = n_handoff a,
      sc_excluded_by_design = n_excluded a, sc_total_sites = int (length rows),
      sc_coverage_percent = test_coverage_percent (summary db (Some c))\<rparr>,
    \<lparr>sk_owned = k_owned a, sk_handoff = k_handoff a, sk_accounted = k_accounted a\<rparr>)"
proof -
  have "n_owned a + n_foreign a + n_handoff a + n_excluded a = int (length rows)"
    unfolding a_def using tally_partition by (simp add: tallied_def empty_tally_def)
  then show ?thesis using assms(1-3) unfolding scope_coverage_def by (simp add: Let_def rows_def a_def)
qed

lemma scope_coverage_Inr:
  assumes "scope_coverage netlists dbs scope = Inr (cov, keys)"
  obtains db pins c where "dbs (sr_db_path scope) = Some db" "scope_pins netlists scope = Inr pins"
    "latest_campaign_id db (sr_campaign_type scope) = Inr (Some c)"
  using assms unfolding scope_coverage_def by (auto simp: bind_res_eq_Inr split: option.splits)

lemma scope_counts:
  assumes "scope_coverage netlists dbs scope = Inr (cov, keys)"
  shows "sc_owned cov + sc_foreign cov + sc_handoff cov + sc_excluded_by_design cov = sc_total_sites cov"
    and "sc_denominator cov = sc_owned cov + sc_foreign cov"
    and "0 \<le> sc_owned_detected cov" "sc_owned_detected cov \<le> sc_owned cov"
proof -
  obtain db pins c where p: "dbs (sr_db_path scope) = Some db" "scope_pins netlists scope = Inr pins"
    "latest_campaign_id db (sr_campaign_type scope) = Inr (Some c)" by (rule scope_coverage_Inr [OF assms])
  let ?rows = "filter (\<lambda>f. f_campaign_id f = c) (faults db)" and ?role = "scope_role_of scope"
  let ?a = "fold (tally_row (sr_name scope) ?role pins) ?rows empty_tally"
  note cov = scope_coverage_eq [of dbs scope db netlists pins c, OF p] assms
  have flds: "sc_owned cov = n_owned ?a" "sc_foreign cov = n_foreign ?a" "sc_handoff cov = n_handoff ?a" "sc_excluded_by_design cov = n_excluded ?a"
    "sc_total_sites cov = int (length ?rows)" "sc_denominator cov = denominator (summary db (Some c))" "sc_owned_detected cov = n_owned_detected ?a"
    using cov by auto
  show "sc_owned cov + sc_foreign cov + sc_handoff cov + sc_excluded_by_design cov = sc_total_sites cov"
    unfolding flds using tally_partition by (simp add: tallied_def empty_tally_def)
  have "denominator (summary db (Some c)) = count_if in_denom ?rows"
    by (simp add: summary_def Let_def summary_rows_def in_denom_iff [abs_def])
  also have "\<dots> = count_if (owned_row ?role pins) ?rows + count_if (foreign_row ?role pins) ?rows"
    unfolding count_if_split [of in_denom ?rows "\<lambda>r. row_role ?role pins r = ?role"] owned_row_def foreign_row_def ..
  finally show "sc_denominator cov = sc_owned cov + sc_foreign cov" unfolding flds tally_counts(1,2) by (simp add: empty_tally_def)
  show "0 \<le> sc_owned_detected cov" unfolding flds tally_counts(3) by (simp add: empty_tally_def)
  show "sc_owned_detected cov \<le> sc_owned cov"
    unfolding flds tally_counts(1,3) using count_if_mono [of ?rows "\<lambda>r. owned_row ?role pins r \<and> f_status r = ''detected''" "owned_row ?role pins"]
    by (simp add: empty_tally_def)
qed

text \<open>A scope's classification is total. Once its database, pins and campaign are there, the scope never fails with the
  partition error; every fault row is owned, foreign, handed off or excluded, the owned and foreign ones
  are the denominator of the campaign's summary, and detected owned faults are owned.\<close>

theorem scope_coverage_partition:
  assumes "dbs (sr_db_path scope) = Some db" and "scope_pins netlists scope = Inr pins"
    and "latest_campaign_id db (sr_campaign_type scope) = Inr (Some c)"
  shows "\<exists>cov keys. scope_coverage netlists dbs scope = Inr (cov, keys) \<and>
    sc_owned cov + sc_foreign cov + sc_handoff cov + sc_excluded_by_design cov = int (length (filter (\<lambda>f. f_campaign_id f = c) (faults db))) \<and>
    denominator (summary db (Some c)) = sc_owned cov + sc_foreign cov \<and> 0 \<le> sc_owned_detected cov \<and> sc_owned_detected cov \<le> sc_owned cov"
proof -
  obtain cov keys where eq: "scope_coverage netlists dbs scope = Inr (cov, keys)" and f: "sc_denominator cov = denominator (summary db (Some c))"
    "sc_total_sites cov = int (length (filter (\<lambda>f. f_campaign_id f = c) (faults db)))"
    using scope_coverage_eq [of dbs scope db netlists pins c, OF assms] by simp
  have "sc_owned cov + sc_foreign cov + sc_handoff cov + sc_excluded_by_design cov = int (length (filter (\<lambda>f. f_campaign_id f = c) (faults db)))"
    "denominator (summary db (Some c)) = sc_owned cov + sc_foreign cov" using scope_counts(1,2) [OF eq] unfolding f by simp_all
  with eq scope_counts(3,4) [OF eq] show ?thesis by blast
qed

section \<open>The chip\<close>

definition owns :: "(string \<Rightarrow> json res) \<Rightarrow> (string \<Rightarrow> campaign_db option) \<Rightarrow> ScopeRun \<Rightarrow> fault_key \<Rightarrow> bool" where
  "owns netlists dbs scope k = (case scope_coverage netlists dbs scope of Inl e \<Rightarrow> False | Inr (cov, keys) \<Rightarrow> k \<in> set (sk_owned keys))"

definition hands_off :: "(string \<Rightarrow> json res) \<Rightarrow> (string \<Rightarrow> campaign_db option) \<Rightarrow> ScopeRun \<Rightarrow> fault_key \<Rightarrow> bool" where
  "hands_off netlists dbs scope k = (case scope_coverage netlists dbs scope of Inl e \<Rightarrow> False | Inr (cov, keys) \<Rightarrow> k \<in> set (sk_handoff keys))"

definition accounts :: "(string \<Rightarrow> json res) \<Rightarrow> (string \<Rightarrow> campaign_db option) \<Rightarrow> ScopeRun \<Rightarrow> fault_key \<Rightarrow> bool" where
  "accounts netlists dbs scope k = (case scope_coverage netlists dbs scope of Inl e \<Rightarrow> False | Inr (cov, keys) \<Rightarrow> k \<in> set (sk_accounted keys))"

lemma own_key_fields:
  "cs_scopes (own_key n k s) = cs_scopes s" "cs_denominator (own_key n k s) = cs_denominator s" "cs_detected (own_key n k s) = cs_detected s"
  "cs_handoff (own_key n k s) = cs_handoff s" "cs_accounted (own_key n k s) = cs_accounted s"
  by (simp_all add: own_key_def split: option.splits)

lemma own_keys_overlaps: "cs_overlaps (fold (own_key n) ks s) = [] \<Longrightarrow> cs_overlaps s = []"
proof (induction ks arbitrary: s)
  case (Cons k ks)
  then have "cs_overlaps (own_key n k s) = []" by simp
  then show ?case by (auto simp: own_key_def split: option.splits if_splits)
qed simp

lemma own_keys_owned:
  assumes "cs_overlaps (fold (own_key n) ks s) = []"
  shows "map_of (cs_owned (fold (own_key n) ks s)) = (\<lambda>k. if k \<in> set ks then Some n else map_of (cs_owned s) k)"
    and "k \<in> set ks \<Longrightarrow> map_of (cs_owned s) k \<in> {None, Some n}"
proof -
  have step: "map_of (cs_owned (own_key n k s)) = (map_of (cs_owned s))(k \<mapsto> n) \<and> map_of (cs_owned s) k \<in> {None, Some n}"
    if "cs_overlaps (own_key n k s) = []" for k s
    using that by (auto simp: own_key_def update_conv' split: option.splits if_splits)
  have "map_of (cs_owned (fold (own_key n) ks s)) = (\<lambda>k. if k \<in> set ks then Some n else map_of (cs_owned s) k) \<and>
      (\<forall>k \<in> set ks. map_of (cs_owned s) k \<in> {None, Some n})"
    using assms
  proof (induction ks arbitrary: s)
    case (Cons k ks)
    then have IH: "map_of (cs_owned (fold (own_key n) ks (own_key n k s))) = (\<lambda>k'. if k' \<in> set ks then Some n else map_of (cs_owned (own_key n k s)) k')"
      "\<forall>k' \<in> set ks. map_of (cs_owned (own_key n k s)) k' \<in> {None, Some n}" by simp_all
    have one: "map_of (cs_owned (own_key n k s)) = (map_of (cs_owned s))(k \<mapsto> n)" "map_of (cs_owned s) k \<in> {None, Some n}"
      using step own_keys_overlaps Cons.prems by simp_all
    have "map_of (cs_owned s) k' \<in> {None, Some n}" if "k' \<in> set ks" for k' using IH(2) that one by (cases "k' = k") (auto split: if_splits)
    then show ?case using IH(1) one by auto
  qed simp
  then show "map_of (cs_owned (fold (own_key n) ks s)) = (\<lambda>k. if k \<in> set ks then Some n else map_of (cs_owned s) k)"
    "k \<in> set ks \<Longrightarrow> map_of (cs_owned s) k \<in> {None, Some n}" by blast+
qed

text \<open>What the loop over the scopes has established when the scopes \<open>seen\<close> are done.\<close>

definition chip_inv :: "(string \<Rightarrow> json res) \<Rightarrow> (string \<Rightarrow> campaign_db option) \<Rightarrow> ScopeRun list \<Rightarrow> chip_state \<Rightarrow> bool" where
  "chip_inv netlists dbs seen s =
     (list_all2 (\<lambda>scope cov. \<exists>keys. scope_coverage netlists dbs scope = Inr (cov, keys)) seen (cs_scopes s) \<and>
      cs_denominator s = sum_list (map sc_owned (cs_scopes s)) \<and> cs_detected s = sum_list (map sc_owned_detected (cs_scopes s)) \<and>
      set (cs_handoff s) = {k. \<exists>a \<in> set seen. hands_off netlists dbs a k} \<and>
      set (cs_accounted s) = {k. \<exists>a \<in> set seen. accounts netlists dbs a k} \<and>
      (cs_overlaps s = [] \<longrightarrow>
         (\<forall>a \<in> set seen. \<forall>k. owns netlists dbs a k \<longrightarrow> map_of (cs_owned s) k = Some (sr_name a)) \<and>
         (\<forall>k. map_of (cs_owned s) k \<noteq> None \<longrightarrow> (\<exists>a \<in> set seen. owns netlists dbs a k))))"

lemma own_keys_fields:
  "cs_scopes (fold (own_key n) ks s) = cs_scopes s" "cs_denominator (fold (own_key n) ks s) = cs_denominator s"
  "cs_detected (fold (own_key n) ks s) = cs_detected s" "cs_handoff (fold (own_key n) ks s) = cs_handoff s"
  "cs_accounted (fold (own_key n) ks s) = cs_accounted s"
  by (induction ks arbitrary: s) (simp_all add: own_key_fields)

lemma add_scope_inv:
  assumes inv: "chip_inv netlists dbs seen s" and step: "add_scope netlists dbs scope s = Inr s'"
  shows "chip_inv netlists dbs (seen @ [scope]) s'"
proof -
  from step obtain cov keys where cov: "scope_coverage netlists dbs scope = Inr (cov, keys)" by (auto simp: add_scope_def bind_res_eq_Inr)
  let ?s = "fold (own_key (sr_name scope)) (sk_owned keys) s"
  have s': "s' = ?s\<lparr>cs_scopes := cs_scopes s @ [cov], cs_denominator := cs_denominator s + sc_owned cov,
      cs_detected := cs_detected s + sc_owned_detected cov, cs_handoff := fold List.insert (sk_handoff keys) (cs_handoff s),
      cs_accounted := fold List.insert (sk_accounted keys) (cs_accounted s)\<rparr>"
    using step cov by (auto simp: add_scope_def Let_def)
  have own: "owns netlists dbs scope k \<longleftrightarrow> k \<in> set (sk_owned keys)" "hands_off netlists dbs scope k \<longleftrightarrow> k \<in> set (sk_handoff keys)"
    "accounts netlists dbs scope k \<longleftrightarrow> k \<in> set (sk_accounted keys)" for k by (simp_all add: owns_def hands_off_def accounts_def cov)
  have last: "(\<forall>a \<in> set (seen @ [scope]). \<forall>k. owns netlists dbs a k \<longrightarrow> map_of (cs_owned s') k = Some (sr_name a)) \<and>
      (\<forall>k. map_of (cs_owned s') k \<noteq> None \<longrightarrow> (\<exists>a \<in> set (seen @ [scope]). owns netlists dbs a k))" if "cs_overlaps s' = []"
  proof -
    have none: "cs_overlaps ?s = []" using that by (simp add: s')
    then have old: "\<forall>a \<in> set seen. \<forall>k. owns netlists dbs a k \<longrightarrow> map_of (cs_owned s) k = Some (sr_name a)"
      "\<forall>k. map_of (cs_owned s) k \<noteq> None \<longrightarrow> (\<exists>a \<in> set seen. owns netlists dbs a k)"
      using inv own_keys_overlaps [OF none] by (simp_all add: chip_inv_def)
    have new: "map_of (cs_owned s') k = (if k \<in> set (sk_owned keys) then Some (sr_name scope) else map_of (cs_owned s) k)" for k
      using own_keys_owned(1) [OF none] by (simp add: s')
    have "map_of (cs_owned s') k = Some (sr_name a)" if "a \<in> set (seen @ [scope])" "owns netlists dbs a k" for a k
      using that old(1) own(1) new [of k] own_keys_owned(2) [OF none, of k] by force
    moreover have "\<exists>a \<in> set (seen @ [scope]). owns netlists dbs a k" if "map_of (cs_owned s') k \<noteq> None" for k
      using that old(2) own(1) [of k] new [of k] by (auto split: if_splits)
    ultimately show ?thesis by blast
  qed
  have "list_all2 (\<lambda>scope cov. \<exists>keys. scope_coverage netlists dbs scope = Inr (cov, keys)) (seen @ [scope]) (cs_scopes s')"
    using inv cov by (simp add: chip_inv_def s' list_all2_appendI)
  moreover have "cs_denominator s' = sum_list (map sc_owned (cs_scopes s'))" "cs_detected s' = sum_list (map sc_owned_detected (cs_scopes s'))"
    using inv by (simp_all add: chip_inv_def s')
  moreover have "set (cs_handoff s') = {k. \<exists>a \<in> set (seen @ [scope]). hands_off netlists dbs a k}"
    "set (cs_accounted s') = {k. \<exists>a \<in> set (seen @ [scope]). accounts netlists dbs a k}"
    using inv own(2,3) by (auto simp: chip_inv_def s' set_fold_insert)
  ultimately show ?thesis using last unfolding chip_inv_def by blast
qed

definition chip_start :: chip_state where
  "chip_start = \<lparr>cs_scopes = [], cs_denominator = 0, cs_detected = 0, cs_owned = [], cs_handoff = [], cs_accounted = [], cs_overlaps = []\<rparr>"

lemma chip_loop_inv: "fold_res (add_scope netlists dbs) scopes chip_start = Inr s \<Longrightarrow> chip_inv netlists dbs scopes s"
proof (induction scopes arbitrary: s rule: rev_induct)
  case Nil
  then show ?case by (auto simp: chip_inv_def chip_start_def)
next
  case (snoc scope scopes)
  then show ?case by (auto simp: fold_res_append bind_res_eq_Inr intro: add_scope_inv)
qed

lemma aggregate_parts:
  assumes "aggregate_project netlists dbs p scopes = Inr chip"
  obtains s where "chip_inv netlists dbs scopes s" "cs_overlaps s = []" "\<forall>k \<in> set (cs_handoff s). has_key (cs_owned s) k \<or> k \<in> set (cs_accounted s)"
    "0 < cs_denominator s" "ch_denominator chip = cs_denominator s" "ch_detected chip = cs_detected s" "ch_scopes chip = cs_scopes s"
    "distinct (map sr_top scopes)"
proof -
  have d: "distinct (map sr_top scopes)" "scopes \<noteq> []" using assms by (auto simp: aggregate_project_def split: if_splits)
  obtain s where s: "fold_res (add_scope netlists dbs) scopes chip_start = Inr s"
    using assms d by (auto simp: aggregate_project_def chip_start_def bind_res_eq_Inr)
  note run = assms [unfolded aggregate_project_def, folded chip_start_def] d s
  have "cs_overlaps s = []" "0 < cs_denominator s" "ch_denominator chip = cs_denominator s" "ch_detected chip = cs_detected s" "ch_scopes chip = cs_scopes s"
    using run by (auto simp: Let_def split: if_splits)
  moreover have "filter (\<lambda>k. \<not> has_key (cs_owned s) k \<and> k \<notin> set (cs_accounted s)) (cs_handoff s) = []"
    using run by (auto simp: Let_def sorted_set_Nil split: if_splits)
  then have "\<forall>k \<in> set (cs_handoff s). has_key (cs_owned s) k \<or> k \<in> set (cs_accounted s)" by (auto simp: filter_empty_conv)
  ultimately show thesis using that chip_loop_inv [OF s] d(1) by blast
qed

text \<open>C35: an accepted chip number is disjoint and complete. When aggregation returns, the tops of the scopes are distinct, the chip
  denominator is the sum of what the scopes own and not 0, the detected count lies within it, no fault is owned by
  two scopes of different names, and every fault that a scope hands off is owned or accounted for by a scope.\<close>

theorem aggregate_project_sound:
  assumes run: "aggregate_project netlists dbs p scopes = Inr chip"
  shows "distinct (map sr_top scopes) \<and>
    list_all2 (\<lambda>scope cov. \<exists>keys. scope_coverage netlists dbs scope = Inr (cov, keys)) scopes (ch_scopes chip) \<and>
    ch_denominator chip = sum_list (map sc_owned (ch_scopes chip)) \<and> 0 < ch_denominator chip \<and>
    ch_detected chip = sum_list (map sc_owned_detected (ch_scopes chip)) \<and> 0 \<le> ch_detected chip \<and> ch_detected chip \<le> ch_denominator chip \<and>
    (\<forall>a \<in> set scopes. \<forall>b \<in> set scopes. \<forall>k. owns netlists dbs a k \<longrightarrow> owns netlists dbs b k \<longrightarrow> sr_name a = sr_name b) \<and>
    (\<forall>a \<in> set scopes. \<forall>k. hands_off netlists dbs a k \<longrightarrow> (\<exists>b \<in> set scopes. owns netlists dbs b k \<or> accounts netlists dbs b k))"
proof -
  obtain s where s: "chip_inv netlists dbs scopes s" "cs_overlaps s = []" "\<forall>k \<in> set (cs_handoff s). has_key (cs_owned s) k \<or> k \<in> set (cs_accounted s)"
    "0 < cs_denominator s" "ch_denominator chip = cs_denominator s" "ch_detected chip = cs_detected s" "ch_scopes chip = cs_scopes s"
    "distinct (map sr_top scopes)" by (rule aggregate_parts [OF run])
  note inv = s(1) [unfolded chip_inv_def]
  have own: "\<forall>a \<in> set scopes. \<forall>k. owns netlists dbs a k \<longrightarrow> map_of (cs_owned s) k = Some (sr_name a)"
    "\<forall>k. map_of (cs_owned s) k \<noteq> None \<longrightarrow> (\<exists>a \<in> set scopes. owns netlists dbs a k)" using inv s(2) by blast+
  have "\<forall>cov \<in> set (cs_scopes s). 0 \<le> sc_owned_detected cov \<and> sc_owned_detected cov \<le> sc_owned cov"
  proof
    fix cov assume "cov \<in> set (cs_scopes s)"
    then obtain scope keys where "scope_coverage netlists dbs scope = Inr (cov, keys)"
      using inv by (auto simp: list_all2_conv_all_nth in_set_conv_nth)
    then show "0 \<le> sc_owned_detected cov \<and> sc_owned_detected cov \<le> sc_owned cov" using scope_counts(3,4) by blast
  qed
  then have det: "0 \<le> sum_list (map sc_owned_detected (cs_scopes s))" "sum_list (map sc_owned_detected (cs_scopes s)) \<le> sum_list (map sc_owned (cs_scopes s))"
    by (auto intro!: sum_list_nonneg sum_list_mono)
  have same: "sr_name a = sr_name b" if "a \<in> set scopes" "b \<in> set scopes" "owns netlists dbs a k" "owns netlists dbs b k" for a b k
    using own(1) that by (metis option.inject)
  have comp: "\<exists>b \<in> set scopes. owns netlists dbs b k \<or> accounts netlists dbs b k" if "a \<in> set scopes" "hands_off netlists dbs a k" for a k
  proof -
    have acc: "set (cs_accounted s) = {k. \<exists>a \<in> set scopes. accounts netlists dbs a k}" by (simp only: inv)
    have "set (cs_handoff s) = {k. \<exists>a \<in> set scopes. hands_off netlists dbs a k}" by (simp only: inv)
    then have "k \<in> set (cs_handoff s)" using that by blast
    with s(3) consider "map_of (cs_owned s) k \<noteq> None" | "k \<in> set (cs_accounted s)" by (auto simp: has_key_def)
    then show ?thesis using own(2) acc by cases blast+
  qed
  have sums: "list_all2 (\<lambda>scope cov. \<exists>keys. scope_coverage netlists dbs scope = Inr (cov, keys)) scopes (cs_scopes s)"
    "cs_denominator s = sum_list (map sc_owned (cs_scopes s))" "cs_detected s = sum_list (map sc_owned_detected (cs_scopes s))"
    by (simp_all only: inv)
  have "\<forall>a \<in> set scopes. \<forall>b \<in> set scopes. \<forall>k. owns netlists dbs a k \<longrightarrow> owns netlists dbs b k \<longrightarrow> sr_name a = sr_name b"
    "\<forall>a \<in> set scopes. \<forall>k. hands_off netlists dbs a k \<longrightarrow> (\<exists>b \<in> set scopes. owns netlists dbs b k \<or> accounts netlists dbs b k)"
    using same comp by blast+
  moreover have "0 \<le> cs_detected s" "cs_detected s \<le> cs_denominator s" using det sums(2,3) by simp_all
  ultimately show ?thesis unfolding s(5-7) using s(4,8) sums by (intro conjI)
qed

section \<open>A block and its assembly\<close>

text \<open>The block owns what faces its core and hands its system side over; the assembly, whose wrapper cell is tagged with the
  block, owns that side and sees the core side as foreign.\<close>

definition chip_cell :: "(string \<times> json) list \<Rightarrow> int \<Rightarrow> int \<Rightarrow> json" where
  "chip_cell attrs core sys = JObj [(''type'', JStr ''$wbc_out_faultflow''), (''attributes'', JObj attrs),
     (''connections'', JObj [(''FROM_CORE'', JList [JInt core]), (''TO_SYS'', JList [JInt sys])])]"

definition chip_netlists :: "string \<Rightarrow> json res" where
  "chip_netlists path =
     (if path = ''a.json'' then Inr (JObj [(''modules'', JObj [(''ta'', JObj [(''cells'', JObj [(''wo'', chip_cell [] 4 5)])])])])
      else if path = ''soc.json'' then Inr (JObj [(''modules'', JObj [(''soc'', JObj [(''cells'', JObj [(''u_wo'',
        chip_cell [(''faultflow_block'', JStr ''a''), (''faultflow_wbc'', JStr ''wo'')] 6 7)])])])])
      else Inl (OSError path))"

definition chip_db :: "string \<Rightarrow> (int \<times> string \<times> string) list \<Rightarrow> campaign_db" where
  "chip_db ctype rows = empty_db\<lparr>campaigns := [\<lparr>c_id = 1, c_type = ctype, c_columns = []\<rparr>], campaigns_seq := 1,
     faults := map (\<lambda>(net, status, exclusion). (example_fault net)\<lparr>f_status := status, f_exclusion := exclusion\<rparr>) rows\<rparr>"

definition chip_dbs :: "string \<Rightarrow> campaign_db option" where
  "chip_dbs path =
     (if path = ''a.sqlite'' then Some (chip_db ''scan'' [(4, ''detected'', ''none''), (5, ''undetected'', ''wbr_decoupled'')])
      else if path = ''soc.sqlite'' then Some (chip_db ''comb'' [(6, ''detected'', ''none''), (7, ''undetected'', ''none'')])
      else None)"

definition block_scope :: ScopeRun where
  "block_scope = \<lparr>sr_kind = ''block'', sr_name = ''a'', sr_top = ''ta'', sr_campaign_type = ''scan'', sr_db_path = ''a.sqlite'', sr_netlist = ''a.json''\<rparr>"

definition soc_scope :: ScopeRun where
  "soc_scope = \<lparr>sr_kind = ''interconnect'', sr_name = ''soc'', sr_top = ''soc'', sr_campaign_type = ''comb'', sr_db_path = ''soc.sqlite'', sr_netlist = ''soc.json''\<rparr>"

theorem scope_coverage_partition_witness:
  "\<exists>cov keys. scope_coverage chip_netlists chip_dbs block_scope = Inr (cov, keys) \<and>
    sc_owned cov + sc_foreign cov + sc_handoff cov + sc_excluded_by_design cov = 2"
proof -
  let ?db = "chip_db ''scan'' [(4, ''detected'', ''none''), (5, ''undetected'', ''wbr_decoupled'')]"
  obtain pins where pins: "scope_pins chip_netlists block_scope = Inr pins"
    by (simp add: scope_pins_def block_scope_def chip_netlists_def wbc_pin_index_def obj_get_def get_or_def)
  have db: "chip_dbs (sr_db_path block_scope) = Some ?db" by (simp add: chip_dbs_def block_scope_def)
  have c: "latest_campaign_id ?db (sr_campaign_type block_scope) = Inr (Some 1)" by code_simp
  have "int (length (filter (\<lambda>f. f_campaign_id f = 1) (faults ?db))) = 2" by (simp add: chip_db_def example_fault_def)
  with scope_coverage_partition [of chip_dbs block_scope ?db chip_netlists pins 1, OF db pins c] show ?thesis by metis
qed

lemma chip_runs: "\<exists>chip. aggregate_project chip_netlists chip_dbs ''p'' [block_scope, soc_scope] = Inr chip \<and> ch_denominator chip = 2"
proof -
  have "(case aggregate_project chip_netlists chip_dbs ''p'' [block_scope, soc_scope] of Inl e \<Rightarrow> False | Inr chip \<Rightarrow> ch_denominator chip = 2)"
    by code_simp
  then show ?thesis by (auto split: sum.splits)
qed

theorem aggregate_project_sound_witness:
  "\<exists>chip. aggregate_project chip_netlists chip_dbs ''p'' [block_scope, soc_scope] = Inr chip \<and>
    sum_list (map sc_owned (ch_scopes chip)) = 2 \<and> ch_detected chip \<le> 2"
proof -
  obtain chip where c: "aggregate_project chip_netlists chip_dbs ''p'' [block_scope, soc_scope] = Inr chip" "ch_denominator chip = 2"
    using chip_runs by blast
  from aggregate_project_sound [OF c(1)] c show ?thesis by (intro exI [of _ chip]) linarith
qed


end
