(* ===== verification/Project_Manifest.thy ===== *)
theory Project_Manifest
  imports Py_Prelude
begin

text \<open>
  \<^verbatim>\<open>faultflow/project/manifest.py\<close>: reading the manifest of a hierarchical project. The file system is a parameter: \<open>files\<close>
  says whether there is a file at a path and what \<^verbatim>\<open>json.loads\<close> makes of it (\<open>Inl\<close> the message of a decoding error),
  \<open>parent_of\<close> and \<open>stem_of\<close> are the directory and the stem of a path. Paths are strings, not normalised.
\<close>

definition PROJECT_SCHEMA :: string where "PROJECT_SCHEMA = ''faultflow_project_v1''"

record BlockSpec =
  bs_name :: string
  bs_top :: string
  bs_generic_json :: string
  bs_scan_manifest :: string
  bs_soc_instance :: "string option"

record InterconnectSpec =
  ic_assembly_top :: string
  ic_mode :: string
  ic_assembly_netlist :: "string option"
  ic_blackbox_instances :: "string list"
  ic_soc_rtl :: "string option"
  ic_soc_wbr_si :: "string option"
  ic_soc_wbr_so :: "string option"
  ic_soc_wbr_se :: "string option"
  ic_clock_port :: "string option"

record ProjectManifest =
  pm_name :: string
  pm_cell_map_profile :: string
  pm_base_config :: string
  pm_blocks :: "BlockSpec list"
  pm_interconnect :: InterconnectSpec
  pm_aggregation_policy :: string
  pm_root :: string

definition req :: "jobj \<Rightarrow> string \<Rightarrow> string \<Rightarrow> json res" where
  "req obj key whr =
     (case map_of obj key of
        None \<Rightarrow> Inl (ProjectError (whr @ '': missing required field '' @ repr_str key))
      | Some v \<Rightarrow> Inr v)"

definition resolve_path :: "string \<Rightarrow> json \<Rightarrow> string \<Rightarrow> string res" where
  "resolve_path root v whr =
     (case as_str v of
        Some (c # cs) \<Rightarrow> Inr (if c = CHR ''/'' then c # cs else root @ ''/'' @ c # cs)
      | _ \<Rightarrow> Inl (ProjectError (whr @ '': expected a non-empty path string'')))"

definition req_str :: "jobj \<Rightarrow> string \<Rightarrow> string \<Rightarrow> string res" where
  "req_str obj key whr = bind_res (req obj key whr) (\<lambda>v. Inr (py_str v))"

definition req_path :: "string \<Rightarrow> jobj \<Rightarrow> string \<Rightarrow> string \<Rightarrow> string res" where
  "req_path root obj key whr = bind_res (req obj key whr) (\<lambda>v. resolve_path root v whr)"

text \<open>The blocks so far, and the instances seen; the tops seen are those of the blocks so far.\<close>

definition load_block :: "string \<Rightarrow> string \<Rightarrow> nat \<times> json \<Rightarrow> BlockSpec list \<Rightarrow> BlockSpec list res" where
  "load_block root mode ir blocks =
     (let whr = ''project.blocks['' @ show_nat (fst ir) @ '']''
      in case as_obj (snd ir) of
           None \<Rightarrow> Inl (ProjectError (whr @ '': must be an object''))
         | Some raw \<Rightarrow>
             bind_res (req_str raw ''top'' whr) (\<lambda>top_name.
             if top_name \<in> set (map bs_top blocks) then Inl (ProjectError (whr @ '': duplicate block top '' @ repr_str top_name))
             else
               bind_res (if mode = ''scan'' then
                   bind_res (req_str raw ''soc_instance'' whr) (\<lambda>inst.
                     if Some inst \<in> set (map bs_soc_instance blocks)
                     then Inl (ProjectError (whr @ '': duplicate soc_instance '' @ repr_str inst)) else Inr (Some inst))
                 else Inr None) (\<lambda>soc_instance.
               bind_res (req_path root raw ''generic_json'' whr) (\<lambda>generic_json.
               bind_res (req_path root raw ''scan_manifest'' whr) (\<lambda>scan_manifest.
               Inr (blocks @ [\<lparr>bs_name = py_str (get_or raw ''name'' (JStr top_name)), bs_top = top_name, bs_generic_json = generic_json,
                 bs_scan_manifest = scan_manifest, bs_soc_instance = soc_instance\<rparr>]))))))"

definition load_scan_interconnect :: "string \<Rightarrow> jobj \<Rightarrow> string \<Rightarrow> InterconnectSpec res" where
  "load_scan_interconnect root raw_ic assembly_top =
     (let whr = ''project.interconnect''
      in case find (has_key raw_ic) [''assembly_netlist'', ''blackbox_instances''] of
           Some forbidden \<Rightarrow> Inl (ProjectError (''interconnect.'' @ forbidden @
             '' is comb-mode-only; mode='' @ repr_str ''scan'' @ '' composes the assembly netlist at run time''))
         | None \<Rightarrow>
             bind_res (req_path root raw_ic ''soc_rtl'' whr) (\<lambda>rtl.
             bind_res (req_str raw_ic ''soc_wbr_si'' whr) (\<lambda>si.
             bind_res (req_str raw_ic ''soc_wbr_so'' whr) (\<lambda>so.
             bind_res (req_str raw_ic ''soc_wbr_se'' whr) (\<lambda>se.
             bind_res (req_str raw_ic ''clock_port'' whr) (\<lambda>clk.
             Inr \<lparr>ic_assembly_top = assembly_top, ic_mode = ''scan'', ic_assembly_netlist = None, ic_blackbox_instances = [],
               ic_soc_rtl = Some rtl, ic_soc_wbr_si = Some si, ic_soc_wbr_so = Some so, ic_soc_wbr_se = Some se,
               ic_clock_port = Some clk\<rparr>))))))"

definition load_comb_interconnect :: "string \<Rightarrow> jobj \<Rightarrow> string \<Rightarrow> InterconnectSpec res" where
  "load_comb_interconnect root raw_ic assembly_top =
     (case find (has_key raw_ic) [''soc_rtl'', ''soc_wbr_si'', ''soc_wbr_so'', ''soc_wbr_se''] of
        Some forbidden \<Rightarrow> Inl (ProjectError (''interconnect.'' @ forbidden @ '' is scan-mode-only (interconnect.mode='' @ repr_str ''scan'' @ '')''))
      | None \<Rightarrow>
          (case as_list (get_or raw_ic ''blackbox_instances'' (JList [])) of
             Some bb \<Rightarrow>
               if \<forall>x \<in> set bb. as_str x \<noteq> None then
                 bind_res (req_path root raw_ic ''assembly_netlist'' ''project.interconnect'') (\<lambda>netlist.
                 Inr \<lparr>ic_assembly_top = assembly_top, ic_mode = ''comb'', ic_assembly_netlist = Some netlist,
                   ic_blackbox_instances = List.map_filter as_str bb, ic_soc_rtl = None, ic_soc_wbr_si = None, ic_soc_wbr_so = None,
                   ic_soc_wbr_se = None, ic_clock_port = None\<rparr>)
               else Inl (ProjectError ''interconnect.blackbox_instances must be a list of strings'')
           | None \<Rightarrow> Inl (ProjectError ''interconnect.blackbox_instances must be a list of strings'')))"

definition load_blocks :: "string \<Rightarrow> string \<Rightarrow> jobj \<Rightarrow> BlockSpec list res" where
  "load_blocks root mode data =
     bind_res (req data ''blocks'' ''project'') (\<lambda>raw.
       case as_list raw of
         Some (r # rs) \<Rightarrow> fold_res (load_block root mode) (List.enumerate 0 (r # rs)) []
       | _ \<Rightarrow> Inl (ProjectError ''project.blocks must be a non-empty list''))"

definition project_of :: "string \<Rightarrow> string \<Rightarrow> jobj \<Rightarrow> jobj \<Rightarrow> string \<Rightarrow> ProjectManifest res" where
  "project_of root stem data raw_ic mode =
     bind_res (load_blocks root mode data) (\<lambda>blocks.
     bind_res (req_str raw_ic ''assembly_top'' ''project.interconnect'') (\<lambda>assembly_top.
     if assembly_top \<in> set (map bs_top blocks)
     then Inl (ProjectError (''assembly_top '' @ repr_str assembly_top @ '' collides with a block top; the assembly must be a distinct top''))
     else
       bind_res (if mode = ''scan'' then load_scan_interconnect root raw_ic assembly_top
                 else load_comb_interconnect root raw_ic assembly_top) (\<lambda>interconnect.
       bind_res (resolve_path root (get_or data ''base_config'' (JStr ''config.ofs'')) ''project'') (\<lambda>base_config.
       Inr \<lparr>pm_name = py_str (get_or data ''name'' (JStr stem)),
         pm_cell_map_profile = py_str (get_or data ''cell_map_profile'' (JStr ''sky130'')), pm_base_config = base_config,
         pm_blocks = blocks, pm_interconnect = interconnect,
         pm_aggregation_policy = (case as_obj (get_or data ''aggregation'' (JObj [])) of
             None \<Rightarrow> ''disjoint_union'' | Some agg \<Rightarrow> py_str (get_or agg ''policy'' (JStr ''disjoint_union''))),
         pm_root = root\<rparr>))))"

definition parse_project :: "string \<Rightarrow> string \<Rightarrow> jobj \<Rightarrow> ProjectManifest res" where
  "parse_project root stem data =
     (if get_or data ''schema'' JNull \<noteq> JStr PROJECT_SCHEMA
      then Inl (ProjectError (''unsupported project schema '' @ py_repr (get_or data ''schema'' JNull) @ ''; expected '' @ repr_str PROJECT_SCHEMA))
      else
        bind_res (req data ''interconnect'' ''project'') (\<lambda>ic_raw. case as_obj ic_raw of
          None \<Rightarrow> Inl (ProjectError ''project.interconnect must be an object'')
        | Some raw_ic \<Rightarrow>
            (let mode = py_str (get_or raw_ic ''mode'' (JStr ''comb''))
             in if mode \<notin> {''comb'', ''scan''}
                then Inl (ProjectError (''interconnect.mode must be '' @ repr_str ''comb'' @ '' or '' @ repr_str ''scan'' @ '', got '' @ repr_str mode))
                else project_of root stem data raw_ic mode)))"

definition load_project ::
  "(string \<Rightarrow> (string + json) option) \<Rightarrow> (string \<Rightarrow> string) \<Rightarrow> (string \<Rightarrow> string) \<Rightarrow> string \<Rightarrow> ProjectManifest res" where
  "load_project files parent_of stem_of path =
     (case files path of
        None \<Rightarrow> Inl (ProjectError (''project manifest not found: '' @ path))
      | Some (Inl msg) \<Rightarrow> Inl (ProjectError (''project manifest is not valid JSON: '' @ msg))
      | Some (Inr j) \<Rightarrow> (case as_obj j of
            None \<Rightarrow> Inl (ProjectError ''project manifest root must be a JSON object'')
          | Some data \<Rightarrow> parse_project (parent_of path) (stem_of path) data))"

section \<open>Accepted manifests\<close>

text \<open>The well-formedness that the orchestrator asserts.\<close>

definition blocks_ok :: "string \<Rightarrow> BlockSpec list \<Rightarrow> bool" where
  "blocks_ok mode blocks = (distinct (map bs_top blocks) \<and>
     (if mode = ''scan'' then distinct (map bs_soc_instance blocks) \<and> None \<notin> set (map bs_soc_instance blocks)
      else \<forall>b \<in> set blocks. bs_soc_instance b = None))"

definition wf_project :: "ProjectManifest \<Rightarrow> bool" where
  "wf_project p =
     (let ic = pm_interconnect p; blocks = pm_blocks p; soc = [ic_soc_rtl ic, ic_soc_wbr_si ic, ic_soc_wbr_so ic, ic_soc_wbr_se ic, ic_clock_port ic]
      in blocks \<noteq> [] \<and> ic_mode ic \<in> {''comb'', ''scan''} \<and> blocks_ok (ic_mode ic) blocks \<and> ic_assembly_top ic \<notin> set (map bs_top blocks) \<and>
         (if ic_mode ic = ''scan'' then ic_assembly_netlist ic = None \<and> ic_blackbox_instances ic = [] \<and> None \<notin> set soc
          else ic_assembly_netlist ic \<noteq> None \<and> set soc = {None}))"

lemma load_block_ok:
  assumes "load_block root mode ir blocks = Inr blocks'" and "blocks_ok mode blocks"
  shows "blocks_ok mode blocks' \<and> length blocks' = Suc (length blocks)"
proof -
  from assms(1) obtain new where new: "blocks' = blocks @ [new]" "bs_top new \<notin> set (map bs_top blocks)"
    "if mode = ''scan'' then bs_soc_instance new \<noteq> None \<and> bs_soc_instance new \<notin> set (map bs_soc_instance blocks) else bs_soc_instance new = None"
    unfolding load_block_def by (auto simp: Let_def bind_res_eq_Inr split: option.splits if_splits)
  then show ?thesis using assms(2) by (cases "mode = ''scan''") (auto simp: blocks_ok_def)
qed

lemma load_blocks_fold:
  "fold_res (load_block root mode) irs blocks = Inr blocks' \<Longrightarrow> blocks_ok mode blocks \<Longrightarrow>
    blocks_ok mode blocks' \<and> length blocks' = length blocks + length irs"
proof (induction irs arbitrary: blocks)
  case (Cons ir irs)
  then show ?case using load_block_ok [of root mode ir blocks] by (fastforce simp: bind_res_eq_Inr)
qed simp

lemma load_blocks_ok: "load_blocks root mode data = Inr blocks \<Longrightarrow> blocks_ok mode blocks \<and> blocks \<noteq> []"
proof -
  assume "load_blocks root mode data = Inr blocks"
  then obtain r rs where "fold_res (load_block root mode) (List.enumerate 0 (r # rs)) [] = Inr blocks"
    unfolding load_blocks_def bind_res_eq_Inr by (elim exE conjE) (split option.split_asm, simp, split list.split_asm, simp_all)
  from load_blocks_fold [OF this] show ?thesis by (auto simp: blocks_ok_def)
qed

lemma interconnect_fields:
  "load_scan_interconnect root raw t = Inr ic \<Longrightarrow> ic_mode ic = ''scan'' \<and> ic_assembly_top ic = t \<and> ic_assembly_netlist ic = None \<and>
     ic_blackbox_instances ic = [] \<and> None \<notin> {ic_soc_rtl ic, ic_soc_wbr_si ic, ic_soc_wbr_so ic, ic_soc_wbr_se ic, ic_clock_port ic}"
  "load_comb_interconnect root raw t = Inr ic \<Longrightarrow> ic_mode ic = ''comb'' \<and> ic_assembly_top ic = t \<and> ic_assembly_netlist ic \<noteq> None \<and>
     {ic_soc_rtl ic, ic_soc_wbr_si ic, ic_soc_wbr_so ic, ic_soc_wbr_se ic, ic_clock_port ic} = {None}"
  by (auto simp: load_scan_interconnect_def load_comb_interconnect_def Let_def bind_res_eq_Inr split: option.splits if_splits)

text \<open>C38: an accepted manifest is well formed, as the orchestrator's assertions require: there is a block, the tops of the
  blocks and of the assembly are pairwise distinct, and each mode has its fields and only those (in scan mode
  every block has its own instance).\<close>

theorem load_project_wf:
  assumes "load_project files parent_of stem_of path = Inr p"
  shows "wf_project p"
proof -
  from assms obtain data where p: "parse_project (parent_of path) (stem_of path) data = Inr p"
    by (auto simp: load_project_def split: option.splits sum.splits)
  then obtain raw_ic mode where m: "project_of (parent_of path) (stem_of path) data raw_ic mode = Inr p" "mode \<in> {''comb'', ''scan''}"
    unfolding parse_project_def by (auto simp: Let_def bind_res_eq_Inr split: option.splits if_splits)
  from m(1) obtain blocks t ic where ok: "load_blocks (parent_of path) mode data = Inr blocks" "t \<notin> set (map bs_top blocks)"
    "(if mode = ''scan'' then load_scan_interconnect (parent_of path) raw_ic t else load_comb_interconnect (parent_of path) raw_ic t) = Inr ic"
    "pm_blocks p = blocks" "pm_interconnect p = ic"
    unfolding project_of_def by (cases "mode = ''scan''") (force simp: bind_res_eq_Inr split: if_splits)+
  show ?thesis
    using load_blocks_ok [OF ok(1)] ok(2-5) m(2) interconnect_fields [of "parent_of path" raw_ic t ic]
    by (auto simp: wf_project_def Let_def split: if_splits)
qed

section \<open>A small project\<close>

definition tiny_manifest :: json where
  "tiny_manifest = JObj [(''schema'', JStr ''faultflow_project_v1''),
     (''blocks'', JList [
        JObj [(''name'', JStr ''a''), (''top'', JStr ''ta''), (''soc_instance'', JStr ''u_a''), (''generic_json'', JStr ''a.json''), (''scan_manifest'', JStr ''a.man'')],
        JObj [(''top'', JStr ''tb''), (''soc_instance'', JStr ''u_b''), (''generic_json'', JStr ''/b.json''), (''scan_manifest'', JStr ''b.man'')]]),
     (''interconnect'', JObj [(''assembly_top'', JStr ''soc''), (''mode'', JStr ''scan''), (''soc_rtl'', JStr ''soc.v''),
        (''soc_wbr_si'', JStr ''si''), (''soc_wbr_so'', JStr ''so''), (''soc_wbr_se'', JStr ''se''), (''clock_port'', JStr ''clk'')])]"

definition tiny_project :: "ProjectManifest res" where
  "tiny_project = load_project (\<lambda>path. Some (Inr tiny_manifest)) (\<lambda>path. ''/p'') (\<lambda>path. ''soc2'') ''/p/soc2.json''"

theorem load_project_wf_witness: "wf_project (projr tiny_project) \<and> map bs_generic_json (pm_blocks (projr tiny_project)) = [''/p/a.json'', ''/b.json'']"
proof -
  have "isl tiny_project = False" by code_simp
  then have "load_project (\<lambda>path. Some (Inr tiny_manifest)) (\<lambda>path. ''/p'') (\<lambda>path. ''soc2'') ''/p/soc2.json'' = Inr (projr tiny_project)"
    unfolding tiny_project_def by (simp add: sum.collapse(2))
  moreover have "map bs_generic_json (pm_blocks (projr tiny_project)) = [''/p/a.json'', ''/b.json'']" by code_simp
  ultimately show ?thesis using load_project_wf by blast
qed

end
