(* ===== verification/Soc_Scan.thy ===== *)
theory Soc_Scan
  imports Scan_Flow Wbr_View
begin

text \<open>
  \<^verbatim>\<open>faultflow/project/soc_scan.py\<close>: the scan manifest of a composed system. The wrapper chain is traced through the netlist
  from the scan-in port, and the manifest lists it as the one wrapper chain. Reading and hashing the file are
  the parameter \<open>fs\<close>, the time stamp is the parameter \<open>now\<close>.
\<close>

section \<open>Tracing\<close>

definition soc_one_bit :: "jobj \<Rightarrow> string \<Rightarrow> string \<Rightarrow> int res" where
  "soc_one_bit cell pin instance =
     lift_option (ScanError (instance @ ''.'' @ pin @ '' must be one concrete net''))
       (Option.bind (as_obj (get_or cell ''connections'' (JObj []))) (\<lambda>conns. maybe_one_bit (get_or conns pin JNull)))"

definition soc_port_net :: "jobj \<Rightarrow> string \<Rightarrow> string \<Rightarrow> int res" where
  "soc_port_net module name direction =
     (case Option.bind (Option.bind (as_obj (get_or module ''ports'' (JObj []))) (\<lambda>ports. map_of ports name)) as_obj of
        None \<Rightarrow> Inl (ScanError (''missing '' @ direction @ '' port '' @ repr_str name))
      | Some port \<Rightarrow>
          if get_or port ''direction'' JNull \<noteq> JStr direction then Inl (ScanError (''missing '' @ direction @ '' port '' @ repr_str name))
          else lift_option (ScanError (''port '' @ repr_str name @ '' must be one concrete net'')) (maybe_one_bit (get_or port ''bits'' JNull)))"

definition trace_cell :: "string \<times> json \<Rightarrow> (int \<times> string) list \<times> int dict \<Rightarrow> ((int \<times> string) list \<times> int dict) res" where
  "trace_cell ic st =
     (case as_obj (snd ic) of
        None \<Rightarrow> Inr st
      | Some cell \<Rightarrow>
          bind_res (type_in WBR_SCAN_CELL_TYPES cell) (\<lambda>member.
          if \<not> member then Inr st
          else
            bind_res (soc_one_bit cell ''CTI'' (fst ic)) (\<lambda>cti.
            bind_res (soc_one_bit cell ''CTO'' (fst ic)) (\<lambda>cto.
            if has_key (fst st) cti then Inl (ScanError (''WBR cells share CTI net '' @ show_int cti))
            else Inr (dict_set (fst st) cti (fst ic), dict_set (snd st) (fst ic) cto)))))"

text \<open>The \<^verbatim>\<open>while\<close> loop is the walk of the structural check; running into a cell again raises.\<close>

definition trace_wrapper_chain :: "jobj \<Rightarrow> int \<Rightarrow> string list res" where
  "trace_wrapper_chain module si_net =
     (case as_obj (get_or module ''cells'' (JObj [])) of
        None \<Rightarrow> Inr []
      | Some cells \<Rightarrow>
          bind_res (fold_res trace_cell cells ([], [])) (\<lambda>(node_by_cti, cto_by_node).
          bind_res (walk node_by_cti cto_by_node si_net []) (\<lambda>(ordered, cur, cyclic).
          let unreached = minus_set (map fst cto_by_node) ordered
          in if cyclic then Inl (ScanError (''cycle in wrapper chain at '' @ get_or node_by_cti cur []))
             else if unreached \<noteq> [] then Inl (ScanError (
               ''WBR cells not reachable from soc scan-in (chain not daisy-chained through the glue?): '' @ py_repr (JList (map JStr unreached))))
             else Inr ordered)))"

section \<open>The manifest\<close>

definition soc_cell_record :: "jobj \<Rightarrow> nat \<times> string \<Rightarrow> json res" where
  "soc_cell_record cells pi =
     (let inst = snd pi
      in bind_res (getitem cells inst) (\<lambda>raw.
         bind_res (lift_option AttributeError (as_obj raw)) (\<lambda>cell.
         bind_res (soc_one_bit cell ''CLK'' inst) (\<lambda>clk.
         bind_res (soc_one_bit cell (if type_is cell WBR_SCAN_IN_TYPES then ''FROM_SYS'' else ''FROM_CORE'') inst) (\<lambda>d.
         bind_res (soc_one_bit cell ''CTI'' inst) (\<lambda>cti.
         bind_res (soc_one_bit cell ''SE'' inst) (\<lambda>se.
         bind_res (soc_one_bit cell ''CTO'' inst) (\<lambda>cto.
         Inr (JObj [(''instance'', JStr inst), (''original_type'', JStr (py_str (get_or cell ''type'' (JStr [])))), (''chain_index'', JInt 0),
           (''chain_position'', JInt (int (fst pi))), (''clock_net'', JInt clk), (''data_net'', JInt d), (''scan_in_net'', JInt cti),
           (''scan_enable_net'', JInt se), (''q_net'', JInt cto)])))))))))"

record soc_ports =
  sp_si :: string
  sp_so :: string
  sp_se :: string
  sp_clk :: string

definition soc_manifest :: "string \<Rightarrow> string \<Rightarrow> string \<Rightarrow> string \<Rightarrow> string \<Rightarrow> soc_ports \<Rightarrow> int \<Rightarrow> int \<Rightarrow> int \<Rightarrow> string list \<Rightarrow> json list \<Rightarrow> jobj" where
  "soc_manifest path generic_hash now techmap top_name ports si_net so_net clk_net ordered cell_records =
     (let n = JInt (int (length ordered))
      in [(''version'', JInt 2), (''top'', JStr top_name), (''source_json'', JStr path), (''generic_json'', JStr path),
          (''generic_json_hash'', JStr generic_hash), (''techmap_verilog'', JStr techmap), (''sky130_verilog'', JNull), (''chain_count'', JInt 1),
          (''cell_count'', n), (''clock_nets'', JList [JInt clk_net]), (''scan_inputs'', JList [JStr (sp_si ports)]),
          (''scan_outputs'', JList [JStr (sp_so ports)]), (''scan_enable'', JStr (sp_se ports)), (''max_chain_length'', n), (''min_chain_length'', n),
          (''chain_order_policy'', JStr ''traced from soc scan-in (CTI->CTO)''), (''chains'', JList []),
          (''wrapper_chains'', JList [JObj [(''index'', JInt 0), (''scan_in'', JStr (sp_si ports)), (''scan_out'', JStr (sp_so ports)),
             (''scan_in_net'', JInt si_net), (''scan_out_net'', JInt so_net), (''length'', n), (''cells'', JList (map JStr ordered)),
             (''cell_records'', JList cell_records)]]),
          (''cells'', JList []), (''ineligible_ffs'', JList []),
          (''latest_check'', JObj [(''timestamp'', JStr now), (''status'', JStr ''PASS''), (''warnings'', JList []), (''errors'', JList []),
             (''normal_mode'', JObj [(''vector_count'', JInt 0)]), (''generic_json_hash'', JStr generic_hash)])])"

definition build_soc_scan_manifest :: "file_system \<Rightarrow> string \<Rightarrow> string \<Rightarrow> string \<Rightarrow> soc_ports \<Rightarrow> string \<Rightarrow> jobj res" where
  "build_soc_scan_manifest fs now path top_name ports techmap =
     bind_res (read_json fs path) (\<lambda>data.
     bind_res (top_module data top_name) (\<lambda>(name, module).
     bind_res (soc_port_net module (sp_si ports) ''input'') (\<lambda>si_net.
     bind_res (soc_port_net module (sp_so ports) ''output'') (\<lambda>so_net.
     bind_res (soc_port_net module (sp_se ports) ''input'') (\<lambda>se_net.
     bind_res (soc_port_net module (sp_clk ports) ''input'') (\<lambda>clk_net.
     bind_res (trace_wrapper_chain module si_net) (\<lambda>ordered.
     if ordered = [] then Inl (ScanError ''no WBR scan cells found on the SoC wrapper chain'')
     else
       bind_res (lift_option AttributeError (as_obj (get_or module ''cells'' (JObj [])))) (\<lambda>cells.
       bind_res (map_res (soc_cell_record cells) (List.enumerate 0 ordered)) (\<lambda>cell_records.
       Inr (soc_manifest path (fs_hash fs path) now techmap top_name ports si_net so_net clk_net ordered cell_records))))))))))"

section \<open>The trace and the index of the check\<close>

lemma soc_one_bit_conn: "soc_one_bit cell pin i = Inr b \<longleftrightarrow> conn_bit cell pin i = Inr b"
  by (auto simp: soc_one_bit_def conn_bit_def lift_option_def split: option.splits)

lemma soc_port_net_bit: "soc_port_net module name dir = Inr b \<longleftrightarrow> port_bit module name dir = Inr b"
  by (auto simp: soc_port_net_def port_bit_def lift_option_def split: option.splits bind_splits)

text \<open>The wrapper cells of the chain in a list of cells, and their SE nets.\<close>

definition chain_cell :: "json \<Rightarrow> jobj option" where
  "chain_cell raw = (case as_obj raw of None \<Rightarrow> None | Some cell \<Rightarrow> if type_in WBR_SCAN_CELL_TYPES cell = Inr True then Some cell else None)"

definition chain_se_nets :: "jobj \<Rightarrow> int set" where
  "chain_se_nets cells = {se. \<exists>(n, raw) \<in> set cells. \<exists>cell. chain_cell raw = Some cell \<and> conn_bit cell ''SE'' n = Inr se}"

lemma chain_se_Cons: "chain_se_nets ((n, raw) # cells) =
    (case chain_cell raw of None \<Rightarrow> {} | Some cell \<Rightarrow> {se. conn_bit cell ''SE'' n = Inr se}) \<union> chain_se_nets cells"
  by (auto simp: chain_se_nets_def split: option.splits)

definition clocked :: "string \<times> json \<Rightarrow> bool" where
  "clocked ic = (case chain_cell (snd ic) of None \<Rightarrow> True
     | Some cell \<Rightarrow> (\<exists>se. conn_bit cell ''SE'' (fst ic) = Inr se) \<and> (\<exists>clk. conn_bit cell ''CLK'' (fst ic) = Inr clk))"

text \<open>If the trace indexes the cells and they have SE and CLK pins, the check indexes them without error, and alike.\<close>

lemma trace_index:
  assumes "fold_res trace_cell cells (node_by_in st, out_by_node st) = Inr (by_in, by_node)" and "list_all clocked cells"
    and "fst ` set (out_by_node st) = set (names st)" and "distinct (se_nets st)"
  shows "\<exists>ff. fold_chk (index_cell WBR_SCAN_CELL_TYPES ''CTI'' ''CTO'' None) cells st = ([], Inr ff) \<and>
    node_by_in ff = by_in \<and> out_by_node ff = by_node \<and> fst ` set by_node = set (names ff) \<and> distinct (se_nets ff) \<and>
    set (se_nets ff) = set (se_nets st) \<union> chain_se_nets cells"
  using assms
proof (induction cells arbitrary: st)
  case Nil
  then show ?case by (simp add: ret_def chain_se_nets_def)
next
  case (Cons ic cells)
  obtain n raw where ic: "ic = (n, raw)" by force
  from Cons.prems(1) obtain st1 where s1: "trace_cell (n, raw) (node_by_in st, out_by_node st) = Inr st1"
    and s2: "fold_res trace_cell cells st1 = Inr (by_in, by_node)" by (auto simp: bind_res_eq_Inr ic)
  have rest: "list_all clocked cells" using Cons.prems(2) by simp
  show ?case
  proof (cases "chain_cell raw")
    case None
    then have st1: "st1 = (node_by_in st, out_by_node st)" and "index_cell WBR_SCAN_CELL_TYPES ''CTI'' ''CTO'' None (n, raw) st = ret st"
      using s1 by (auto simp: trace_cell_def index_cell_def chain_cell_def bind_res_eq_Inr split: option.splits if_splits)
    with Cons.IH [OF s2 [unfolded st1] rest Cons.prems(3,4)] None show ?thesis by (simp add: ic chain_se_Cons)
  next
    case (Some cell)
    then have c: "as_obj raw = Some cell" "type_in WBR_SCAN_CELL_TYPES cell = Inr True" by (auto simp: chain_cell_def split: option.splits if_splits)
    with s1 obtain cti cto where t: "conn_bit cell ''CTI'' n = Inr cti" "conn_bit cell ''CTO'' n = Inr cto" "\<not> has_key (node_by_in st) cti"
      "st1 = (dict_set (node_by_in st) cti n, dict_set (out_by_node st) n cto)"
      by (auto simp: trace_cell_def bind_res_eq_Inr soc_one_bit_conn split: if_splits)
    obtain se clk where p: "conn_bit cell ''SE'' n = Inr se" "conn_bit cell ''CLK'' n = Inr clk"
      using Cons.prems(2) Some by (auto simp: ic clocked_def)
    let ?st = "\<lparr>node_by_in = dict_set (node_by_in st) cti n, out_by_node = dict_set (out_by_node st) n cto,
      clock_nets = List.insert clk (clock_nets st), names = List.insert n (names st), se_nets = List.insert se (se_nets st)\<rparr>"
    have step: "index_cell WBR_SCAN_CELL_TYPES ''CTI'' ''CTO'' None (n, raw) st = ret ?st" using c t p by (simp add: index_cell_def)
    have "fst ` set (out_by_node ?st) = set (names ?st)" "distinct (se_nets ?st)" using Cons.prems(3,4) by (simp_all add: dom_update)
    with Cons.IH [of ?st] s2 t(4) rest obtain ff where
      "fold_chk (index_cell WBR_SCAN_CELL_TYPES ''CTI'' ''CTO'' None) cells ?st = ([], Inr ff)"
      "node_by_in ff = by_in" "out_by_node ff = by_node" "fst ` set by_node = set (names ff)" "distinct (se_nets ff)"
      "set (se_nets ff) = set (se_nets ?st) \<union> chain_se_nets cells" by auto
    then show ?thesis using step Some p by (intro exI [of _ ff]) (simp add: ic chain_se_Cons)
  qed
qed

lemma walk_distinct: "walk by_in by_node cur derived = Inr (ds, e, cyc) \<Longrightarrow> distinct derived \<Longrightarrow> distinct ds"
proof (induction by_in by_node cur derived rule: walk.induct)
  case (1 by_in by_node cur derived)
  note eq = 1(2) [unfolded walk.simps [of by_in by_node cur derived]]
  then show ?case using 1(1,3) by (auto split: option.splits if_splits)
qed

lemma walk_nodes: "walk by_in by_node cur derived = Inr (ds, e, cyc) \<Longrightarrow> set ds \<subseteq> set derived \<union> fst ` set by_node"
proof (induction by_in by_node cur derived rule: walk.induct)
  case (1 by_in by_node cur derived)
  note eq = 1(2) [unfolded walk.simps [of by_in by_node cur derived]]
  show ?case
  proof (cases "\<exists>name nxt. map_of by_in cur = Some name \<and> name \<notin> set derived \<and> map_of by_node name = Some nxt")
    case True
    then obtain name nxt where n: "map_of by_in cur = Some name" "name \<notin> set derived" "map_of by_node name = Some nxt" by blast
    with eq 1(1) have "set ds \<subseteq> set (derived @ [name]) \<union> fst ` set by_node" by simp
    moreover have "name \<in> fst ` set by_node" using n(3) by (metis domI dom_map_of_conv_image_fst)
    ultimately show ?thesis by auto
  qed (use eq in \<open>auto split: option.splits if_splits\<close>)
qed

lemma trace_names:
  "fold_res trace_cell cells st = Inr st' \<Longrightarrow>
    fst ` set (snd st') = fst ` set (snd st) \<union> {n. \<exists>raw. (n, raw) \<in> set cells \<and> chain_cell raw \<noteq> None}"
proof (induction cells arbitrary: st)
  case (Cons ic cells)
  obtain n raw where ic: "ic = (n, raw)" by force
  from Cons.prems obtain st1 where s1: "trace_cell (n, raw) st = Inr st1" and s2: "fold_res trace_cell cells st1 = Inr st'"
    by (auto simp: bind_res_eq_Inr ic)
  have "fst ` set (snd st1) = fst ` set (snd st) \<union> (if chain_cell raw = None then {} else {n})"
  proof (cases "chain_cell raw")
    case None
    then show ?thesis using s1 by (auto simp: trace_cell_def chain_cell_def bind_res_eq_Inr split: option.splits if_splits)
  next
    case (Some cell)
    then have c: "as_obj raw = Some cell" "type_in WBR_SCAN_CELL_TYPES cell = Inr True" by (auto simp: chain_cell_def split: option.splits if_splits)
    obtain cti cto where "Inr (dict_set (fst st) cti n, dict_set (snd st) n cto) = (Inr st1 :: py_exc + _)"
      using s1 c by (simp add: trace_cell_def bind_res_eq_Inr split: if_splits) blast
    then have "snd st1 = dict_set (snd st) n cto" by auto
    then show ?thesis using Some by (simp add: dom_update)
  qed
  with Cons.IH [OF s2] show ?case by (auto simp: ic split: if_splits)
qed simp

section \<open>Does the structural check accept the manifest?\<close>

text \<open>What a successful trace knows: the walk of the check, with all cells reached.\<close>

lemma trace_parts:
  assumes "trace_wrapper_chain module si = Inr ordered" and "as_obj (get_or module ''cells'' (JObj [])) = Some cells"
  obtains by_in by_node cur where "fold_res trace_cell cells ([], []) = Inr (by_in, by_node)"
    "walk by_in by_node si [] = Inr (ordered, cur, False)" "fst ` set by_node = set ordered" "distinct ordered"
proof -
  from assms obtain st where st: "fold_res trace_cell cells ([], []) = Inr st" by (auto simp: trace_wrapper_chain_def bind_res_eq_Inr)
  obtain by_in by_node where [simp]: "st = (by_in, by_node)" by force
  from assms st obtain cur where w: "walk by_in by_node si [] = Inr (ordered, cur, False)" "minus_set (map fst by_node) ordered = []"
    by (auto simp: trace_wrapper_chain_def bind_res_eq_Inr Let_def split: if_splits)
  have "fst ` set by_node = set ordered" using w(2) walk_nodes [OF w(1)] by (auto simp: minus_set_Nil)
  with that st w(1) walk_distinct [OF w(1)] show thesis by auto
qed

lemma soc_records_clocked:
  assumes r: "map_res (soc_cell_record cells) (List.enumerate 0 ordered) = Inr recs" and d: "distinct (map fst cells)"
    and all: "fst ` set by_node = set ordered" and t: "fold_res trace_cell cells ([], []) = Inr (by_in, by_node)"
  shows "list_all clocked cells"
proof -
  have "clocked (n, raw)" if "(n, raw) \<in> set cells" for n raw
  proof (cases "chain_cell raw")
    case (Some cell)
    then have "n \<in> set ordered" using trace_names [OF t] that all by auto
    then obtain i where "i < length ordered" "ordered ! i = n" by (auto simp: in_set_conv_nth)
    then have "(i, n) \<in> set (List.enumerate 0 ordered)" by (simp add: in_set_enumerate_eq)
    then obtain rec where rec: "soc_cell_record cells (i, n) = Inr rec" using r by (auto simp: map_res_eq_Inr list_all2_conv_all_nth in_set_conv_nth)
    have "getitem cells n = Inr raw" using that d by (simp add: getitem_def)
    moreover have "as_obj raw = Some cell" using Some by (auto simp: chain_cell_def split: option.splits if_splits)
    ultimately have "\<exists>se. soc_one_bit cell ''SE'' n = Inr se" "\<exists>clk. soc_one_bit cell ''CLK'' n = Inr clk"
      using rec by (auto simp: soc_cell_record_def Let_def bind_res_eq_Inr lift_option_def)
    then show ?thesis using Some by (simp add: clocked_def soc_one_bit_conn)
  qed (simp add: clocked_def)
  then show ?thesis by (auto simp: list_all_iff)
qed

lemma physical_path_end: "physical_path cells ty i out cur ns a \<Longrightarrow> physical_path cells ty i out cur ns b \<longleftrightarrow> a = b"
  by (induction ns arbitrary: cur) (auto split: option.splits sum.splits)

lemma check_passes_iff: "(\<exists>r. check_scan_structure fs man tm = Inr r \<and> passed r) \<longleftrightarrow> check_body fs man tm = ([], Inr ())"
  by (cases "check_body fs man tm"; cases "snd (check_body fs man tm)") (auto simp: check_scan_structure_def passed_def split: option.splits)

lemma single_se: "distinct xs \<Longrightarrow> (\<not> 1 < length xs \<and> (xs \<noteq> [] \<longrightarrow> xs = [se])) \<longleftrightarrow> set xs \<subseteq> {se}"
  by (cases xs; cases "tl xs") auto

text \<open>C39: the traced chain holds every wrapper scan cell once, and the manifest built from it passes the structural check exactly
  when, in addition, the chain ends at the scan-out port and every wrapper cell's SE is the scan-enable port.
  Neither is checked when the manifest is built, although it is stamped as passed. The netlist is a
  graybox: it has no flip-flop of a scan type.\<close>

theorem soc_manifest_check_iff:
  assumes build: "build_soc_scan_manifest fs now path top_name ports techmap = Inr manifest"
    and json: "read_json fs path = Inr data" and mod: "top_module data top_name = Inr (name, module)"
    and cells: "as_obj (get_or module ''cells'' (JObj [])) = Some cells" "distinct (map fst cells)"
    and gray: "\<forall>(i, raw) \<in> set cells. \<forall>cell. as_obj raw = Some cell \<longrightarrow> type_in SCAN_CELL_TYPES cell = Inr False"
  shows "\<exists>si so se ordered. port_bit module (sp_si ports) ''input'' = Inr si \<and> port_bit module (sp_so ports) ''output'' = Inr so \<and>
    port_bit module (sp_se ports) ''input'' = Inr se \<and> trace_wrapper_chain module si = Inr ordered \<and>
    distinct ordered \<and> set ordered = set (scan_cell_names WBR_SCAN_CELL_TYPES cells) \<and>
    ((\<exists>r. check_scan_structure fs manifest False = Inr r \<and> passed r) \<longleftrightarrow>
      physical_path cells WBR_SCAN_CELL_TYPES ''CTI'' ''CTO'' si ordered so \<and> chain_se_nets cells \<subseteq> {se})"
proof -
  from build json mod cells(1) obtain si so se clk ordered recs where
    p: "port_bit module (sp_si ports) ''input'' = Inr si" "port_bit module (sp_so ports) ''output'' = Inr so"
      "port_bit module (sp_se ports) ''input'' = Inr se" and tr: "trace_wrapper_chain module si = Inr ordered" "ordered \<noteq> []"
    and recs: "map_res (soc_cell_record cells) (List.enumerate 0 ordered) = Inr recs"
    and man: "manifest = soc_manifest path (fs_hash fs path) now techmap top_name ports si so clk ordered recs"
    by (auto simp: build_soc_scan_manifest_def bind_res_eq_Inr soc_port_net_bit lift_option_def split: if_splits)
  obtain by_in by_node cur where t: "fold_res trace_cell cells ([], []) = Inr (by_in, by_node)"
    "walk by_in by_node si [] = Inr (ordered, cur, False)" "fst ` set by_node = set ordered" "distinct ordered"
    by (rule trace_parts [OF tr(1) cells(1)])
  from trace_index [of cells empty_index by_in by_node] t(1) soc_records_clocked [OF recs cells(2) t(3) t(1)]
  obtain ff where ff: "collect_chain_cells cells WBR_SCAN_CELL_TYPES ''CTI'' ''CTO'' None = ([], Inr ff)" "node_by_in ff = by_in"
    "out_by_node ff = by_node" "fst ` set by_node = set (names ff)" "distinct (se_nets ff)" "set (se_nets ff) = chain_se_nets cells"
    by (auto simp: empty_index_def collect_chain_cells_def)
  note s = index_sound [OF ff(1) [unfolded collect_chain_cells_def] cells(2)]
  have look: "\<exists>cell out. scan_cell_of WBR_SCAN_CELL_TYPES cells n = Some cell \<and> conn_bit cell ''CTI'' n = Inr net
      \<and> conn_bit cell ''CTO'' n = Inr out \<and> map_of by_node n = Some out" if "map_of by_in net = Some n" for net n
    using s that ff(2,3) by (fastforce simp: empty_index_def)
  have path_end: "physical_path cells WBR_SCAN_CELL_TYPES ''CTI'' ''CTO'' si ordered so \<longleftrightarrow> cur = so"
    using walk_path [OF t(2) look] physical_path_end by auto
  have names: "set ordered = set (scan_cell_names WBR_SCAN_CELL_TYPES cells)" using s ff(4) t(3) by (simp add: empty_index_def)
  have clk: "clock_nets ff \<noteq> []"
    using index_has_clock [OF ff(1) [unfolded collect_chain_cells_def]] ff(4) t(3) tr(2) by (auto simp: empty_index_def)
  have none: "collect_chain_cells cells SCAN_CELL_TYPES ''SDI'' ''Q'' (Some se) = ([], Inr empty_index)"
    unfolding collect_chain_cells_def using gray by (subst index_skip) (auto simp: ret_def)
  let ?row = "JObj [(''index'', JInt 0), (''scan_in'', JStr (sp_si ports)), (''scan_out'', JStr (sp_so ports)), (''scan_in_net'', JInt si),
    (''scan_out_net'', JInt so), (''length'', JInt (int (length ordered))), (''cells'', JList (map JStr ordered)), (''cell_records'', JList recs)]"
  have keys: "getitem manifest ''generic_json'' = Inr (JStr path)" "getitem manifest ''top'' = Inr (JStr top_name)"
    "getitem manifest ''scan_enable'' = Inr (JStr (sp_se ports))" "get_or manifest ''generic_json_hash'' x = JStr (fs_hash fs path)"
    "get_or manifest ''chains'' x = JList []" "get_or manifest ''wrapper_chains'' x = JList [?row]" for x
    by (simp_all add: man soc_manifest_def Let_def getitem_def get_or_def)
  have strs: "py_str (JStr s) = s" "map (py_str \<circ> JStr) ss = ss" for s ss by (simp_all add: py_str_def comp_def)
  have row: "validate_chains module [?row] by_in by_node = ([], Inr seen) \<longleftrightarrow> cur = so \<and> seen = rev ordered" for seen
    using t(2,4) p by (auto simp: validate_chains_def validate_chain_def get_or_def strs py_tuple_def Let_def chk_simps mark_seen_ok)
  have minus: "minus_set [] [] = []" "minus_set (names ff) (rev ordered) = []" "minus_set (rev ordered) (names ff) = []"
    using ff(4) t(3) by (simp_all add: minus_set_Nil)
  have ses: "chain_se_nets cells \<subseteq> {se} \<longleftrightarrow> \<not> Suc 0 < length (se_nets ff) \<and> (se_nets ff = [] \<or> se_nets ff = [se])"
    using single_se [OF ff(5), of se] ff(6) by auto
  have "check_body fs manifest False = ([], Inr ()) \<longleftrightarrow> cur = so \<and> chain_se_nets cells \<subseteq> {se}"
    unfolding check_body_def Let_def keys strs manifest_list_def chk_simps
    using json mod cells p ff(1-3) none clk row minus
    by (simp add: keys strs lift_option_def chk_simps empty_index_def validate_chains_def ret_def) (use ses in auto)
  then show ?thesis unfolding check_passes_iff [symmetric] path_end [symmetric] using p tr(1) t(4) names by blast
qed

section \<open>Two wrapper cells\<close>

definition gray_cell :: "string \<Rightarrow> int \<Rightarrow> int \<Rightarrow> string \<Rightarrow> int \<Rightarrow> json" where
  "gray_cell ty cti cto pin net = JObj [(''type'', JStr ty), (''connections'', JObj [(''CTI'', JList [JInt cti]), (''CTO'', JList [JInt cto]),
     (''SE'', JList [JInt 4]), (''CLK'', JList [JInt 5]), (pin, JList [JInt net])])]"

definition gray_port :: "string \<Rightarrow> int \<Rightarrow> json" where
  "gray_port dir net = JObj [(''direction'', JStr dir), (''bits'', JList [JInt net])]"

definition gray_cells :: jobj where
  "gray_cells = [(''w2'', gray_cell ''$wbc_out_scan_faultflow'' 3 8 ''FROM_CORE'' 9), (''w1'', gray_cell ''$wbc_in_scan_faultflow'' 2 3 ''FROM_SYS'' 6)]"

definition gray_module :: jobj where
  "gray_module = [(''cells'', JObj gray_cells), (''ports'', JObj [(''si'', gray_port ''input'' 2), (''so'', gray_port ''output'' 8),
     (''se'', gray_port ''input'' 4), (''clk'', gray_port ''input'' 5)])]"

definition gray_fs :: file_system where
  "gray_fs = \<lparr>fs_json = (\<lambda>path. Some (JObj [(''modules'', JObj [(''soc'', JObj gray_module)])])), fs_hash = (\<lambda>path. ''h''), fs_exists = (\<lambda>path. True)\<rparr>"

definition gray_ports :: soc_ports where
  "gray_ports = \<lparr>sp_si = ''si'', sp_so = ''so'', sp_se = ''se'', sp_clk = ''clk''\<rparr>"

definition gray_manifest :: "jobj res" where
  "gray_manifest = build_soc_scan_manifest gray_fs ''now'' ''soc.json'' ''soc'' gray_ports []"

theorem soc_manifest_check_iff_witness: "\<exists>r. check_scan_structure gray_fs (projr gray_manifest) False = Inr r \<and> passed r"
proof -
  have "isl gray_manifest = False" by code_simp
  then have build: "build_soc_scan_manifest gray_fs ''now'' ''soc.json'' ''soc'' gray_ports [] = Inr (projr gray_manifest)"
    unfolding gray_manifest_def by (simp add: sum.collapse(2))
  have json: "read_json gray_fs ''soc.json'' = Inr [(''modules'', JObj [(''soc'', JObj gray_module)])]"
    "top_module [(''modules'', JObj [(''soc'', JObj gray_module)])] ''soc'' = Inr (''soc'', gray_module)"
    "as_obj (get_or gray_module ''cells'' (JObj [])) = Some gray_cells" "distinct (map fst gray_cells)" by code_simp+
  have gray: "\<forall>(i, raw) \<in> set gray_cells. \<forall>cell. as_obj raw = Some cell \<longrightarrow> type_in SCAN_CELL_TYPES cell = Inr False"
    by (simp add: gray_cells_def gray_cell_def type_in_def get_or_def type_defs)
  have se: "chain_se_nets gray_cells \<subseteq> {4}"
    by (auto simp: chain_se_nets_def gray_cells_def gray_cell_def chain_cell_def conn_bit_def get_or_def lift_option_def maybe_one_bit_def split: if_splits)
  have run: "port_bit gray_module (sp_si gray_ports) ''input'' = Inr 2" "port_bit gray_module (sp_so gray_ports) ''output'' = Inr 8"
    "port_bit gray_module (sp_se gray_ports) ''input'' = Inr 4" "trace_wrapper_chain gray_module 2 = Inr [''w1'', ''w2'']"
    "physical_path gray_cells WBR_SCAN_CELL_TYPES ''CTI'' ''CTO'' 2 [''w1'', ''w2''] 8" by code_simp+
  from soc_manifest_check_iff [OF build json gray] obtain si so se' ordered where
    "port_bit gray_module (sp_si gray_ports) ''input'' = Inr si" "port_bit gray_module (sp_so gray_ports) ''output'' = Inr so"
    "port_bit gray_module (sp_se gray_ports) ''input'' = Inr se'" "trace_wrapper_chain gray_module si = Inr ordered"
    "(\<exists>r. check_scan_structure gray_fs (projr gray_manifest) False = Inr r \<and> passed r) \<longleftrightarrow>
      physical_path gray_cells WBR_SCAN_CELL_TYPES ''CTI'' ''CTO'' si ordered so \<and> chain_se_nets gray_cells \<subseteq> {se'}" by blast
  with run se show ?thesis by (simp del: physical_path.simps)
qed

end
