(* ===== verification/Assemble.thy ===== *)
theory Assemble
  imports Wbr_View
begin

text \<open>
  \<^verbatim>\<open>faultflow/project/assemble.py\<close>: composing a flat system netlist from the synthesised glue and the frozen netlists of the
  blocks. Each block's cells and internal nets are copied into the glue under prefixed names; nets on a port of
  the block become the nets the glue connects there, all others get fresh numbers. Running Yosys on the glue is left
  out; \<open>glue_json\<close> is its result.
\<close>

section \<open>Reading\<close>

definition truthy_top :: "json \<Rightarrow> bool" where
  "truthy_top v = (case v of JBool b \<Rightarrow> b | JInt n \<Rightarrow> n \<noteq> 0 | JStr s \<Rightarrow> s \<in> {''1'', ''00000000000000000000000000000001''} | _ \<Rightarrow> False)"

definition find_top :: "jobj \<Rightarrow> string \<Rightarrow> jobj res" where
  "find_top data requested_top =
     (case as_obj (get_or data ''modules'' JNull) of
        None \<Rightarrow> Inl (AssembleError ''glue JSON is missing modules'')
      | Some modules \<Rightarrow>
          (case Option.bind (map_of modules requested_top) as_obj of
             Some module \<Rightarrow> Inr module
           | None \<Rightarrow>
               (case List.map_filter (\<lambda>(name, m). case as_obj m of
                    None \<Rightarrow> None
                  | Some module \<Rightarrow> (case as_obj (get_or module ''attributes'' (JObj [])) of
                        None \<Rightarrow> None
                      | Some attrs \<Rightarrow> if truthy_top (get_or attrs ''top'' JNull) then Some module else None)) modules of
                  module # _ \<Rightarrow> Inr module
                | [] \<Rightarrow> Inl (AssembleError (''cannot find top module '' @ repr_str requested_top @ '' in glue JSON'')))))"

definition WBC_CELL_TYPES :: "string list" where
  "WBC_CELL_TYPES = WBR_IN_TYPES @ WBR_OUT_TYPES @ WBR_SCAN_IN_TYPES @ WBR_SCAN_OUT_TYPES"

section \<open>The interface of a block\<close>

definition verilog_escape :: "string \<Rightarrow> string" where
  "verilog_escape s = concat (map (\<lambda>c. if c = CHR 0x5C \<or> c = CHR 0x22 then [CHR 0x5C, c] else [c]) s)"

definition verilog_parameter_literal :: "json \<Rightarrow> string" where
  "verilog_parameter_literal v =
     (case v of JBool b \<Rightarrow> if b then ''1'' else ''0'' | JInt n \<Rightarrow> show_int n | _ \<Rightarrow> [CHR 0x22] @ verilog_escape (py_str v) @ [CHR 0x22])"

definition port_decl :: "string \<times> json \<Rightarrow> string res" where
  "port_decl np =
     bind_res (obj_get (snd np) ''direction'' (JStr ''input'')) (\<lambda>dir.
     bind_res (obj_get (snd np) ''bits'' (JList [])) (\<lambda>bits. bind_res (py_tuple bits) (\<lambda>bs.
     Inr (if length bs \<le> 1 then ''  '' @ py_str dir @ '' '' @ fst np @ '';''
          else ''  '' @ py_str dir @ '' ['' @ show_int (int (length bs) - 1) @ '':0] '' @ fst np @ '';''))))"

definition block_stub_verilog :: "jobj \<Rightarrow> string \<Rightarrow> jobj \<Rightarrow> string res" where
  "block_stub_verilog block_json module parameters =
     (case Option.bind (as_obj (get_or block_json ''modules'' JNull)) (\<lambda>ms. map_of ms module) of
        None \<Rightarrow> Inl (AssembleError (''block JSON has no module '' @ repr_str module))
      | Some md \<Rightarrow>
          bind_res (obj_get md ''ports'' (JObj [])) (\<lambda>raw_ports. case as_obj raw_ports of
              None \<Rightarrow> Inl (AssembleError (''module '' @ repr_str module @ '' has no ports''))
            | Some ports \<Rightarrow>
                bind_res (map_res port_decl ports) (\<lambda>decls.
                let param_clause = (if parameters = [] then [] else '' #('' @ join_str '', '' (map (\<lambda>(k, v).
                      ''parameter '' @ k @ '' = '' @ verilog_parameter_literal v) parameters) @ '')'');
                    header = ''module '' @ module @ param_clause @ ''('' @ join_str '', '' (map fst ports) @ '');''
                in Inr (join_str [CHR 0x0A] ([''(* blackbox *)'', header] @ decls @ [''endmodule'', []])))))"

section \<open>Copies\<close>

definition copy_bits :: "json \<Rightarrow> json res" where
  "copy_bits bits = bind_res (py_tuple bits) (\<lambda>bs. Inr (JList bs))"

definition copy_conns :: "json \<Rightarrow> jobj res" where
  "copy_conns conns =
     bind_res (lift_option AttributeError (as_obj conns)) (\<lambda>d. map_res (\<lambda>(pin, bits). bind_res (copy_bits bits) (\<lambda>bs. Inr (pin, bs))) d)"

record cell_copy =
  cc_hide_name :: json
  cc_type :: json
  cc_parameters :: jobj
  cc_attributes :: jobj
  cc_port_directions :: jobj
  cc_connections :: jobj

definition deep_copy_cell :: "json \<Rightarrow> cell_copy res" where
  "deep_copy_cell raw =
     bind_res (lift_option AttributeError (as_obj raw)) (\<lambda>cell.
     bind_res (dict_copy (get_or cell ''parameters'' (JObj []))) (\<lambda>parameters.
     bind_res (dict_copy (get_or cell ''attributes'' (JObj []))) (\<lambda>attributes.
     bind_res (dict_copy (get_or cell ''port_directions'' (JObj []))) (\<lambda>directions.
     bind_res (copy_conns (get_or cell ''connections'' (JObj []))) (\<lambda>connections.
     Inr \<lparr>cc_hide_name = get_or cell ''hide_name'' (JInt 0), cc_type = get_or cell ''type'' (JStr []), cc_parameters = parameters,
       cc_attributes = attributes, cc_port_directions = directions, cc_connections = connections\<rparr>)))))"

definition cell_json :: "cell_copy \<Rightarrow> json" where
  "cell_json c = JObj [(''hide_name'', cc_hide_name c), (''type'', cc_type c), (''parameters'', JObj (cc_parameters c)),
     (''attributes'', JObj (cc_attributes c)), (''port_directions'', JObj (cc_port_directions c)), (''connections'', JObj (cc_connections c))]"

text \<open>A copied net: its \<^verbatim>\<open>hide_name\<close>, bits and attributes.\<close>

definition deep_copy_net :: "json \<Rightarrow> (json \<times> json list \<times> jobj) res" where
  "deep_copy_net raw =
     bind_res (lift_option AttributeError (as_obj raw)) (\<lambda>net.
     bind_res (py_tuple (get_or net ''bits'' (JList []))) (\<lambda>bits.
     bind_res (dict_copy (get_or net ''attributes'' (JObj []))) (\<lambda>attributes.
     Inr (get_or net ''hide_name'' (JInt 0), bits, attributes))))"

definition net_json :: "json \<times> json list \<times> jobj \<Rightarrow> json" where
  "net_json n = (case n of (hide, bits, attrs) \<Rightarrow> JObj [(''hide_name'', hide), (''bits'', JList bits), (''attributes'', JObj attrs)])"

section \<open>Renumbering\<close>

definition bind_bit :: "string \<Rightarrow> json list \<Rightarrow> nat \<times> json \<Rightarrow> (int \<times> int) list \<Rightarrow> (int \<times> int) list res" where
  "bind_bit port_name glue_bits ib remap =
     (case as_int (snd ib) of
        None \<Rightarrow> Inr remap
      | Some b \<Rightarrow>
          if length glue_bits \<le> fst ib then Inl (AssembleError (''port '' @ repr_str port_name @ '' width mismatch vs instance connections''))
          else Inr (case as_int (glue_bits ! fst ib) of None \<Rightarrow> remap | Some g \<Rightarrow> dict_set remap b g))"

definition bind_port :: "jobj \<Rightarrow> string \<times> json \<Rightarrow> (int \<times> int) list \<Rightarrow> (int \<times> int) list res" where
  "bind_port conns np remap =
     (case as_obj (snd np) of
        None \<Rightarrow> Inr remap
      | Some port \<Rightarrow>
          (case as_list (get_or conns (fst np) (JList [])) of
             Some (g # gs) \<Rightarrow>
               bind_res (py_tuple (get_or port ''bits'' (JList []))) (\<lambda>block_bits.
                 fold_res (bind_bit (fst np) (g # gs)) (List.enumerate 0 block_bits) remap)
           | _ \<Rightarrow> Inr remap))"

definition fresh_bit :: "int \<Rightarrow> (int \<times> int) list \<times> int \<Rightarrow> (int \<times> int) list \<times> int" where
  "fresh_bit b rn = (if has_key (fst rn) b then rn else (dict_set (fst rn) b (snd rn), snd rn + 1))"

definition build_remap :: "jobj \<Rightarrow> jobj \<Rightarrow> int \<Rightarrow> ((int \<times> int) list \<times> int) res" where
  "build_remap block_module conns next_id =
     (case as_obj (get_or block_module ''ports'' (JObj [])) of
        None \<Rightarrow> Inl (AssembleError ''block module has no ports'')
      | Some ports \<Rightarrow>
          bind_res (fold_res (bind_port conns) ports []) (\<lambda>remap.
          bind_res (module_bits block_module) (\<lambda>all_bits.
          Inr (fold fresh_bit (sorted_set all_bits) (remap, next_id)))))"

definition remap_bits :: "(int \<times> int) list \<Rightarrow> json list \<Rightarrow> json list res" where
  "remap_bits remap bits =
     map_res (\<lambda>b. case as_int b of
         None \<Rightarrow> Inr b
       | Some n \<Rightarrow> (case map_of remap n of None \<Rightarrow> Inl (KeyError (show_int n)) | Some m \<Rightarrow> Inr (JInt m))) bits"

definition remap_conns :: "(int \<times> int) list \<Rightarrow> jobj \<Rightarrow> jobj res" where
  "remap_conns remap conns =
     map_res (\<lambda>(pin, bits). bind_res (py_tuple bits) (\<lambda>bs. bind_res (remap_bits remap bs) (\<lambda>bs'. Inr (pin, JList bs')))) conns"

section \<open>Splicing\<close>

definition splice_cell :: "string \<Rightarrow> (int \<times> int) list \<Rightarrow> bool \<Rightarrow> string \<Rightarrow> string \<times> json \<Rightarrow> jobj \<Rightarrow> jobj res" where
  "splice_cell inst remap graybox tag nc dest =
     (case as_obj (snd nc) of
        None \<Rightarrow> Inr dest
      | Some cell \<Rightarrow>
          (let is_wbc = py_str (get_or cell ''type'' (JStr [])) \<in> set WBC_CELL_TYPES
           in if graybox \<and> \<not> is_wbc then Inr dest
              else
                bind_res (deep_copy_cell (snd nc)) (\<lambda>c.
                bind_res (remap_conns remap (cc_connections c)) (\<lambda>conns.
                let c1 = c\<lparr>cc_connections := conns\<rparr>;
                    c2 = (if is_wbc then c1\<lparr>cc_attributes := dict_set (dict_set (cc_attributes c1) ''faultflow_block'' (JStr tag))
                            ''faultflow_wbc'' (JStr (fst nc))\<rparr> else c1)
                in Inr (dict_set dest (inst @ ''__'' @ fst nc) (cell_json c2))))))"

definition splice_cells :: "string \<Rightarrow> (int \<times> int) list \<Rightarrow> bool \<Rightarrow> string \<Rightarrow> jobj \<Rightarrow> jobj \<Rightarrow> jobj res" where
  "splice_cells inst remap graybox tag block_module dest =
     (case as_obj (get_or block_module ''cells'' (JObj [])) of
        None \<Rightarrow> Inr dest
      | Some cells \<Rightarrow> fold_res (splice_cell inst remap graybox tag) cells dest)"

definition splice_net :: "string \<Rightarrow> (int \<times> int) list \<Rightarrow> string list \<Rightarrow> string \<times> json \<Rightarrow> jobj \<Rightarrow> jobj res" where
  "splice_net inst remap port_names nn dest =
     (if as_obj (snd nn) = None \<or> fst nn \<in> set port_names then Inr dest
      else bind_res (deep_copy_net (snd nn)) (\<lambda>(hide, bits, attrs).
           bind_res (remap_bits remap bits) (\<lambda>bits'. Inr (dict_set dest (inst @ ''__'' @ fst nn) (net_json (hide, bits', attrs))))))"

definition splice_netnames :: "string \<Rightarrow> (int \<times> int) list \<Rightarrow> jobj \<Rightarrow> jobj \<Rightarrow> jobj res" where
  "splice_netnames inst remap block_module dest =
     (let port_names = (case as_obj (get_or block_module ''ports'' (JObj [])) of None \<Rightarrow> [] | Some ports \<Rightarrow> map fst ports)
      in case as_obj (get_or block_module ''netnames'' (JObj [])) of
           None \<Rightarrow> Inr dest
         | Some nets \<Rightarrow> fold_res (splice_net inst remap port_names) nets dest)"

definition block_module_of :: "string dict \<Rightarrow> string \<times> jobj \<Rightarrow> jobj res" where
  "block_module_of block_module ib =
     (case map_of block_module (fst ib) of
        None \<Rightarrow> Inl (AssembleError (''no block_module entry for instance '' @ repr_str (fst ib)))
      | Some module_name \<Rightarrow>
          (case Option.bind (as_obj (get_or (snd ib) ''modules'' JNull)) (\<lambda>ms. map_of ms module_name) of
             None \<Rightarrow> Inl (AssembleError (''block for instance '' @ repr_str (fst ib) @ '' has no module '' @ repr_str module_name))
           | Some m \<Rightarrow> lift_option AttributeError (as_obj m)))"

definition instance_conns :: "string \<Rightarrow> jobj \<Rightarrow> string \<Rightarrow> jobj res" where
  "instance_conns soc_top cells inst =
     (case Option.bind (map_of cells inst) as_obj of
        None \<Rightarrow> Inl (AssembleError (''instance cell '' @ repr_str inst @ '' not found in glue top '' @ repr_str soc_top))
      | Some cell \<Rightarrow> lift_option (AssembleError (''instance cell '' @ repr_str inst @ '' has no connections'')) (as_obj (get_or cell ''connections'' JNull)))"

definition splice_block ::
  "string \<Rightarrow> string dict \<Rightarrow> bool \<Rightarrow> string dict \<Rightarrow> string \<times> jobj \<Rightarrow> tables \<times> int \<Rightarrow> (tables \<times> int) res" where
  "splice_block soc_top block_module graybox names ib tn =
     (let inst = fst ib; t = fst tn
      in bind_res (if map_of block_module inst = None then Inl (AssembleError (''no block_module entry for instance '' @ repr_str inst)) else Inr ()) (\<lambda>_.
         bind_res (instance_conns soc_top (t_cells t) inst) (\<lambda>conns.
         bind_res (block_module_of block_module ib) (\<lambda>bm.
         bind_res (build_remap bm conns (snd tn)) (\<lambda>(remap, next_id).
         bind_res (splice_cells inst remap graybox (get_or names inst inst) bm (t_cells t)) (\<lambda>cells.
         bind_res (splice_netnames inst remap bm (t_nets t)) (\<lambda>nets.
         Inr (t\<lparr>t_cells := dict_pop cells inst, t_nets := nets\<rparr>, next_id))))))))"

definition copy_glue :: "jobj \<Rightarrow> string \<Rightarrow> (jobj \<times> tables) res" where
  "copy_glue glue soc_top =
     (case as_obj (get_or glue ''cells'' JNull) of
        None \<Rightarrow> Inl (AssembleError (''top module '' @ repr_str soc_top @ '' has no cells''))
      | Some cells \<Rightarrow>
          bind_res (dict_copy (get_or glue ''attributes'' (JObj []))) (\<lambda>attributes.
          bind_res (lift_option AttributeError (as_obj (get_or glue ''ports'' (JObj [])))) (\<lambda>raw_ports.
          bind_res (map_res (\<lambda>(k, v). bind_res (dict_copy v) (\<lambda>d. Inr (k, JObj d))) raw_ports) (\<lambda>ports.
          bind_res (map_res (\<lambda>(k, v). bind_res (deep_copy_cell v) (\<lambda>c. Inr (k, cell_json c))) cells) (\<lambda>cells'.
          bind_res (lift_option AttributeError (as_obj (get_or glue ''netnames'' (JObj [])))) (\<lambda>raw_nets.
          bind_res (map_res (\<lambda>(k, v). bind_res (deep_copy_net v) (\<lambda>n. Inr (k, net_json n))) raw_nets) (\<lambda>nets.
          Inr (attributes, \<lparr>t_cells = cells', t_ports = ports, t_nets = nets\<rparr>))))))))"

definition compose_tables ::
  "jobj \<Rightarrow> string \<Rightarrow> (string \<times> jobj) list \<Rightarrow> string dict \<Rightarrow> bool \<Rightarrow> string dict \<Rightarrow> (jobj \<times> tables) res" where
  "compose_tables glue soc_top blocks block_module graybox names =
     bind_res (copy_glue glue soc_top) (\<lambda>(attributes, t).
     bind_res (fold_res (splice_block soc_top block_module graybox names) blocks (t, next_id_of_tables t)) (\<lambda>(t', next_id).
     Inr (attributes, t')))"

definition compose_soc ::
  "jobj \<Rightarrow> string \<Rightarrow> (string \<times> jobj) list \<Rightarrow> string dict \<Rightarrow> bool \<Rightarrow> string dict \<Rightarrow> jobj res" where
  "compose_soc glue_json soc_top blocks block_module graybox block_names =
     bind_res (find_top glue_json soc_top) (\<lambda>glue.
     bind_res (compose_tables glue soc_top blocks block_module graybox block_names) (\<lambda>(attributes, t).
     Inr [(''creator'', get_or glue_json ''creator'' (JStr ''faultflow-assemble'')),
          (''modules'', JObj [(soc_top, JObj [(''attributes'', JObj attributes), (''ports'', JObj (t_ports t)),
             (''cells'', JObj (t_cells t)), (''netnames'', JObj (t_nets t))])])]))"

end
