(* ===== verification/Assemble_Props.thy ===== *)
theory Assemble_Props
  imports Assemble Wbr_View_Props
begin

text \<open>
  What composition does. A block's nets are renumbered so that a net on a port becomes a net the glue connects there and the
  other nets stay apart, and the composed netlist has exactly the consistent valuations of the glue and the
  blocks side by side.
\<close>

section \<open>Renumbering\<close>

text \<open>Net \<open>b\<close> of the block is at a place of a port where the glue connects net \<open>g\<close>.\<close>

definition bound_at :: "json list \<Rightarrow> json list \<Rightarrow> int \<Rightarrow> int \<Rightarrow> bool" where
  "bound_at bits gs b g = (\<exists>i. i < length bits \<and> i < length gs \<and> as_int (bits ! i) = Some b \<and> as_int (gs ! i) = Some g)"

definition port_binds :: "jobj \<Rightarrow> string \<times> json \<Rightarrow> int \<Rightarrow> int \<Rightarrow> bool" where
  "port_binds conns np b g = (\<exists>port bits gs. as_obj (snd np) = Some port \<and> py_tuple (get_or port ''bits'' (JList [])) = Inr bits \<and>
     as_list (get_or conns (fst np) (JList [])) = Some gs \<and> bound_at bits gs b g)"

definition bound_to :: "jobj \<Rightarrow> jobj \<Rightarrow> int \<Rightarrow> int \<Rightarrow> bool" where
  "bound_to conns bm b g = (\<exists>ports. as_obj (get_or bm ''ports'' (JObj [])) = Some ports \<and> (\<exists>np \<in> set ports. port_binds conns np b g))"

lemma bind_bits_spec:
  assumes "fold_res (bind_bit p gs) ibs R = Inr R'"
  shows "map_of R' b = Some g \<Longrightarrow> map_of R b = Some g \<or> (\<exists>(i, j) \<in> set ibs. i < length gs \<and> as_int j = Some b \<and> as_int (gs ! i) = Some g)"
    and "map_of R b \<noteq> None \<or> (\<exists>(i, j) \<in> set ibs. i < length gs \<and> as_int j = Some b \<and> as_int (gs ! i) \<noteq> None) \<Longrightarrow> map_of R' b \<noteq> None"
  using assms
proof (induction ibs arbitrary: R)
  case (Cons ib ibs)
  obtain i j where [simp]: "ib = (i, j)" by force
  {
    case 1
    then obtain R1 where r: "bind_bit p gs (i, j) R = Inr R1" "fold_res (bind_bit p gs) ibs R1 = Inr R'" by (auto simp: bind_res_eq_Inr)
    from Cons.IH(1) [OF 1(1) r(2)] r(1) show ?case
      by (auto simp: bind_bit_def update_conv' split: option.splits if_splits)
  next
    case 2
    then obtain R1 where r: "bind_bit p gs (i, j) R = Inr R1" "fold_res (bind_bit p gs) ibs R1 = Inr R'" by (auto simp: bind_res_eq_Inr)
    have "map_of R1 b \<noteq> None \<or> (\<exists>(i, j) \<in> set ibs. i < length gs \<and> as_int j = Some b \<and> as_int (gs ! i) \<noteq> None)"
      using 2(1) r(1) by (auto simp: bind_bit_def update_conv' split: option.splits if_splits)
    from Cons.IH(2) [OF this r(2)] show ?case .
  }
qed auto

lemma bind_port_cases:
  assumes "bind_port conns np R = Inr R'"
  obtains (skip) "R' = R" "\<And>b g. \<not> port_binds conns np b g"
    | (bits) port bits gs where "as_obj (snd np) = Some port" "py_tuple (get_or port ''bits'' (JList [])) = Inr bits"
      "as_list (get_or conns (fst np) (JList [])) = Some gs" "fold_res (bind_bit (fst np) gs) (List.enumerate 0 bits) R = Inr R'"
  using assms by (fastforce simp: bind_port_def port_binds_def bound_at_def bind_res_eq_Inr split: option.splits list.splits)

lemma port_binds_enumerate:
  assumes "as_obj (snd np) = Some port" and "py_tuple (get_or port ''bits'' (JList [])) = Inr bits" and "as_list (get_or conns (fst np) (JList [])) = Some gs"
  shows "port_binds conns np b g \<longleftrightarrow> (\<exists>(i, j) \<in> set (List.enumerate 0 bits). i < length gs \<and> as_int j = Some b \<and> as_int (gs ! i) = Some g)"
  using assms by (auto simp: port_binds_def bound_at_def in_set_enumerate_eq)

lemma bind_port_sound: "bind_port conns np R = Inr R' \<Longrightarrow> map_of R' b = Some g \<Longrightarrow> map_of R b = Some g \<or> port_binds conns np b g"
proof (erule bind_port_cases)
  fix port bits gs assume m: "map_of R' b = Some g" and p: "as_obj (snd np) = Some port" "py_tuple (get_or port ''bits'' (JList [])) = Inr bits"
    "as_list (get_or conns (fst np) (JList [])) = Some gs" and f: "fold_res (bind_bit (fst np) gs) (List.enumerate 0 bits) R = Inr R'"
  show "map_of R b = Some g \<or> port_binds conns np b g" using bind_bits_spec(1) [OF f m] port_binds_enumerate [OF p] by simp
qed simp

lemma bind_port_total:
  "bind_port conns np R = Inr R' \<Longrightarrow> map_of R b \<noteq> None \<or> (\<exists>g. port_binds conns np b g) \<Longrightarrow> map_of R' b \<noteq> None"
proof (erule bind_port_cases)
  fix port bits gs assume p: "as_obj (snd np) = Some port" "py_tuple (get_or port ''bits'' (JList [])) = Inr bits"
    "as_list (get_or conns (fst np) (JList [])) = Some gs" and f: "fold_res (bind_bit (fst np) gs) (List.enumerate 0 bits) R = Inr R'"
    and "map_of R b \<noteq> None \<or> (\<exists>g. port_binds conns np b g)"
  then have "map_of R b \<noteq> None \<or> (\<exists>(i, j) \<in> set (List.enumerate 0 bits). i < length gs \<and> as_int j = Some b \<and> as_int (gs ! i) \<noteq> None)"
    using port_binds_enumerate [OF p] by fastforce
  then show "map_of R' b \<noteq> None" by (rule bind_bits_spec(2) [OF f])
qed auto

lemma bind_ports_spec:
  assumes "fold_res (bind_port conns) ports R = Inr R'"
  shows "map_of R' b = Some g \<Longrightarrow> map_of R b = Some g \<or> (\<exists>np \<in> set ports. port_binds conns np b g)"
    and "map_of R b \<noteq> None \<or> (\<exists>np \<in> set ports. \<exists>g. port_binds conns np b g) \<Longrightarrow> map_of R' b \<noteq> None"
  using assms
proof (induction ports arbitrary: R)
  case (Cons np ports)
  {
    case 1
    then obtain R1 where r: "bind_port conns np R = Inr R1" "fold_res (bind_port conns) ports R1 = Inr R'" by (auto simp: bind_res_eq_Inr)
    from Cons.IH(1) [OF 1(1) r(2)] bind_port_sound [OF r(1)] show ?case by auto
  next
    case 2
    then obtain R1 where r: "bind_port conns np R = Inr R1" "fold_res (bind_port conns) ports R1 = Inr R'" by (auto simp: bind_res_eq_Inr)
    from 2(1) have "map_of R1 b \<noteq> None \<or> (\<exists>np \<in> set ports. \<exists>g. port_binds conns np b g)" using bind_port_total [OF r(1)] by auto
    from Cons.IH(2) [OF this r(2)] show ?case .
  }
qed auto

text \<open>Fresh numbers for what is not bound.\<close>

lemma fresh_bits_spec:
  assumes "fold fresh_bit bs (R, n) = (R', n')"
  shows "n \<le> n'" and "map_of R b \<noteq> None \<Longrightarrow> map_of R' b = map_of R b" and "b \<in> set bs \<Longrightarrow> map_of R' b \<noteq> None"
    and "map_of R b = None \<Longrightarrow> map_of R' b = Some m \<Longrightarrow> n \<le> m \<and> m < n'"
    and "map_of R b = None \<Longrightarrow> map_of R c = None \<Longrightarrow> map_of R' b = Some m \<Longrightarrow> map_of R' c = Some m \<Longrightarrow> b = c"
proof -
  have "n \<le> n' \<and> (\<forall>b. map_of R b \<noteq> None \<longrightarrow> map_of R' b = map_of R b) \<and> (\<forall>b \<in> set bs. map_of R' b \<noteq> None) \<and>
      (\<forall>b m. map_of R b = None \<longrightarrow> map_of R' b = Some m \<longrightarrow> n \<le> m \<and> m < n') \<and>
      (\<forall>b c m. map_of R b = None \<longrightarrow> map_of R c = None \<longrightarrow> map_of R' b = Some m \<longrightarrow> map_of R' c = Some m \<longrightarrow> b = c)"
    using assms
  proof (induction bs arbitrary: R n)
    case (Cons x bs)
    show ?case
    proof (cases "map_of R x")
      case None
      let ?R = "dict_set R x n"
      have "fresh_bit x (R, n) = (?R, n + 1)" using None by (simp add: fresh_bit_def has_key_def)
      then have "fold fresh_bit bs (?R, n + 1) = (R', n')" using Cons.prems by simp
      note IH = Cons.IH [OF this]
      note keep = IH [THEN conjunct2, THEN conjunct1, rule_format]
        and all = IH [THEN conjunct2, THEN conjunct2, THEN conjunct1, rule_format]
        and range = IH [THEN conjunct2, THEN conjunct2, THEN conjunct2, THEN conjunct1, rule_format]
        and inj0 = IH [THEN conjunct2, THEN conjunct2, THEN conjunct2, THEN conjunct2, rule_format]
      have R: "map_of ?R b = (if b = x then Some n else map_of R b)" for b by (simp add: update_conv')
      have x: "map_of R' x = Some n" using keep [of x] by (simp add: R)
      have other: "n + 1 \<le> m \<and> m < n'" if "map_of R b = None" "b \<noteq> x" "map_of R' b = Some m" for b m
        using range [of b m] that by (simp add: R)
      have inj: "b = c" if "map_of R b = None" "map_of R c = None" "map_of R' b = Some m" "map_of R' c = Some m" for b c m
      proof (cases "b = x \<or> c = x")
        case True
        then show ?thesis using other [of b m] other [of c m] that x by fastforce
      next
        case False
        then show ?thesis using inj0 [of b c m] that by (simp add: R)
      qed
      have rng: "n \<le> m \<and> m < n'" if "map_of R b = None" "map_of R' b = Some m" for b m
        using other [OF that(1) _ that(2)] x IH [THEN conjunct1] that(2) by (cases "b = x") auto
      have kp: "map_of R' b = map_of R b" if "map_of R b \<noteq> None" for b
        using keep [of b] that None by (cases "b = x") (simp_all add: R)
      have tot: "map_of R' b \<noteq> None" if "b \<in> set (x # bs)" for b using that all [of b] x by auto
      show ?thesis using IH [THEN conjunct1] inj rng kp tot by (intro conjI allI ballI impI) (assumption | linarith | blast)+
    next
      case (Some m)
      then have "fresh_bit x (R, n) = (R, n)" by (simp add: fresh_bit_def has_key_def)
      then have "fold fresh_bit bs (R, n) = (R', n')" using Cons.prems by simp
      note IH = Cons.IH [OF this]
      then have "map_of R' x \<noteq> None" using Some by simp
      with IH show ?thesis by simp
    qed
  qed auto
  then show "n \<le> n'" "map_of R b \<noteq> None \<Longrightarrow> map_of R' b = map_of R b" "b \<in> set bs \<Longrightarrow> map_of R' b \<noteq> None"
    "map_of R b = None \<Longrightarrow> map_of R' b = Some m \<Longrightarrow> n \<le> m \<and> m < n'"
    "map_of R b = None \<Longrightarrow> map_of R c = None \<Longrightarrow> map_of R' b = Some m \<Longrightarrow> map_of R' c = Some m \<Longrightarrow> b = c" by blast+
qed

text \<open>A renaming that binds every net on a connected port to a net the glue connects there, and keeps the others apart.\<close>

definition inner_bits :: "jobj \<Rightarrow> jobj \<Rightarrow> int set" where
  "inner_bits conns bm = {b. (\<exists>bits. module_bits bm = Inr bits \<and> b \<in> set bits) \<and> (\<forall>g. \<not> bound_to conns bm b g)}"

definition good_remap :: "jobj \<Rightarrow> jobj \<Rightarrow> int \<Rightarrow> int \<Rightarrow> (int \<Rightarrow> int) \<Rightarrow> bool" where
  "good_remap conns bm lo hi f =
     ((\<forall>b. (\<exists>g. bound_to conns bm b g) \<longrightarrow> bound_to conns bm b (f b)) \<and> f ` inner_bits conns bm \<subseteq> {lo..<hi} \<and> inj_on f (inner_bits conns bm))"

lemma build_remap_spec:
  assumes "build_remap bm conns n = Inr (R, n')"
  shows "n \<le> n'" and "good_remap conns bm n n' (\<lambda>b. the (map_of R b))" and "module_bits bm = Inr bits \<Longrightarrow> b \<in> set bits \<Longrightarrow> map_of R b \<noteq> None"
proof -
  obtain ports R0 bs where p: "as_obj (get_or bm ''ports'' (JObj [])) = Some ports" and r: "fold_res (bind_port conns) ports [] = Inr R0"
    and bs: "module_bits bm = Inr bs" and fr: "fold fresh_bit (sorted_set bs) (R0, n) = (R, n')"
    using assms by (auto simp: build_remap_def bind_res_eq_Inr split: option.splits)
  have bound: "bound_to conns bm b g \<longleftrightarrow> (\<exists>np \<in> set ports. port_binds conns np b g)" for b g by (simp add: bound_to_def p)
  have R0: "bound_to conns bm b g" if "map_of R0 b = Some g" for b g using bind_ports_spec(1) [OF r that] by (simp add: bound)
  have bnd: "bound_to conns bm b (the (map_of R b))" if "bound_to conns bm b g" for b g
  proof -
    have "map_of R0 b \<noteq> None" using bind_ports_spec(2) [OF r, of b] that by (auto simp: bound)
    then obtain g' where "map_of R0 b = Some g'" by auto
    moreover from this have "map_of R b = Some g'" using fresh_bits_spec(2) [OF fr, of b] by simp
    ultimately show ?thesis using R0 by simp
  qed
  have some: "\<exists>m. map_of R b = Some m" if "b \<in> set bs" for b using fresh_bits_spec(3) [OF fr, of b] that by auto
  have inner: "map_of R0 b = None \<and> b \<in> set bs" if "b \<in> inner_bits conns bm" for b
    using that R0 bs by (cases "map_of R0 b") (auto simp: inner_bits_def)
  have "the (map_of R b) \<in> {n..<n'}" if "b \<in> inner_bits conns bm" for b
    using inner [OF that] some fresh_bits_spec(4) [OF fr, of b] by force
  moreover have "inj_on (\<lambda>b. the (map_of R b)) (inner_bits conns bm)"
  proof (rule inj_onI)
    fix b c assume b: "b \<in> inner_bits conns bm" and c: "c \<in> inner_bits conns bm" and eq: "the (map_of R b) = the (map_of R c)"
    obtain m where "map_of R b = Some m" using some inner [OF b] by blast
    moreover obtain m' where "map_of R c = Some m'" using some inner [OF c] by blast
    ultimately show "b = c" using fresh_bits_spec(5) [OF fr, of b c m] inner [OF b] inner [OF c] eq by simp
  qed
  ultimately show "good_remap conns bm n n' (\<lambda>b. the (map_of R b))" using bnd by (auto simp: good_remap_def)
  show "n \<le> n'" by (rule fresh_bits_spec(1) [OF fr])
  show "module_bits bm = Inr bits \<Longrightarrow> b \<in> set bits \<Longrightarrow> map_of R b \<noteq> None" using some bs by auto
qed

section \<open>Copied cells\<close>

text \<open>A cell as Yosys writes it: an object with a type, whose pins are lists of bits.\<close>

definition yosys_cell :: "json \<Rightarrow> bool" where
  "yosys_cell c = ((\<exists>ty. type_of c = JStr ty) \<and> (\<forall>(p, bits) \<in> set (conns_of c). \<exists>bs. bits = JList bs))"

lemma cell_sat_cong:
  assumes "type_of c' = type_of c" and "pin_vals v' c' = pin_vals v c" and "st' i' = st i"
  shows "cell_sat beh st' v' i' c' = cell_sat beh st v i c"
  unfolding cell_sat_def Let_def of_type_def forced_def pin_val_def assms ..

lemma copy_conns_lists:
  assumes "\<forall>(p, bits) \<in> set d. \<exists>bs. bits = JList bs"
  shows "map_res (\<lambda>(pin, bits). bind_res (copy_bits bits) (\<lambda>bs. Inr (pin, bs))) d = Inr d"
  using assms by (induction d) (auto simp: copy_bits_def py_tuple_def)

lemma deep_copy_cell_spec:
  assumes "deep_copy_cell c = Inr cc" and "yosys_cell c"
  shows "cc_type cc = type_of c" and "cc_connections cc = conns_of c"
proof -
  obtain d where d: "as_obj c = Some d" using assms(1) by (auto simp: deep_copy_cell_def lift_option_def bind_res_eq_Inr split: option.splits)
  then have c: "c = JObj d" by (cases c) auto
  obtain cs where cs: "as_obj (get_or d ''connections'' (JObj [])) = Some cs"
    "copy_conns (get_or d ''connections'' (JObj [])) = Inr (cc_connections cc)" "cc_type cc = get_or d ''type'' (JStr [])"
    using assms(1) by (auto simp: deep_copy_cell_def c lift_option_def copy_conns_def bind_res_eq_Inr split: option.splits)
  have eq: "conns_of c = cs" by (simp add: conns_of_def c cs(1))
  then show "cc_connections cc = conns_of c" using cs(1,2) assms(2) by (simp add: copy_conns_def lift_option_def yosys_cell_def copy_conns_lists)
  show "cc_type cc = type_of c" using assms(2) cs(3) by (auto simp: yosys_cell_def type_of_def c get_or_def split: option.splits)
qed

lemma cell_json_fields [simp]: "type_of (cell_json cc) = cc_type cc" "conns_of (cell_json cc) = cc_connections cc" "is_obj (cell_json cc)"
  by (simp_all add: cell_json_def type_of_def conns_of_def get_or_def is_obj_def)

lemma bits_value_remap:
  assumes "remap_bits R bs = Inr bs'"
  shows "bits_value v (JList bs') = bits_value (\<lambda>b. v (the (map_of R b))) (JList bs)"
proof -
  have "list_all2 (\<lambda>b b'. bit_value v b' = bit_value (\<lambda>b. v (the (map_of R b))) b) bs bs'"
    using assms unfolding remap_bits_def map_res_eq_Inr
    by (rule list_all2_mono) (auto simp: bit_value_def split: option.splits)
  then show ?thesis by (cases bs; cases "tl bs") (auto simp: bits_value_def list_all2_Cons1)
qed

lemma pin_vals_remap:
  assumes "remap_conns R conns = Inr conns'" and "\<forall>(p, bits) \<in> set conns. \<exists>bs. bits = JList bs"
  shows "map (\<lambda>(p, bits). (p, bits_value v bits)) conns' = map (\<lambda>(p, bits). (p, bits_value (\<lambda>b. v (the (map_of R b))) bits)) conns"
  using assms
proof (induction conns arbitrary: conns')
  case (Cons pb conns)
  obtain p bs where pb: "pb = (p, JList bs)" using Cons.prems(2) by (cases pb) auto
  from Cons.prems(1) obtain bs' rest where r: "remap_bits R bs = Inr bs'" "remap_conns R conns = Inr rest" "conns' = (p, JList bs') # rest"
    by (auto simp: remap_conns_def pb py_tuple_def bind_res_eq_Inr)
  show ?case using Cons.IH [OF r(2)] Cons.prems(2) bits_value_remap [OF r(1)] by (simp add: r(3) pb)
qed (simp add: remap_conns_def)

section \<open>One block\<close>

abbreviation prefixed :: "string \<Rightarrow> string \<Rightarrow> string" where
  "prefixed inst n \<equiv> inst @ ''__'' @ n"

definition block_cells :: "jobj \<Rightarrow> jobj" where
  "block_cells bm = (case as_obj (get_or bm ''cells'' (JObj [])) of None \<Rightarrow> [] | Some cells \<Rightarrow> cells)"

text \<open>A graybox keeps the wrapper cells only.\<close>

definition kept :: "bool \<Rightarrow> jobj \<Rightarrow> jobj" where
  "kept graybox cells = filter (\<lambda>(n, c). graybox \<longrightarrow> of_type c WBC_CELL_TYPES) cells"

lemma splice_cell_spec:
  assumes "splice_cell inst R graybox tag (n, c) dest = Inr dest'" and y: "yosys_cell c"
  shows "graybox \<and> \<not> of_type c WBC_CELL_TYPES \<and> dest' = dest \<or>
    (graybox \<longrightarrow> of_type c WBC_CELL_TYPES) \<and> (\<exists>c'. dest' = dict_set dest (prefixed inst n) c' \<and>
      (\<forall>beh st v. cell_sat beh st v (prefixed inst n) c' = cell_sat beh (\<lambda>n. st (prefixed inst n)) (\<lambda>b. v (the (map_of R b))) n c))"
proof -
  obtain ty where ty: "type_of c = JStr ty" using y by (auto simp: yosys_cell_def)
  then obtain d where c: "c = JObj d" by (cases c) (auto simp: type_of_def)
  have "py_str (get_or d ''type'' (JStr [])) = ty" using ty by (auto simp: type_of_def c get_or_def py_str_def split: option.splits)
  then have wbc: "py_str (get_or d ''type'' (JStr [])) \<in> set WBC_CELL_TYPES \<longleftrightarrow> of_type c WBC_CELL_TYPES" using ty by (auto simp: of_type_def)
  show ?thesis
  proof (cases "graybox \<and> \<not> of_type c WBC_CELL_TYPES")
    case True
    then show ?thesis using assms(1) wbc by (simp add: splice_cell_def c)
  next
    case False
    then obtain cc conns' c' where cc: "deep_copy_cell c = Inr cc" "remap_conns R (cc_connections cc) = Inr conns'"
      and c': "dest' = dict_set dest (prefixed inst n) (cell_json c')" "cc_connections c' = conns'" "cc_type c' = cc_type cc"
    proof -
      have eq: "splice_cell inst R graybox tag (n, c) dest =
          bind_res (deep_copy_cell c) (\<lambda>cc. bind_res (remap_conns R (cc_connections cc)) (\<lambda>conns.
            Inr (dict_set dest (prefixed inst n) (cell_json (if of_type c WBC_CELL_TYPES
              then cc\<lparr>cc_connections := conns, cc_attributes := dict_set (dict_set (cc_attributes cc) ''faultflow_block'' (JStr tag)) ''faultflow_wbc'' (JStr n)\<rparr>
              else cc\<lparr>cc_connections := conns\<rparr>)))))"
        using False wbc by (cases graybox; cases "of_type c WBC_CELL_TYPES") (simp_all add: splice_cell_def c Let_def)
      obtain cc conns' where r: "deep_copy_cell c = Inr cc" "remap_conns R (cc_connections cc) = Inr conns'"
        "dest' = dict_set dest (prefixed inst n) (cell_json (if of_type c WBC_CELL_TYPES
              then cc\<lparr>cc_connections := conns', cc_attributes := dict_set (dict_set (cc_attributes cc) ''faultflow_block'' (JStr tag)) ''faultflow_wbc'' (JStr n)\<rparr>
              else cc\<lparr>cc_connections := conns'\<rparr>))"
        using trans [OF eq [symmetric] assms(1)] unfolding bind_res_eq_Inr by (elim exE conjE) (simp only: sum.inject)
      show thesis by (rule that [OF r]) simp_all
    qed
    note copied = deep_copy_cell_spec [OF cc(1) y]
    have "pin_vals v (cell_json c') = pin_vals (\<lambda>b. v (the (map_of R b))) c" for v
      using pin_vals_remap [of R "conns_of c" conns' v] cc(2) copied(2) y c'(2) by (simp add: pin_vals_def yosys_cell_def)
    then have sat: "cell_sat beh st v (prefixed inst n) (cell_json c') = cell_sat beh (\<lambda>n. st (prefixed inst n)) (\<lambda>b. v (the (map_of R b))) n c" for beh st v
      by (intro cell_sat_cong) (simp_all add: copied(1) c'(3))
    have "graybox \<longrightarrow> of_type c WBC_CELL_TYPES" using False by simp
    then show ?thesis using c'(1) sat by blast
  qed
qed

lemma splice_cells_spec:
  assumes "fold_res (splice_cell inst R graybox tag) cs dest = Inr dest'" and "\<forall>(n, c) \<in> set cs. yosys_cell c" and "distinct (map fst cs)"
    and "\<forall>(n, c) \<in> set (kept graybox cs). prefixed inst n \<notin> fst ` set dest"
  shows "\<exists>added. dest' = dest @ added \<and> map fst added = map (\<lambda>(n, c). prefixed inst n) (kept graybox cs) \<and>
    (\<forall>beh st v. design_sat beh st v added \<longleftrightarrow> design_sat beh (\<lambda>n. st (prefixed inst n)) (\<lambda>b. v (the (map_of R b))) (kept graybox cs))"
  using assms
proof (induction cs arbitrary: dest)
  case Nil
  then show ?case by (simp add: kept_def design_sat_def)
next
  case (Cons nc cs)
  obtain n c where nc: "nc = (n, c)" by force
  from Cons.prems(1) obtain d1 where d1: "splice_cell inst R graybox tag (n, c) dest = Inr d1" "fold_res (splice_cell inst R graybox tag) cs d1 = Inr dest'"
    by (auto simp: nc bind_res_eq_Inr)
  have y: "yosys_cell c" using Cons.prems(2) by (simp add: nc)
  from splice_cell_spec [OF d1(1) y] show ?case
  proof (elim disjE conjE exE)
    assume "graybox" "\<not> of_type c WBC_CELL_TYPES" "d1 = dest"
    then have kc: "kept graybox (nc # cs) = kept graybox cs" and d: "d1 = dest" by (simp_all add: nc kept_def)
    have "\<forall>(n, c) \<in> set cs. yosys_cell c" "distinct (map fst cs)" using Cons.prems(2,3) by simp_all
    from Cons.IH [OF d1(2) this] Cons.prems(4) show ?thesis unfolding kc d .
  next
    fix c' assume k: "graybox \<longrightarrow> of_type c WBC_CELL_TYPES" and e: "d1 = dict_set dest (prefixed inst n) c'"
      and sat: "\<forall>beh st v. cell_sat beh st v (prefixed inst n) c' = cell_sat beh (\<lambda>n. st (prefixed inst n)) (\<lambda>b. v (the (map_of R b))) n c"
    have kc: "kept graybox (nc # cs) = (n, c) # kept graybox cs" using k by (simp add: kept_def nc)
    have d1': "d1 = dest @ [(prefixed inst n, c')]" using e Cons.prems(4) by (simp add: kc dict_set_fresh)
    have "n \<notin> fst ` set (kept graybox cs)" using Cons.prems(3) by (auto simp: nc kept_def)
    then have "prefixed inst m \<notin> fst ` set d1" if "(m, c) \<in> set (kept graybox cs)" for m c
      using bspec [OF Cons.prems(4), of "(m, c)"] that by (auto simp: kc d1' image_iff)
    then have "\<forall>(m, c) \<in> set (kept graybox cs). prefixed inst m \<notin> fst ` set d1" by blast
    then obtain added where a: "dest' = d1 @ added" "map fst added = map (\<lambda>(n, c). prefixed inst n) (kept graybox cs)"
      "\<forall>beh st v. design_sat beh st v added \<longleftrightarrow> design_sat beh (\<lambda>n. st (prefixed inst n)) (\<lambda>b. v (the (map_of R b))) (kept graybox cs)"
      using Cons.IH [OF d1(2)] Cons.prems(2,3) by (auto simp: nc)
    have "dest' = dest @ (prefixed inst n, c') # added" "map fst ((prefixed inst n, c') # added) = map (\<lambda>(n, c). prefixed inst n) (kept graybox (nc # cs))"
      using a(1,2) by (simp_all add: d1' kc)
    moreover have "\<forall>beh st v. design_sat beh st v ((prefixed inst n, c') # added) \<longleftrightarrow>
        design_sat beh (\<lambda>n. st (prefixed inst n)) (\<lambda>b. v (the (map_of R b))) (kept graybox (nc # cs))"
      unfolding kc using a(3) [unfolded design_sat_def] sat unfolding design_sat_def by simp
    ultimately show ?thesis by blast
  qed
qed

definition conns_at :: "jobj \<Rightarrow> string \<Rightarrow> jobj" where
  "conns_at cells inst = (case map_of cells inst of None \<Rightarrow> [] | Some c \<Rightarrow> conns_of c)"

lemma splice_block_spec:
  assumes run: "splice_block soc_top bmod graybox names (inst, blk) (t, n) = Inr (t', n')" and bm: "block_module_of bmod (inst, blk) = Inr bm"
    and wf: "\<forall>(n, c) \<in> set (block_cells bm). yosys_cell c" "distinct (map fst (block_cells bm))"
    and free: "\<forall>(n, c) \<in> set (kept graybox (block_cells bm)). prefixed inst n \<notin> fst ` set (t_cells t)"
  shows "\<exists>f added. n \<le> n' \<and> good_remap (conns_at (t_cells t) inst) bm n n' f \<and> t_cells t' = filter (\<lambda>(i, c). i \<noteq> inst) (t_cells t) @ added \<and>
    map fst added = map (\<lambda>(n, c). prefixed inst n) (kept graybox (block_cells bm)) \<and>
    (\<forall>beh st v. design_sat beh st v added \<longleftrightarrow> design_sat beh (\<lambda>n. st (prefixed inst n)) (\<lambda>b. v (f b)) (kept graybox (block_cells bm)))"
proof -
  obtain conns R cells where r: "instance_conns soc_top (t_cells t) inst = Inr conns" "build_remap bm conns n = Inr (R, n')"
    "splice_cells inst R graybox (get_or names inst inst) bm (t_cells t) = Inr cells" "t_cells t' = dict_pop cells inst"
    using run by (auto simp: splice_block_def Let_def bm bind_res_eq_Inr split: if_splits)
  have conns: "conns_at (t_cells t) inst = conns"
    using r(1) by (auto simp: instance_conns_def conns_at_def conns_of_def lift_option_def bind_eq_Some_conv get_or_def split: option.splits)
  have "fold_res (splice_cell inst R graybox (get_or names inst inst)) (block_cells bm) (t_cells t) = Inr cells"
    using r(3) by (auto simp: splice_cells_def block_cells_def split: option.splits)
  from splice_cells_spec [OF this wf free] obtain added where a: "cells = t_cells t @ added"
    "map fst added = map (\<lambda>(n, c). prefixed inst n) (kept graybox (block_cells bm))"
    "\<forall>beh st v. design_sat beh st v added \<longleftrightarrow> design_sat beh (\<lambda>n. st (prefixed inst n)) (\<lambda>b. v (the (map_of R b))) (kept graybox (block_cells bm))"
    by blast
  have "inst \<notin> set (map fst added)" by (auto simp: a(2))
  then have "filter (\<lambda>(i, c). i \<noteq> inst) added = added" by (intro filter_key_other) simp
  then have "t_cells t' = filter (\<lambda>(i, c). i \<noteq> inst) (t_cells t) @ added" by (simp add: r(4) a(1) dict_pop_filter)
  with build_remap_spec(1,2) [OF r(2)] a(2,3) conns show ?thesis by blast
qed

section \<open>All blocks\<close>

definition block_of :: "string dict \<Rightarrow> string \<times> jobj \<Rightarrow> jobj" where
  "block_of bmod ib = (case block_module_of bmod ib of Inl e \<Rightarrow> [] | Inr bm \<Rightarrow> bm)"

text \<open>The nets of the blocks that are on no connected port, each with its instance.\<close>

definition inner_nets :: "jobj \<Rightarrow> string dict \<Rightarrow> (string \<times> jobj) list \<Rightarrow> (string \<times> int) set" where
  "inner_nets cells bmod blocks = (\<Union>ib \<in> set blocks. Pair (fst ib) ` inner_bits (conns_at cells (fst ib)) (block_of bmod ib))"

text \<open>A renumbering of all blocks: nets on ports go to the glue, the inner nets of all blocks are kept apart in a range.\<close>

definition places :: "jobj \<Rightarrow> string dict \<Rightarrow> (string \<times> jobj) list \<Rightarrow> int \<Rightarrow> int \<Rightarrow> (string \<Rightarrow> int \<Rightarrow> int) \<Rightarrow> bool" where
  "places cells bmod blocks lo hi f =
     ((\<forall>ib \<in> set blocks. \<forall>b. (\<exists>g. bound_to (conns_at cells (fst ib)) (block_of bmod ib) b g) \<longrightarrow>
         bound_to (conns_at cells (fst ib)) (block_of bmod ib) b (f (fst ib) b)) \<and>
      case_prod f ` inner_nets cells bmod blocks \<subseteq> {lo..<hi} \<and> inj_on (case_prod f) (inner_nets cells bmod blocks))"

lemma places_cong:
  assumes "\<And>ib. ib \<in> set blocks \<Longrightarrow> conns_at cells' (fst ib) = conns_at cells (fst ib)"
  shows "places cells' bmod blocks lo hi f = places cells bmod blocks lo hi f"
proof -
  have "inner_nets cells' bmod blocks = inner_nets cells bmod blocks" using assms by (auto simp: inner_nets_def)
  then show ?thesis using assms by (simp add: places_def)
qed

lemma places_Cons:
  assumes g: "good_remap (conns_at cells inst) (block_of bmod (inst, blk)) lo mid g" and f: "places cells bmod blocks mid hi f"
    and "inst \<notin> fst ` set blocks" and "lo \<le> mid" "mid \<le> hi"
  shows "places cells bmod ((inst, blk) # blocks) lo hi (f(inst := g))"
proof -
  let ?I = "inner_bits (conns_at cells inst) (block_of bmod (inst, blk))" and ?N = "inner_nets cells bmod blocks" and ?h = "f(inst := g)"
  have N: "inner_nets cells bmod ((inst, blk) # blocks) = Pair inst ` ?I \<union> ?N" by (simp add: inner_nets_def)
  have other: "fst p \<noteq> inst" if "p \<in> ?N" for p using that assms(3) by (force simp: inner_nets_def)
  have new: "case_prod ?h ` (Pair inst ` ?I) \<subseteq> {lo..<mid}" "inj_on (case_prod ?h) (Pair inst ` ?I)"
    using g by (auto simp: good_remap_def inj_on_def)
  have same: "case_prod ?h p = case_prod f p" if "p \<in> ?N" for p using other [OF that] by (cases p) simp
  have old: "case_prod ?h ` ?N \<subseteq> {mid..<hi}" "inj_on (case_prod ?h) ?N"
    using f same by (auto simp: places_def inj_on_def image_subset_iff)
  have "inj_on (case_prod ?h) (Pair inst ` ?I \<union> ?N)" using new old by (intro inj_on_Un [THEN iffD2] conjI) (auto, fastforce)
  moreover have "case_prod ?h ` (Pair inst ` ?I \<union> ?N) \<subseteq> {lo..<hi}" using new(1) old(1) assms(4,5) by (fastforce simp: image_Un)
  moreover have "bound_to (conns_at cells (fst ib)) (block_of bmod ib) b (?h (fst ib) b)"
    if "ib \<in> set ((inst, blk) # blocks)" "bound_to (conns_at cells (fst ib)) (block_of bmod ib) b x" for ib b x
  proof (cases "ib = (inst, blk)")
    case True
    then show ?thesis using that(2) g by (auto simp: good_remap_def)
  next
    case False
    then have "ib \<in> set blocks" using that(1) by simp
    then show ?thesis using that(2) f assms(3) by (auto simp: places_def)
  qed
  ultimately show ?thesis unfolding places_def N by blast
qed

definition spliced_names :: "bool \<Rightarrow> string dict \<Rightarrow> (string \<times> jobj) list \<Rightarrow> string list" where
  "spliced_names graybox bmod blocks = concat (map (\<lambda>ib. map (\<lambda>(n, c). prefixed (fst ib) n) (kept graybox (block_cells (block_of bmod ib)))) blocks)"

definition glue_only :: "(string \<times> jobj) list \<Rightarrow> jobj \<Rightarrow> jobj" where
  "glue_only blocks cells = filter (\<lambda>(i, c). i \<notin> fst ` set blocks) cells"

text \<open>The glue without the instances and every block, under a renumbering of its nets and a prefix for its state.\<close>

definition side_by_side ::
  "behaviour \<Rightarrow> (string \<Rightarrow> bool) \<Rightarrow> (int \<Rightarrow> bool) \<Rightarrow> bool \<Rightarrow> string dict \<Rightarrow> (string \<Rightarrow> int \<Rightarrow> int) \<Rightarrow> (string \<times> jobj) list \<Rightarrow> jobj \<Rightarrow> bool" where
  "side_by_side beh st v graybox bmod f blocks cells =
     (design_sat beh st v (glue_only blocks cells) \<and>
      (\<forall>ib \<in> set blocks. design_sat beh (\<lambda>n. st (prefixed (fst ib) n)) (\<lambda>b. v (f (fst ib) b)) (kept graybox (block_cells (block_of bmod ib)))))"

definition wf_block :: "jobj \<Rightarrow> bool" where
  "wf_block bm = ((\<forall>(n, c) \<in> set (block_cells bm). yosys_cell c) \<and> distinct (map fst (block_cells bm)))"

lemma splice_block_module:
  "splice_block soc_top bmod graybox names ib tn = Inr r \<Longrightarrow> block_module_of bmod ib = Inr (block_of bmod ib)"
  by (auto simp: splice_block_def block_of_def Let_def bind_res_eq_Inr split: if_splits)

lemma splice_blocks_spec:
  assumes "fold_res (splice_block soc_top bmod graybox names) blocks (t, n) = Inr (t', n')"
    and "\<forall>ib \<in> set blocks. wf_block (block_of bmod ib)"
    and "distinct (map fst (t_cells t) @ spliced_names graybox bmod blocks)"
    and "distinct (map fst blocks)" and "fst ` set blocks \<subseteq> fst ` set (t_cells t)"
  shows "\<exists>f. n \<le> n' \<and> places (t_cells t) bmod blocks n n' f \<and>
    (\<forall>beh st v. design_sat beh st v (t_cells t') \<longleftrightarrow> side_by_side beh st v graybox bmod f blocks (t_cells t))"
  using assms
proof (induction blocks arbitrary: t n)
  case Nil
  then show ?case by (auto simp: places_def inner_nets_def side_by_side_def glue_only_def case_prod_beta')
next
  case (Cons ib blocks)
  obtain inst blk where ib: "ib = (inst, blk)" by force
  from Cons.prems(1) obtain t1 n1 where b: "splice_block soc_top bmod graybox names (inst, blk) (t, n) = Inr (t1, n1)"
    and rest: "fold_res (splice_block soc_top bmod graybox names) blocks (t1, n1) = Inr (t', n')" by (auto simp: ib bind_res_eq_Inr)
  let ?bm = "block_of bmod (inst, blk)" and ?C = "t_cells t"
  let ?K = "kept graybox (block_cells ?bm)"
  note bm = splice_block_module [OF b]
  have w: "\<forall>(n, c) \<in> set (block_cells ?bm). yosys_cell c" "distinct (map fst (block_cells ?bm))"
    using Cons.prems(2) by (simp_all add: ib wf_block_def)
  have names: "spliced_names graybox bmod (ib # blocks) = map (\<lambda>(n, c). prefixed inst n) ?K @ spliced_names graybox bmod blocks"
    by (simp add: spliced_names_def ib)
  have free: "\<forall>(n, c) \<in> set ?K. prefixed inst n \<notin> fst ` set ?C"
    using Cons.prems(3) unfolding names by (auto simp: disjoint_iff)
  from splice_block_spec [OF b bm w free] obtain g added where g: "n \<le> n1" "good_remap (conns_at ?C inst) ?bm n n1 g"
    and t1: "t_cells t1 = filter (\<lambda>(i, c). i \<noteq> inst) ?C @ added" and an: "map fst added = map (\<lambda>(n, c). prefixed inst n) ?K"
    and sat: "\<And>beh st v. design_sat beh st v added \<longleftrightarrow> design_sat beh (\<lambda>n. st (prefixed inst n)) (\<lambda>b. v (g b)) ?K" by blast
  have inst: "inst \<notin> fst ` set blocks" using Cons.prems(4) by (simp add: ib)
  have all: "distinct (map fst ?C @ map fst added @ spliced_names graybox bmod blocks)" using Cons.prems(3) unfolding names an .
  have glue: "map_of (t_cells t1) i = map_of ?C i" if "i \<in> fst ` set blocks" for i
  proof -
    have "i \<in> fst ` set ?C" "i \<noteq> inst" using that Cons.prems(5) inst by (simp add: ib subset_iff, blast)
    moreover from this(1) have "i \<notin> set (map fst added)" using all by (auto simp: disjoint_iff)
    then have "map_of added i = None" by (simp add: map_of_eq_None_iff)
    ultimately show ?thesis by (simp add: t1 map_add_def map_of_filter_key split: option.split)
  qed
  have d1: "distinct (map fst (t_cells t1) @ spliced_names graybox bmod blocks)"
    using all unfolding t1 by (auto simp: distinct_map_filter)
  have s1: "fst ` set blocks \<subseteq> fst ` set (t_cells t1)" proof
    fix i assume "i \<in> fst ` set blocks"
    then have "map_of (t_cells t1) i \<noteq> None" using glue Cons.prems(5) by (auto simp: map_of_eq_None_iff)
    then show "i \<in> fst ` set (t_cells t1)" by (simp add: map_of_eq_None_iff)
  qed
  from Cons.IH [OF rest _ d1 _ s1] Cons.prems(2,4) obtain f where f: "n1 \<le> n'" "places (t_cells t1) bmod blocks n1 n' f"
    and satr: "\<And>beh st v. design_sat beh st v (t_cells t') \<longleftrightarrow> side_by_side beh st v graybox bmod f blocks (t_cells t1)" by auto
  have "places ?C bmod blocks n1 n' f" using f(2) places_cong [of blocks "t_cells t1" ?C] glue by (simp add: conns_at_def)
  then have pl: "places ?C bmod (ib # blocks) n n' (f(inst := g))" unfolding ib using g inst f(1) by (intro places_Cons)
  have "added = glue_only blocks added"
  proof -
    have "i \<notin> fst ` set blocks" if "(i, c) \<in> set added" for i c
    proof -
      have "i \<in> set (map fst added)" using that by force
      then have "i \<notin> fst ` set ?C" using all by auto
      then show ?thesis using Cons.prems(5) by auto
    qed
    then show ?thesis by (auto simp: glue_only_def intro!: filter_True [symmetric])
  qed
  then have gl: "glue_only blocks (t_cells t1) = glue_only (ib # blocks) ?C @ added"
    by (simp add: t1 glue_only_def ib case_prod_beta' conj_commute)
  have "side_by_side beh st v graybox bmod f blocks (t_cells t1) \<longleftrightarrow> side_by_side beh st v graybox bmod (f(inst := g)) (ib # blocks) ?C" for beh st v
    using inst by (auto simp: side_by_side_def gl design_sat_append sat ib)
  moreover have "n \<le> n'" using g(1) f(1) by simp
  ultimately show ?case using satr pl by blast
qed

section \<open>The glue\<close>

definition copied :: "string \<times> json \<Rightarrow> string \<times> json \<Rightarrow> bool" where
  "copied ic ic' = (fst ic' = fst ic \<and> type_of (snd ic') = type_of (snd ic) \<and> conns_of (snd ic') = conns_of (snd ic))"

lemma copied_sat: "list_all2 copied cells cells' \<Longrightarrow> design_sat beh st v cells' \<longleftrightarrow> design_sat beh st v cells"
proof (induction rule: list_all2_induct)
  case (Cons ic cells ic' cells')
  have "cell_sat beh st v (fst ic') (snd ic') = cell_sat beh st v (fst ic) (snd ic)"
    using Cons.hyps(1) by (intro cell_sat_cong) (auto simp: copied_def pin_vals_def)
  then show ?case using Cons.IH by (simp add: design_sat_def case_prod_beta')
qed (simp add: design_sat_def)

lemma copied_glue_only: "list_all2 copied cells cells' \<Longrightarrow> list_all2 copied (glue_only blocks cells) (glue_only blocks cells')"
proof (induction rule: list_all2_induct)
  case (Cons ic cells ic' cells')
  then have "fst ic' = fst ic" by (simp add: copied_def)
  with Cons show ?case by (simp add: glue_only_def case_prod_beta')
qed (simp add: glue_only_def)

lemma copied_conns: "list_all2 copied cells cells' \<Longrightarrow> conns_at cells' i = conns_at cells i"
  by (induction rule: list_all2_induct) (auto simp: conns_at_def copied_def)

lemma copied_names: "list_all2 copied cells cells' \<Longrightarrow> map fst cells' = map fst cells"
  by (induction rule: list_all2_induct) (auto simp: copied_def)

lemma copied_bits: "list_all2 copied cells cells' \<Longrightarrow> set (concat (map conn_bits_of (map snd cells))) \<subseteq> set (used_bits cells')"
proof (induction rule: list_all2_induct)
  case (Cons ic cells ic' cells')
  have "conn_bits_of (snd ic) = map snd (cell_sites (snd ic'))"
    using Cons.hyps(1) by (auto simp: copied_def conn_bits_of_def cell_sites_def conns_of_def map_concat comp_def case_prod_beta' split: option.splits)
  then show ?case using Cons.IH by (cases ic') (auto simp: used_bits_def)
qed simp

lemma entry_bits_net_json [simp]: "entry_bits (net_json (h, bits, a)) = List.map_filter as_int bits"
  by (simp add: entry_bits_def net_json_def get_or_def int_bits_def)

lemma concat_map_subset:
  assumes "list_all2 P xs ys" and "\<And>x y. P x y \<Longrightarrow> set (f x) \<subseteq> set (g y)"
  shows "set (concat (map f xs)) \<subseteq> set (concat (map g ys))"
  using assms(1)
proof (induction rule: list_all2_induct)
  case (Cons x xs y ys)
  show ?case using Cons.IH assms(2) [OF Cons.hyps(1)] by auto
qed simp

lemma copied_net_bits:
  assumes "deep_copy_net raw = Inr n"
  shows "set (bits_of raw) \<subseteq> set (entry_bits (net_json n))"
proof -
  obtain net bits h a where n: "as_obj raw = Some net" "py_tuple (get_or net ''bits'' (JList [])) = Inr bits" "n = (h, bits, a)"
    using assms by (auto simp: deep_copy_net_def lift_option_def bind_res_eq_Inr split: option.splits)
  have "int_bits (get_or net ''bits'' JNull) = [] \<or> get_or net ''bits'' JNull = JList bits"
    using n(2) by (auto simp: get_or_def int_bits_def py_tuple_def split: option.splits json.splits)
  moreover have "int_bits (JList bits) = List.map_filter as_int bits" by (simp add: int_bits_def)
  ultimately show ?thesis using n(1,3) by (auto simp: bits_of_def)
qed

lemma copy_glue_spec:
  assumes run: "copy_glue glue soc_top = Inr (attributes, t)" and cells: "as_obj (get_or glue ''cells'' JNull) = Some cells"
    and wf: "\<forall>(i, c) \<in> set cells. yosys_cell c" and bits: "module_bits glue = Inr gb"
  shows "list_all2 copied cells (t_cells t)" and "\<forall>b \<in> set gb. b < next_id_of_tables t"
proof -
  obtain ports nets where p: "as_obj (get_or glue ''ports'' (JObj [])) = Some ports" and n: "as_obj (get_or glue ''netnames'' (JObj [])) = Some nets"
    and cp: "list_all2 (\<lambda>x y. (case x of (k, v) \<Rightarrow> bind_res (dict_copy v) (\<lambda>d. Inr (k, JObj d))) = Inr y) ports (t_ports t)"
    and cc: "list_all2 (\<lambda>x y. (case x of (k, v) \<Rightarrow> bind_res (deep_copy_cell v) (\<lambda>c. Inr (k, cell_json c))) = Inr y) cells (t_cells t)"
    and cn: "list_all2 (\<lambda>x y. (case x of (k, v) \<Rightarrow> bind_res (deep_copy_net v) (\<lambda>n. Inr (k, net_json n))) = Inr y) nets (t_nets t)"
    using run unfolding copy_glue_def cells
    by (auto simp: bind_res_eq_Inr lift_option_def map_res_eq_Inr split: option.splits)
  show c: "list_all2 copied cells (t_cells t)"
    using cc
  proof (rule list.rel_mono_strong)
    fix x y assume xy: "x \<in> set cells" "(case x of (k, v) \<Rightarrow> bind_res (deep_copy_cell v) (\<lambda>c. Inr (k, cell_json c))) = Inr y"
    obtain k v where x: "x = (k, v)" by force
    with xy obtain c where "deep_copy_cell v = Inr c" "y = (k, cell_json c)" "yosys_cell v" using wf by (auto simp: bind_res_eq_Inr)
    then show "copied x y" using deep_copy_cell_spec [of v c] by (simp add: copied_def x)
  qed
  have port: "set (bits_of (snd x)) \<subseteq> set (entry_bits (snd y))" if "(case x of (k, v) \<Rightarrow> bind_res (dict_copy v) (\<lambda>d. Inr (k, JObj d))) = Inr y" for x y
    using that by (auto simp: dict_copy_def bits_of_def entry_bits_def bind_res_eq_Inr split: prod.splits option.splits if_splits)
  have net: "set (bits_of (snd x)) \<subseteq> set (entry_bits (snd y))" if "(case x of (k, v) \<Rightarrow> bind_res (deep_copy_net v) (\<lambda>n. Inr (k, net_json n))) = Inr y" for x y
  proof -
    obtain k v where x: "x = (k, v)" by force
    with that obtain n where "deep_copy_net v = Inr n" "y = (k, net_json n)" by (auto simp: bind_res_eq_Inr)
    then show ?thesis using copied_net_bits [of v n] by (simp add: x)
  qed
  have "set (concat (map bits_of (map snd ports))) \<subseteq> set (concat (map (entry_bits \<circ> snd) (t_ports t)))"
    "set (concat (map bits_of (map snd nets))) \<subseteq> set (concat (map (entry_bits \<circ> snd) (t_nets t)))"
    using concat_map_subset [OF cp, of "\<lambda>x. bits_of (snd x)" "\<lambda>x. entry_bits (snd x)", OF port]
      concat_map_subset [OF cn, of "\<lambda>x. bits_of (snd x)" "\<lambda>x. entry_bits (snd x)", OF net]
    by (simp_all add: comp_def)
  moreover have "as_obj (get_or glue ''cells'' (JObj [])) = Some cells" using cells by (auto simp: get_or_def split: option.splits)
  then have "gb = concat (map bits_of (map snd ports)) @ concat (map bits_of (map snd nets)) @ concat (map conn_bits_of (map snd cells))"
    using bits p n by (simp add: module_bits_def values_of_def)
  ultimately have "set gb \<subseteq> set (concat (map (entry_bits \<circ> snd) (t_ports t)) @ concat (map (entry_bits \<circ> snd) (t_nets t)) @ used_bits (t_cells t))"
    using copied_bits [OF c] by auto
  then have "b \<le> next_id_of_tables t - 1" if "b \<in> set gb" for b
    unfolding next_id_of_tables_def add_diff_cancel_right' using that by (intro fold_max_ge(1)) blast
  then show "\<forall>b \<in> set gb. b < next_id_of_tables t" by fastforce
qed

section \<open>Composition\<close>

text \<open>C37: composition joins the glue and the blocks and nothing else. The composed netlist has one module, whose consistent valuations are
  exactly those of the glue without the instances and of every block side by side, for a renumbering that sends a net on a connected
  port to a net the glue connects there, and gives the other nets of all blocks different numbers that the glue does not
  use. A graybox keeps the wrapper cells of a block only. The hypotheses: cells are as Yosys writes them, the
  instances are different cells of the glue, and no two cells get the same prefixed name.\<close>

theorem compose_soc_correct:
  assumes top: "find_top glue_json soc_top = Inr glue" "as_obj (get_or glue ''cells'' JNull) = Some cells" "module_bits glue = Inr gb"
    and run: "compose_soc glue_json soc_top blocks bmod graybox names = Inr soc"
    and wf: "\<forall>(i, c) \<in> set cells. yosys_cell c" "\<forall>ib \<in> set blocks. wf_block (block_of bmod ib)"
    and free: "distinct (map fst cells @ spliced_names graybox bmod blocks)" "distinct (map fst blocks)" "fst ` set blocks \<subseteq> fst ` set cells"
  shows "\<exists>module cells' f lo hi. top_module soc soc_top = Inr (soc_top, module) \<and> as_obj (get_or module ''cells'' (JObj [])) = Some cells' \<and>
    (\<forall>b \<in> set gb. b < lo) \<and> places cells bmod blocks lo hi f \<and>
    (\<forall>beh st v. design_sat beh st v cells' \<longleftrightarrow> side_by_side beh st v graybox bmod f blocks cells)"
proof -
  obtain attributes t t' hi where g: "copy_glue glue soc_top = Inr (attributes, t)"
    and f: "fold_res (splice_block soc_top bmod graybox names) blocks (t, next_id_of_tables t) = Inr (t', hi)"
    and soc: "soc = [(''creator'', get_or glue_json ''creator'' (JStr ''faultflow-assemble'')),
          (''modules'', JObj [(soc_top, JObj [(''attributes'', JObj attributes), (''ports'', JObj (t_ports t')),
             (''cells'', JObj (t_cells t')), (''netnames'', JObj (t_nets t'))])])]"
    using run by (auto simp: compose_soc_def compose_tables_def top bind_res_eq_Inr)
  note c = copy_glue_spec [OF g top(2) wf(1) top(3)]
  have names: "fst ` set (t_cells t) = fst ` set cells" using arg_cong [OF copied_names [OF c(1)], of set] by simp
  from splice_blocks_spec [OF f wf(2)] free names obtain fm where fm: "places (t_cells t) bmod blocks (next_id_of_tables t) hi fm"
    and sat: "\<And>beh st v. design_sat beh st v (t_cells t') \<longleftrightarrow> side_by_side beh st v graybox bmod fm blocks (t_cells t)"
    unfolding copied_names [OF c(1)] by auto
  have "places cells bmod blocks (next_id_of_tables t) hi fm" using fm places_cong [of blocks "t_cells t" cells] copied_conns [OF c(1)] by simp
  moreover have "side_by_side beh st v graybox bmod fm blocks (t_cells t) \<longleftrightarrow> side_by_side beh st v graybox bmod fm blocks cells" for beh st v
    using copied_sat [OF copied_glue_only [OF c(1)]] by (simp add: side_by_side_def)
  moreover have "top_module soc soc_top = Inr (soc_top, [(''attributes'', JObj attributes), (''ports'', JObj (t_ports t')),
      (''cells'', JObj (t_cells t')), (''netnames'', JObj (t_nets t'))])" by (simp add: soc top_module_def get_or_def)
  ultimately show ?thesis using c(2) sat by (fastforce simp: get_or_def)
qed

text \<open>An inverter in a block between two pads of the glue.\<close>

definition pad_cell :: "string \<Rightarrow> (string \<times> int) list \<Rightarrow> json" where
  "pad_cell ty pins = JObj [(''type'', JStr ty), (''connections'', JObj (map (\<lambda>(p, b). (p, JList [JInt b])) pins))]"

definition pad_cells :: jobj where
  "pad_cells = [(''p'', pad_cell ''PAD'' [(''X'', 2)]), (''u'', pad_cell ''core'' [(''i'', 2), (''o'', 3)])]"

definition pad_glue :: jobj where
  "pad_glue = [(''modules'', JObj [(''soc'', JObj [(''cells'', JObj pad_cells)])])]"

definition pad_block :: jobj where
  "pad_block = [(''modules'', JObj [(''core'', JObj [(''ports'', JObj [(''i'', JObj [(''bits'', JList [JInt 2])]), (''o'', JObj [(''bits'', JList [JInt 4])])]),
     (''cells'', JObj [(''g1'', pad_cell ''INV'' [(''A'', 2), (''Y'', 3)]), (''g2'', pad_cell ''INV'' [(''A'', 3), (''Y'', 4)])])])])]"

definition pad_soc :: "jobj res" where
  "pad_soc = compose_soc pad_glue ''soc'' [(''u'', pad_block)] [(''u'', ''core'')] False []"

theorem compose_soc_correct_witness:
  "\<exists>module cells' f lo hi. top_module (projr pad_soc) ''soc'' = Inr (''soc'', module) \<and> as_obj (get_or module ''cells'' (JObj [])) = Some cells' \<and>
    (\<forall>b \<in> set [2, 2, 3]. b < lo) \<and> places pad_cells [(''u'', ''core'')] [(''u'', pad_block)] lo hi f \<and>
    (\<forall>beh st v. design_sat beh st v cells' \<longleftrightarrow> side_by_side beh st v False [(''u'', ''core'')] f [(''u'', pad_block)] pad_cells)"
proof (rule compose_soc_correct)
  show "find_top pad_glue ''soc'' = Inr [(''cells'', JObj pad_cells)]" by code_simp
  show "as_obj (get_or [(''cells'', JObj pad_cells)] ''cells'' JNull) = Some pad_cells" by code_simp
  show "module_bits [(''cells'', JObj pad_cells)] = Inr [2, 2, 3]" by code_simp
  have "\<not> isl pad_soc" unfolding pad_soc_def by code_simp
  then show "compose_soc pad_glue ''soc'' [(''u'', pad_block)] [(''u'', ''core'')] False [] = Inr (projr pad_soc)" unfolding pad_soc_def by (rule sum.collapse(2) [symmetric])
  show "\<forall>(i, c) \<in> set pad_cells. yosys_cell c"
    by (auto simp: pad_cells_def pad_cell_def yosys_cell_def type_of_def conns_of_def get_or_def)
  show "\<forall>ib \<in> set [(''u'', pad_block)]. wf_block (block_of [(''u'', ''core'')] ib)"
    by (auto simp: pad_block_def pad_cell_def wf_block_def block_of_def block_module_of_def block_cells_def lift_option_def
        yosys_cell_def type_of_def conns_of_def get_or_def)
  show "distinct (map fst pad_cells @ spliced_names False [(''u'', ''core'')] [(''u'', pad_block)])" by code_simp
  show "fst ` set [(''u'', pad_block)] \<subseteq> fst ` set pad_cells" by (simp add: pad_cells_def)
qed simp

end
