(* ===== verification/Atpg_Schedule.thy ===== *)
theory Atpg_Schedule
  imports Py_Prelude "HOL-Library.Multiset"
begin

text \<open>
  The two schedules of \<^verbatim>\<open>faultflow/config.py\<close> that the test generation loops use: the escalating time limits of the solver, and the
  order in which a wave of faults is handed to the workers. The second is a pair of nested \<^verbatim>\<open>while\<close> loops over two indices
  that move towards each other; they are functions with a proof that they end.
\<close>

section \<open>Time limits\<close>

definition add_tier :: "string \<Rightarrow> int list \<Rightarrow> int list res" where
  "add_tier token tiers =
     (let tok = strip token
      in case parse_int tok of
           None \<Rightarrow> Inl (ConfigError (''sat_timeout_schedule entries must be integers, got '' @ repr_str tok))
         | Some seconds \<Rightarrow>
             if seconds < 1 then Inl (ConfigError (''sat_timeout_schedule entries must be >= 1 second, got '' @ show_int seconds))
             else if tiers \<noteq> [] \<and> seconds \<le> last tiers
             then Inl (ConfigError (''sat_timeout_schedule must be strictly increasing (smallest first): got '' @
                    show_int seconds @ '' after '' @ show_int (last tiers)))
             else Inr (tiers @ [seconds]))"

definition parse_timeout_schedule :: "string \<Rightarrow> int \<Rightarrow> int list res" where
  "parse_timeout_schedule v fallback =
     (let t = strip v in if t = [] then Inr [fallback] else fold_res add_tier (split_on CHR '','' t) [])"

lemma add_tiers_increasing:
  assumes "fold_res add_tier tokens tiers = Inr tiers'" and "sorted_wrt (<) tiers" "\<forall>s \<in> set tiers. 1 \<le> s"
  shows "sorted_wrt (<) tiers' \<and> (\<forall>s \<in> set tiers'. 1 \<le> s) \<and> length tiers' = length tiers + length tokens"
  using assms
proof (induction tokens arbitrary: tiers)
  case (Cons tok tokens)
  then obtain t where t: "add_tier tok tiers = Inr t" "fold_res add_tier tokens t = Inr tiers'" by (auto simp: bind_res_eq_Inr)
  then obtain s where s: "t = tiers @ [s]" "1 \<le> s" "tiers = [] \<or> last tiers < s"
    by (auto simp: add_tier_def Let_def split: option.splits if_splits)
  have "x < s" if "x \<in> set tiers" for x
    using s(3) that Cons.prems(2) by (cases tiers rule: rev_cases) (auto simp: sorted_wrt_append)
  then have "sorted_wrt (<) t" "\<forall>s \<in> set t. 1 \<le> s" using Cons.prems(2,3) s(1,2) by (auto simp: sorted_wrt_append)
  from Cons.IH [OF t(2) this] show ?case by (simp add: s(1))
qed simp

lemma split_on_nonempty: "split_on c xs \<noteq> []"
  by (induction c xs rule: split_on.induct) (auto split: list.splits)

lemma parse_timeout_schedule_tiers:
  assumes "parse_timeout_schedule v fallback = Inr tiers"
  shows "tiers = [fallback] \<or> sorted_wrt (<) tiers \<and> (\<forall>s \<in> set tiers. 1 \<le> s)" and "tiers \<noteq> []"
  using assms add_tiers_increasing [of "split_on CHR '','' (strip v)" "[]" tiers] split_on_nonempty [of "CHR '',''" "strip v"]
  by (auto simp: parse_timeout_schedule_def Let_def split: if_splits)

section \<open>Mixing easy and hard faults\<close>

function pull_front :: "'a list \<Rightarrow> int \<Rightarrow> int \<Rightarrow> int \<Rightarrow> 'a list \<Rightarrow> 'a list \<times> int" where
  "pull_front items limit front back chunk =
     (if int (length chunk) < limit \<and> front \<le> back then pull_front items limit (front + 1) back (chunk @ [items ! nat front])
      else (chunk, front))"
  by pat_completeness auto
termination by (relation "measure (\<lambda>(items, limit, front, back, chunk). nat (back - front + 1))") auto

function pull_back :: "'a list \<Rightarrow> int \<Rightarrow> int \<Rightarrow> int \<Rightarrow> 'a list \<Rightarrow> 'a list \<times> int" where
  "pull_back items limit front back chunk =
     (if int (length chunk) < limit \<and> back \<ge> front then pull_back items limit front (back - 1) (chunk @ [items ! nat back])
      else (chunk, back))"
  by pat_completeness auto
termination by (relation "measure (\<lambda>(items, limit, front, back, chunk). nat (back - front + 1))") auto

declare pull_front.simps [simp del] pull_back.simps [simp del]

lemma pull_front_moves: "0 < limit \<Longrightarrow> front \<le> back \<Longrightarrow> front < snd (pull_front items limit front back [])"
proof -
  have "f \<le> snd (pull_front items l f b chunk)" for l f b and chunk :: "'a list" and items
    by (induction items l f b chunk rule: pull_front.induct) (subst pull_front.simps, auto)
  from this [of "front + 1" items limit "back" "[items ! nat front]"]
  show "0 < limit \<Longrightarrow> front \<le> back \<Longrightarrow> front < snd (pull_front items limit front back [])" by (subst pull_front.simps) simp
qed

lemma pull_back_moves: "snd (pull_back items limit front back chunk) \<le> back"
  by (induction items limit front "back" chunk rule: pull_back.induct) (subst pull_back.simps, auto)

function interleave_loop :: "'a list \<Rightarrow> int \<Rightarrow> int \<Rightarrow> int \<Rightarrow> int \<Rightarrow> 'a list \<Rightarrow> 'a list" where
  "interleave_loop items easy_reserve hard_per_chunk front back result =
     (if front \<le> back \<and> 0 < easy_reserve then
        let easy = pull_front items easy_reserve front back []; hard = pull_back items hard_per_chunk (snd easy) back []
        in interleave_loop items easy_reserve hard_per_chunk (snd easy) (snd hard) (result @ fst easy @ fst hard)
      else result)"
  by pat_completeness auto
termination
proof (relation "measure (\<lambda>(items, easy, hard, front, back, result). nat (back - front + 1))")
  fix items :: "'a list" and e h f b :: int and result :: "'a list" and easy hard
  assume "f \<le> b \<and> 0 < e" and easy: "easy = pull_front items e f b []" and hard: "hard = pull_back items h (snd easy) b []"
  then have "f < snd easy" "snd hard \<le> b" using pull_front_moves [of e f b items] pull_back_moves by auto
  then show "((items, e, h, snd easy, snd hard, result @ fst easy @ fst hard), items, e, h, f, b, result)
      \<in> measure (\<lambda>(items, easy, hard, front, back, result). nat (back - front + 1))" using \<open>f \<le> b \<and> 0 < e\<close> by simp
qed simp

definition interleave_easy_hard :: "'a list \<Rightarrow> int \<Rightarrow> int \<Rightarrow> 'a list" where
  "interleave_easy_hard items workers easy_reserve =
     (if items = [] \<or> workers < 4 \<or> easy_reserve \<le> 0 \<or> easy_reserve \<ge> workers then items
      else interleave_loop items easy_reserve (workers - easy_reserve) 0 (int (length items) - 1) [])"

declare interleave_loop.simps [simp del]

section \<open>Each item once\<close>

definition seg :: "'a list \<Rightarrow> int \<Rightarrow> int \<Rightarrow> 'a list" where
  "seg items f b = take (nat (b - f + 1)) (drop (nat f) items)"

lemma seg_empty: "b < f \<Longrightarrow> seg items f b = []"
  by (simp add: seg_def)

lemma seg_front: "0 \<le> f \<Longrightarrow> f \<le> b \<Longrightarrow> b < int (length items) \<Longrightarrow> seg items f b = items ! nat f # seg items (f + 1) b"
proof -
  assume a: "0 \<le> f" "f \<le> b" "b < int (length items)"
  then have "drop (nat f) items = items ! nat f # drop (nat (f + 1)) items" by (simp add: Cons_nth_drop_Suc nat_add_distrib)
  moreover have "nat (b - f + 1) = Suc (nat (b - (f + 1) + 1))" using a by simp
  ultimately show ?thesis by (simp add: seg_def)
qed

lemma seg_back: "0 \<le> f \<Longrightarrow> f \<le> b \<Longrightarrow> b < int (length items) \<Longrightarrow> seg items f b = seg items f (b - 1) @ [items ! nat b]"
proof -
  assume a: "0 \<le> f" "f \<le> b" "b < int (length items)"
  then have n: "nat (b - f + 1) = Suc (nat (b - f))" "nat f + nat (b - f) = nat b" "nat (b - f) < length (drop (nat f) items)" by auto
  show ?thesis using take_Suc_conv_app_nth [OF n(3)] a by (simp add: seg_def n(1) n(2))
qed

lemma pull_front_seg:
  assumes "0 \<le> f" "b < int (length items)"
  shows "fst (pull_front items l f b chunk) = chunk @ take (nat (l - int (length chunk))) (seg items f b) \<and>
    seg items (snd (pull_front items l f b chunk)) b = drop (nat (l - int (length chunk))) (seg items f b) \<and> f \<le> snd (pull_front items l f b chunk)"
  using assms
proof (induction items l f b chunk rule: pull_front.induct)
  case (1 items l f b chunk)
  show ?case
  proof (cases "int (length chunk) < l \<and> f \<le> b")
    case True
    have n: "nat (l - int (length chunk)) = Suc (nat (l - int (length chunk) - 1))" using True by linarith
    show ?thesis using "1.IH" [OF True] "1.prems" True
      by (subst (1 2 3) pull_front.simps) (simp add: seg_front n algebra_simps)
  next
    case False
    then have "nat (l - int (length chunk)) = 0 \<or> seg items f b = []" by (auto simp: seg_empty)
    then show ?thesis using False by (subst (1 2 3) pull_front.simps) auto
  qed
qed

lemma pull_back_seg:
  assumes "0 \<le> f" "b < int (length items)"
  shows "fst (pull_back items l f b chunk) = chunk @ take (nat (l - int (length chunk))) (rev (seg items f b)) \<and>
    seg items f (snd (pull_back items l f b chunk)) = rev (drop (nat (l - int (length chunk))) (rev (seg items f b)))"
  using assms
proof (induction items l f b chunk rule: pull_back.induct)
  case (1 items l f b chunk)
  show ?case
  proof (cases "int (length chunk) < l \<and> f \<le> b")
    case True
    have n: "nat (l - int (length chunk)) = Suc (nat (l - int (length chunk) - 1))" using True by linarith
    show ?thesis using "1.IH" [OF True] "1.prems" True
      by (subst (1 2) pull_back.simps) (simp add: seg_back n algebra_simps)
  next
    case False
    then have "nat (l - int (length chunk)) = 0 \<or> seg items f b = []" by (auto simp: seg_empty)
    then show ?thesis using False by (subst (1 2) pull_back.simps) auto
  qed
qed

text \<open>What the loops compute: the first \<open>e\<close> items, the last \<open>h\<close> of the others from the end, and so on with what is left.\<close>

function mixed :: "nat \<Rightarrow> nat \<Rightarrow> 'a list \<Rightarrow> 'a list" where
  "mixed e h xs = (if xs = [] \<or> e = 0 then []
     else take e xs @ take h (rev (drop e xs)) @ mixed e h (rev (drop h (rev (drop e xs)))))"
  by pat_completeness auto
termination by (relation "measure (\<lambda>(e, h, xs). length xs)") auto

declare mixed.simps [simp del]

lemma mset_mixed: "0 < e \<Longrightarrow> mset (mixed e h xs) = mset xs"
proof (induction e h xs rule: mixed.induct)
  case (1 e h xs)
  show ?case
  proof (cases "xs = []")
    case False
    have "mset (take h (rev (drop e xs))) + mset (drop h (rev (drop e xs))) = mset (drop e xs)"
      by (metis append_take_drop_id mset_append mset_rev)
    moreover have "mset (take e xs) + mset (drop e xs) = mset xs" by (metis append_take_drop_id mset_append)
    ultimately show ?thesis using 1 False by (subst mixed.simps) (simp add: union_assoc [symmetric])
  qed (simp add: mixed.simps)
qed

lemma interleave_loop_mixed:
  assumes "0 \<le> f" "b < int (length items)" "0 < e" "0 \<le> h"
  shows "interleave_loop items e h f b result = result @ mixed (nat e) (nat h) (seg items f b)"
  using assms
proof (induction items e h f b result rule: interleave_loop.induct)
  case (1 items e h f b result)
  show ?case
  proof (cases "f \<le> b")
    case True
    let ?x = "pull_front items e f b []" and ?xs = "seg items f b"
    let ?y = "pull_back items h (snd ?x) b []"
    have x: "fst ?x = take (nat e) ?xs" "seg items (snd ?x) b = drop (nat e) ?xs" "f \<le> snd ?x" using pull_front_seg [OF "1.prems"(1,2), of e "[]"] by simp_all
    have f': "0 \<le> snd ?x" using x(3) "1.prems"(1) by simp
    have y: "fst ?y = take (nat h) (rev (drop (nat e) ?xs))" "seg items (snd ?x) (snd ?y) = rev (drop (nat h) (rev (drop (nat e) ?xs)))"
      using pull_back_seg [OF f' "1.prems"(2), of h "[]"] by (simp_all add: x(2))
    have b': "snd ?y < int (length items)" using pull_back_moves [of items h "snd ?x" b "[]"] "1.prems"(2) by simp
    have "interleave_loop items e h f b result = interleave_loop items e h (snd ?x) (snd ?y) (result @ fst ?x @ fst ?y)"
      using True "1.prems"(3) by (subst interleave_loop.simps) (simp add: Let_def)
    also have "\<dots> = (result @ fst ?x @ fst ?y) @ mixed (nat e) (nat h) (seg items (snd ?x) (snd ?y))"
      using "1.IH" [OF _ refl refl f' b' "1.prems"(3,4)] True "1.prems"(3) by simp
    also have "\<dots> = result @ mixed (nat e) (nat h) ?xs"
      using True "1.prems" by (subst (2) mixed.simps) (simp add: x(1) y seg_front)
    finally show ?thesis .
  next
    case False
    then show ?thesis by (subst interleave_loop.simps) (simp add: seg_empty mixed.simps)
  qed
qed


end
