(* ===== verification/Atpg_Loop.thy ===== *)
theory Atpg_Loop
  imports Complex_Main Candidates Compaction Atpg_Schedule
begin

text \<open>
  The test generation loops of \<^verbatim>\<open>faultflow/runner/progressive_atpg.py\<close>: \<open>run_progressive_native_atpg\<close> for stuck-at faults and
  \<open>run_progressive_transition_atpg\<close> for transition faults, whose tests are pairs of vectors. A run grades random tests, then
  asks the solver for a test of each fault that is left, round after round, in waves when there are several workers.

  The solver, the simulators and the random generator of the core are parameters. The solver may time out, so its answer may
  depend on the number of the call; the answer to a fault that is not active is an exception, as in the core. The database calls of
  the core are modelled from \<^verbatim>\<open>sqlite_store.cpp\<close> and \<^verbatim>\<open>progressive_atpg.cpp\<close>. The schema is current. Percentages are exact. Times, log lines and
  the callback for accepted vectors are left out, and so is the branch that hands a scan campaign to \<^verbatim>\<open>scan/detection_pipeline.py\<close>.
\<close>

section \<open>The core\<close>

datatype 'v solved = SAT 'v | UNSAT | TIMEOUT | UNKNOWN

text \<open>What happens to a wave: all answers, the first few and an exception, or a dead worker.\<close>

datatype wave_event = Wave_Done | Wave_Error nat | Wave_Broken

record atpg_core =
  co_faults :: "fault_row list"
  co_random :: "string list \<Rightarrow> int \<Rightarrow> vec list"
  co_random_pairs :: "string list \<Rightarrow> int \<Rightarrow> (vec \<times> vec) list"
  co_solve :: "nat \<Rightarrow> int \<Rightarrow> string list \<Rightarrow> int \<Rightarrow> vec solved"
  co_solve_pair :: "nat \<Rightarrow> int \<Rightarrow> string list \<Rightarrow> int \<Rightarrow> (vec \<times> vec) solved"
  co_golden :: "vec \<Rightarrow> int \<Rightarrow> string \<Rightarrow> bool"
  co_golden_pair :: "vec \<times> vec \<Rightarrow> int \<Rightarrow> string \<Rightarrow> bool"
  co_lane :: "vec \<Rightarrow> int \<Rightarrow> string \<Rightarrow> bool"
  co_lane_pair :: "vec \<times> vec \<Rightarrow> int \<Rightarrow> string \<Rightarrow> bool"
  co_cone_sizes :: "(int \<times> int) list \<Rightarrow> (int \<times> int) list"
  co_pool :: bool
  co_wave :: "nat \<Rightarrow> wave_event"

text \<open>The part of the configuration the loops read.\<close>

record atpg_cfg =
  cf_max_rounds :: int
  cf_threshold :: rat
  cf_random_vectors :: int
  cf_random_stop :: rat
  cf_random_only :: bool
  cf_fault_drop_sat :: bool
  cf_order_by_cone_size :: bool
  cf_workers :: int
  cf_easy_reserve :: int
  cf_timeout_schedule :: string
  cf_timeout_seconds :: int

record PreflightData =
  fanout_yosys_ids :: "int list"
  redundant_stem_ids :: "int list"

section \<open>Patterns\<close>

definition pattern_key :: "vec \<Rightarrow> string list \<Rightarrow> string" where
  "pattern_key vector order =
     (let extra = sorted_set (filter (\<lambda>name. name \<notin> set order) (map fst vector))
      in map (\<lambda>name. if get_or vector name False then CHR ''1'' else CHR ''0'') (order @ extra))"

definition transition_pattern_key :: "vec \<times> vec \<Rightarrow> string list \<Rightarrow> string" where
  "transition_pattern_key lc order = pattern_key (fst lc) order @ pattern_key (snd lc) order"

text \<open>\<^verbatim>\<open>vector_from_map\<close>: an input without a value is 0, and other keys are applied as they are.\<close>

definition vector_from_map :: "string list \<Rightarrow> vec \<Rightarrow> vec" where
  "vector_from_map order vector =
     map (\<lambda>name. (name, get_or vector name False)) order @ filter (\<lambda>(name, b). name \<notin> set order) vector"

text \<open>What the two loops do differently with a test.\<close>

record 'v test_ops =
  op_key :: "'v \<Rightarrow> string"
  op_pattern :: "'v \<Rightarrow> string"
  op_launch :: "'v \<Rightarrow> string list"
  op_solve :: "nat \<Rightarrow> int \<Rightarrow> string list \<Rightarrow> int \<Rightarrow> 'v solved"
  op_verify :: "'v \<Rightarrow> int \<Rightarrow> string \<Rightarrow> bool"
  op_detects :: "'v \<Rightarrow> int \<Rightarrow> string \<Rightarrow> bool"

definition native_ops :: "atpg_core \<Rightarrow> string list \<Rightarrow> vec test_ops" where
  "native_ops core order = \<lparr>op_key = (\<lambda>v. pattern_key v order), op_pattern = (\<lambda>v. pattern_key v order), op_launch = (\<lambda>v. []),
     op_solve = co_solve core, op_verify = co_golden core, op_detects = (\<lambda>v. co_lane core (vector_from_map order v))\<rparr>"

definition transition_ops :: "atpg_core \<Rightarrow> string list \<Rightarrow> (vec \<times> vec) test_ops" where
  "transition_ops core order = \<lparr>op_key = (\<lambda>lc. transition_pattern_key lc order), op_pattern = (\<lambda>lc. pattern_key (snd lc) order),
     op_launch = (\<lambda>lc. [pattern_key (fst lc) order]), op_solve = co_solve_pair core, op_verify = co_golden_pair core,
     op_detects = (\<lambda>lc. co_lane_pair core (vector_from_map order (fst lc), vector_from_map order (snd lc)))\<rparr>"

section \<open>Queries\<close>

definition active_fault :: "int \<Rightarrow> fault_row \<Rightarrow> bool" where
  "active_fault campaign_id f = (f_campaign_id f = campaign_id \<and> f_status f = ''undetected'' \<and> f_exclusion f = ''none'' \<and>
     f_collapsed_into f = None \<and> f_protocol_unresolved f = 0)"

definition net_index :: "fault_row \<Rightarrow> int" where
  "net_index f = (case f_atpg_compiled_net_index f of Some n \<Rightarrow> n | None \<Rightarrow> f_compiled_net_index f)"

definition active_fault_rows :: "campaign_db \<Rightarrow> int \<Rightarrow> fault_row list" where
  "active_fault_rows db campaign_id = sort_key f_id (filter (active_fault campaign_id) (faults db))"

definition fault_counts :: "campaign_db \<Rightarrow> int \<Rightarrow> int \<times> int" where
  "fault_counts db campaign_id =
     (let rows = filter (\<lambda>f. f_campaign_id f = campaign_id) (faults db)
      in (count_if (\<lambda>f. f_status f = ''detected'' \<and> eligible_fault f) rows, count_if (\<lambda>f. f_status f = ''redundant'' \<and> eligible_fault f) rows))"

definition live_detected :: "campaign_db \<Rightarrow> int \<Rightarrow> int" where
  "live_detected db campaign_id = fst (fault_counts db campaign_id)"

definition coverage_denominator :: "campaign_db \<Rightarrow> int \<Rightarrow> int" where
  "coverage_denominator db campaign_id = count_if (\<lambda>f. f_campaign_id f = campaign_id \<and> eligible_fault f) (faults db)"

definition random_stop_reached :: "campaign_db \<Rightarrow> int \<Rightarrow> int \<Rightarrow> rat \<Rightarrow> bool" where
  "random_stop_reached db campaign_id denom threshold =
     (if threshold \<le> 0 \<or> denom \<le> 0 then False
      else 100 * of_int (live_detected db campaign_id) / of_int denom \<ge> threshold)"

section \<open>Database calls of the core\<close>

definition load_fault_row :: "campaign_db \<Rightarrow> int \<Rightarrow> fault_row res" where
  "load_fault_row db fault_id =
     lift_option (RuntimeError (''fault not found: '' @ show_int fault_id)) (find (\<lambda>f. f_id f = fault_id) (faults db))"

definition gradable :: "bool \<Rightarrow> fault_row \<Rightarrow> bool" where
  "gradable skip_protocol_unresolved f = (f_exclusion f = ''none'' \<and> f_collapsed_into f = None \<and> f_status f = ''undetected'' \<and>
     \<not> (skip_protocol_unresolved \<and> f_protocol_unresolved f \<noteq> 0))"

definition load_active_fault_records :: "campaign_db \<Rightarrow> int list \<Rightarrow> bool \<Rightarrow> fault_row list res" where
  "load_active_fault_records db fault_ids skip =
     bind_res (map_res (load_fault_row db) fault_ids) (\<lambda>rows. Inr (filter (gradable skip) rows))"

definition detect_fault :: "int \<Rightarrow> int \<Rightarrow> campaign_db \<Rightarrow> campaign_db" where
  "detect_fault vector_index fault_id db = db\<lparr>faults := map (\<lambda>f. if f_id f = fault_id \<and> f_status f = ''undetected''
     then f\<lparr>f_status := ''detected'', f_detected_by_vector := Some vector_index, f_protocol_unresolved := 0\<rparr> else f) (faults db)\<rparr>"

definition mark_one_detected :: "int \<Rightarrow> int \<Rightarrow> int \<Rightarrow> int \<Rightarrow> campaign_db \<Rightarrow> campaign_db res" where
  "mark_one_detected campaign_id run_id vector_index fault_id db =
     (case insert_detection campaign_id run_id vector_index fault_id (detect_fault vector_index fault_id db) of
        (Inl e, db') \<Rightarrow> Inl e | (Inr _, db') \<Rightarrow> Inr db')"

definition mark_faults_detected :: "int \<Rightarrow> int \<Rightarrow> int \<Rightarrow> int list \<Rightarrow> campaign_db \<Rightarrow> campaign_db res" where
  "mark_faults_detected campaign_id run_id vector_index fault_ids = fold_res (mark_one_detected campaign_id run_id vector_index) fault_ids"

definition mark_fault_redundant :: "int \<Rightarrow> string \<Rightarrow> campaign_db \<Rightarrow> campaign_db" where
  "mark_fault_redundant fault_id model_id db = db\<lparr>faults := map (\<lambda>f. if f_id f = fault_id \<and> f_status f = ''undetected''
     then f\<lparr>f_status := ''redundant'', f_redundancy_model_id := Some model_id, f_detected_by_vector := None\<rparr> else f) (faults db)\<rparr>"

definition invalidate_stale_redundant :: "int \<Rightarrow> string \<Rightarrow> campaign_db \<Rightarrow> campaign_db" where
  "invalidate_stale_redundant campaign_id model_id db = db\<lparr>faults := map (\<lambda>f.
     if f_campaign_id f = campaign_id \<and> f_status f = ''redundant'' \<and> f_redundancy_model_id f \<noteq> Some model_id
     then f\<lparr>f_status := ''undetected'', f_redundancy_model_id := None\<rparr> else f) (faults db)\<rparr>"

definition update_run_vector_count :: "int \<Rightarrow> int \<Rightarrow> campaign_db \<Rightarrow> campaign_db" where
  "update_run_vector_count run_id n db = db\<lparr>runs := map (\<lambda>r. if r_id r = run_id then r\<lparr>r_vector_count := n\<rparr> else r) (runs db)\<rparr>"

definition ensure_faults_enumerated :: "atpg_core \<Rightarrow> int \<Rightarrow> campaign_db \<Rightarrow> campaign_db" where
  "ensure_faults_enumerated core campaign_id db =
     (if list_ex (\<lambda>f. f_campaign_id f = campaign_id) (faults db) then db else db\<lparr>faults := faults db @ co_faults core\<rparr>)"

text \<open>\<^verbatim>\<open>simulate_incremental\<close> with the one test the loops pass.\<close>

definition simulate_incremental ::
  "'v test_ops \<Rightarrow> int \<Rightarrow> int \<Rightarrow> 'v \<Rightarrow> int list \<Rightarrow> int \<Rightarrow> campaign_db \<Rightarrow> (campaign_db \<times> int list) res" where
  "simulate_incremental ops campaign_id run_id test fault_ids vector_index db =
     (if fault_ids = [] then Inr (db, [])
      else bind_res (load_active_fault_records db fault_ids False) (\<lambda>active.
        let det = map f_id (filter (\<lambda>f. op_detects ops test (net_index f) (f_fault_type f)) active)
        in bind_res (mark_faults_detected campaign_id run_id vector_index det db) (\<lambda>db'. Inr (db', det))))"

text \<open>\<^verbatim>\<open>solve_fault_for_db\<close>.\<close>

definition solve_fault :: "'v test_ops \<Rightarrow> nat \<Rightarrow> campaign_db \<Rightarrow> int \<Rightarrow> string list \<Rightarrow> int \<Rightarrow> 'v solved res" where
  "solve_fault ops call db fault_id blocked_patterns timeout =
     bind_res (load_fault_row db fault_id) (\<lambda>f.
       if \<not> gradable False f then Inl (RuntimeError ''fault is not active for SAT ATPG'')
       else Inr (op_solve ops call fault_id blocked_patterns timeout))"

text \<open>\<^verbatim>\<open>solve_fault_worker\<close>: an exception in a worker counts as unknown.\<close>

definition solve_fault_worker :: "'v test_ops \<Rightarrow> nat \<Rightarrow> campaign_db \<Rightarrow> int \<Rightarrow> string list \<Rightarrow> int \<Rightarrow> 'v solved" where
  "solve_fault_worker ops call db fault_id blocked_patterns timeout =
     (case solve_fault ops call db fault_id blocked_patterns timeout of Inl e \<Rightarrow> UNKNOWN | Inr r \<Rightarrow> r)"

section \<open>The state of a run\<close>

record AtpgStats =
  st_rounds :: int
  st_sat :: int
  st_unsat :: int
  st_timeout :: int
  st_unknown :: int
  st_rejected_candidates :: int
  st_generated_vectors :: int
  st_accepted_vectors :: int
  st_no_progress :: int

text \<open>\<open>ls_outcomes\<close> and \<open>ls_stems\<close> are the side tables of the reason report; \<open>ls_calls\<close> and \<open>ls_waves\<close> count the questions to the solver.\<close>

record 'v loop_state =
  ls_db :: campaign_db
  ls_outcomes :: "((int \<times> int) \<times> string \<times> int) list"
  ls_stems :: "(int \<times> int) list"
  ls_vectors :: "'v list"
  ls_seen :: "string list"
  ls_rejected :: "(int \<times> string list) list"
  ls_timeouts :: "(int \<times> int) list"
  ls_stats :: AtpgStats
  ls_calls :: nat
  ls_waves :: nat

record 'v round_state =
  rd_loop :: "'v loop_state"
  rd_remaining :: "int list"
  rd_results :: "(int \<times> 'v solved) list"
  rd_wave_pos :: nat
  rd_outcomes :: "string list"
  rd_sat_outcomes :: "(int \<times> string) list"

text \<open>What is fixed during a run. \<open>cx_dispatch\<close> orders a wave.\<close>

record run_ctx =
  cx_campaign :: int
  cx_run :: int
  cx_source :: string
  cx_model :: string
  cx_tiers :: "int list"
  cx_drop :: bool
  cx_parallel :: bool
  cx_wave_size :: nat
  cx_dispatch :: "int list \<Rightarrow> int list"
  cx_wave :: "nat \<Rightarrow> wave_event"
  cx_broken :: string

definition on_stats :: "(AtpgStats \<Rightarrow> AtpgStats) \<Rightarrow> 'v loop_state \<Rightarrow> 'v loop_state" where
  "on_stats f s = s\<lparr>ls_stats := f (ls_stats s)\<rparr>"

definition on_loop :: "('v loop_state \<Rightarrow> 'v loop_state) \<Rightarrow> 'v round_state \<Rightarrow> 'v round_state" where
  "on_loop f rs = rs\<lparr>rd_loop := f (rd_loop rs)\<rparr>"

section \<open>One test\<close>

definition append_unique :: "'v test_ops \<Rightarrow> 'v list \<Rightarrow> 'v list \<times> string list \<times> 'v list \<Rightarrow> 'v list \<times> string list \<times> 'v list" where
  "append_unique ops batch =
     fold (\<lambda>test (vs, seen, accepted). if op_key ops test \<in> set seen then (vs, seen, accepted)
       else (vs @ [test], op_key ops test # seen, accepted @ [test])) batch"

definition accept_and_simulate ::
  "'v test_ops \<Rightarrow> run_ctx \<Rightarrow> 'v \<Rightarrow> int list \<Rightarrow> int \<Rightarrow> campaign_db \<Rightarrow> (campaign_db \<times> int list) res" where
  "accept_and_simulate ops cx test fault_ids vector_index db =
     bind_res (append_vectors db (cx_campaign cx) (cx_run cx) (cx_source cx) [op_pattern ops test] vector_index (op_launch ops test)) (\<lambda>db1.
     bind_res (simulate_incremental ops (cx_campaign cx) (cx_run cx) test fault_ids vector_index db1) (\<lambda>(db2, det).
     Inr (update_run_vector_count (cx_run cx) vector_index db2, det)))"

definition precertify_redundant :: "int list \<Rightarrow> string \<Rightarrow> campaign_db \<Rightarrow> campaign_db" where
  "precertify_redundant fault_ids model_id db = db\<lparr>faults := map (\<lambda>f.
     if f_id f \<in> set fault_ids \<and> f_status f = ''undetected'' \<and> f_exclusion f = ''none'' \<and> f_collapsed_into f = None
     then f\<lparr>f_status := ''redundant'', f_redundancy_model_id := Some model_id, f_detected_by_vector := None\<rparr> else f) (faults db)\<rparr>"

definition should_stall :: "int \<times> int \<Rightarrow> int \<times> int \<Rightarrow> string list \<Rightarrow> bool" where
  "should_stall counts prev_counts round_outcomes =
     (if counts \<noteq> prev_counts then False
      else round_outcomes = [] \<or> list_all (\<lambda>oc. oc \<in> {''TIMEOUT'', ''UNKNOWN''}) round_outcomes)"

definition escalation_headroom :: "int list \<Rightarrow> (int \<times> int) list \<Rightarrow> int list \<Rightarrow> bool" where
  "escalation_headroom active_ids timeouts tiers =
     list_ex (\<lambda>fault_id. 0 < get_or timeouts fault_id 0 \<and> get_or timeouts fault_id 0 < int (length tiers)) active_ids"

definition tier_timeout :: "run_ctx \<Rightarrow> 'v loop_state \<Rightarrow> int \<Rightarrow> int" where
  "tier_timeout cx s fault_id = cx_tiers cx ! nat (min (get_or (ls_timeouts s) fault_id 0) (int (length (cx_tiers cx)) - 1))"

definition blocked_for :: "'v loop_state \<Rightarrow> int \<Rightarrow> string list" where
  "blocked_for s fault_id = sorted_set (get_or (ls_rejected s) fault_id [])"

section \<open>Waves\<close>

text \<open>Take the next faults that are still wanted.\<close>

fun build_wave :: "(int \<Rightarrow> bool) \<Rightarrow> nat \<Rightarrow> int list \<Rightarrow> nat \<Rightarrow> int list \<times> nat" where
  "build_wave wanted n [] pos = ([], pos)"
| "build_wave wanted 0 (x # xs) pos = ([], pos)"
| "build_wave wanted (Suc n) (x # xs) pos =
     (if wanted x then (case build_wave wanted n xs (pos + 1) of (ws, p) \<Rightarrow> (x # ws, p)) else build_wave wanted (Suc n) xs (pos + 1))"

definition wave_answers :: "'v test_ops \<Rightarrow> run_ctx \<Rightarrow> 'v loop_state \<Rightarrow> int list \<Rightarrow> (int \<times> 'v solved) list" where
  "wave_answers ops cx s ids =
     map (\<lambda>(i, fid). (fid, solve_fault_worker ops (ls_calls s + i) (ls_db s) fid (blocked_for s fid) (tier_timeout cx s fid))) (List.enumerate 0 ids)"

definition run_wave :: "'v test_ops \<Rightarrow> run_ctx \<Rightarrow> int list \<Rightarrow> 'v round_state \<Rightarrow> 'v round_state res" where
  "run_wave ops cx active_ids rs =
     (let s = rd_loop rs;
          (wave, pos) = build_wave (\<lambda>fid. \<not> cx_drop cx \<or> fid \<in> set (rd_remaining rs)) (cx_wave_size cx)
             (drop (rd_wave_pos rs) active_ids) (rd_wave_pos rs);
          ids = cx_dispatch cx wave;
          answers = wave_answers ops cx s ids;
          done = (\<lambda>as. Inr (rs\<lparr>rd_wave_pos := pos, rd_results := dict_update (rd_results rs) as,
             rd_loop := s\<lparr>ls_calls := ls_calls s + length ids, ls_waves := ls_waves s + 1\<rparr>\<rparr>))
      in if wave = [] then Inr (rs\<lparr>rd_wave_pos := pos\<rparr>)
         else case cx_wave cx (ls_waves s) of
           Wave_Done \<Rightarrow> done answers
         | Wave_Error k \<Rightarrow> done (take k answers)
         | Wave_Broken \<Rightarrow> Inl (RunnerError (cx_broken cx)))"

section \<open>One fault\<close>

definition reject :: "int \<Rightarrow> string \<Rightarrow> 'v round_state \<Rightarrow> 'v round_state" where
  "reject fault_id key rs = rs\<lparr>rd_outcomes := rd_outcomes rs @ [''protocol_no_progress''],
     rd_loop := (rd_loop rs)\<lparr>ls_rejected := dict_set (ls_rejected (rd_loop rs)) fault_id (List.insert key (get_or (ls_rejected (rd_loop rs)) fault_id [])),
       ls_stats := (ls_stats (rd_loop rs))\<lparr>st_no_progress := st_no_progress (ls_stats (rd_loop rs)) + 1\<rparr>\<rparr>\<rparr>"

definition accept :: "'v test_ops \<Rightarrow> run_ctx \<Rightarrow> int \<Rightarrow> 'v \<Rightarrow> 'v round_state \<Rightarrow> 'v round_state res" where
  "accept ops cx fault_id test rs =
     (let s = rd_loop rs; vs = ls_vectors s @ [test]
      in bind_res (accept_and_simulate ops cx test (if cx_drop cx then sort (rd_remaining rs) else [fault_id]) (int (length vs)) (ls_db s)) (\<lambda>(db, newly).
         Inr (rs\<lparr>rd_outcomes := rd_outcomes rs @ [''SAT''],
           rd_remaining := (if cx_drop cx then filter (\<lambda>fid. fid \<notin> set newly) (rd_remaining rs) else rd_remaining rs),
           rd_loop := s\<lparr>ls_db := db, ls_vectors := vs, ls_seen := op_key ops test # ls_seen s,
             ls_stats := (ls_stats s)\<lparr>st_accepted_vectors := st_accepted_vectors (ls_stats s) + 1\<rparr>\<rparr>\<rparr>)))"

definition timed_out :: "int \<Rightarrow> string \<Rightarrow> string \<Rightarrow> 'v round_state \<Rightarrow> 'v round_state" where
  "timed_out fault_id upper lower rs = rs\<lparr>rd_outcomes := rd_outcomes rs @ [upper],
     rd_sat_outcomes := dict_set (rd_sat_outcomes rs) fault_id lower,
     rd_loop := (rd_loop rs)\<lparr>ls_timeouts := dict_set (ls_timeouts (rd_loop rs)) fault_id (get_or (ls_timeouts (rd_loop rs)) fault_id 0 + 1)\<rparr>\<rparr>"

definition handle_result :: "'v test_ops \<Rightarrow> run_ctx \<Rightarrow> int \<Rightarrow> 'v solved \<Rightarrow> 'v round_state \<Rightarrow> 'v round_state res" where
  "handle_result ops cx fault_id result rs =
     (case result of
        SAT test \<Rightarrow>
          (let rs1 = on_loop (on_stats (\<lambda>st. st\<lparr>st_sat := st_sat st + 1, st_generated_vectors := st_generated_vectors st + 1\<rparr>)) rs
           in if op_key ops test \<in> set (ls_seen (rd_loop rs)) then Inr (reject fault_id (op_key ops test) rs1)
              else bind_res (load_fault_row (ls_db (rd_loop rs)) fault_id) (\<lambda>f.
                if op_verify ops test (net_index f) (f_fault_type f) then accept ops cx fault_id test rs1
                else Inr (reject fault_id (op_key ops test) (on_loop (on_stats (\<lambda>st.
                       st\<lparr>st_rejected_candidates := st_rejected_candidates st + 1\<rparr>)) rs1))))
      | UNSAT \<Rightarrow> Inr (on_loop (\<lambda>s. on_stats (\<lambda>st. st\<lparr>st_unsat := st_unsat st + 1\<rparr>)
                    (s\<lparr>ls_db := mark_fault_redundant fault_id (cx_model cx) (ls_db s)\<rparr>)) rs)
      | TIMEOUT \<Rightarrow> Inr (timed_out fault_id ''TIMEOUT'' ''timeout'' (on_loop (on_stats (\<lambda>st. st\<lparr>st_timeout := st_timeout st + 1\<rparr>)) rs))
      | UNKNOWN \<Rightarrow> Inr (timed_out fault_id ''UNKNOWN'' ''unknown'' (on_loop (on_stats (\<lambda>st. st\<lparr>st_unknown := st_unknown st + 1\<rparr>)) rs)))"

definition next_answer :: "'v test_ops \<Rightarrow> run_ctx \<Rightarrow> int \<Rightarrow> 'v round_state \<Rightarrow> ('v solved \<times> 'v round_state) res" where
  "next_answer ops cx fault_id rs =
     (if rd_results rs \<noteq> [] then
        Inr (get_or (rd_results rs) fault_id UNKNOWN, rs\<lparr>rd_results := dict_pop (rd_results rs) fault_id\<rparr>)
      else bind_res (solve_fault ops (ls_calls (rd_loop rs)) (ls_db (rd_loop rs)) fault_id (blocked_for (rd_loop rs) fault_id)
             (tier_timeout cx (rd_loop rs) fault_id)) (\<lambda>r.
           Inr (r, on_loop (\<lambda>s. s\<lparr>ls_calls := ls_calls s + 1\<rparr>) rs)))"

definition fault_step :: "'v test_ops \<Rightarrow> run_ctx \<Rightarrow> int list \<Rightarrow> int \<Rightarrow> 'v round_state \<Rightarrow> 'v round_state res" where
  "fault_step ops cx active_ids fault_id rs =
     (if cx_drop cx \<and> fault_id \<notin> set (rd_remaining rs) then Inr rs
      else bind_res (if cx_parallel cx \<and> \<not> has_key (rd_results rs) fault_id then run_wave ops cx active_ids rs else Inr rs) (\<lambda>rs1.
           bind_res (next_answer ops cx fault_id rs1) (\<lambda>(result, rs2). handle_result ops cx fault_id result rs2)))"

definition solve_round :: "'v test_ops \<Rightarrow> run_ctx \<Rightarrow> int list \<Rightarrow> 'v loop_state \<Rightarrow> 'v round_state res" where
  "solve_round ops cx active_ids s =
     fold_res (fault_step ops cx active_ids) active_ids
       \<lparr>rd_loop = s, rd_remaining = active_ids, rd_results = [], rd_wave_pos = 0, rd_outcomes = [], rd_sat_outcomes = []\<rparr>"

definition record_sat_outcomes :: "int \<Rightarrow> (int \<times> string) list \<Rightarrow> int \<Rightarrow> ((int \<times> int) \<times> string \<times> int) list \<Rightarrow> ((int \<times> int) \<times> string \<times> int) list" where
  "record_sat_outcomes campaign_id outcomes round_idx table =
     fold (\<lambda>(fid, oc) t. dict_set t (campaign_id, fid) (oc, round_idx)) outcomes table"

definition record_reconvergent_stems :: "int \<Rightarrow> int list \<Rightarrow> (int \<times> int) list \<Rightarrow> (int \<times> int) list" where
  "record_reconvergent_stems campaign_id yosys_ids table = fold (\<lambda>nid. List.insert (campaign_id, nid)) yosys_ids table"

section \<open>The random phase\<close>

fun grade_random ::
  "'v test_ops \<Rightarrow> run_ctx \<Rightarrow> (campaign_db \<Rightarrow> bool) \<Rightarrow> int list \<Rightarrow> int \<Rightarrow> 'v list \<Rightarrow> nat \<Rightarrow> campaign_db \<Rightarrow> (campaign_db \<times> nat) res" where
  "grade_random ops cx stop active_ids idx [] graded db = Inr (db, graded)"
| "grade_random ops cx stop active_ids idx (test # tests) graded db =
     bind_res (accept_and_simulate ops cx test active_ids idx db) (\<lambda>(db', newly).
       if stop db' then Inr (db', graded + 1) else grade_random ops cx stop active_ids (idx + 1) tests (graded + 1) db')"

text \<open>Tests that were not graded are given back.\<close>

definition random_phase ::
  "'v test_ops \<Rightarrow> run_ctx \<Rightarrow> (int \<Rightarrow> campaign_db \<Rightarrow> bool) \<Rightarrow> 'v list \<Rightarrow> int list \<Rightarrow> 'v loop_state \<Rightarrow> 'v loop_state res" where
  "random_phase ops cx stop batch active_ids s =
     (case append_unique ops batch (ls_vectors s, ls_seen s, []) of (vs, seen, new) \<Rightarrow>
        if new = [] then Inr (s\<lparr>ls_vectors := vs, ls_seen := seen\<rparr>)
        else
          let base = length vs - length new
          in bind_res (grade_random ops cx (stop (coverage_denominator (ls_db s) (cx_campaign cx))) active_ids (int base + 1) new 0 (ls_db s)) (\<lambda>(db, graded).
               Inr (on_stats (\<lambda>st. st\<lparr>st_generated_vectors := st_generated_vectors st + int graded,
                      st_accepted_vectors := st_accepted_vectors st + int graded\<rparr>)
                 (s\<lparr>ls_db := db,
                    ls_vectors := (if graded < length new then take (base + graded) vs else vs),
                    ls_seen := (if graded < length new then filter (\<lambda>k. k \<notin> op_key ops ` set (drop graded new)) seen else seen)\<rparr>))))"

section \<open>Rounds\<close>

definition active_ids_of :: "campaign_db \<Rightarrow> int \<Rightarrow> int list" where
  "active_ids_of db campaign_id = map f_id (active_fault_rows db campaign_id)"

text \<open>The end of a round: the verdict is the reason to stop, if there is one.\<close>

definition coverage_reached :: "campaign_db \<Rightarrow> int \<Rightarrow> rat \<Rightarrow> bool" where
  "coverage_reached db campaign_id target =
     (case test_coverage_percent (summary db (Some campaign_id)) of None \<Rightarrow> False | Some (n, d) \<Rightarrow> of_int n / of_int d \<ge> target)"

definition end_round :: "run_ctx \<Rightarrow> rat \<Rightarrow> int \<Rightarrow> int \<times> int \<Rightarrow> 'v round_state \<Rightarrow> 'v loop_state \<times> string option" where
  "end_round cx target round_idx prev_counts rs =
     (let s = rd_loop rs; db = ls_db s; c = cx_campaign cx; active_end = active_ids_of db c;
          s' = s\<lparr>ls_outcomes := record_sat_outcomes c (rd_sat_outcomes rs) round_idx (ls_outcomes s)\<rparr>
      in (s', if active_end = [] then Some ''COMPLETE''
              else if coverage_reached db c target then Some ''THRESHOLD_MET''
              else if should_stall (fault_counts db c) prev_counts (rd_outcomes rs) \<and> \<not> escalation_headroom active_end (ls_timeouts s) (cx_tiers cx)
              then Some ''STALLED'' else None))"

text \<open>Reconvergent faults go last and skip the shortest time limit.\<close>

definition seed_timeouts :: "int list \<Rightarrow> int list \<Rightarrow> 'v loop_state \<Rightarrow> 'v loop_state" where
  "seed_timeouts reconv active_ids s = s\<lparr>ls_timeouts := fold (\<lambda>fid d. if fid \<in> set reconv then dict_set d fid (max 1 (get_or d fid 0)) else d)
     active_ids (ls_timeouts s)\<rparr>"

definition sat_phase ::
  "'v test_ops \<Rightarrow> run_ctx \<Rightarrow> rat \<Rightarrow> int list \<Rightarrow> int \<Rightarrow> int \<times> int \<Rightarrow> 'v loop_state \<Rightarrow> ('v loop_state \<times> string option) res" where
  "sat_phase ops cx target reconv round_idx prev_counts s =
     (let active = active_ids_of (ls_db s) (cx_campaign cx)
      in bind_res (solve_round ops cx (sort_key (\<lambda>fid. fid \<in> set reconv) active) (seed_timeouts reconv active s)) (\<lambda>rs.
         Inr (end_round cx target round_idx prev_counts rs)))"

definition native_round ::
  "atpg_core \<Rightarrow> atpg_cfg \<Rightarrow> string list \<Rightarrow> run_ctx \<Rightarrow> rat \<Rightarrow> int list \<Rightarrow> int \<Rightarrow> vec loop_state \<times> bool \<Rightarrow> ((vec loop_state \<times> bool) \<times> string option) res" where
  "native_round core cfg order cx target reconv round_idx sw =
     (let s = on_stats (\<lambda>st. st\<lparr>st_rounds := round_idx\<rparr>) (fst sw); c = cx_campaign cx; ops = native_ops core order;
          prev_counts = fault_counts (ls_db s) c; active = active_ids_of (ls_db s) c
      in if active = [] then Inr ((s, snd sw), Some ''COMPLETE'')
         else bind_res (if snd sw then Inr s
                else random_phase ops cx (\<lambda>denom db. random_stop_reached db c denom (cf_random_stop cfg)) (co_random core order (cf_random_vectors cfg)) active s) (\<lambda>s1.
              if \<not> snd sw \<and> cf_random_only cfg then Inr ((s1, True), Some ''RANDOM_ONLY'')
              else bind_res (sat_phase ops cx target reconv round_idx prev_counts s1) (\<lambda>(s2, verdict). Inr ((s2, True), verdict))))"

definition transition_round ::
  "atpg_core \<Rightarrow> atpg_cfg \<Rightarrow> string list \<Rightarrow> run_ctx \<Rightarrow> rat \<Rightarrow> int \<Rightarrow> (vec \<times> vec) loop_state \<times> bool \<Rightarrow> (((vec \<times> vec) loop_state \<times> bool) \<times> string option) res" where
  "transition_round core cfg order cx target round_idx sw =
     (let s = on_stats (\<lambda>st. st\<lparr>st_rounds := round_idx\<rparr>) (fst sw); c = cx_campaign cx; ops = transition_ops core order;
          prev_counts = fault_counts (ls_db s) c; active = active_ids_of (ls_db s) c
      in if active = [] then Inr ((s, snd sw), Some ''COMPLETE'')
         else bind_res (random_phase ops cx (\<lambda>denom db. False) (co_random_pairs core order (cf_random_vectors cfg)) active s) (\<lambda>s1.
              if cf_random_only cfg then Inr ((s1, snd sw), Some ''RANDOM_ONLY'')
              else bind_res (sat_phase ops cx target [] round_idx prev_counts s1) (\<lambda>(s2, verdict). Inr ((s2, snd sw), verdict))))"

fun rounds_loop :: "(int \<Rightarrow> 's \<Rightarrow> ('s \<times> string option) res) \<Rightarrow> int list \<Rightarrow> 's \<Rightarrow> ('s \<times> string) res" where
  "rounds_loop body [] s = Inr (s, ''MAX_ROUNDS'')"
| "rounds_loop body (i # is) s = bind_res (body i s) (\<lambda>(s', verdict). case verdict of Some t \<Rightarrow> Inr (s', t) | None \<Rightarrow> rounds_loop body is s')"

section \<open>A run\<close>

definition insert_atpg_run :: "int \<Rightarrow> string \<Rightarrow> campaign_db \<Rightarrow> (campaign_db \<times> int) res" where
  "insert_atpg_run campaign_id source db =
     (if campaign_id \<notin> campaign_keys db then Inl (IntegrityError ''FOREIGN KEY constraint failed'')
      else Inr (db\<lparr>runs := runs db @ [\<lparr>r_id = runs_seq db + 1, r_campaign_id = campaign_id, r_status = ''running'', r_vector_source = source,
             r_vector_count = 0, r_coverage = None, r_terminal_reason = None, r_atpg = replicate 8 0, r_carried = []\<rparr>], runs_seq := runs_seq db + 1\<rparr>,
           runs_seq db + 1))"

definition complete_run_with_atpg :: "int \<Rightarrow> (int \<times> int) \<Rightarrow> string \<Rightarrow> AtpgStats \<Rightarrow> campaign_db \<Rightarrow> campaign_db" where
  "complete_run_with_atpg run_id coverage terminal st db = db\<lparr>runs := map (\<lambda>r. if r_id r = run_id
     then r\<lparr>r_status := ''complete'', r_coverage := Some coverage, r_terminal_reason := (if terminal = [] then None else Some terminal),
       r_atpg := [st_rounds st, st_sat st, st_unsat st, st_timeout st, st_unknown st, st_rejected_candidates st, st_generated_vectors st, st_accepted_vectors st]\<rparr>
     else r) (runs db)\<rparr>"

definition no_atpg_core :: py_exc where
  "no_atpg_core = RunnerError ''C++ extension _faultflow_core is required. Run: cmake --build build -- -j2''"

definition check_limits :: "int \<Rightarrow> rat \<Rightarrow> unit res" where
  "check_limits max_rounds target =
     (if max_rounds < 1 then Inl (RunnerError ''max_rounds must be >= 1'')
      else if \<not> (0 < target \<and> target \<le> 100) then Inl (RunnerError ''target coverage must be in (0, 100]'') else Inr ())"

definition new_stats :: AtpgStats where
  "new_stats = \<lparr>st_rounds = 0, st_sat = 0, st_unsat = 0, st_timeout = 0, st_unknown = 0, st_rejected_candidates = 0,
     st_generated_vectors = 0, st_accepted_vectors = 0, st_no_progress = 0\<rparr>"

definition new_loop :: "campaign_db \<Rightarrow> 'v loop_state" where
  "new_loop db = \<lparr>ls_db = db, ls_outcomes = [], ls_stems = [], ls_vectors = [], ls_seen = [], ls_rejected = [], ls_timeouts = [],
     ls_stats = new_stats, ls_calls = 0, ls_waves = 0\<rparr>"

definition SAT_WAVE_FACTOR :: int where "SAT_WAVE_FACTOR = 8"

definition run_context :: "atpg_core \<Rightarrow> atpg_cfg \<Rightarrow> int \<Rightarrow> int \<Rightarrow> string \<Rightarrow> string \<Rightarrow> int list \<Rightarrow> (int list \<Rightarrow> int list) \<Rightarrow> string \<Rightarrow> run_ctx" where
  "run_context core cfg campaign_id run_id source model tiers dispatch broken =
     \<lparr>cx_campaign = campaign_id, cx_run = run_id, cx_source = source, cx_model = model, cx_tiers = tiers, cx_drop = cf_fault_drop_sat cfg,
      cx_parallel = (1 < cf_workers cfg \<and> co_pool core), cx_wave_size = nat (max (cf_workers cfg) 1 * SAT_WAVE_FACTOR),
      cx_dispatch = dispatch, cx_wave = co_wave core, cx_broken = broken\<rparr>"

definition order_by_cone :: "atpg_core \<Rightarrow> campaign_db \<Rightarrow> int list \<Rightarrow> int list" where
  "order_by_cone core db wave =
     (let rows = List.map_filter (\<lambda>fid. find (\<lambda>f. f_id f = fid) (faults db)) wave; sizes = co_cone_sizes core (map (\<lambda>f. (f_id f, net_index f)) rows)
      in sort_key (\<lambda>fid. get_or sizes fid (2 ^ 30)) wave)"

definition native_dispatch :: "atpg_core \<Rightarrow> atpg_cfg \<Rightarrow> campaign_db \<Rightarrow> int list \<Rightarrow> int list" where
  "native_dispatch core cfg db wave =
     (let ws = (if cf_order_by_cone_size cfg then order_by_cone core db wave else wave)
      in if cf_easy_reserve cfg > 0 \<and> cf_workers cfg \<ge> 4 then interleave_easy_hard ws (cf_workers cfg) (cf_easy_reserve cfg) else ws)"

text \<open>The faults on nets the preflight names, and what it does with them.\<close>

definition faults_on :: "campaign_db \<Rightarrow> int \<Rightarrow> int list \<Rightarrow> int list" where
  "faults_on db campaign_id nets = map f_id (filter (\<lambda>f. f_campaign_id f = campaign_id \<and> f_net_id f \<in> set nets) (faults db))"

definition preflight_phase :: "int \<Rightarrow> string \<Rightarrow> PreflightData option \<Rightarrow> 'v loop_state \<Rightarrow> 'v loop_state \<times> int list" where
  "preflight_phase campaign_id model pre s =
     (case pre of
        None \<Rightarrow> (s, [])
      | Some p \<Rightarrow>
          (s\<lparr>ls_stems := record_reconvergent_stems campaign_id (fanout_yosys_ids p) (ls_stems s),
             ls_db := precertify_redundant (faults_on (ls_db s) campaign_id (redundant_stem_ids p)) model (ls_db s)\<rparr>,
           faults_on (ls_db s) campaign_id (fanout_yosys_ids p)))"

text \<open>What a run returns besides its tests: the database, the counts, the run's key and the reason it ended.\<close>

record 'v run_result =
  rr_state :: "'v loop_state"
  rr_run_id :: int
  rr_terminal :: string

definition finish_run :: "int \<Rightarrow> int \<Rightarrow> 'v loop_state \<Rightarrow> string \<Rightarrow> 'v run_result res" where
  "finish_run campaign_id run_id s terminal =
     (let data = summary (ls_db s) (Some campaign_id)
      in if denominator data = 0 then Inl (RunnerError ''denominator is zero after progressive ATPG'')
         else Inr \<lparr>rr_state = s\<lparr>ls_db := complete_run_with_atpg run_id (case test_coverage_percent data of Some p \<Rightarrow> p | None \<Rightarrow> (0, 1))
                terminal (ls_stats s) (ls_db s)\<rparr>, rr_run_id = run_id, rr_terminal = terminal\<rparr>)"

definition start_run :: "atpg_core \<Rightarrow> int \<Rightarrow> string \<Rightarrow> string \<Rightarrow> campaign_db \<Rightarrow> (campaign_db \<times> int) res" where
  "start_run core campaign_id model source db =
     insert_atpg_run campaign_id source (invalidate_stale_redundant campaign_id model (ensure_faults_enumerated core campaign_id db))"

definition run_progressive_native_atpg ::
  "atpg_core option \<Rightarrow> atpg_cfg \<Rightarrow> string list \<Rightarrow> PreflightData option \<Rightarrow> string \<Rightarrow> int \<Rightarrow> int option \<Rightarrow> rat option \<Rightarrow> string \<Rightarrow> campaign_db \<Rightarrow> vec run_result res" where
  "run_progressive_native_atpg core_opt cfg order pre model campaign_id max_rounds target_coverage source db =
     (case core_opt of
        None \<Rightarrow> Inl no_atpg_core
      | Some core \<Rightarrow>
          (let n = (case max_rounds of Some m \<Rightarrow> m | None \<Rightarrow> cf_max_rounds cfg); target = (case target_coverage of Some t \<Rightarrow> t | None \<Rightarrow> cf_threshold cfg)
           in bind_res (check_limits n target) (\<lambda>_.
              bind_res (start_run core campaign_id model source db) (\<lambda>(db1, run_id).
              bind_res (parse_timeout_schedule (cf_timeout_schedule cfg) (cf_timeout_seconds cfg)) (\<lambda>tiers.
              let cx = run_context core cfg campaign_id run_id source model tiers (native_dispatch core cfg db1)
                    (''parallel SAT worker process died mid-wave (likely out-of-memory). Progress so far is saved; re-run '' @
                     ''with fewer workers (atpg.workers) and/or atpg.incremental_sat=false to cut per-worker memory.'');
                  (s, reconv) = preflight_phase campaign_id model pre (new_loop db1)
              in bind_res (rounds_loop (native_round core cfg order cx target reconv) [1..n] (s, False)) (\<lambda>((s', switched), terminal).
                 finish_run campaign_id run_id s' terminal))))))"

definition run_progressive_transition_atpg ::
  "atpg_core option \<Rightarrow> atpg_cfg \<Rightarrow> string list \<Rightarrow> string \<Rightarrow> int \<Rightarrow> int option \<Rightarrow> rat option \<Rightarrow> string \<Rightarrow> campaign_db \<Rightarrow> (vec \<times> vec) run_result res" where
  "run_progressive_transition_atpg core_opt cfg order model campaign_id max_rounds target_coverage source db =
     (case core_opt of
        None \<Rightarrow> Inl no_atpg_core
      | Some core \<Rightarrow>
          (let n = (case max_rounds of Some m \<Rightarrow> m | None \<Rightarrow> cf_max_rounds cfg); target = (case target_coverage of Some t \<Rightarrow> t | None \<Rightarrow> cf_threshold cfg)
           in bind_res (check_limits n target) (\<lambda>_.
              bind_res (start_run core campaign_id model source db) (\<lambda>(db1, run_id).
              bind_res (parse_timeout_schedule (cf_timeout_schedule cfg) (cf_timeout_seconds cfg)) (\<lambda>tiers.
              let cx = run_context core cfg campaign_id run_id source model tiers (\<lambda>wave. wave)
                    (''parallel SAT worker process died mid-wave (likely out-of-memory). Progress so far is saved; re-run '' @
                     ''with fewer workers (atpg.workers) to cut per-worker memory.'')
              in bind_res (rounds_loop (transition_round core cfg order cx target) [1..n] (new_loop db1, False)) (\<lambda>((s', switched), terminal).
                 finish_run campaign_id run_id s' terminal))))))"

end
