(* ===== verification/Atpg_Loop_Props.thy ===== *)
theory Atpg_Loop_Props
  imports Atpg_Loop Candidates_Props
begin

text \<open>
  What a test generation run leaves behind. The invariant relates the database at the start of the loop, the tests accepted so far
  and the database now; every statement of the loop keeps it, and none of the core's calls raises. The part that
  the two loops share is proved once, in a locale over the operations on a test and the body of a round.
\<close>

section \<open>The invariant\<close>

definition same_fault :: "fault_row \<Rightarrow> fault_row \<Rightarrow> bool" where
  "same_fault f f' = (f_id f' = f_id f \<and> f_campaign_id f' = f_campaign_id f \<and> f_site_key f' = f_site_key f \<and> f_net_id f' = f_net_id f \<and>
     f_compiled_net_index f' = f_compiled_net_index f \<and> f_atpg_compiled_net_index f' = f_atpg_compiled_net_index f \<and>
     f_fault_type f' = f_fault_type f \<and> f_exclusion f' = f_exclusion f \<and> f_collapsed_into f' = f_collapsed_into f)"

text \<open>A fault is as it was, or it was undetected and is now detected by the recorded test, or the solver called it redundant.\<close>

definition fault_ok :: "'v test_ops \<Rightarrow> string \<Rightarrow> 'v list \<Rightarrow> fault_row \<Rightarrow> fault_row \<Rightarrow> bool" where
  "fault_ok ops model tests f f' = (same_fault f f' \<and> (f' = f \<or> f_status f = ''undetected'' \<and>
     (f_status f' = ''detected'' \<and> (\<exists>i < length tests. f_detected_by_vector f' = Some (int i + 1) \<and> op_detects ops (tests ! i) (net_index f) (f_fault_type f)) \<or>
      f_status f' = ''redundant'' \<and> f_redundancy_model_id f' = Some model \<and> (\<exists>n bl t. op_solve ops n (f_id f) bl t = UNSAT))))"

definition test_row :: "'v test_ops \<Rightarrow> run_ctx \<Rightarrow> int \<Rightarrow> nat \<Rightarrow> 'v \<Rightarrow> vector_row" where
  "test_row ops cx seq i test = \<lparr>v_id = seq + 1 + int i, v_campaign_id = cx_campaign cx, v_run_id = cx_run cx, v_source = cx_source cx,
     v_vector_index = int i + 1, v_pattern = op_pattern ops test, v_launch_pattern = launch_at (op_launch ops test) 0\<rparr>"

definition test_rows :: "'v test_ops \<Rightarrow> run_ctx \<Rightarrow> int \<Rightarrow> 'v list \<Rightarrow> vector_row list" where
  "test_rows ops cx seq tests = map (\<lambda>(i, test). test_row ops cx seq i test) (List.enumerate 0 tests)"

definition start_ok :: "run_ctx \<Rightarrow> campaign_db \<Rightarrow> bool" where
  "start_ok cx db = (distinct (map f_id (faults db)) \<and> cx_run cx \<in> run_keys db \<and> cx_campaign cx \<in> campaign_keys db \<and>
     (\<forall>v \<in> set (vectors_table db). v_run_id v \<noteq> cx_run cx) \<and> (\<forall>r \<in> set (runs db). r_id r = cx_run cx \<longrightarrow> r_vector_count r = 0))"

definition db_inv :: "'v test_ops \<Rightarrow> run_ctx \<Rightarrow> campaign_db \<Rightarrow> 'v list \<Rightarrow> campaign_db \<Rightarrow> bool" where
  "db_inv ops cx db0 tests db = (list_all2 (fault_ok ops (cx_model cx) tests) (faults db0) (faults db) \<and> campaigns db = campaigns db0 \<and>
     runs db = map (\<lambda>r. if r_id r = cx_run cx then r\<lparr>r_vector_count := int (length tests)\<rparr> else r) (runs db0) \<and> vectors_table db = vectors_table db0 @ test_rows ops cx (vectors_seq db0) tests \<and>
     vectors_seq db = vectors_seq db0 + int (length tests))"

definition loop_inv :: "'v test_ops \<Rightarrow> run_ctx \<Rightarrow> campaign_db \<Rightarrow> 'v loop_state \<Rightarrow> bool" where
  "loop_inv ops cx db0 s = (db_inv ops cx db0 (ls_vectors s) (ls_db s) \<and> distinct (map (op_key ops) (ls_vectors s)) \<and>
     set (ls_seen s) = op_key ops ` set (ls_vectors s))"

lemma db_inv_keys:
  assumes "db_inv ops cx db0 tests db"
  shows "map f_id (faults db) = map f_id (faults db0)" and "fault_keys db = fault_keys db0" and "run_keys db = run_keys db0" and "campaign_keys db = campaign_keys db0"
proof -
  have "list_all2 (fault_ok ops (cx_model cx) tests) (faults db0) (faults db)" using assms by (simp add: db_inv_def)
  then show ids: "map f_id (faults db) = map f_id (faults db0)" by (induction rule: list_all2_induct) (auto simp: fault_ok_def same_fault_def)
  show "fault_keys db = fault_keys db0" using arg_cong [OF ids, of set] by simp
  have "runs db = map (\<lambda>r. if r_id r = cx_run cx then r\<lparr>r_vector_count := int (length tests)\<rparr> else r) (runs db0)" using assms by (simp add: db_inv_def)
  then have "map r_id (runs db) = map r_id (runs db0)" by (simp add: comp_def if_distrib)
  from arg_cong [OF this, of set] show "run_keys db = run_keys db0" by simp
  show "campaign_keys db = campaign_keys db0" using assms by (simp add: db_inv_def)
qed

lemma fault_ok_more: "fault_ok ops model tests f f' \<Longrightarrow> fault_ok ops model (tests @ us) f f'"
  unfolding fault_ok_def by (metis length_append nth_append trans_less_add1)

lemma test_rows_snoc: "test_rows ops cx seq (tests @ [test]) = test_rows ops cx seq tests @ [test_row ops cx seq (length tests) test]"
  by (simp add: test_rows_def enumerate_append_eq)

section \<open>Changing fault rows\<close>

lemma same_keys: "map g xs = map g ys \<Longrightarrow> g ` set xs = g ` set ys"
  by (metis image_set)

lemma find_fault:
  assumes "f \<in> set (faults db)" and "distinct (map f_id (faults db))"
  shows "find (\<lambda>g. f_id g = f_id f) (faults db) = Some f"
proof -
  obtain g where g: "find (\<lambda>g. f_id g = f_id f) (faults db) = Some g" using assms(1) by (cases "find (\<lambda>g. f_id g = f_id f) (faults db)") (auto simp: find_None_iff)
  then have "g \<in> set (faults db)" "f_id g = f_id f" by (auto simp: find_Some_iff)
  then show ?thesis using g assms by (metis distinct_map inj_onD)
qed

lemma load_fault_row_Inr:
  assumes "distinct (map f_id (faults db))"
  shows "load_fault_row db i = Inr f \<longleftrightarrow> f \<in> set (faults db) \<and> f_id f = i"
proof
  assume "load_fault_row db i = Inr f"
  then show "f \<in> set (faults db) \<and> f_id f = i" by (auto simp: load_fault_row_def lift_option_def find_Some_iff split: option.splits)
next
  assume "f \<in> set (faults db) \<and> f_id f = i"
  then show "load_fault_row db i = Inr f" using find_fault [OF _ assms] by (auto simp: load_fault_row_def lift_option_def)
qed

lemma load_fault_row_total: "i \<in> fault_keys db \<Longrightarrow> distinct (map f_id (faults db)) \<Longrightarrow> \<exists>f. load_fault_row db i = Inr f \<and> f \<in> set (faults db) \<and> f_id f = i"
  using load_fault_row_Inr by blast

lemma load_active_total:
  assumes "set ids \<subseteq> fault_keys db" and d: "distinct (map f_id (faults db))"
  shows "\<exists>rows. load_active_fault_records db ids skip = Inr rows \<and>
    (\<forall>f. f \<in> set rows \<longleftrightarrow> f \<in> set (faults db) \<and> f_id f \<in> set ids \<and> gradable skip f)"
proof -
  have "\<exists>rows. map_res (load_fault_row db) ids = Inr rows \<and> (\<forall>f. f \<in> set rows \<longleftrightarrow> f \<in> set (faults db) \<and> f_id f \<in> set ids)"
    using assms(1)
  proof (induction ids)
    case (Cons i ids)
    obtain f where f: "load_fault_row db i = Inr f" "f \<in> set (faults db)" "f_id f = i" using load_fault_row_total [OF _ d, of i] Cons.prems by auto
    obtain rows where r: "map_res (load_fault_row db) ids = Inr rows" "\<And>f. f \<in> set rows \<longleftrightarrow> f \<in> set (faults db) \<and> f_id f \<in> set ids" using Cons by auto
    have "g = f" if "g \<in> set (faults db)" "f_id g = i" for g using that f d load_fault_row_Inr by (metis sum.inject(2))
    then have "\<And>g. g \<in> set (f # rows) \<longleftrightarrow> g \<in> set (faults db) \<and> f_id g \<in> set (i # ids)" using f(2,3) r(2) by (metis list.set_intros(1) set_ConsD list.set_intros(2))
    then show ?case using f(1) r(1) by (intro exI [of _ "f # rows"]) simp
  qed simp
  then show ?thesis by (auto simp: load_active_fault_records_def)
qed

text \<open>Marking a list of faults, at once.\<close>

definition detect_all :: "int \<Rightarrow> int list \<Rightarrow> campaign_db \<Rightarrow> fault_row list" where
  "detect_all vector_index ids db = map (\<lambda>f. if f_id f \<in> set ids \<and> f_status f = ''undetected''
     then f\<lparr>f_status := ''detected'', f_detected_by_vector := Some vector_index, f_protocol_unresolved := 0\<rparr> else f) (faults db)"

definition same_but_faults :: "campaign_db \<Rightarrow> campaign_db \<Rightarrow> bool" where
  "same_but_faults db db' = (campaigns db' = campaigns db \<and> runs db' = runs db \<and> runs_seq db' = runs_seq db \<and> vectors_table db' = vectors_table db \<and> vectors_seq db' = vectors_seq db)"

lemma mark_faults_detected_total:
  assumes "set ids \<subseteq> fault_keys db" and "c \<in> campaign_keys db" and "r \<in> run_keys db"
  shows "\<exists>db'. mark_faults_detected c r idx ids db = Inr db' \<and> faults db' = detect_all idx ids db \<and> same_but_faults db db'"
  using assms
proof (induction ids arbitrary: db)
  case Nil
  then show ?case by (simp add: mark_faults_detected_def detect_all_def same_but_faults_def)
next
  case (Cons i ids)
  let ?db = "detect_fault idx i db"
  have "map f_id (faults ?db) = map f_id (faults db)" by (simp add: detect_fault_def comp_def if_distrib)
  then have keys: "fault_keys ?db = fault_keys db" "campaign_keys ?db = campaign_keys db" "run_keys ?db = run_keys db"
    by (rule same_keys) (simp_all add: detect_fault_def)
  have "i \<in> fault_keys ?db" "c \<in> campaign_keys ?db" "r \<in> run_keys ?db" using Cons.prems keys by auto
  then have ins: "insert_detection c r idx i ?db = (Inr (), snd (insert_detection c r idx i ?db))" unfolding insert_detection_def by simp
  define db1 where "db1 = snd (insert_detection c r idx i ?db)"
  have db1: "insert_detection c r idx i ?db = (Inr (), db1)" "faults db1 = faults ?db" "same_but_faults ?db db1" "campaign_keys db1 = campaign_keys ?db" "run_keys db1 = run_keys ?db"
    using ins by (auto simp: db1_def insert_detection_def same_but_faults_def)
  then have one: "mark_one_detected c r idx i db = Inr db1" by (simp add: mark_one_detected_def)
  have fk: "fault_keys db1 = fault_keys db" using db1(2) keys(1) by simp
  have "set ids \<subseteq> fault_keys db1" "c \<in> campaign_keys db1" "r \<in> run_keys db1" using Cons.prems db1(4,5) keys fk by auto
  from Cons.IH [OF this] obtain db' where db': "mark_faults_detected c r idx ids db1 = Inr db'" "faults db' = detect_all idx ids db1" "same_but_faults db1 db'" by blast
  have "detect_all idx ids db1 = detect_all idx (i # ids) db" unfolding detect_all_def db1(2) by (auto simp: detect_fault_def)
  moreover have "same_but_faults db db'" using db1(3) db'(3) by (simp add: same_but_faults_def detect_fault_def)
  ultimately show ?case using one db' by (simp add: mark_faults_detected_def)
qed

section \<open>Accepting a test\<close>

lemma fault_ok_detected:
  assumes "fault_ok ops model tests f0 f" and "gradable False f" and "op_detects ops test (net_index f) (f_fault_type f)"
  shows "fault_ok ops model (tests @ [test]) f0 (f\<lparr>f_status := ''detected'', f_detected_by_vector := Some (int (length tests) + 1), f_protocol_unresolved := 0\<rparr>)"
proof -
  have f: "f = f0" using assms(1,2) by (auto simp: fault_ok_def gradable_def)
  then have "f_status f0 = ''undetected''" using assms(2) by (simp add: gradable_def)
  then show ?thesis using assms(3) f by (auto simp: fault_ok_def same_fault_def nth_append intro!: exI [of _ "length tests"])
qed

lemma append_one_test:
  assumes inv: "db_inv ops cx db0 tests db" and start: "start_ok cx db0" and one: "length (op_launch ops test) \<le> 1"
  shows "append_vectors db (cx_campaign cx) (cx_run cx) (cx_source cx) [op_pattern ops test] (int (length tests) + 1) (op_launch ops test) =
    Inr (db\<lparr>vectors_table := vectors_table db @ [test_row ops cx (vectors_seq db0) (length tests) test], vectors_seq := vectors_seq db + 1\<rparr>)"
proof -
  have row: "new_vector_rows (vectors_seq db) (cx_campaign cx) (cx_run cx) (cx_source cx) [op_pattern ops test] (int (length tests) + 1) (op_launch ops test) =
      [test_row ops cx (vectors_seq db0) (length tests) test]" using inv by (simp add: new_vector_rows_def test_row_def db_inv_def)
  have "v_vector_index v \<le> int (length tests)" if "v \<in> set (vectors_table db)" "v_run_id v = cx_run cx" for v
  proof -
    have "v \<in> set (test_rows ops cx (vectors_seq db0) tests)" using that inv start by (auto simp: db_inv_def start_ok_def)
    then show ?thesis by (auto simp: test_rows_def test_row_def in_set_enumerate_eq)
  qed
  then have "\<not> list_ex (\<lambda>v. v_campaign_id v = cx_campaign cx \<and> v_run_id v = cx_run cx \<and> v_vector_index v \<in> v_vector_index ` set [test_row ops cx (vectors_seq db0) (length tests) test]) (vectors_table db)"
    by (force simp: list_ex_iff test_row_def)
  moreover have "op_launch ops test = [] \<or> length (op_launch ops test) = 1" using one by (cases "op_launch ops test") auto
  moreover have "cx_run cx \<in> run_keys db" "cx_campaign cx \<in> campaign_keys db" using start db_inv_keys [OF inv] by (simp_all add: start_ok_def)
  ultimately show ?thesis unfolding append_vectors_def row Let_def by auto
qed

lemma accept_total:
  assumes inv: "db_inv ops cx db0 tests db" and start: "start_ok cx db0" and one: "length (op_launch ops test) \<le> 1" and ids: "set ids \<subseteq> fault_keys db0"
  shows "\<exists>db' det. accept_and_simulate ops cx test ids (int (length tests) + 1) db = Inr (db', det) \<and> db_inv ops cx db0 (tests @ [test]) db' \<and>
    set det \<subseteq> set ids \<and> faults db' = detect_all (int (length tests) + 1) det db"
proof -
  let ?idx = "int (length tests) + 1"
  let ?db = "db\<lparr>vectors_table := vectors_table db @ [test_row ops cx (vectors_seq db0) (length tests) test], vectors_seq := vectors_seq db + 1\<rparr>"
  note keys = db_inv_keys [OF inv]
  have d: "distinct (map f_id (faults ?db))" using start keys(1) by (simp add: start_ok_def)
  have k: "fault_keys ?db = fault_keys db0" "run_keys ?db = run_keys db0" "campaign_keys ?db = campaign_keys db0" using keys by simp_all
  have "\<exists>db2 det. simulate_incremental ops (cx_campaign cx) (cx_run cx) test ids ?idx ?db = Inr (db2, det) \<and> same_but_faults ?db db2 \<and>
      faults db2 = detect_all ?idx det db \<and> set det \<subseteq> set ids \<and>
      (\<forall>f \<in> set (faults db). f_id f \<in> set det \<longrightarrow> gradable False f \<and> op_detects ops test (net_index f) (f_fault_type f))"
  proof (cases "ids = []")
    case True
    then show ?thesis by (simp add: simulate_incremental_def same_but_faults_def detect_all_def)
  next
    case False
    obtain rows where r: "load_active_fault_records ?db ids False = Inr rows" "\<And>f. f \<in> set rows \<longleftrightarrow> f \<in> set (faults ?db) \<and> f_id f \<in> set ids \<and> gradable False f"
      using load_active_total [OF _ d, of ids False] ids k(1) by auto
    let ?det = "map f_id (filter (\<lambda>f. op_detects ops test (net_index f) (f_fault_type f)) rows)"
    have det: "set ?det \<subseteq> fault_keys ?db" "set ?det \<subseteq> set ids" using r(2) by auto
    obtain db2 where db2: "mark_faults_detected (cx_campaign cx) (cx_run cx) ?idx ?det ?db = Inr db2" "faults db2 = detect_all ?idx ?det ?db" "same_but_faults ?db db2"
      using mark_faults_detected_total [OF det(1), of "cx_campaign cx" "cx_run cx" ?idx] start k by (auto simp: start_ok_def)
    have "gradable False f \<and> op_detects ops test (net_index f) (f_fault_type f)" if f: "f \<in> set (faults db)" "f_id f \<in> set ?det" for f
    proof -
      obtain g where g: "g \<in> set rows" "f_id g = f_id f" "op_detects ops test (net_index g) (f_fault_type g)" using f(2) by auto
      then have "g = f" using d f(1) r(2) by (auto simp: distinct_map dest: inj_onD)
      then show ?thesis using g r(2) by simp
    qed
    moreover have "detect_all ?idx ?det ?db = detect_all ?idx ?det db" by (simp add: detect_all_def)
    ultimately show ?thesis using r(1) db2 det(2) False by (auto simp: simulate_incremental_def Let_def)
  qed
  then obtain db2 det where s: "simulate_incremental ops (cx_campaign cx) (cx_run cx) test ids ?idx ?db = Inr (db2, det)" "same_but_faults ?db db2"
    "faults db2 = detect_all ?idx det db" "set det \<subseteq> set ids" "\<And>f. f \<in> set (faults db) \<Longrightarrow> f_id f \<in> set det \<Longrightarrow> gradable False f \<and> op_detects ops test (net_index f) (f_fault_type f)" by blast
  let ?db' = "update_run_vector_count (cx_run cx) ?idx db2"
  have "list_all2 (fault_ok ops (cx_model cx) (tests @ [test])) (faults db0) (detect_all ?idx det db)"
  proof -
    have "list_all2 (fault_ok ops (cx_model cx) tests) (faults db0) (faults db)" using inv by (simp add: db_inv_def)
    then show ?thesis unfolding detect_all_def list_all2_map2
    proof (rule list.rel_mono_strong)
      fix f0 f assume f: "f \<in> set (faults db)" "fault_ok ops (cx_model cx) tests f0 f"
      show "fault_ok ops (cx_model cx) (tests @ [test]) f0 (if f_id f \<in> set det \<and> f_status f = ''undetected''
          then f\<lparr>f_status := ''detected'', f_detected_by_vector := Some ?idx, f_protocol_unresolved := 0\<rparr> else f)"
        using fault_ok_detected [OF f(2)] fault_ok_more [OF f(2)] s(5) [OF f(1)] by simp
    qed
  qed
  moreover have "runs ?db' = map (\<lambda>r. if r_id r = cx_run cx then r\<lparr>r_vector_count := int (length (tests @ [test]))\<rparr> else r) (runs db0)"
    using s(2) inv by (simp add: update_run_vector_count_def same_but_faults_def db_inv_def add.commute)
  ultimately have "db_inv ops cx db0 (tests @ [test]) ?db'"
    using inv s(2,3) unfolding db_inv_def by (simp add: same_but_faults_def test_rows_snoc) (simp add: update_run_vector_count_def)
  moreover have "accept_and_simulate ops cx test ids ?idx db = Inr (?db', det)"
    using append_one_test [OF inv start one] s(1) by (simp add: accept_and_simulate_def)
  moreover have "faults ?db' = detect_all ?idx det db" using s(3) by (simp add: update_run_vector_count_def)
  ultimately show ?thesis using s(4) by blast
qed

section \<open>The random phase\<close>

lemma grade_random_total:
  assumes "db_inv ops cx db0 tests db" and "start_ok cx db0" and "\<And>test. length (op_launch ops test) \<le> 1" and "set ids \<subseteq> fault_keys db0"
  shows "\<exists>db' k. grade_random ops cx stop ids (int (length tests) + 1) new g db = Inr (db', g + k) \<and> k \<le> length new \<and> db_inv ops cx db0 (tests @ take k new) db'"
  using assms(1)
proof (induction new arbitrary: tests db g)
  case Nil
  then show ?case by (intro exI [of _ db] exI [of _ 0]) simp
next
  case (Cons test new)
  obtain db1 det where a: "accept_and_simulate ops cx test ids (int (length tests) + 1) db = Inr (db1, det)" "db_inv ops cx db0 (tests @ [test]) db1"
    using accept_total [OF Cons.prems assms(2,3,4)] by blast
  show ?case
  proof (cases "stop db1")
    case True
    then show ?thesis using a by (intro exI [of _ db1] exI [of _ 1]) simp
  next
    case False
    obtain db' k where r: "grade_random ops cx stop ids (int (length (tests @ [test])) + 1) new (g + 1) db1 = Inr (db', g + 1 + k)" "k \<le> length new"
      "db_inv ops cx db0 ((tests @ [test]) @ take k new) db'" using Cons.IH [OF a(2), of "g + 1"] by blast
    then show ?thesis using a(1) False by (intro exI [of _ db'] exI [of _ "Suc k"]) (simp add: add.commute)
  qed
qed

lemma append_unique_spec:
  assumes "distinct (map (op_key ops) vs)" and "set seen = op_key ops ` set vs"
  shows "\<exists>new seen'. append_unique ops batch (vs, seen, acc) = (vs @ new, seen', acc @ new) \<and> distinct (map (op_key ops) (vs @ new)) \<and> set seen' = op_key ops ` set (vs @ new)"
  using assms
proof (induction batch arbitrary: vs seen acc)
  case Nil
  then show ?case by (auto simp: append_unique_def)
next
  case (Cons test batch)
  show ?case
  proof (cases "op_key ops test \<in> set seen")
    case True
    then show ?thesis using Cons.IH [OF Cons.prems, of acc] by (simp add: append_unique_def)
  next
    case False
    then have "distinct (map (op_key ops) (vs @ [test]))" "set (op_key ops test # seen) = op_key ops ` set (vs @ [test])" using Cons.prems by auto
    from Cons.IH [OF this, of "acc @ [test]"] False show ?thesis by (auto simp: append_unique_def)
  qed
qed

lemma distinct_map_split: "distinct (map h (xs @ ys)) \<Longrightarrow> h ` set xs \<inter> h ` set ys = {} \<and> distinct (map h xs)"
  by simp

lemma random_phase_total:
  assumes inv: "loop_inv ops cx db0 s" and env: "start_ok cx db0" "\<And>test. length (op_launch ops test) \<le> 1" "set ids \<subseteq> fault_keys db0"
  shows "\<exists>s'. random_phase ops cx stop batch ids s = Inr s' \<and> loop_inv ops cx db0 s' \<and> st_rounds (ls_stats s') = st_rounds (ls_stats s) \<and> ls_timeouts s' = ls_timeouts s"
proof -
  have i: "db_inv ops cx db0 (ls_vectors s) (ls_db s)" "distinct (map (op_key ops) (ls_vectors s))" "set (ls_seen s) = op_key ops ` set (ls_vectors s)"
    using inv by (simp_all add: loop_inv_def)
  obtain new seen where u: "append_unique ops batch (ls_vectors s, ls_seen s, []) = (ls_vectors s @ new, seen, new)"
    and k: "distinct (map (op_key ops) (ls_vectors s @ new))" "set seen = op_key ops ` set (ls_vectors s @ new)"
    using append_unique_spec [OF i(2,3), of batch "[]"] by auto
  show ?thesis
  proof (cases "new = []")
    case True
    then show ?thesis using u k i(1) by (simp add: random_phase_def loop_inv_def)
  next
    case False
    obtain db' g where g: "grade_random ops cx (stop (coverage_denominator (ls_db s) (cx_campaign cx))) ids (int (length (ls_vectors s)) + 1) new 0 (ls_db s) = Inr (db', g)"
      "g \<le> length new" "db_inv ops cx db0 (ls_vectors s @ take g new) db'"
      using grade_random_total [OF i(1) env, where new = new and g = 0 and stop = "stop (coverage_denominator (ls_db s) (cx_campaign cx))"] by auto
    have new: "op_key ops ` set (ls_vectors s @ take g new) \<inter> op_key ops ` set (drop g new) = {}" "distinct (map (op_key ops) (ls_vectors s @ take g new))"
      using distinct_map_split [of "op_key ops" "ls_vectors s @ take g new" "drop g new"] k(1) by simp_all
    have "op_key ops ` set (ls_vectors s @ take g new) = set seen - op_key ops ` set (drop g new)"
    proof -
      have "set seen = op_key ops ` set (ls_vectors s @ take g new) \<union> op_key ops ` set (drop g new)"
        using k(2) by (metis append_assoc append_take_drop_id image_Un set_append)
      then show ?thesis using new(1) by blast
    qed
    then show ?thesis using u False g k new(2) by (auto simp: random_phase_def Let_def loop_inv_def on_stats_def)
  qed
qed

section \<open>A round of solving\<close>

definition healthy :: "run_ctx \<Rightarrow> bool" where
  "healthy cx = (\<forall>k. cx_wave cx k \<noteq> Wave_Broken)"

definition gradable_in :: "campaign_db \<Rightarrow> int \<Rightarrow> bool" where
  "gradable_in db fid = (\<exists>f \<in> set (faults db). f_id f = fid \<and> gradable False f)"

definition tried_ok :: "'v loop_state \<Rightarrow> bool" where
  "tried_ok s = (\<forall>fid. 0 \<le> get_or (ls_timeouts s) fid 0)"

definition results_ok :: "'v test_ops \<Rightarrow> (int \<times> 'v solved) list \<Rightarrow> bool" where
  "results_ok ops rs = (\<forall>fid. (fid, UNSAT) \<in> set rs \<longrightarrow> (\<exists>n bl t. op_solve ops n fid bl t = UNSAT))"

definition no_outcome :: "string list \<Rightarrow> bool" where
  "no_outcome ocs = list_all (\<lambda>oc. oc \<in> {''TIMEOUT'', ''UNKNOWN''}) ocs"

text \<open>The round started in \<open>s0\<close>. The faults in \<open>visited\<close> are dealt with, those in \<open>rest\<close> are still to come.\<close>

definition round_inv :: "'v test_ops \<Rightarrow> run_ctx \<Rightarrow> campaign_db \<Rightarrow> 'v loop_state \<Rightarrow> int list \<Rightarrow> int list \<Rightarrow> 'v round_state \<Rightarrow> bool" where
  "round_inv ops cx db0 s0 visited rest rs = (loop_inv ops cx db0 (rd_loop rs) \<and> tried_ok (rd_loop rs) \<and> results_ok ops (rd_results rs) \<and>
     st_rounds (ls_stats (rd_loop rs)) = st_rounds (ls_stats s0) \<and> (\<forall>fid. gradable_in (ls_db (rd_loop rs)) fid \<longrightarrow> gradable_in (ls_db s0) fid) \<and>
     set (rd_remaining rs) \<subseteq> fault_keys db0 \<and> distinct rest \<and> set rest \<subseteq> fault_keys db0 \<and>
     (\<forall>fid \<in> set rest. gradable_in (ls_db (rd_loop rs)) fid \<longleftrightarrow> \<not> cx_drop cx \<or> fid \<in> set (rd_remaining rs)) \<and>
     (\<forall>fid \<in> set visited. gradable_in (ls_db (rd_loop rs)) fid \<longrightarrow> 1 \<le> get_or (ls_timeouts (rd_loop rs)) fid 0 \<or> \<not> no_outcome (rd_outcomes rs)))"

lemma results_ok_answers:
  assumes "results_ok ops rs" and "set as \<subseteq> set (wave_answers ops cx s ids)"
  shows "results_ok ops (dict_update rs as)"
proof -
  have "\<exists>n bl t. op_solve ops n fid bl t = UNSAT" if unsat: "(fid, UNSAT) \<in> set as" for fid
  proof -
    obtain i where "UNSAT = solve_fault_worker ops (ls_calls s + i) (ls_db s) fid (blocked_for s fid) (tier_timeout cx s fid)"
      using subsetD [OF assms(2) unsat] by (auto simp: wave_answers_def)
    from this [symmetric] show ?thesis by (auto simp: solve_fault_worker_def solve_fault_def bind_res_eq_Inr split: sum.splits if_splits)
  qed
  then show ?thesis using assms(1) set_dict_update [of rs as] by (auto simp: results_ok_def)
qed

lemma run_wave_total:
  assumes inv: "round_inv ops cx db0 s0 visited rest rs" and h: "healthy cx"
  shows "\<exists>rs'. run_wave ops cx active rs = Inr rs' \<and> round_inv ops cx db0 s0 visited rest rs' \<and> rd_remaining rs' = rd_remaining rs"
proof -
  let ?s = "rd_loop rs"
  obtain wave pos where w: "build_wave (\<lambda>fid. \<not> cx_drop cx \<or> fid \<in> set (rd_remaining rs)) (cx_wave_size cx) (drop (rd_wave_pos rs) active) (rd_wave_pos rs) = (wave, pos)"
    by fastforce
  let ?ids = "cx_dispatch cx wave"
  let ?done = "\<lambda>as. rs\<lparr>rd_wave_pos := pos, rd_results := dict_update (rd_results rs) as, rd_loop := ?s\<lparr>ls_calls := ls_calls ?s + length ?ids, ls_waves := ls_waves ?s + 1\<rparr>\<rparr>"
  have keep: "round_inv ops cx db0 s0 visited rest (?done as)" if "set as \<subseteq> set (wave_answers ops cx ?s ?ids)" for as
    using inv results_ok_answers [OF _ that] by (simp add: round_inv_def loop_inv_def tried_ok_def)
  have skip: "round_inv ops cx db0 s0 visited rest (rs\<lparr>rd_wave_pos := pos\<rparr>)" using inv by (simp add: round_inv_def)
  show ?thesis
  proof (cases "cx_wave cx (ls_waves ?s)")
    case Wave_Done
    then show ?thesis using keep [of "wave_answers ops cx ?s ?ids"] skip w by (simp add: run_wave_def Let_def)
  next
    case (Wave_Error k)
    then show ?thesis using keep [of "take k (wave_answers ops cx ?s ?ids)"] skip w by (simp add: run_wave_def Let_def set_take_subset)
  qed (use h in \<open>simp add: healthy_def\<close>)
qed

lemma next_answer_total:
  assumes inv: "round_inv ops cx db0 s0 visited (fid # rest) rs" and start: "start_ok cx db0" and rem: "\<not> cx_drop cx \<or> fid \<in> set (rd_remaining rs)"
  shows "\<exists>r rs'. next_answer ops cx fid rs = Inr (r, rs') \<and> round_inv ops cx db0 s0 visited (fid # rest) rs' \<and> rd_remaining rs' = rd_remaining rs \<and>
    (r = UNSAT \<longrightarrow> (\<exists>n bl t. op_solve ops n fid bl t = UNSAT))"
proof (cases "rd_results rs = []")
  case True
  have "db_inv ops cx db0 (ls_vectors (rd_loop rs)) (ls_db (rd_loop rs))" using inv by (simp add: round_inv_def loop_inv_def)
  then have d: "distinct (map f_id (faults (ls_db (rd_loop rs))))" using start db_inv_keys(1) by (metis start_ok_def)
  obtain f where f: "f \<in> set (faults (ls_db (rd_loop rs)))" "f_id f = fid" "gradable False f" using inv rem by (auto simp: round_inv_def gradable_in_def)
  then have "load_fault_row (ls_db (rd_loop rs)) fid = Inr f" using load_fault_row_Inr [OF d] by simp
  then show ?thesis using True f(3) inv by (auto simp: next_answer_def solve_fault_def round_inv_def on_loop_def loop_inv_def tried_ok_def)
next
  case False
  have ok: "results_ok ops (rd_results rs)" using inv by (simp add: round_inv_def)
  have "set (AList.delete fid (rd_results rs)) \<subseteq> set (rd_results rs)" by (auto simp: AList.delete_eq)
  then have "results_ok ops (AList.delete fid (rd_results rs))" using ok by (auto simp: results_ok_def)
  moreover have "\<exists>n bl t. op_solve ops n fid bl t = UNSAT" if "get_or (rd_results rs) fid UNKNOWN = UNSAT"
    using that ok by (auto simp: get_or_def results_ok_def dest: map_of_SomeD split: option.splits)
  ultimately show ?thesis using False inv by (simp add: next_answer_def round_inv_def)
qed

section \<open>What is done with an answer\<close>

text \<open>Changes of the counters keep the invariant.\<close>

lemma round_inv_stats:
  assumes "round_inv ops cx db0 s0 visited rest rs" and "\<And>x. st_rounds (g x) = st_rounds x"
  shows "round_inv ops cx db0 s0 visited rest (on_loop (on_stats g) rs)"
  using assms by (simp add: round_inv_def on_loop_def on_stats_def loop_inv_def tried_ok_def)

lemma reject_keeps:
  assumes "round_inv ops cx db0 s0 visited (fid # rest) rs"
  shows "round_inv ops cx db0 s0 (visited @ [fid]) rest (reject fid key rs)"
  using assms by (simp add: round_inv_def reject_def loop_inv_def tried_ok_def no_outcome_def)

lemma timed_out_keeps:
  assumes inv: "round_inv ops cx db0 s0 visited (fid # rest) rs" and up: "upper \<in> {''TIMEOUT'', ''UNKNOWN''}"
  shows "round_inv ops cx db0 s0 (visited @ [fid]) rest (timed_out fid upper lower rs)"
proof -
  have "0 \<le> get_or (ls_timeouts (rd_loop rs)) x 0" for x using inv by (simp add: round_inv_def tried_ok_def)
  moreover have "no_outcome (rd_outcomes rs @ [upper]) = no_outcome (rd_outcomes rs)" using up by (auto simp: no_outcome_def)
  ultimately show ?thesis using inv by (auto simp: round_inv_def timed_out_def loop_inv_def tried_ok_def)
qed

lemma mark_redundant_keeps:
  assumes inv: "db_inv ops cx db0 tests db" and unsat: "op_solve ops n fid bl t = UNSAT"
  shows "db_inv ops cx db0 tests (mark_fault_redundant fid (cx_model cx) db)"
proof -
  have "list_all2 (fault_ok ops (cx_model cx) tests) (faults db0) (faults db)" using inv by (simp add: db_inv_def)
  then have "list_all2 (fault_ok ops (cx_model cx) tests) (faults db0) (faults (mark_fault_redundant fid (cx_model cx) db))"
    unfolding mark_fault_redundant_def by (simp add: list_all2_map2) (erule list.rel_mono_strong, use unsat in \<open>auto simp: fault_ok_def same_fault_def\<close>)
  then show ?thesis using inv by (simp add: db_inv_def) (simp add: mark_fault_redundant_def)
qed

lemma gradable_in_redundant: "gradable_in (mark_fault_redundant fid model db) x \<longleftrightarrow> gradable_in db x \<and> x \<noteq> fid"
  by (auto simp: gradable_in_def mark_fault_redundant_def gradable_def)

lemma gradable_in_detected: "faults db' = detect_all idx det db \<Longrightarrow> gradable_in db' x \<longleftrightarrow> gradable_in db x \<and> x \<notin> set det"
  by (auto simp: gradable_in_def detect_all_def gradable_def)

lemma redundant_keeps:
  assumes inv: "round_inv ops cx db0 s0 visited (fid # rest) rs" and unsat: "op_solve ops n fid bl t = UNSAT"
  shows "round_inv ops cx db0 s0 (visited @ [fid]) rest (on_loop (\<lambda>s. s\<lparr>ls_db := mark_fault_redundant fid (cx_model cx) (ls_db s)\<rparr>) rs)"
  using inv mark_redundant_keeps [OF _ unsat] by (auto simp: round_inv_def on_loop_def loop_inv_def tried_ok_def gradable_in_redundant)

lemma accept_keeps:
  assumes inv: "round_inv ops cx db0 s0 visited (fid # rest) rs" and start: "start_ok cx db0" and one: "\<And>test. length (op_launch ops test) \<le> 1"
    and new: "op_key ops test \<notin> set (ls_seen (rd_loop rs))"
  shows "\<exists>rs'. accept ops cx fid test rs = Inr rs' \<and> round_inv ops cx db0 s0 (visited @ [fid]) rest rs'"
proof -
  let ?s = "rd_loop rs"
  let ?ids = "if cx_drop cx then sort (rd_remaining rs) else [fid]"
  have l: "db_inv ops cx db0 (ls_vectors ?s) (ls_db ?s)" "distinct (map (op_key ops) (ls_vectors ?s))" "set (ls_seen ?s) = op_key ops ` set (ls_vectors ?s)"
    and ids: "set ?ids \<subseteq> fault_keys db0" using inv by (auto simp: round_inv_def loop_inv_def)
  obtain db' det where a: "accept_and_simulate ops cx test ?ids (int (length (ls_vectors ?s)) + 1) (ls_db ?s) = Inr (db', det)"
    "db_inv ops cx db0 (ls_vectors ?s @ [test]) db'" "set det \<subseteq> set ?ids" "faults db' = detect_all (int (length (ls_vectors ?s)) + 1) det (ls_db ?s)"
    using accept_total [OF l(1) start one ids] by blast
  let ?rs = "rs\<lparr>rd_outcomes := rd_outcomes rs @ [''SAT''], rd_remaining := (if cx_drop cx then filter (\<lambda>fid. fid \<notin> set det) (rd_remaining rs) else rd_remaining rs),
    rd_loop := ?s\<lparr>ls_db := db', ls_vectors := ls_vectors ?s @ [test], ls_seen := op_key ops test # ls_seen ?s,
      ls_stats := (ls_stats ?s)\<lparr>st_accepted_vectors := st_accepted_vectors (ls_stats ?s) + 1\<rparr>\<rparr>\<rparr>"
  have run: "accept ops cx fid test rs = Inr ?rs" using a(1) by (simp add: accept_def Let_def add.commute)
  have "loop_inv ops cx db0 (rd_loop ?rs)" using l(2,3) a(2) new by (auto simp: loop_inv_def)
  moreover have "gradable_in db' x \<longleftrightarrow> \<not> cx_drop cx \<or> x \<in> set (rd_remaining ?rs)" if "x \<in> set rest" for x
    using that inv a(3) by (auto simp: gradable_in_detected [OF a(4)] round_inv_def)
  moreover have "gradable_in (ls_db s0) x" if "gradable_in db' x" for x
    using that inv by (simp add: gradable_in_detected [OF a(4)] round_inv_def)
  ultimately have "round_inv ops cx db0 s0 (visited @ [fid]) rest ?rs" using inv by (auto simp: round_inv_def tried_ok_def no_outcome_def)
  with run show ?thesis by blast
qed

lemma handle_result_total:
  assumes inv: "round_inv ops cx db0 s0 visited (fid # rest) rs" and start: "start_ok cx db0" and one: "\<And>test. length (op_launch ops test) \<le> 1"
    and r: "r = UNSAT \<longrightarrow> (\<exists>n bl t. op_solve ops n fid bl t = UNSAT)"
  shows "\<exists>rs'. handle_result ops cx fid r rs = Inr rs' \<and> round_inv ops cx db0 s0 (visited @ [fid]) rest rs'"
proof (cases r)
  case (SAT test)
  let ?rs = "on_loop (on_stats (\<lambda>st. st\<lparr>st_sat := st_sat st + 1, st_generated_vectors := st_generated_vectors st + 1\<rparr>)) rs"
  have inv1: "round_inv ops cx db0 s0 visited (fid # rest) ?rs" by (rule round_inv_stats [OF inv]) simp
  have seen: "ls_seen (rd_loop ?rs) = ls_seen (rd_loop rs)" by (simp add: on_loop_def on_stats_def)
  have "db_inv ops cx db0 (ls_vectors (rd_loop rs)) (ls_db (rd_loop rs))" "fid \<in> fault_keys db0" using inv by (auto simp: round_inv_def loop_inv_def)
  then obtain f where f: "load_fault_row (ls_db (rd_loop rs)) fid = Inr f"
    using load_fault_row_total [of fid "ls_db (rd_loop rs)"] start db_inv_keys(1,2) by (metis start_ok_def)
  have inv2: "round_inv ops cx db0 s0 visited (fid # rest) (on_loop (on_stats (\<lambda>st. st\<lparr>st_rejected_candidates := st_rejected_candidates st + 1\<rparr>)) ?rs)"
    by (rule round_inv_stats [OF inv1]) simp
  show ?thesis
  proof (cases "op_key ops test \<in> set (ls_seen (rd_loop rs))")
    case True
    then show ?thesis using reject_keeps [OF inv1] SAT by (simp add: handle_result_def Let_def)
  next
    case False
    then show ?thesis using reject_keeps [OF inv2] accept_keeps [OF inv1 start one, of test] seen f SAT by (simp add: handle_result_def Let_def)
  qed
next
  case UNSAT
  then obtain n bl t where u: "op_solve ops n fid bl t = UNSAT" using r by blast
  have "round_inv ops cx db0 s0 (visited @ [fid]) rest (on_loop (on_stats (\<lambda>st. st\<lparr>st_unsat := st_unsat st + 1\<rparr>))
      (on_loop (\<lambda>s. s\<lparr>ls_db := mark_fault_redundant fid (cx_model cx) (ls_db s)\<rparr>) rs))" by (rule round_inv_stats [OF redundant_keeps [OF inv u]]) simp
  then show ?thesis using UNSAT by (simp add: handle_result_def on_loop_def)
next
  case TIMEOUT
  have "round_inv ops cx db0 s0 visited (fid # rest) (on_loop (on_stats (\<lambda>st. st\<lparr>st_timeout := st_timeout st + 1\<rparr>)) rs)" by (rule round_inv_stats [OF inv]) simp
  then show ?thesis using TIMEOUT by (simp add: handle_result_def timed_out_keeps)
next
  case UNKNOWN
  have "round_inv ops cx db0 s0 visited (fid # rest) (on_loop (on_stats (\<lambda>st. st\<lparr>st_unknown := st_unknown st + 1\<rparr>)) rs)" by (rule round_inv_stats [OF inv]) simp
  then show ?thesis using UNKNOWN by (simp add: handle_result_def timed_out_keeps)
qed

section \<open>The faults of a round\<close>

lemma fault_step_total:
  assumes inv: "round_inv ops cx db0 s0 visited (fid # rest) rs" and start: "start_ok cx db0" and one: "\<And>test. length (op_launch ops test) \<le> 1" and h: "healthy cx"
  shows "\<exists>rs'. fault_step ops cx active fid rs = Inr rs' \<and> round_inv ops cx db0 s0 (visited @ [fid]) rest rs'"
proof (cases "cx_drop cx \<and> fid \<notin> set (rd_remaining rs)")
  case True
  then have "round_inv ops cx db0 s0 (visited @ [fid]) rest rs" using inv by (auto simp: round_inv_def)
  then show ?thesis using True by (simp add: fault_step_def)
next
  case False
  obtain rs1 where rs1: "(if cx_parallel cx \<and> \<not> has_key (rd_results rs) fid then run_wave ops cx active rs else Inr rs) = Inr rs1"
    "round_inv ops cx db0 s0 visited (fid # rest) rs1" "rd_remaining rs1 = rd_remaining rs" using run_wave_total [OF inv h, of active] inv
    by (cases "cx_parallel cx \<and> \<not> has_key (rd_results rs) fid") auto
  obtain r rs2 where rs2: "next_answer ops cx fid rs1 = Inr (r, rs2)" "round_inv ops cx db0 s0 visited (fid # rest) rs2"
    "r = UNSAT \<longrightarrow> (\<exists>n bl t. op_solve ops n fid bl t = UNSAT)" using next_answer_total [OF rs1(2) start] False rs1(3) by metis
  obtain rs3 where "handle_result ops cx fid r rs2 = Inr rs3" "round_inv ops cx db0 s0 (visited @ [fid]) rest rs3"
    using handle_result_total [OF rs2(2) start one rs2(3)] by blast
  then show ?thesis using False rs1(1) rs2(1) by (auto simp: fault_step_def)
qed

lemma fault_steps_total:
  assumes "round_inv ops cx db0 s0 visited rest rs" and "start_ok cx db0" "\<And>test. length (op_launch ops test) \<le> 1" "healthy cx"
  shows "\<exists>rs'. fold_res (fault_step ops cx active) rest rs = Inr rs' \<and> round_inv ops cx db0 s0 (visited @ rest) [] rs'"
  using assms(1)
proof (induction rest arbitrary: visited rs)
  case (Cons fid rest)
  obtain rs1 where rs1: "fault_step ops cx active fid rs = Inr rs1" "round_inv ops cx db0 s0 (visited @ [fid]) rest rs1"
    using fault_step_total [OF Cons.prems assms(2,3,4)] by blast
  show ?case using Cons.IH [OF rs1(2)] rs1(1) by simp
qed simp

lemma active_ids_set: "set (active_ids_of db c) = f_id ` {f \<in> set (faults db). active_fault c f}"
  by (simp add: active_ids_of_def active_fault_rows_def)

lemma active_ids_distinct: "distinct (map f_id (faults db)) \<Longrightarrow> distinct (active_ids_of db c)"
  by (simp add: active_ids_of_def active_fault_rows_def distinct_map) (auto intro: inj_on_subset)

lemma active_gradable: "fid \<in> set (active_ids_of db c) \<Longrightarrow> gradable_in db fid"
  by (auto simp: active_ids_set gradable_in_def active_fault_def gradable_def)

text \<open>A fault that is active after the round was active before it: its row has not changed since the run began.\<close>

lemma gradable_unchanged:
  assumes inv: "db_inv ops cx db0 tests db" and d: "distinct (map f_id (faults db0))" and "f \<in> set (faults db)" "f_status f = ''undetected''"
  shows "f \<in> set (faults db0)"
proof -
  have "list_all2 (fault_ok ops (cx_model cx) tests) (faults db0) (faults db)" using inv by (simp add: db_inv_def)
  then obtain f0 where "f0 \<in> set (faults db0)" "fault_ok ops (cx_model cx) tests f0 f" using assms(3) by (metis in_set_conv_nth list_all2_conv_all_nth)
  then show ?thesis using assms(4) by (auto simp: fault_ok_def)
qed

lemma active_before:
  assumes "db_inv ops cx db0 tests db" "db_inv ops cx db0 tests1 db1" and d: "distinct (map f_id (faults db0))"
    and "\<And>x. gradable_in db x \<Longrightarrow> gradable_in db1 x" and "fid \<in> set (active_ids_of db c)"
  shows "fid \<in> set (active_ids_of db1 c)"
proof -
  obtain f where f: "f \<in> set (faults db)" "f_id f = fid" "active_fault c f" using assms(5) by (auto simp: active_ids_set)
  obtain g where g: "g \<in> set (faults db1)" "f_id g = fid" "gradable False g" using assms(4) active_gradable [OF assms(5)] by (auto simp: gradable_in_def)
  have "f \<in> set (faults db0)" "g \<in> set (faults db0)"
    using gradable_unchanged [OF assms(1) d f(1)] gradable_unchanged [OF assms(2) d g(1)] f(3) g(3) by (auto simp: active_fault_def gradable_def)
  then have "g = f" using f(2) g(2) d by (auto simp: distinct_map dest: inj_onD)
  then show ?thesis using g f by (auto simp: active_ids_set)
qed

lemma seed_timeouts_keeps:
  assumes "tried_ok s"
  shows "tried_ok (seed_timeouts reconv ids s)"
proof -
  have "\<forall>x. 0 \<le> get_or (fold (\<lambda>fid d. if fid \<in> set reconv then dict_set d fid (max 1 (get_or d fid 0)) else d) ids (ls_timeouts s)) x (0 :: int)"
    using assms by (intro fold_invariant [where Q = "\<lambda>x. True" and P = "\<lambda>d. \<forall>x. 0 \<le> get_or d x 0"]) (auto simp: tried_ok_def dict_simps)
  then show ?thesis by (simp add: seed_timeouts_def tried_ok_def)
qed

section \<open>The end of a round\<close>

text \<open>What the reason to stop says of the state; without one, faults are left and the target is not reached.\<close>

definition ended :: "run_ctx \<Rightarrow> rat \<Rightarrow> bool \<Rightarrow> 'v loop_state \<Rightarrow> string option \<Rightarrow> bool" where
  "ended cx target random_only s verdict =
     (let active = active_ids_of (ls_db s) (cx_campaign cx); reached = coverage_reached (ls_db s) (cx_campaign cx) target
      in verdict = Some ''COMPLETE'' \<and> active = [] \<or> verdict = Some ''THRESHOLD_MET'' \<and> active \<noteq> [] \<and> reached \<or>
         verdict = Some ''STALLED'' \<and> active \<noteq> [] \<and> \<not> reached \<and> (\<forall>fid \<in> set active. int (length (cx_tiers cx)) \<le> get_or (ls_timeouts s) fid 0) \<or>
         verdict = Some ''RANDOM_ONLY'' \<and> random_only \<or> verdict = None \<and> active \<noteq> [] \<and> \<not> reached)"

definition run_inv :: "'v test_ops \<Rightarrow> run_ctx \<Rightarrow> campaign_db \<Rightarrow> 'v loop_state \<Rightarrow> bool" where
  "run_inv ops cx db0 s = (start_ok cx db0 \<and> healthy cx \<and> loop_inv ops cx db0 s \<and> tried_ok s)"

lemma stalled_exhausted:
  assumes "no_outcome ocs" and "\<not> escalation_headroom active timeouts tiers" and "fid \<in> set active"
    and "1 \<le> get_or timeouts fid 0 \<or> \<not> no_outcome ocs"
  shows "int (length tiers) \<le> get_or timeouts fid 0"
  using assms by (force simp: escalation_headroom_def list_ex_iff)

lemma end_round_ended:
  assumes fin: "round_inv ops cx db0 s0 visited [] rs" and inv: "loop_inv ops cx db0 s0" and d: "distinct (map f_id (faults db0))"
    and all: "set (active_ids_of (ls_db s0) (cx_campaign cx)) \<subseteq> set visited"
  shows "\<exists>s' v. end_round cx target i prev rs = (s', v) \<and> loop_inv ops cx db0 s' \<and> tried_ok s' \<and> ended cx target ro s' v \<and> st_rounds (ls_stats s') = st_rounds (ls_stats s0)"
proof -
  let ?s = "rd_loop rs" and ?c = "cx_campaign cx"
  let ?active = "active_ids_of (ls_db ?s) ?c"
  let ?s' = "?s\<lparr>ls_outcomes := record_sat_outcomes ?c (rd_sat_outcomes rs) i (ls_outcomes ?s)\<rparr>"
  have l: "loop_inv ops cx db0 ?s" "tried_ok ?s" "st_rounds (ls_stats ?s) = st_rounds (ls_stats s0)" using fin by (simp_all add: round_inv_def)
  then have keep: "loop_inv ops cx db0 ?s'" "tried_ok ?s'" by (simp_all add: loop_inv_def tried_ok_def)
  have stall: "int (length (cx_tiers cx)) \<le> get_or (ls_timeouts ?s) fid 0"
    if "should_stall (fault_counts (ls_db ?s) ?c) prev (rd_outcomes rs)" "\<not> escalation_headroom ?active (ls_timeouts ?s) (cx_tiers cx)" "fid \<in> set ?active" for fid
  proof -
    have "no_outcome (rd_outcomes rs)" using that(1) by (auto simp: should_stall_def no_outcome_def split: if_splits)
    moreover have "fid \<in> set (active_ids_of (ls_db s0) ?c)"
      using active_before [of ops cx db0 "ls_vectors ?s" "ls_db ?s" "ls_vectors s0" "ls_db s0" fid ?c] l(1) inv d that(3) fin by (auto simp: loop_inv_def round_inv_def)
    then have "1 \<le> get_or (ls_timeouts ?s) fid 0 \<or> \<not> no_outcome (rd_outcomes rs)" using all fin active_gradable [OF that(3)] by (auto simp: round_inv_def)
    ultimately show ?thesis using stalled_exhausted [OF _ that(2,3)] by blast
  qed
  have "\<exists>v. end_round cx target i prev rs = (?s', v) \<and> ended cx target ro ?s' v"
    using stall by (cases "coverage_reached (ls_db ?s) ?c target") (auto simp: end_round_def ended_def Let_def)
  then show ?thesis using keep l(3) by auto
qed

lemma sat_phase_total:
  assumes inv: "run_inv ops cx db0 s" and one: "\<And>test. length (op_launch ops test) \<le> 1"
  shows "\<exists>s' v. sat_phase ops cx target reconv i prev s = Inr (s', v) \<and> run_inv ops cx db0 s' \<and> ended cx target ro s' v \<and> st_rounds (ls_stats s') = st_rounds (ls_stats s)"
proof -
  let ?active = "active_ids_of (ls_db s) (cx_campaign cx)" and ?s = "seed_timeouts reconv (active_ids_of (ls_db s) (cx_campaign cx)) s"
  let ?ids = "sort_key (\<lambda>fid. fid \<in> set reconv) ?active"
  let ?rs = "\<lparr>rd_loop = ?s, rd_remaining = ?ids, rd_results = [], rd_wave_pos = 0, rd_outcomes = [], rd_sat_outcomes = []\<rparr>"
  have i: "start_ok cx db0" "healthy cx" "loop_inv ops cx db0 s" "tried_ok s" using inv by (simp_all add: run_inv_def)
  have db: "ls_db ?s = ls_db s" "st_rounds (ls_stats ?s) = st_rounds (ls_stats s)" by (simp_all add: seed_timeouts_def)
  have l: "loop_inv ops cx db0 ?s" "tried_ok ?s" using i(3) seed_timeouts_keeps [OF i(4)] by (simp_all add: loop_inv_def seed_timeouts_def)
  have inv0: "db_inv ops cx db0 (ls_vectors s) (ls_db s)" and d0: "distinct (map f_id (faults db0))" using i(1,3) by (simp_all add: loop_inv_def start_ok_def)
  have d: "distinct (map f_id (faults (ls_db s)))" using d0 db_inv_keys(1) [OF inv0] by simp
  have "set ?ids \<subseteq> fault_keys db0" using db_inv_keys(2) [OF inv0] by (auto simp: active_ids_set)
  then have "round_inv ops cx db0 ?s [] ?ids ?rs"
    using l active_ids_distinct [OF d] active_gradable by (auto simp: round_inv_def results_ok_def db)
  from fault_steps_total [OF this i(1) one i(2), of ?ids] obtain rs where rs: "fold_res (fault_step ops cx ?ids) ?ids ?rs = Inr rs" "round_inv ops cx db0 ?s ?ids [] rs" by auto
  obtain s' v where e: "end_round cx target i prev rs = (s', v)" "loop_inv ops cx db0 s'" "tried_ok s'" "ended cx target ro s' v" "st_rounds (ls_stats s') = st_rounds (ls_stats ?s)"
    using end_round_ended [OF rs(2) l(1) d0, of target i prev ro] by (auto simp: db)
  then show ?thesis using rs(1) i(1,2) by (simp add: sat_phase_def solve_round_def run_inv_def db)
qed

section \<open>Rounds\<close>

text \<open>A body that keeps an invariant, numbers its round and only ends for a reason.\<close>

locale bounded_rounds =
  fixes body :: "int \<Rightarrow> 's \<Rightarrow> ('s \<times> string option) res" and ok :: "'s \<Rightarrow> bool" and round_of :: "'s \<Rightarrow> int" and ends :: "'s \<Rightarrow> string option \<Rightarrow> bool"
  assumes body_total: "ok s \<Longrightarrow> \<exists>s' v. body i s = Inr (s', v) \<and> ok s' \<and> round_of s' = i \<and> ends s' v"
begin

lemma rounds_total:
  assumes "ok s" and "a \<le> n"
  shows "\<exists>s' t. rounds_loop body [a..n] s = Inr (s', t) \<and> ok s' \<and> a \<le> round_of s' \<and> round_of s' \<le> n \<and>
    (ends s' (Some t) \<or> t = ''MAX_ROUNDS'' \<and> round_of s' = n \<and> ends s' None)"
  using assms
proof (induction "nat (n - a)" arbitrary: a s)
  case 0
  then have "[a..n] = [a]" by simp
  moreover obtain s' v where "body a s = Inr (s', v)" "ok s'" "round_of s' = a" "ends s' v" using body_total [OF 0(2), of a] by blast
  ultimately show ?case using 0 by (cases v) auto
next
  case (Suc k)
  then have u: "[a..n] = a # [a + 1..n]" by (simp add: upto_rec1)
  obtain s1 v where b: "body a s = Inr (s1, v)" "ok s1" "round_of s1 = a" "ends s1 v" using body_total [OF Suc(3), of a] by blast
  show ?case
  proof (cases v)
    case None
    have "k = nat (n - (a + 1))" "a + 1 \<le> n" using Suc(2) by simp_all
    from Suc(1) [OF this(1) b(2) this(2)] obtain s' t where "rounds_loop body [a + 1..n] s1 = Inr (s', t)" "ok s'" "a + 1 \<le> round_of s'" "round_of s' \<le> n"
      "ends s' (Some t) \<or> t = ''MAX_ROUNDS'' \<and> round_of s' = n \<and> ends s' None" by blast
    then show ?thesis using u b(1) None by (intro exI [of _ s'] exI [of _ t]) simp
  qed (use u b Suc(4) in auto)
qed

end

lemma op_launch_native: "length (op_launch (native_ops core order) test) \<le> 1"
  by (simp add: native_ops_def)

lemma op_launch_transition: "length (op_launch (transition_ops core order) test) \<le> 1"
  by (simp add: transition_ops_def)

lemma random_then_sat:
  assumes inv: "run_inv ops cx db0 s" and one: "\<And>test. length (op_launch ops test) \<le> 1"
  shows "\<exists>s1. random_phase ops cx stop batch (active_ids_of (ls_db s) (cx_campaign cx)) s = Inr s1 \<and> run_inv ops cx db0 s1 \<and> st_rounds (ls_stats s1) = st_rounds (ls_stats s)"
proof -
  have i: "start_ok cx db0" "healthy cx" "loop_inv ops cx db0 s" "tried_ok s" using inv by (simp_all add: run_inv_def)
  then have "db_inv ops cx db0 (ls_vectors s) (ls_db s)" by (simp add: loop_inv_def)
  then have "set (active_ids_of (ls_db s) (cx_campaign cx)) \<subseteq> fault_keys db0" using db_inv_keys(2) by (force simp: active_ids_set)
  from random_phase_total [OF i(3,1) one this, of stop batch] show ?thesis using i by (auto simp: run_inv_def tried_ok_def)
qed

lemma numbered_round: "run_inv ops cx db0 s \<Longrightarrow> run_inv ops cx db0 (on_stats (\<lambda>st. st\<lparr>st_rounds := i\<rparr>) s)"
  by (simp add: run_inv_def on_stats_def loop_inv_def tried_ok_def)

lemma native_round_total:
  assumes "run_inv (native_ops core order) cx db0 (fst sw)"
  shows "\<exists>sw' v. native_round core cfg order cx target reconv i sw = Inr (sw', v) \<and> run_inv (native_ops core order) cx db0 (fst sw') \<and>
    st_rounds (ls_stats (fst sw')) = i \<and> ended cx target (cf_random_only cfg) (fst sw') v"
proof -
  let ?ops = "native_ops core order" and ?s = "on_stats (\<lambda>st. st\<lparr>st_rounds := i\<rparr>) (fst sw)"
  let ?active = "active_ids_of (ls_db ?s) (cx_campaign cx)" and ?stop = "\<lambda>denom db. random_stop_reached db (cx_campaign cx) denom (cf_random_stop cfg)"
  have inv: "run_inv ?ops cx db0 ?s" and n: "st_rounds (ls_stats ?s) = i" using numbered_round [OF assms] by (simp_all add: on_stats_def)
  show ?thesis
  proof (cases "?active = []")
    case True
    then show ?thesis using inv n by (simp add: native_round_def Let_def ended_def)
  next
    case False
    obtain s1 where s1: "(if snd sw then Inr ?s else random_phase ?ops cx ?stop (co_random core order (cf_random_vectors cfg)) ?active ?s) = Inr s1"
      "run_inv ?ops cx db0 s1" "st_rounds (ls_stats s1) = i"
      using random_then_sat [OF inv op_launch_native, of ?stop "co_random core order (cf_random_vectors cfg)"] inv n by (cases "snd sw") auto
    obtain s2 v where s2: "sat_phase ?ops cx target reconv i (fault_counts (ls_db ?s) (cx_campaign cx)) s1 = Inr (s2, v)" "run_inv ?ops cx db0 s2"
      "ended cx target (cf_random_only cfg) s2 v" "st_rounds (ls_stats s2) = i" using sat_phase_total [OF s1(2) op_launch_native] s1(3) by metis
    show ?thesis
    proof (cases "\<not> snd sw \<and> cf_random_only cfg")
      case True
      then show ?thesis using False s1 by (simp add: native_round_def Let_def ended_def)
    next
      case 2: False
      have "native_round core cfg order cx target reconv i sw = Inr ((s2, True), v)"
        unfolding native_round_def Let_def if_not_P [OF False] s1(1) bind_res_Inr if_not_P [OF 2] s2(1) by simp
      then show ?thesis using s2 by simp
    qed
  qed
qed

lemma transition_round_total:
  assumes "run_inv (transition_ops core order) cx db0 (fst sw)"
  shows "\<exists>sw' v. transition_round core cfg order cx target i sw = Inr (sw', v) \<and> run_inv (transition_ops core order) cx db0 (fst sw') \<and>
    st_rounds (ls_stats (fst sw')) = i \<and> ended cx target (cf_random_only cfg) (fst sw') v"
proof -
  let ?ops = "transition_ops core order" and ?s = "on_stats (\<lambda>st. st\<lparr>st_rounds := i\<rparr>) (fst sw)"
  let ?active = "active_ids_of (ls_db ?s) (cx_campaign cx)"
  have inv: "run_inv ?ops cx db0 ?s" and n: "st_rounds (ls_stats ?s) = i" using numbered_round [OF assms] by (simp_all add: on_stats_def)
  show ?thesis
  proof (cases "?active = []")
    case True
    then show ?thesis using inv n by (simp add: transition_round_def Let_def ended_def)
  next
    case False
    obtain s1 where s1: "random_phase ?ops cx (\<lambda>denom db. False) (co_random_pairs core order (cf_random_vectors cfg)) ?active ?s = Inr s1"
      "run_inv ?ops cx db0 s1" "st_rounds (ls_stats s1) = i" using random_then_sat [OF inv op_launch_transition] n by metis
    obtain s2 v where s2: "sat_phase ?ops cx target [] i (fault_counts (ls_db ?s) (cx_campaign cx)) s1 = Inr (s2, v)" "run_inv ?ops cx db0 s2"
      "ended cx target (cf_random_only cfg) s2 v" "st_rounds (ls_stats s2) = i" using sat_phase_total [OF s1(2) op_launch_transition] s1(3) by metis
    show ?thesis
    proof (cases "cf_random_only cfg")
      case True
      then show ?thesis using False s1 by (simp add: transition_round_def Let_def ended_def)
    next
      case 2: False
      then show ?thesis using False s1 s2 by (simp add: transition_round_def Let_def)
    qed
  qed
qed

interpretation native: bounded_rounds "native_round core cfg order cx target reconv" "\<lambda>sw. run_inv (native_ops core order) cx db0 (fst sw)"
    "\<lambda>sw. st_rounds (ls_stats (fst sw))" "\<lambda>sw. ended cx target (cf_random_only cfg) (fst sw)"
  for core cfg order cx target reconv db0
  by unfold_locales (rule native_round_total)

interpretation transition: bounded_rounds "transition_round core cfg order cx target" "\<lambda>sw. run_inv (transition_ops core order) cx db0 (fst sw)"
    "\<lambda>sw. st_rounds (ls_stats (fst sw))" "\<lambda>sw. ended cx target (cf_random_only cfg) (fst sw)"
  for core cfg order cx target db0
  by unfold_locales (rule transition_round_total)

section \<open>A whole run\<close>

text \<open>The faults a run starts from: enumerated if the campaign has none, with redundancies of another model withdrawn.\<close>

definition opened :: "atpg_core \<Rightarrow> int \<Rightarrow> string \<Rightarrow> campaign_db \<Rightarrow> fault_row list" where
  "opened core campaign_id model db = faults (invalidate_stale_redundant campaign_id model (ensure_faults_enumerated core campaign_id db))"

definition run_ready :: "atpg_core \<Rightarrow> int \<Rightarrow> campaign_db \<Rightarrow> bool" where
  "run_ready core campaign_id db = (wf_db db \<and> campaign_id \<in> campaign_keys db \<and> distinct (map f_id (faults (ensure_faults_enumerated core campaign_id db))))"

text \<open>What may become of a fault: the preflight may call a fault on one of its nets redundant too.\<close>

definition outcome_ok :: "'v test_ops \<Rightarrow> string \<Rightarrow> int list \<Rightarrow> 'v list \<Rightarrow> fault_row \<Rightarrow> fault_row \<Rightarrow> bool" where
  "outcome_ok ops model stems tests f f' = (same_fault f f' \<and> (f' = f \<or> f_status f = ''undetected'' \<and>
     (f_status f' = ''detected'' \<and> (\<exists>i < length tests. f_detected_by_vector f' = Some (int i + 1) \<and> op_detects ops (tests ! i) (net_index f) (f_fault_type f)) \<or>
      f_status f' = ''redundant'' \<and> f_redundancy_model_id f' = Some model \<and> ((\<exists>n bl t. op_solve ops n (f_id f) bl t = UNSAT) \<or> f_net_id f \<in> set stems))))"

definition finished_row :: "int \<Rightarrow> string \<Rightarrow> int \<Rightarrow> string \<Rightarrow> AtpgStats \<Rightarrow> campaign_db \<Rightarrow> int \<Rightarrow> run_row" where
  "finished_row campaign_id source run_id terminal st db n = \<lparr>r_id = run_id, r_campaign_id = campaign_id, r_status = ''complete'', r_vector_source = source,
     r_vector_count = n, r_coverage = test_coverage_percent (summary db (Some campaign_id)), r_terminal_reason = Some terminal,
     r_atpg = [st_rounds st, st_sat st, st_unsat st, st_timeout st, st_unknown st, st_rejected_candidates st, st_generated_vectors st, st_accepted_vectors st], r_carried = []\<rparr>"

definition stored_tests :: "'v test_ops \<Rightarrow> int \<Rightarrow> int \<Rightarrow> string \<Rightarrow> 'v list \<Rightarrow> vector_row list \<Rightarrow> bool" where
  "stored_tests ops campaign_id run_id source tests vs = (map v_vector_index vs = [1..int (length tests)] \<and> map v_pattern vs = map (op_pattern ops) tests \<and>
     map v_launch_pattern vs = map (\<lambda>test. launch_at (op_launch ops test) 0) tests \<and>
     (\<forall>v \<in> set vs. v_campaign_id v = campaign_id \<and> v_run_id v = run_id \<and> v_source v = source))"

text \<open>What a run does to the database: each fault has a permitted outcome, the tests are new and stored in order, one row is added to the runs.\<close>

definition atpg_effect :: "'v test_ops \<Rightarrow> string \<Rightarrow> int list \<Rightarrow> fault_row list \<Rightarrow> int \<Rightarrow> string \<Rightarrow> campaign_db \<Rightarrow> 'v run_result \<Rightarrow> bool" where
  "atpg_effect ops model stems rows campaign_id source db res =
     (let s = rr_state res; db' = ls_db s; tests = ls_vectors s
      in list_all2 (outcome_ok ops model stems tests) rows (faults db') \<and> distinct (map (op_key ops) tests) \<and> campaigns db' = campaigns db \<and>
         (\<exists>vs. vectors_table db' = vectors_table db @ vs \<and> stored_tests ops campaign_id (rr_run_id res) source tests vs) \<and>
         runs db' = runs db @ [finished_row campaign_id source (rr_run_id res) (rr_terminal res) (ls_stats s) db' (int (length tests))])"

definition begun :: "'v test_ops \<Rightarrow> run_ctx \<Rightarrow> int list \<Rightarrow> fault_row list \<Rightarrow> campaign_db \<Rightarrow> campaign_db \<Rightarrow> bool" where
  "begun ops cx stems rows db db0 = (list_all2 (outcome_ok ops (cx_model cx) stems []) rows (faults db0) \<and> campaigns db0 = campaigns db \<and>
     vectors_table db0 = vectors_table db \<and> vectors_seq db0 = vectors_seq db \<and> (\<forall>r \<in> set (runs db). r_id r \<noteq> cx_run cx) \<and>
     runs db0 = runs db @ [\<lparr>r_id = cx_run cx, r_campaign_id = cx_campaign cx, r_status = ''running'', r_vector_source = cx_source cx,
       r_vector_count = 0, r_coverage = None, r_terminal_reason = None, r_atpg = replicate 8 0, r_carried = []\<rparr>])"

lemma outcome_then_fault_ok: "outcome_ok ops model stems [] f f0 \<Longrightarrow> fault_ok ops model tests f0 f' \<Longrightarrow> outcome_ok ops model stems tests f f'"
  by (auto simp: outcome_ok_def fault_ok_def same_fault_def net_index_def)

lemma stored_test_rows: "stored_tests ops (cx_campaign cx) (cx_run cx) (cx_source cx) tests (test_rows ops cx seq tests)"
proof (induction tests rule: rev_induct)
  case (snoc test tests)
  have "[1..int (length (tests @ [test]))] = [1..int (length tests)] @ [int (length tests) + 1]" using upto_rec2 [of 1 "int (length tests) + 1"] by (simp add: add.commute)
  then show ?case using snoc unfolding test_rows_snoc stored_tests_def by (simp add: test_row_def)
qed (simp add: test_rows_def stored_tests_def)

lemma summary_faults: "faults db' = faults db \<Longrightarrow> summary db' (Some c) = summary db (Some c)"
  by (simp add: summary_def summary_rows_def)

text \<open>The run can only fail at the end, when every fault that counts is redundant.\<close>

definition no_faults_left :: "'v test_ops \<Rightarrow> int list \<Rightarrow> int \<Rightarrow> fault_row list \<Rightarrow> bool" where
  "no_faults_left ops stems campaign_id rows = (\<forall>f \<in> set rows. f_campaign_id f = campaign_id \<and> eligible_fault f \<longrightarrow>
     f_status f = ''redundant'' \<or> f_net_id f \<in> set stems \<or> (\<exists>n bl t. op_solve ops n (f_id f) bl t = UNSAT))"

lemma zero_denominator:
  assumes "list_all2 (outcome_ok ops model stems tests) rows (faults db)" and "denominator (summary db (Some c)) = 0"
  shows "no_faults_left ops stems c rows"
  unfolding no_faults_left_def
proof (intro ballI impI)
  fix f assume f: "f \<in> set rows" "f_campaign_id f = c \<and> eligible_fault f"
  then obtain f' where f': "f' \<in> set (faults db)" "outcome_ok ops model stems tests f f'" using assms(1) by (metis in_set_conv_nth list_all2_conv_all_nth)
  then have "f_campaign_id f' = c" "eligible_fault f'" using f(2) by (auto simp: outcome_ok_def same_fault_def eligible_fault_def)
  then have "f_status f' = ''redundant''" using assms(2) f'(1) by (auto simp: summary_def summary_rows_def Let_def count_if_def filter_empty_conv)
  then show "f_status f = ''redundant'' \<or> f_net_id f \<in> set stems \<or> (\<exists>n bl t. op_solve ops n (f_id f) bl t = UNSAT)"
    using f'(2) by (auto simp: outcome_ok_def)
qed

lemma finish_run_total:
  assumes inv: "run_inv ops cx db0 s" and b: "begun ops cx stems rows db db0" and t: "t \<noteq> []"
  shows "finish_run (cx_campaign cx) (cx_run cx) s t = Inl (RunnerError ''denominator is zero after progressive ATPG'') \<and> no_faults_left ops stems (cx_campaign cx) rows \<or>
    (\<exists>res. finish_run (cx_campaign cx) (cx_run cx) s t = Inr res \<and> rr_run_id res = cx_run cx \<and> rr_terminal res = t \<and> atpg_effect ops (cx_model cx) stems rows (cx_campaign cx) (cx_source cx) db res \<and>
       faults (ls_db (rr_state res)) = faults (ls_db s) \<and> ls_timeouts (rr_state res) = ls_timeouts s \<and> ls_stats (rr_state res) = ls_stats s)"
proof -
  have l: "db_inv ops cx db0 (ls_vectors s) (ls_db s)" "distinct (map (op_key ops) (ls_vectors s))" using inv by (simp_all add: run_inv_def loop_inv_def)
  have out: "list_all2 (outcome_ok ops (cx_model cx) stems (ls_vectors s)) rows (faults (ls_db s))"
  proof -
    have "list_all2 (outcome_ok ops (cx_model cx) stems []) rows (faults db0)" "list_all2 (fault_ok ops (cx_model cx) (ls_vectors s)) (faults db0) (faults (ls_db s))"
      using b l(1) by (simp_all add: begun_def db_inv_def)
    then show ?thesis by (rule list_all2_trans [rotated]) (rule outcome_then_fault_ok)
  qed
  show ?thesis
  proof (cases "denominator (summary (ls_db s) (Some (cx_campaign cx))) = 0")
    case True
    then show ?thesis using zero_denominator [OF out True] by (simp add: finish_run_def)
  next
    case False
    let ?c = "cx_campaign cx" and ?tests = "ls_vectors s"
    obtain p where p: "test_coverage_percent (summary (ls_db s) (Some ?c)) = Some p" using False by (auto simp: summary_def Let_def percent_def)
    let ?db = "complete_run_with_atpg (cx_run cx) p t (ls_stats s) (ls_db s)"
    let ?res = "\<lparr>rr_state = s\<lparr>ls_db := ?db\<rparr>, rr_run_id = cx_run cx, rr_terminal = t\<rparr>"
    have run: "finish_run ?c (cx_run cx) s t = Inr ?res" using False p by (simp add: finish_run_def Let_def)
    have db: "faults ?db = faults (ls_db s)" "campaigns ?db = campaigns (ls_db s)" "vectors_table ?db = vectors_table (ls_db s)" by (simp_all add: complete_run_with_atpg_def)
    have "list_all2 (outcome_ok ops (cx_model cx) stems ?tests) rows (faults ?db)" using out by (simp add: db)
    moreover have "runs ?db = runs db @ [finished_row ?c (cx_source cx) (cx_run cx) t (ls_stats s) ?db (int (length ?tests))]"
    proof -
      have "map (\<lambda>r. if r_id r = cx_run cx then g r else r) (runs db) = runs db" for g using b by (intro map_idI) (auto simp: begun_def)
      then show ?thesis using b l(1) t p summary_faults [OF db(1)]
        by (simp add: complete_run_with_atpg_def db_inv_def begun_def finished_row_def if_distrib comp_def cong: if_cong)
    qed
    moreover have "vectors_table ?db = vectors_table db @ test_rows ops cx (vectors_seq db) ?tests" "campaigns ?db = campaigns db"
      using b l(1) by (simp_all add: db db_inv_def begun_def)
    ultimately have "atpg_effect ops (cx_model cx) stems rows ?c (cx_source cx) db ?res"
      unfolding atpg_effect_def Let_def using l(2) stored_test_rows [of ops cx ?tests "vectors_seq db"] by (auto intro!: exI [of _ "test_rows ops cx (vectors_seq db) ?tests"])
    then show ?thesis using run db(1) by simp
  qed
qed

text \<open>What the reason a run ended says. A run that stalled has tried every fault that is left with the longest time limit.\<close>

definition verdict_means :: "bool \<Rightarrow> rat \<Rightarrow> int \<Rightarrow> int list \<Rightarrow> int \<Rightarrow> 'v run_result \<Rightarrow> bool" where
  "verdict_means random_only target n tiers campaign_id res =
     (let s = rr_state res; t = rr_terminal res; rounds = st_rounds (ls_stats s);
          active = active_ids_of (ls_db s) campaign_id; reached = coverage_reached (ls_db s) campaign_id target
      in 1 \<le> rounds \<and> rounds \<le> n \<and>
         (t = ''COMPLETE'' \<and> active = [] \<or> t = ''THRESHOLD_MET'' \<and> active \<noteq> [] \<and> reached \<or>
          t = ''STALLED'' \<and> active \<noteq> [] \<and> \<not> reached \<and> (\<forall>fid \<in> set active. int (length tiers) \<le> get_or (ls_timeouts s) fid 0) \<or>
          t = ''RANDOM_ONLY'' \<and> random_only \<or> t = ''MAX_ROUNDS'' \<and> rounds = n \<and> active \<noteq> [] \<and> \<not> reached))"

lemma run_completes:
  assumes inv: "run_inv ops cx db0 s" and b: "begun ops cx stems rows db db0" and n: "1 \<le> st_rounds (ls_stats s)" "st_rounds (ls_stats s) \<le> n"
    and t: "ended cx target ro s (Some t) \<or> t = ''MAX_ROUNDS'' \<and> st_rounds (ls_stats s) = n \<and> ended cx target ro s None"
  shows "finish_run (cx_campaign cx) (cx_run cx) s t = Inl (RunnerError ''denominator is zero after progressive ATPG'') \<and> no_faults_left ops stems (cx_campaign cx) rows \<or>
    (\<exists>res. finish_run (cx_campaign cx) (cx_run cx) s t = Inr res \<and> rr_run_id res = cx_run cx \<and> atpg_effect ops (cx_model cx) stems rows (cx_campaign cx) (cx_source cx) db res \<and>
       verdict_means ro target n (cx_tiers cx) (cx_campaign cx) res)"
proof -
  have ne: "t \<noteq> []" using t by (auto simp: ended_def Let_def)
  have "verdict_means ro target n (cx_tiers cx) (cx_campaign cx) res"
    if r: "rr_terminal res = t" "faults (ls_db (rr_state res)) = faults (ls_db s)" "ls_timeouts (rr_state res) = ls_timeouts s" "ls_stats (rr_state res) = ls_stats s" for res
  proof -
    have "active_ids_of (ls_db (rr_state res)) c = active_ids_of (ls_db s) c" "coverage_reached (ls_db (rr_state res)) c x = coverage_reached (ls_db s) c x" for c x
      using summary_faults [OF r(2)] by (simp_all add: active_ids_of_def active_fault_rows_def coverage_reached_def r(2))
    then show ?thesis using t n r unfolding verdict_means_def ended_def Let_def by auto
  qed
  then show ?thesis using finish_run_total [OF inv b ne] by blast
qed

lemma start_run_total:
  assumes "run_ready core c db"
  shows "\<exists>db1. start_run core c model source db = Inr (db1, runs_seq db + 1) \<and> faults db1 = opened core c model db \<and> distinct (map f_id (faults db1)) \<and> campaigns db1 = campaigns db \<and>
    vectors_table db1 = vectors_table db \<and> vectors_seq db1 = vectors_seq db \<and> runs db1 = runs db @ [\<lparr>r_id = runs_seq db + 1, r_campaign_id = c, r_status = ''running'', r_vector_source = source,
       r_vector_count = 0, r_coverage = None, r_terminal_reason = None, r_atpg = replicate 8 0, r_carried = []\<rparr>]"
proof -
  let ?e = "ensure_faults_enumerated core c db" and ?i = "invalidate_stale_redundant c model (ensure_faults_enumerated core c db)"
  have e: "campaigns ?i = campaigns db" "runs ?i = runs db" "runs_seq ?i = runs_seq db" "vectors_table ?i = vectors_table db" "vectors_seq ?i = vectors_seq db"
    by (simp_all add: ensure_faults_enumerated_def invalidate_stale_redundant_def)
  have "map f_id (faults ?i) = map f_id (faults ?e)" by (simp add: invalidate_stale_redundant_def comp_def if_distrib)
  then have "distinct (map f_id (faults ?i))" using assms by (simp add: run_ready_def)
  then show ?thesis using assms by (simp add: start_run_def insert_atpg_run_def e opened_def run_ready_def)
qed

lemma empty_run_inv:
  assumes "start_ok cx db0" and "healthy cx"
  shows "run_inv ops cx db0 ((new_loop db)\<lparr>ls_stems := stems, ls_db := db0\<rparr>)"
proof -
  have "list_all2 (fault_ok ops (cx_model cx) []) (faults db0) (faults db0)" by (rule list.rel_refl) (simp add: fault_ok_def same_fault_def)
  moreover have "map (\<lambda>r. if r_id r = cx_run cx then r\<lparr>r_vector_count := 0\<rparr> else r) (runs db0) = runs db0"
    using assms(1) by (intro map_idI) (auto simp: start_ok_def)
  ultimately have "db_inv ops cx db0 [] db0" by (simp add: db_inv_def test_rows_def cong: if_cong)
  then show ?thesis using assms by (simp add: run_inv_def loop_inv_def tried_ok_def new_loop_def get_or_def)
qed

text \<open>The preflight only touches faults on the nets it names.\<close>

lemma precertify_outcomes:
  assumes "distinct (map f_id (faults db))"
  shows "list_all2 (outcome_ok ops model stems []) (faults db) (faults (precertify_redundant (faults_on db c stems) model db))"
proof -
  have "f_net_id f \<in> set stems" if f: "f \<in> set (faults db)" "f_id f \<in> set (faults_on db c stems)" for f
  proof -
    obtain g where "g \<in> set (faults db)" "f_id g = f_id f" "f_net_id g \<in> set stems" using f(2) by (auto simp: faults_on_def)
    then show ?thesis using f(1) assms by (auto simp: distinct_map dest: inj_onD)
  qed
  then show ?thesis unfolding precertify_redundant_def by (auto simp: list_all2_map2 outcome_ok_def same_fault_def intro!: list.rel_refl_strong)
qed

definition stems_of :: "PreflightData option \<Rightarrow> int list" where
  "stems_of pre = (case pre of None \<Rightarrow> [] | Some p \<Rightarrow> redundant_stem_ids p)"

lemma run_begins:
  fixes ops :: "'v test_ops"
  assumes ready: "run_ready core c db" and h: "\<And>k. cx_wave cx k \<noteq> Wave_Broken" and cx: "cx_campaign cx = c" "cx_run cx = runs_seq db + 1" "cx_source cx = source" "cx_model cx = model"
  shows "\<exists>db1 s reconv. start_run core c model source db = Inr (db1, runs_seq db + 1) \<and> preflight_phase c model pre (new_loop db1) = (s, reconv) \<and>
    begun ops cx (stems_of pre) (opened core c model db) db (ls_db s) \<and> run_inv ops cx (ls_db s) s"
proof -
  obtain db1 where d: "start_run core c model source db = Inr (db1, runs_seq db + 1)" "faults db1 = opened core c model db" "distinct (map f_id (faults db1))" "campaigns db1 = campaigns db"
    "vectors_table db1 = vectors_table db" "vectors_seq db1 = vectors_seq db" "runs db1 = runs db @ [\<lparr>r_id = runs_seq db + 1, r_campaign_id = c, r_status = ''running'', r_vector_source = source,
       r_vector_count = 0, r_coverage = None, r_terminal_reason = None, r_atpg = replicate 8 0, r_carried = []\<rparr>]"
    using start_run_total [OF ready, of model source] by blast
  define db0 where "db0 = precertify_redundant (faults_on db1 c (stems_of pre)) model db1"
  have out: "list_all2 (outcome_ok ops model (stems_of pre) []) (opened core c model db) (faults db0)"
    using precertify_outcomes [OF d(3), of ops model "stems_of pre" c] by (simp add: db0_def d(2))
  have same: "campaigns db0 = campaigns db" "vectors_table db0 = vectors_table db" "vectors_seq db0 = vectors_seq db" "runs db0 = runs db1" "map f_id (faults db0) = map f_id (faults db1)"
    using d by (simp_all add: db0_def precertify_redundant_def comp_def if_distrib)
  have wf: "wf_db db" "c \<in> campaign_keys db" using ready by (simp_all add: run_ready_def)
  have fresh: "r_id r \<noteq> runs_seq db + 1" if "r \<in> set (runs db)" for r using wf_dbD(1) [OF wf(1) that] by simp
  have b: "begun ops cx (stems_of pre) (opened core c model db) db db0" using out same fresh d(7) cx by (simp add: begun_def)
  have v: "v_run_id v \<noteq> runs_seq db + 1" if "v \<in> set (vectors_table db)" for v using wf_dbD(3) [OF wf(1) that] by simp
  have "start_ok cx db0" unfolding start_ok_def same cx using d(3) wf(2) v by (auto simp: d(7) dest: fresh)
  moreover have "healthy cx" using h by (simp add: healthy_def)
  ultimately have inv: "run_inv ops cx db0 ((new_loop db1)\<lparr>ls_stems := stems, ls_db := db0\<rparr>)" for stems using empty_run_inv by blast
  have "\<exists>stems reconv. preflight_phase c model pre (new_loop db1 :: 'v loop_state) = ((new_loop db1)\<lparr>ls_stems := stems, ls_db := db0\<rparr>, reconv)"
    by (cases pre) (simp_all add: preflight_phase_def db0_def stems_of_def precertify_redundant_def faults_on_def new_loop_def)
  then obtain stems reconv where pf: "preflight_phase c model pre (new_loop db1 :: 'v loop_state) = ((new_loop db1)\<lparr>ls_stems := stems, ls_db := db0\<rparr>, reconv)" by blast
  show ?thesis by (intro exI conjI, rule d(1), rule pf) (use b inv [of stems] in simp_all)
qed

lemma limits_ok: "1 \<le> n \<Longrightarrow> 0 < target \<Longrightarrow> target \<le> 100 \<Longrightarrow> check_limits n target = Inr ()"
  by (simp add: check_limits_def)

lemma native_run:
  assumes ready: "run_ready core c db" and n: "(case max_rounds of Some m \<Rightarrow> m | None \<Rightarrow> cf_max_rounds cfg) = n" "1 \<le> n"
    and target: "(case target_coverage of Some t \<Rightarrow> t | None \<Rightarrow> cf_threshold cfg) = target" "0 < target" "target \<le> 100"
    and tiers: "parse_timeout_schedule (cf_timeout_schedule cfg) (cf_timeout_seconds cfg) = Inr tiers" and pool: "\<And>k. co_wave core k \<noteq> Wave_Broken"
  shows "run_progressive_native_atpg (Some core) cfg order pre model c max_rounds target_coverage source db = Inl (RunnerError ''denominator is zero after progressive ATPG'') \<and>
      no_faults_left (native_ops core order) (stems_of pre) c (opened core c model db) \<or>
    (\<exists>res. run_progressive_native_atpg (Some core) cfg order pre model c max_rounds target_coverage source db = Inr res \<and> rr_run_id res = runs_seq db + 1 \<and>
      atpg_effect (native_ops core order) model (stems_of pre) (opened core c model db) c source db res \<and> verdict_means (cf_random_only cfg) target n tiers c res)"
proof -
  let ?ops = "native_ops core order"
  obtain db1 where d: "start_run core c model source db = Inr (db1, runs_seq db + 1)" using start_run_total [OF ready] by blast
  define cx where "cx = run_context core cfg c (runs_seq db + 1) source model tiers (native_dispatch core cfg db1)
    (''parallel SAT worker process died mid-wave (likely out-of-memory). Progress so far is saved; re-run '' @
     ''with fewer workers (atpg.workers) and/or atpg.incremental_sat=false to cut per-worker memory.'')"
  have cx: "cx_campaign cx = c" "cx_run cx = runs_seq db + 1" "cx_source cx = source" "cx_model cx = model" "cx_tiers cx = tiers" "cx_wave cx k \<noteq> Wave_Broken" for k
    using pool by (simp_all add: cx_def run_context_def)
  obtain s reconv where p: "preflight_phase c model pre (new_loop db1) = (s, reconv)" "begun ?ops cx (stems_of pre) (opened core c model db) db (ls_db s)" "run_inv ?ops cx (ls_db s) s"
    using run_begins [OF ready cx(6,1-4), where ops = ?ops and pre = pre] d by auto
  obtain s' w t where l: "rounds_loop (native_round core cfg order cx target reconv) [1..n] (s, False) = Inr ((s', w), t)" "run_inv ?ops cx (ls_db s) s'"
    "1 \<le> st_rounds (ls_stats s')" "st_rounds (ls_stats s') \<le> n"
    "ended cx target (cf_random_only cfg) s' (Some t) \<or> t = ''MAX_ROUNDS'' \<and> st_rounds (ls_stats s') = n \<and> ended cx target (cf_random_only cfg) s' None"
    using native.rounds_total [of core order cx "ls_db s" "(s, False)" 1 n cfg target reconv] p(3) n(2) by auto
  have "run_progressive_native_atpg (Some core) cfg order pre model c max_rounds target_coverage source db = finish_run c (runs_seq db + 1) s' t"
    unfolding run_progressive_native_atpg_def option.case Let_def n(1) target(1) using limits_ok [OF n(2) target(2,3)] d tiers p(1) l(1) by (simp add: cx_def)
  then show ?thesis using run_completes [OF l(2) p(2) l(3,4,5)] by (simp add: cx)
qed

lemma transition_run:
  assumes ready: "run_ready core c db" and n: "(case max_rounds of Some m \<Rightarrow> m | None \<Rightarrow> cf_max_rounds cfg) = n" "1 \<le> n"
    and target: "(case target_coverage of Some t \<Rightarrow> t | None \<Rightarrow> cf_threshold cfg) = target" "0 < target" "target \<le> 100"
    and tiers: "parse_timeout_schedule (cf_timeout_schedule cfg) (cf_timeout_seconds cfg) = Inr tiers" and pool: "\<And>k. co_wave core k \<noteq> Wave_Broken"
  shows "run_progressive_transition_atpg (Some core) cfg order model c max_rounds target_coverage source db = Inl (RunnerError ''denominator is zero after progressive ATPG'') \<and>
      no_faults_left (transition_ops core order) [] c (opened core c model db) \<or>
    (\<exists>res. run_progressive_transition_atpg (Some core) cfg order model c max_rounds target_coverage source db = Inr res \<and> rr_run_id res = runs_seq db + 1 \<and>
      atpg_effect (transition_ops core order) model [] (opened core c model db) c source db res \<and> verdict_means (cf_random_only cfg) target n tiers c res)"
proof -
  let ?ops = "transition_ops core order"
  define cx where "cx = run_context core cfg c (runs_seq db + 1) source model tiers (\<lambda>wave. wave)
    (''parallel SAT worker process died mid-wave (likely out-of-memory). Progress so far is saved; re-run '' @ ''with fewer workers (atpg.workers) to cut per-worker memory.'')"
  have cx: "cx_campaign cx = c" "cx_run cx = runs_seq db + 1" "cx_source cx = source" "cx_model cx = model" "cx_tiers cx = tiers" "cx_wave cx k \<noteq> Wave_Broken" for k
    using pool by (simp_all add: cx_def run_context_def)
  obtain db1 where d: "start_run core c model source db = Inr (db1, runs_seq db + 1)"
    and p: "begun ?ops cx [] (opened core c model db) db db1" "run_inv ?ops cx db1 (new_loop db1)"
    using run_begins [OF ready cx(6,1-4), where ops = ?ops and pre = None] by (auto simp: preflight_phase_def stems_of_def new_loop_def)
  obtain s' w t where l: "rounds_loop (transition_round core cfg order cx target) [1..n] (new_loop db1, False) = Inr ((s', w), t)" "run_inv ?ops cx db1 s'"
    "1 \<le> st_rounds (ls_stats s')" "st_rounds (ls_stats s') \<le> n"
    "ended cx target (cf_random_only cfg) s' (Some t) \<or> t = ''MAX_ROUNDS'' \<and> st_rounds (ls_stats s') = n \<and> ended cx target (cf_random_only cfg) s' None"
    using transition.rounds_total [of core order cx db1 "(new_loop db1, False)" 1 n cfg target] p(2) n(2) by auto
  have "run_progressive_transition_atpg (Some core) cfg order model c max_rounds target_coverage source db = finish_run c (runs_seq db + 1) s' t"
    unfolding run_progressive_transition_atpg_def option.case Let_def n(1) target(1) using limits_ok [OF n(2) target(2,3)] d tiers l(1) by (simp add: cx_def)
  then show ?thesis using run_completes [OF l(2) p(1) l(3,4,5)] by (simp add: cx)
qed

section \<open>Properties\<close>


text \<open>C9: what a stuck-at run leaves in the database is justified. A fault keeps its row, or it was undetected and is now detected by the
  test its row names, which is one of the tests of this run and detects it in the simulator, or it was undetected and the solver or
  the preflight found it redundant under this model. The tests have different patterns and are stored with this run from index 1 in the
  order they were accepted, and the only new run is the completed one, with the coverage of the final faults.\<close>

theorem native_atpg_sound:
  assumes "run_ready core c db" and "(case max_rounds of Some m \<Rightarrow> m | None \<Rightarrow> cf_max_rounds cfg) = n" "1 \<le> n"
    and "(case target_coverage of Some t \<Rightarrow> t | None \<Rightarrow> cf_threshold cfg) = target" "0 < target" "target \<le> 100"
    and "parse_timeout_schedule (cf_timeout_schedule cfg) (cf_timeout_seconds cfg) = Inr tiers" and "\<And>k. co_wave core k \<noteq> Wave_Broken"
    and "run_progressive_native_atpg (Some core) cfg order pre model c max_rounds target_coverage source db = Inr res"
  shows "atpg_effect (native_ops core order) model (stems_of pre) (opened core c model db) c source db res"
  using native_run [OF assms(1-8), of order pre model source] assms(9) by simp



section \<open>A small run\<close>

text \<open>The first fault has a test, the second has none.\<close>

definition example_core :: atpg_core where
  "example_core = \<lparr>co_faults = [], co_random = (\<lambda>order n. []), co_random_pairs = (\<lambda>order n. []),
     co_solve = (\<lambda>n fid bl t. if fid = 1 then SAT [(''a'', True)] else UNSAT),
     co_solve_pair = (\<lambda>n fid bl t. if fid = 1 then SAT ([(''a'', False)], [(''a'', True)]) else UNSAT),
     co_golden = (\<lambda>v net ft. net = 1), co_golden_pair = (\<lambda>v net ft. net = 1), co_lane = (\<lambda>v net ft. net = 1), co_lane_pair = (\<lambda>v net ft. net = 1),
     co_cone_sizes = (\<lambda>sites. []), co_pool = False, co_wave = (\<lambda>n. Wave_Done)\<rparr>"

definition example_cfg :: atpg_cfg where
  "example_cfg = \<lparr>cf_max_rounds = 3, cf_threshold = 100, cf_random_vectors = 4, cf_random_stop = 90, cf_random_only = False, cf_fault_drop_sat = True,
     cf_order_by_cone_size = False, cf_workers = 1, cf_easy_reserve = 0, cf_timeout_schedule = ''1,2'', cf_timeout_seconds = 10\<rparr>"

lemma example_ready: "run_ready example_core 1 example_db"
  by code_simp

lemma example_tiers: "parse_timeout_schedule (cf_timeout_schedule example_cfg) (cf_timeout_seconds example_cfg) = Inr [1, 2]"
  by code_simp

lemma example_native_run:
  obtains res where "run_progressive_native_atpg (Some example_core) example_cfg [''a''] None ''m'' 1 None None ''atpg'' example_db = Inr res"
    and "rr_terminal res = ''COMPLETE''" and "map f_status (faults (ls_db (rr_state res))) = [''detected'', ''redundant'']"
proof -
  have "(case run_progressive_native_atpg (Some example_core) example_cfg [''a''] None ''m'' 1 None None ''atpg'' example_db of
      Inl e \<Rightarrow> None | Inr res \<Rightarrow> Some (rr_terminal res, map f_status (faults (ls_db (rr_state res))))) = Some (''COMPLETE'', [''detected'', ''redundant''])"
    by code_simp
  then show ?thesis using that by (auto split: sum.splits)
qed

lemma example_limits: "(case None of Some m \<Rightarrow> m | None \<Rightarrow> cf_max_rounds example_cfg) = 3" "(1 :: int) \<le> 3"
    "(case None of Some t \<Rightarrow> t | None \<Rightarrow> cf_threshold example_cfg) = 100" "(0 :: rat) < 100" "(100 :: rat) \<le> 100"
  by (simp_all add: example_cfg_def)

lemma example_pool: "co_wave example_core k \<noteq> Wave_Broken"
  by (simp add: example_core_def)

lemmas example_assms = example_ready example_limits example_tiers example_pool

lemma example_faults_left: "\<not> no_faults_left (native_ops example_core [''a'']) (stems_of None) 1 (opened example_core 1 ''m'' example_db)"
    "\<not> no_faults_left (transition_ops example_core [''a'']) [] 1 (opened example_core 1 ''m'' example_db)"
proof -
  have "\<exists>f \<in> set (opened example_core 1 ''m'' example_db). f_id f = 1 \<and> f_campaign_id f = 1 \<and> eligible_fault f \<and> f_status f = ''undetected''" by code_simp
  then show "\<not> no_faults_left (native_ops example_core [''a'']) (stems_of None) 1 (opened example_core 1 ''m'' example_db)"
    "\<not> no_faults_left (transition_ops example_core [''a'']) [] 1 (opened example_core 1 ''m'' example_db)"
    by (force simp: no_faults_left_def native_ops_def transition_ops_def example_core_def stems_of_def)+
qed


theorem native_atpg_sound_witness:
  "\<exists>res. run_progressive_native_atpg (Some example_core) example_cfg [''a''] None ''m'' 1 None None ''atpg'' example_db = Inr res \<and>
     map f_status (faults (ls_db (rr_state res))) = [''detected'', ''redundant''] \<and>
     atpg_effect (native_ops example_core [''a'']) ''m'' (stems_of None) (opened example_core 1 ''m'' example_db) 1 ''atpg'' example_db res"
proof -
  obtain res where r: "run_progressive_native_atpg (Some example_core) example_cfg [''a''] None ''m'' 1 None None ''atpg'' example_db = Inr res"
    "map f_status (faults (ls_db (rr_state res))) = [''detected'', ''redundant'']" by (rule example_native_run)
  show ?thesis by (intro exI [of _ res] conjI r native_atpg_sound [OF example_assms r(1)])
qed



end
