(* ===== verification/Spec2Isabelle.thy ===== *)
theory Spec2Isabelle
  imports Retarget Scan_Flow Hold_Mux Rule_Check_Props Site_Key Domain_Reach Compaction Atpg_View_Props Candidates_Props
    Wbr_View_Props Aggregate_Props Project_Manifest Soc_Scan Assemble_Props Atpg_Loop_Props
begin

text \<open>
  Verification of faultflow, a flow for scan insertion, test generation and pattern retargeting of digital
  circuits. Netlists are the JSON of Yosys; the Python program rewrites them, plans scan chains, builds the
  view test generation works on, and turns test vectors into scan patterns.

  \<^bold>\<open>How the program is put together.\<close> \<^verbatim>\<open>scan/stitch.py\<close> replaces flip-flops by scan cells and writes a netlist and a
  manifest. \<^verbatim>\<open>scan/checks.py\<close> reads both back and checks the chains. \<^verbatim>\<open>rule_check/\<close> checks a netlist before anything is
  done with it. \<^verbatim>\<open>scan/atpg_view.py\<close> turns the scan netlist into a combinational one in which each flip-flop is a
  pseudo input and a pseudo output; a test vector for that view goes through \<^verbatim>\<open>scan/protocol.py\<close>, which makes shift
  sequences of it. \<^verbatim>\<open>scan/domain_reach.py\<close> and \<^verbatim>\<open>coverage/site_key.py\<close> name and classify fault sites, \<^verbatim>\<open>runner/compaction.py\<close>
  drops tests that detect nothing new, and \<^verbatim>\<open>retarget/\<close> moves block patterns to the chains of a system on chip. Faults,
  candidates and detections live in a database (\<^verbatim>\<open>db/\<close>) that keeps one campaign per kind of test. \<^verbatim>\<open>runner/progressive_atpg.py\<close>
  fills it: it grades random tests, then asks a solver for a test of each fault that is left, in rounds with growing
  time limits, until nothing is left, the target is met or nothing moves.

  A chip made of blocks is a project (\<^verbatim>\<open>project/\<close>). Each block is tested behind its wrapper (INTEST) and the glue between
  wrappers on its own (EXTEST): \<^verbatim>\<open>manifest.py\<close> reads the project, \<^verbatim>\<open>assemble.py\<close> composes the netlist, \<^verbatim>\<open>soc_scan.py\<close> traces its wrapper
  chain, \<^verbatim>\<open>scan/wbr_view.py\<close> replaces the wrapper cells of a view by pseudo ports, and \<^verbatim>\<open>aggregate.py\<close> adds up the campaigns.

  \<^bold>\<open>Theories.\<close>
  \<^item> \<open>Py_Prelude\<close>: JSON values, dictionaries as association lists in insertion order, exceptions as the left side of
    a sum (\<open>res\<close>), and the string operations the source uses.
  \<^item> \<open>Netlist\<close>, \<open>Chain_Lengths\<close>, \<open>Scan_Stitch\<close>, \<open>Hold_Mux\<close>: \<^verbatim>\<open>scan/stitch.py\<close>, from eligibility to the rewritten module. Chain
    lengths partition the flip-flops, respect the bound, and the greedy allocation is optimal; plans are wired
    head to tail; the multiplexer inserted for a clock enable keeps the next state.
  \<^item> \<open>Scan_Reports\<close>: the manifest and text reports. \<open>Scan_Check\<close>: \<^verbatim>\<open>check_scan_structure\<close>; no error means that every chain is a
    real path and the chains hold each cell once. \<open>Scan_Flow\<close>: what the stitcher writes passes the check.
  \<^item> \<open>Scan_Protocol\<close>: shift sequences and cycles, against a pin-level model of a chain.
  \<^item> \<open>Worklist\<close>, \<open>Comb_Cycle\<close>, \<open>Rule_Check\<close>, \<open>Rule_Check_Props\<close>: graph searches with their termination, and the rules.
  \<^item> \<open>Site_Key\<close>, \<open>Domain_Reach\<close>: canonical fault sites, and nets on no launch-to-capture path of one domain.
  \<^item> \<open>Bit_Index\<close>: the incremental index of \<^verbatim>\<open>atpg_view.py\<close>, equal to scanning the whole module. \<open>Atpg_View\<close>: the builder.
    \<open>Atpg_View_Sem\<close>, \<open>Atpg_View_Pass\<close>, \<open>Atpg_View_Props\<close>: consistent valuations of a netlist, and that the view simulates
    the design.
  \<^item> \<open>Campaign_Db\<close>, \<open>Compaction\<close>: the database tables and the three compactions; coverage is kept.
  \<^item> \<open>Candidates\<close>, \<open>Candidates_Props\<close>: opening a campaign, committing candidates, the summary; every reachable database keeps the
    keys of the schema, and a commit is all or nothing.
  \<^item> \<open>Atpg_Schedule\<close>: time limits and the order of a wave (\<^verbatim>\<open>config.py\<close>). \<open>Atpg_Loop\<close>: \<^verbatim>\<open>run_progressive_native_atpg\<close> and
    \<^verbatim>\<open>run_progressive_transition_atpg\<close> with the database calls of the core. \<open>Atpg_Loop_Props\<close>: a run returns whatever the solver
    answers, what it leaves in the database is justified, and the reason it gives is true. What the two loops share is a locale.
  \<^item> \<open>Wbr_View\<close>, \<open>Wbr_View_Props\<close>: fusion of the wrapper; the fused views have the valuations of the core or of the interconnect.
  \<^item> \<open>Project_Manifest\<close>, \<open>Soc_Scan\<close>: the project, and the traced chain against the structural check. \<open>Assemble\<close>, \<open>Assemble_Props\<close>: the
    composed netlist, which has the valuations of the glue and the blocks side by side. \<open>Aggregate\<close>, \<open>Aggregate_Props\<close>: the chip number and its guards.
  \<^item> \<open>Retarget\<close>: access manifests, retargeted patterns, their emission and verification.

  \<^bold>\<open>How code becomes definitions.\<close> A function that mutates a module or a dictionary returns the new one. A raise is a
  value of \<open>py_exc\<close>; exceptions that come from Python itself (a missing key, a wrong type) are branches too. A loop over
  a list is a fold or a recursive function, a worklist loop is a function with a proof that it ends, so no fuel is
  used. Python sets whose order does not matter are lists; where the code sorts, the model sorts. Integers are
  unbounded, as in Python. The one floating-point expression, the ceiling in \<^verbatim>\<open>_chains_per_domain\<close>, is written with integers;
  percentages are kept as fractions. Solver calls are numbered, so that the model does not assume the same answer twice.

  \<^bold>\<open>Parameters.\<close> Files are a function from paths to contents. The C++ simulator appears as the outcome of one lane, or as
  the responses of a chip; the behaviour of library cells in \<open>Atpg_View_Sem\<close> is a parameter. The shuffle of dynamic
  compaction is a parameter, as are hashes, the clock and the operations on paths. For the loops, the solver, both simulators,
  the random generator, the enumeration of faults, the events of the worker pool and the result of the preflight are parameters.

  \<^bold>\<open>Not modelled.\<close> Processes (Yosys, simulators), files written, HTML and terminal output, the command line, TOML and YAML
  syntax, schema migration, the runner that drives all of it and its scan pipeline (\<^verbatim>\<open>scan/detection_pipeline.py\<close>), and the
  C++ core beyond the database calls, compaction and incremental grading.
\<close>

end
